(* ===== verification/Bacula_Prelude.thy ===== *)
theory Bacula_Prelude
  imports Main "HOL-Library.Word" "HOL-Library.Monad_Syntax"
begin

unbundle bit_operations_syntax

text \<open>
  Shared vocabulary of the development: the fixed width integers of
  \<^verbatim>\<open>src/bacula/src/bc_types.h\<close> as machine words, a byte buffer with a
  position (what the C code holds as a \<^verbatim>\<open>uint8_t *\<close> into an allocated
  block), the byte images of words in the memory of a little or a big endian
  host, and the word and list lemmas the component theories use.
  Access outside the buffer is the value \<open>None\<close>.
\<close>

section \<open>Types\<close>

type_synonym u8 = "8 word"
type_synonym u16 = "16 word"
type_synonym u32 = "32 word"
type_synonym u64 = "64 word"

text \<open>The signed C types have the same bits; they are read with \<open>sint\<close>.\<close>

type_synonym i16 = "16 word"
type_synonym i32 = "32 word"
type_synonym i64 = "64 word"

text \<open>A buffer and an offset into it.\<close>

type_synonym cursor = "u8 list \<times> nat"

named_theorems cursor_simps \<open>equations for reading and writing through a cursor\<close>
named_theorems u32_simps \<open>arithmetic of 32 bit words through \<open>unat\<close>\<close>

section \<open>Overwriting a slice of a buffer\<close>

definition buf_write :: "'a list \<Rightarrow> nat \<Rightarrow> 'a list \<Rightarrow> 'a list" where
  "buf_write buf p bs = take p buf @ bs @ drop (p + length bs) buf"

definition buf_slice :: "'a list \<Rightarrow> nat \<Rightarrow> nat \<Rightarrow> 'a list" where
  "buf_slice buf p n = take n (drop p buf)"

lemma length_buf_write [simp]:
  "p + length bs \<le> length buf \<Longrightarrow> length (buf_write buf p bs) = length buf"
  by (simp add: buf_write_def)

lemma length_buf_slice [simp]: "p + n \<le> length buf \<Longrightarrow> length (buf_slice buf p n) = n"
  by (simp add: buf_slice_def)

lemma take_buf_write [simp]:
  "p + length bs \<le> length buf \<Longrightarrow> take (p + length bs) (buf_write buf p bs) = take p buf @ bs"
  by (simp add: buf_write_def)

lemma take_buf_write_before:
  "q \<le> p \<Longrightarrow> p \<le> length buf \<Longrightarrow> take q (buf_write buf p bs) = take q buf"
  by (simp add: buf_write_def min_def)

lemma drop_buf_write:
  "p + length bs \<le> length buf \<Longrightarrow>
   drop (p + length bs) (buf_write buf p bs) = drop (p + length bs) buf"
  by (simp add: buf_write_def)

lemma buf_slice_write [simp]:
  "p + length bs \<le> length buf \<Longrightarrow> buf_slice (buf_write buf p bs) p (length bs) = bs"
  by (simp add: buf_slice_def buf_write_def)

lemma buf_slice_write_n:
  "p + n \<le> length buf \<Longrightarrow> length bs = n \<Longrightarrow> buf_slice (buf_write buf p bs) p n = bs"
  by (auto simp: buf_slice_def buf_write_def)

lemma buf_slice_write_before:
  "q + n \<le> p \<Longrightarrow> p \<le> length buf \<Longrightarrow> buf_slice (buf_write buf p bs) q n = buf_slice buf q n"
  by (auto simp: buf_slice_def buf_write_def min_def take_drop)

lemma buf_slice_write_after:
  assumes "p + length bs \<le> q" "p + length bs \<le> length buf"
  shows "buf_slice (buf_write buf p bs) q n = buf_slice buf q n"
proof -
  have "drop q (buf_write buf p bs) = drop (q - (p + length bs)) (drop (p + length bs) (buf_write buf p bs))"
    using assms by simp
  also have "\<dots> = drop q buf"
    using assms by (subst drop_buf_write) auto
  finally show ?thesis by (simp add: buf_slice_def)
qed

lemma buf_write_write_adjacent:
  assumes "p + length xs + length ys \<le> length buf"
  shows "buf_write (buf_write buf p xs) (p + length xs) ys = buf_write buf p (xs @ ys)"
  using assms by (simp add: buf_write_def ac_simps)

lemma buf_slice_append:
  "buf_slice buf p (m + n) = buf_slice buf p m @ buf_slice buf (p + m) n"
  by (simp add: buf_slice_def take_add add.commute)

lemma buf_slice_append_left [simp]:
  "p + n \<le> length xs \<Longrightarrow> buf_slice (xs @ ys) p n = buf_slice xs p n"
  by (simp add: buf_slice_def)

lemma buf_slice_append_right [simp]:
  "length xs \<le> p \<Longrightarrow> buf_slice (xs @ ys) p n = buf_slice ys (p - length xs) n"
  by (simp add: buf_slice_def)

lemma buf_slice_all [simp]: "length xs = n \<Longrightarrow> buf_slice xs 0 n = xs"
  by (simp add: buf_slice_def)

lemma buf_slice_take: "p + n \<le> m \<Longrightarrow> buf_slice (take m xs) p n = buf_slice xs p n"
  by (simp add: buf_slice_def drop_take min_def)

lemma buf_write_append_left:
  "p + length bs \<le> length xs \<Longrightarrow> buf_write (xs @ ys) p bs = buf_write xs p bs @ ys"
  by (simp add: buf_write_def)

lemma buf_write_append_right:
  "length xs \<le> p \<Longrightarrow> buf_write (xs @ ys) p bs = xs @ buf_write ys (p - length xs) bs"
  by (simp add: buf_write_def)

lemma buf_write_all: "length bs = length xs \<Longrightarrow> buf_write xs 0 bs = bs"
  by (simp add: buf_write_def)

lemma buf_write_empty [simp]: "buf_write buf p [] = buf"
  by (simp add: buf_write_def)

section \<open>Writing and reading through a cursor\<close>

text \<open>\<^verbatim>\<open>memcpy(*ptr, bs, n); *ptr += n\<close> and its converse.\<close>

definition put :: "u8 list \<Rightarrow> cursor \<Rightarrow> cursor option" where
  "put bs c = (let (buf, p) = c in
     if p + length bs \<le> length buf then Some (buf_write buf p bs, p + length bs) else None)"

definition fetch :: "nat \<Rightarrow> cursor \<Rightarrow> (u8 list \<times> cursor) option" where
  "fetch n c = (let (buf, p) = c in
     if p + n \<le> length buf then Some (buf_slice buf p n, (buf, p + n)) else None)"

lemma put_Some_iff:
  "put bs (buf, p) = Some c' \<longleftrightarrow>
   p + length bs \<le> length buf \<and> c' = (buf_write buf p bs, p + length bs)"
  by (auto simp: put_def)

lemma put_ok [cursor_simps]:
  "p + length bs \<le> length buf \<Longrightarrow> put bs (buf, p) = Some (buf_write buf p bs, p + length bs)"
  by (simp add: put_def)

lemma put_Nil: "p \<le> length buf \<Longrightarrow> put [] (buf, p) = Some (buf, p)"
  by (simp add: put_def)

lemma put_put: "put xs c \<bind> put ys = put (xs @ ys) c"
  by (cases c) (auto simp: put_def buf_write_write_adjacent add.assoc)

lemma fetch_ok [cursor_simps]:
  "p + n \<le> length buf \<Longrightarrow> fetch n (buf, p) = Some (buf_slice buf p n, (buf, p + n))"
  by (simp add: fetch_def)

lemma fetch_put:
  assumes "put bs (buf, p) = Some (buf', p')"
  shows "fetch (length bs) (buf', p) = Some (bs, (buf', p'))"
  using assms by (auto simp: put_Some_iff fetch_def)

section \<open>Words in memory\<close>

text \<open>The \<open>n\<close> low order bytes of a word, least significant first, and back.\<close>

definition mem_le :: "nat \<Rightarrow> 'a::len word \<Rightarrow> u8 list" where
  "mem_le n v = map (\<lambda>i. ucast (drop_bit (8 * i) v)) [0..<n]"

fun from_le :: "u8 list \<Rightarrow> 'a::len word" where
  "from_le [] = 0"
| "from_le (b # bs) = (ucast b) OR (push_bit 8 (from_le bs))"

text \<open>The image of a word in the memory of the host.\<close>

definition host_mem :: "bool \<Rightarrow> nat \<Rightarrow> 'a::len word \<Rightarrow> u8 list" where
  "host_mem big n v = (if big then rev (mem_le n v) else mem_le n v)"

definition host_load :: "bool \<Rightarrow> u8 list \<Rightarrow> 'a::len word" where
  "host_load big bs = from_le (if big then rev bs else bs)"

text \<open>Network order: most significant byte first.\<close>

definition be_bytes :: "nat \<Rightarrow> 'a::len word \<Rightarrow> u8 list" where
  "be_bytes n v = rev (mem_le n v)"

definition from_be :: "u8 list \<Rightarrow> 'a::len word" where
  "from_be bs = from_le (rev bs)"

lemma length_mem_le [simp]: "length (mem_le n v) = n"
  by (simp add: mem_le_def)

lemma length_be_bytes [simp]: "length (be_bytes n v) = n"
  by (simp add: be_bytes_def)

lemma length_host_mem [simp]: "length (host_mem big n v) = n"
  by (simp add: host_mem_def)

lemma mem_le_Suc: "mem_le (Suc n) v = ucast v # mem_le n (drop_bit 8 v)"
  by (simp add: mem_le_def upt_conv_Cons drop_bit_drop_bit add.commute
      del: upt_Suc flip: map_Suc_upt)

lemma from_le_mem_le: "from_le (mem_le n v) = take_bit (8 * n) (v :: 'a::len word)"
proof (induction n arbitrary: v)
  case 0
  then show ?case by (simp add: mem_le_def)
next
  case (Suc n)
  have "from_le (mem_le (Suc n) v) =
      (ucast (ucast v :: u8)) OR push_bit 8 (take_bit (8 * n) (drop_bit 8 v))"
    by (simp add: mem_le_Suc Suc)
  also have "\<dots> = take_bit (8 * Suc n) v"
    by (rule bit_word_eqI) (auto simp: bit_simps)
  finally show ?case .
qed

lemma from_le_mem_le_full:
  "LENGTH('a) \<le> 8 * n \<Longrightarrow> from_le (mem_le n v) = (v :: 'a::len word)"
  by (simp add: from_le_mem_le take_bit_word_eq_self)

lemma mem_le_take_bit: "8 * n \<le> m \<Longrightarrow> mem_le n (take_bit m w) = mem_le n w"
  by (auto simp: mem_le_def intro!: bit_word_eqI) (auto simp: bit_simps)

lemma mem_le_from_le_length:
  "8 * length bs \<le> LENGTH('a) \<Longrightarrow> mem_le (length bs) (from_le bs :: 'a::len word) = bs"
proof (induction bs)
  case Nil
  then show ?case by (simp add: mem_le_def)
next
  case (Cons b bs)
  let ?w = "from_le bs :: 'a word"
  have low: "ucast ((ucast b :: 'a word) OR push_bit 8 ?w) = b"
    using Cons.prems by (auto intro!: bit_word_eqI simp: bit_simps)
  have high: "drop_bit 8 ((ucast b :: 'a word) OR push_bit 8 ?w) = take_bit (LENGTH('a) - 8) ?w"
    by (rule bit_word_eqI) (auto simp: bit_simps dest: bit_imp_le_length)
  have "mem_le (length bs) (take_bit (LENGTH('a) - 8) ?w) = bs"
    using Cons by (simp add: mem_le_take_bit)
  then show ?case by (simp only: length_Cons from_le.simps mem_le_Suc low high)
qed

lemma mem_le_from_le:
  "length bs = n \<Longrightarrow> 8 * n \<le> LENGTH('a) \<Longrightarrow> mem_le n (from_le bs :: 'a::len word) = bs"
  using mem_le_from_le_length by blast

lemma be_bytes_from_be:
  "length bs = n \<Longrightarrow> 8 * n \<le> LENGTH('a) \<Longrightarrow> be_bytes n (from_be bs :: 'a::len word) = bs"
  by (simp add: be_bytes_def from_be_def mem_le_from_le)

lemma from_be_be_bytes:
  "LENGTH('a) \<le> 8 * n \<Longrightarrow> from_be (be_bytes n v) = (v :: 'a::len word)"
  by (simp add: from_be_def be_bytes_def from_le_mem_le_full)

lemma be_bytes_inject:
  assumes "be_bytes n v = be_bytes n (w :: 'a::len word)" and "LENGTH('a) \<le> 8 * n"
  shows "v = w"
  using assms from_be_be_bytes by metis

section \<open>Unsigned 32 bit arithmetic\<close>

lemma unat_sub_le [u32_simps]: "b \<le> a \<Longrightarrow> unat (a - b :: u32) = unat a - unat b"
  by (rule unat_sub)

lemma unat_add_lt [u32_simps]:
  "unat a + unat b < 2 ^ 32 \<Longrightarrow> unat (a + b :: u32) = unat a + unat b"
  by (simp add: unat_word_ariths)

lemma unat_of_nat_u32 [u32_simps]: "n < 2 ^ 32 \<Longrightarrow> unat (of_nat n :: u32) = n"
  by (simp add: unat_of_nat)

lemma of_nat_unat_u32 [simp]: "of_nat (unat (w :: u32)) = w"
  by simp

lemma unat_lt_2p32: "unat (w :: u32) < 2 ^ 32"
  using unsigned_less [of w] by simp

lemmas u32_le = word_le_nat_alt
lemmas u32_less = word_less_nat_alt

section \<open>Decimal notation\<close>

text \<open>What \<^verbatim>\<open>sprintf\<close> prints for \<^verbatim>\<open>%d\<close>.\<close>

definition dec_digit :: "nat \<Rightarrow> char" where
  "dec_digit d = char_of (48 + d)"

fun dec_nat :: "nat \<Rightarrow> string" where
  "dec_nat n = (if n < 10 then [dec_digit n] else dec_nat (n div 10) @ [dec_digit (n mod 10)])"

declare dec_nat.simps [simp del]

definition dec_int :: "int \<Rightarrow> string" where
  "dec_int i = (if i < 0 then CHR ''-'' # dec_nat (nat (- i)) else dec_nat (nat i))"

lemma dec_digit_range: "d < 10 \<Longrightarrow> dec_digit d \<in> set ''0123456789''"
proof -
  assume "d < 10"
  moreover have "list_all (\<lambda>d. dec_digit d \<in> set ''0123456789'') [0..<10]" by code_simp
  ultimately show ?thesis by (simp add: list_all_iff)
qed

lemma dec_nat_digits: "set (dec_nat n) \<subseteq> set ''0123456789'' \<and> dec_nat n \<noteq> []"
proof (induction n rule: dec_nat.induct)
  case (1 n)
  show ?case
  proof (cases "n < 10")
    case True
    then show ?thesis using dec_digit_range [of n] by (simp add: dec_nat.simps [of n])
  next
    case False
    then show ?thesis
      using 1 dec_digit_range [of "n mod 10"] by (simp add: dec_nat.simps [of n])
  qed
qed

end
