(* ===== verification/Serial.thy ===== *)
theory Serial
  imports Bacula_Prelude
begin

text \<open>
  The serialisation layer, \<^verbatim>\<open>src/bacula/src/lib/serial.c\<close>: every integer that
  reaches a Volume or another daemon passes through these functions.  A call works
  on a cursor (the buffer and \<^verbatim>\<open>*ptr\<close> as an offset) and is \<open>None\<close> when
  the C code would touch memory outside the buffer.  \<open>big\<close> is the value of
  \<^verbatim>\<open>bigendian()\<close> on the host.  The lemmas show that the bytes written do
  not depend on the host, and the locale \<open>serial_codec\<close> states what the
  block, record and label layers rely on: a fixed width and a round trip.
\<close>

section \<open>Host and network byte order\<close>

text \<open>\<^verbatim>\<open>htons\<close>, \<^verbatim>\<open>htonl\<close> and their inverses swap bytes on a little endian host only.\<close>

definition bswap16 :: "u16 \<Rightarrow> u16" where
  "bswap16 v = from_le (rev (mem_le 2 v))"

definition bswap32 :: "u32 \<Rightarrow> u32" where
  "bswap32 v = from_le (rev (mem_le 4 v))"

definition htons :: "bool \<Rightarrow> u16 \<Rightarrow> u16" where
  "htons big v = (if big then v else bswap16 v)"

definition ntohs :: "bool \<Rightarrow> u16 \<Rightarrow> u16" where
  "ntohs big v = (if big then v else bswap16 v)"

definition htonl :: "bool \<Rightarrow> u32 \<Rightarrow> u32" where
  "htonl big v = (if big then v else bswap32 v)"

definition ntohl :: "bool \<Rightarrow> u32 \<Rightarrow> u32" where
  "ntohl big v = (if big then v else bswap32 v)"

section \<open>Serialise\<close>

definition serial_int16 :: "bool \<Rightarrow> i16 \<Rightarrow> cursor \<Rightarrow> cursor option" where
  "serial_int16 big v c = (let vo = htons big v in put (host_mem big 2 vo) c)"

definition serial_uint16 :: "bool \<Rightarrow> u16 \<Rightarrow> cursor \<Rightarrow> cursor option" where
  "serial_uint16 big v c = (let vo = htons big v in put (host_mem big 2 vo) c)"

definition serial_int32 :: "bool \<Rightarrow> i32 \<Rightarrow> cursor \<Rightarrow> cursor option" where
  "serial_int32 big v c = (let vo = htonl big v in put (host_mem big 4 vo) c)"

definition serial_uint32 :: "bool \<Rightarrow> u32 \<Rightarrow> cursor \<Rightarrow> cursor option" where
  "serial_uint32 big v c = (let vo = htonl big v in put (host_mem big 4 vo) c)"

text \<open>\<^verbatim>\<open>for (i = 0; i < 8; i++) rv[i] = pv[7 - i];\<close>\<close>

definition reverse8 :: "u8 list \<Rightarrow> u8 list" where
  "reverse8 pv = map (\<lambda>i. pv ! (7 - i)) [0..<8]"

definition serial_int64 :: "bool \<Rightarrow> i64 \<Rightarrow> cursor \<Rightarrow> cursor option" where
  "serial_int64 big v c =
     (if big then put (host_mem big 8 v) c else put (reverse8 (host_mem big 8 v)) c)"

definition serial_uint64 :: "bool \<Rightarrow> u64 \<Rightarrow> cursor \<Rightarrow> cursor option" where
  "serial_uint64 big v c =
     (if big then put (host_mem big 8 v) c else put (reverse8 (host_mem big 8 v)) c)"

definition serial_btime :: "bool \<Rightarrow> i64 \<Rightarrow> cursor \<Rightarrow> cursor option" where
  "serial_btime big v c =
     (if big then put (host_mem big 8 v) c else put (reverse8 (host_mem big 8 v)) c)"

text \<open>An IEEE double is its 64 bit pattern: the code only moves its bytes.\<close>

definition serial_float64 :: "bool \<Rightarrow> u64 \<Rightarrow> cursor \<Rightarrow> cursor option" where
  "serial_float64 big v c =
     (if big then put (host_mem big 8 v) c else put (reverse8 (host_mem big 8 v)) c)"

text \<open>
  The copy loop of \<open>serial_string\<close>; \<open>src\<close> is the whole array the pointer
  refers to, so running off its end without a NUL is \<open>None\<close>.
\<close>

fun serial_string :: "u8 list \<Rightarrow> cursor \<Rightarrow> cursor option" where
  "serial_string [] c = None"
| "serial_string (b # src) c =
     (if b \<noteq> 0 then put [b] c \<bind> serial_string src else put [0] c)"

definition serial_skip :: "nat \<Rightarrow> cursor \<Rightarrow> cursor" where
  "serial_skip len c = (fst c, snd c + len)"

section \<open>Unserialise\<close>

definition unserial_int16 :: "bool \<Rightarrow> cursor \<Rightarrow> (i16 \<times> cursor) option" where
  "unserial_int16 big c =
     do { (bs, c') \<leftarrow> fetch 2 c; let vo = host_load big bs; Some (ntohs big vo, c') }"

definition unserial_uint16 :: "bool \<Rightarrow> cursor \<Rightarrow> (u16 \<times> cursor) option" where
  "unserial_uint16 big c =
     do { (bs, c') \<leftarrow> fetch 2 c; let vo = host_load big bs; Some (ntohs big vo, c') }"

definition unserial_int32 :: "bool \<Rightarrow> cursor \<Rightarrow> (i32 \<times> cursor) option" where
  "unserial_int32 big c =
     do { (bs, c') \<leftarrow> fetch 4 c; let vo = host_load big bs; Some (ntohl big vo, c') }"

definition unserial_uint32 :: "bool \<Rightarrow> cursor \<Rightarrow> (u32 \<times> cursor) option" where
  "unserial_uint32 big c =
     do { (bs, c') \<leftarrow> fetch 4 c; let vo = host_load big bs; Some (ntohl big vo, c') }"

definition unserial_int64 :: "bool \<Rightarrow> cursor \<Rightarrow> (i64 \<times> cursor) option" where
  "unserial_int64 big c =
     do { (bs, c') \<leftarrow> fetch 8 c;
          Some (if big then host_load big bs else host_load big (reverse8 bs), c') }"

definition unserial_uint64 :: "bool \<Rightarrow> cursor \<Rightarrow> (u64 \<times> cursor) option" where
  "unserial_uint64 big c =
     do { (bs, c') \<leftarrow> fetch 8 c;
          Some (if big then host_load big bs else host_load big (reverse8 bs), c') }"

definition unserial_btime :: "bool \<Rightarrow> cursor \<Rightarrow> (i64 \<times> cursor) option" where
  "unserial_btime big c =
     do { (bs, c') \<leftarrow> fetch 8 c;
          Some (if big then host_load big bs else host_load big (reverse8 bs), c') }"

definition unserial_float64 :: "bool \<Rightarrow> cursor \<Rightarrow> (u64 \<times> cursor) option" where
  "unserial_float64 big c =
     do { (bs, c') \<leftarrow> fetch 8 c;
          Some (if big then host_load big bs else host_load big (reverse8 bs), c') }"

text \<open>
  \<^verbatim>\<open>for (i=0; i<max && src[i] != 0; i++) dest[i] = src[i];  dest[i++] = 0;
  *ptr += i;\<close>  The loop on \<open>i\<close>, with the destination array made explicit:
  a store at or past its end is \<open>None\<close>.
\<close>

function unserial_string_loop ::
  "nat \<Rightarrow> nat \<Rightarrow> cursor \<Rightarrow> u8 list \<Rightarrow> (u8 list \<times> cursor) option" where
  "unserial_string_loop maxl i c dest =
     (let (buf, p) = c in
      if i < maxl \<and> \<not> p + i < length buf then None
      else if i < maxl \<and> buf ! (p + i) \<noteq> 0 then
        (if i < length dest then unserial_string_loop maxl (Suc i) c (dest[i := buf ! (p + i)])
         else None)
      else if i < length dest then Some (dest[i := 0], (buf, p + Suc i))
      else None)"
  by pat_completeness auto
termination
  by (relation "measure (\<lambda>(maxl, i, c, dest). maxl - i)") auto

declare unserial_string_loop.simps [simp del]

definition unserial_string :: "nat \<Rightarrow> cursor \<Rightarrow> u8 list \<Rightarrow> (u8 list \<times> cursor) option" where
  "unserial_string maxl c dest = unserial_string_loop maxl 0 c dest"

section \<open>The bytes on the medium do not depend on the host\<close>

lemma reverse8_rev: "length xs = 8 \<Longrightarrow> reverse8 xs = rev xs"
  by (auto simp: reverse8_def list_eq_iff_nth_eq rev_nth)

lemma be_bytes_host_independent:
  "host_mem False 2 (htons False v) = be_bytes 2 v"
  "host_mem True 2 (htons True v) = be_bytes 2 v"
  "host_mem False 4 (htonl False w) = be_bytes 4 w"
  "host_mem True 4 (htonl True w) = be_bytes 4 w"
  by (simp_all add: host_mem_def htons_def htonl_def be_bytes_def bswap16_def bswap32_def mem_le_from_le)

lemma from_le_swap:
  "length bs = 2 \<Longrightarrow> ntohs False (from_le bs) = from_be bs"
  "length cs = 4 \<Longrightarrow> ntohl False (from_le cs) = from_be cs"
  by (simp_all add: ntohs_def ntohl_def bswap16_def bswap32_def from_be_def mem_le_from_le)

lemma length_fetch: "fetch n c = Some (bs, c') \<Longrightarrow> length bs = n"
  by (cases c) (auto simp: fetch_def split: if_splits)

lemma host_bytes_16: "host_mem big 2 (htons big v) = be_bytes 2 v"
  by (cases big) (simp_all add: be_bytes_host_independent)

lemma host_bytes_32: "host_mem big 4 (htonl big v) = be_bytes 4 v"
  by (cases big) (simp_all add: be_bytes_host_independent)

lemma host_bytes_64:
  "(if big then put (host_mem big 8 v) c else put (reverse8 (host_mem big 8 v)) c) = put (be_bytes 8 v) c"
  by (simp add: host_mem_def be_bytes_def reverse8_rev)

lemma host_value_16: "length bs = 2 \<Longrightarrow> ntohs big (host_load big bs) = from_be bs"
  by (cases big) (simp_all add: host_load_def from_le_swap, simp_all add: ntohs_def from_be_def)

lemma host_value_32: "length bs = 4 \<Longrightarrow> ntohl big (host_load big bs) = from_be bs"
  by (cases big) (simp_all add: host_load_def from_le_swap, simp_all add: ntohl_def from_be_def)

lemma host_value_64:
  "length bs = 8 \<Longrightarrow>
   (if big then host_load big bs else host_load big (reverse8 bs)) = from_be bs"
  by (simp add: host_load_def from_be_def reverse8_rev)

lemmas serial_put =
  serial_int16_def serial_uint16_def serial_int32_def serial_uint32_def
  serial_int64_def serial_uint64_def serial_btime_def serial_float64_def

lemmas unserial_fetch =
  unserial_int16_def unserial_uint16_def unserial_int32_def unserial_uint32_def
  unserial_int64_def unserial_uint64_def unserial_btime_def unserial_float64_def

lemma map_fetch_cong:
  "(\<And>bs. length bs = n \<Longrightarrow> f bs = g bs) \<Longrightarrow>
   do { (bs, c') \<leftarrow> fetch n c; Some (f bs, c') } = map_option (map_prod g id) (fetch n c)"
  by (cases "fetch n c") (auto dest: length_fetch)

section \<open>What the upper layers rely on\<close>

text \<open>
  A field of fixed width: \<open>enc\<close> gives its bytes, writing it is a \<open>put\<close> of
  those bytes, reading it decodes the next \<open>width\<close> bytes.
\<close>

locale serial_codec =
  fixes ser :: "'a \<Rightarrow> cursor \<Rightarrow> cursor option"
    and unser :: "cursor \<Rightarrow> ('a \<times> cursor) option"
    and enc :: "'a \<Rightarrow> u8 list"
    and dec :: "u8 list \<Rightarrow> 'a"
    and width :: nat
  assumes ser_put: "ser v c = put (enc v) c"
    and unser_dec: "unser c = map_option (map_prod dec id) (fetch width c)"
    and enc_length: "length (enc v) = width"
    and dec_enc: "dec (enc v) = v"
begin

lemma ser_ok:
  "p + width \<le> length buf \<Longrightarrow> ser v (buf, p) = Some (buf_write buf p (enc v), p + width)"
  by (simp add: ser_put put_def enc_length)

lemma ser_overflow: "ser v (buf, p) = None \<longleftrightarrow> length buf < p + width"
  by (auto simp: ser_put put_def enc_length)

lemma ser_frame:
  assumes "ser v (buf, p) = Some (buf', p')"
  shows "take p buf' = take p buf \<and> drop p' buf' = drop p' buf \<and> length buf' = length buf"
  using assms by (auto simp: ser_put put_Some_iff take_buf_write_before drop_buf_write)

lemma unser_slice:
  assumes "p + width \<le> length buf" and "buf_slice buf p width = enc v"
  shows "unser (buf, p) = Some (v, (buf, p + width))"
  using assms by (simp add: unser_dec fetch_def dec_enc)

lemma ser_unser:
  assumes "ser v (buf, p) = Some (buf', p')"
  shows "unser (buf', p) = Some (v, (buf', p'))"
proof -
  from assms have *: "p + width \<le> length buf" "buf' = buf_write buf p (enc v)" "p' = p + width"
    by (auto simp: ser_put put_Some_iff enc_length)
  then show ?thesis
    by (auto intro!: unser_slice simp: buf_slice_write_n enc_length)
qed

lemma unser_overflow: "unser (buf, p) = None \<longleftrightarrow> length buf < p + width"
  by (auto simp: unser_dec fetch_def)

end

text \<open>Big endian machine words are such fields.\<close>

locale word_codec =
  fixes ser :: "'w::len word \<Rightarrow> cursor \<Rightarrow> cursor option"
    and unser :: "cursor \<Rightarrow> ('w word \<times> cursor) option"
    and width :: nat
  assumes ser_be: "ser v c = put (be_bytes width v) c"
    and unser_be: "unser c = map_option (map_prod from_be id) (fetch width c)"
    and word_width: "LENGTH('w) = 8 * width"

sublocale word_codec < serial_codec ser unser "be_bytes width" from_be width
  by unfold_locales (simp_all add: ser_be unser_be word_width from_be_be_bytes)

interpretation int16: word_codec "serial_int16 big" "unserial_int16 big" 2 for big
  by unfold_locales (simp_all add: serial_put unserial_fetch host_bytes_16 host_value_16 map_fetch_cong)

interpretation uint16: word_codec "serial_uint16 big" "unserial_uint16 big" 2 for big
  by unfold_locales (simp_all add: serial_put unserial_fetch host_bytes_16 host_value_16 map_fetch_cong)

interpretation int32: word_codec "serial_int32 big" "unserial_int32 big" 4 for big
  by unfold_locales (simp_all add: serial_put unserial_fetch host_bytes_32 host_value_32 map_fetch_cong)

interpretation uint32: word_codec "serial_uint32 big" "unserial_uint32 big" 4 for big
  by unfold_locales (simp_all add: serial_put unserial_fetch host_bytes_32 host_value_32 map_fetch_cong)

interpretation int64: word_codec "serial_int64 big" "unserial_int64 big" 8 for big
  by unfold_locales
    (simp_all add: serial_put unserial_fetch host_bytes_64 map_fetch_cong [OF host_value_64])

interpretation uint64: word_codec "serial_uint64 big" "unserial_uint64 big" 8 for big
  by unfold_locales
    (simp_all add: serial_put unserial_fetch host_bytes_64 map_fetch_cong [OF host_value_64])

interpretation btime: word_codec "serial_btime big" "unserial_btime big" 8 for big
  by unfold_locales
    (simp_all add: serial_put unserial_fetch host_bytes_64 map_fetch_cong [OF host_value_64])

interpretation float64: word_codec "serial_float64 big" "unserial_float64 big" 8 for big
  by unfold_locales
    (simp_all add: serial_put unserial_fetch host_bytes_64 map_fetch_cong [OF host_value_64])

section \<open>Strings\<close>

lemma serial_string_put:
  "0 \<notin> set s \<Longrightarrow> serial_string (s @ 0 # junk) c = put (s @ [0]) c"
proof (induction s arbitrary: c)
  case Nil
  then show ?case by simp
next
  case (Cons b s)
  then have "serial_string ((b # s) @ 0 # junk) c = put [b] c \<bind> put (s @ [0])"
    by (cases "put [b] c") auto
  then show ?case by (simp add: put_put)
qed

lemma unserial_string_loop_copies:
  assumes "0 \<notin> set s" and "i + length s \<le> maxl" and "i + length s < length dest"
    and "buf_slice buf (p + i) (length s) = s"
    and "i + length s < maxl \<Longrightarrow> p + i + length s < length buf \<and> buf ! (p + i + length s) = 0"
  shows "unserial_string_loop maxl i (buf, p) dest =
    Some (buf_write dest i (s @ [0]), (buf, p + i + length s + 1))"
  using assms
proof (induction s arbitrary: i dest)
  case Nil
  then show ?case
    by (subst unserial_string_loop.simps)
      (cases "i < maxl"; simp add: buf_write_def upd_conv_take_nth_drop)
next
  case (Cons b s)
  from Cons.prems(4) have len: "p + i < length buf"
    by (cases "p + i < length buf") (auto simp: buf_slice_def)
  then have d: "drop (p + i) buf = buf ! (p + i) # drop (p + Suc i) buf"
    by (simp add: Cons_nth_drop_Suc [symmetric])
  from Cons.prems(4) d have b: "buf ! (p + i) = b" and sl: "buf_slice buf (p + Suc i) (length s) = s"
    by (auto simp: buf_slice_def)
  have "unserial_string_loop maxl (Suc i) (buf, p) (dest[i := b]) =
      Some (buf_write (dest[i := b]) (Suc i) (s @ [0]), (buf, p + Suc i + length s + 1))"
    by (rule Cons.IH) (use Cons.prems sl in auto)
  moreover have "buf_write (dest[i := b]) (Suc i) (s @ [0]) = buf_write dest i ((b # s) @ [0])"
    using Cons.prems(3) by (simp add: buf_write_def take_Suc_conv_app_nth list_update_append)
  ultimately show ?case
    using Cons.prems len b by (subst unserial_string_loop.simps) auto
qed

lemma unserial_string_loop_overflow:
  assumes "\<forall>k < length dest. p + k < length buf \<and> buf ! (p + k) \<noteq> 0" and "i \<le> length dest"
  shows "unserial_string_loop (length dest) i (buf, p) dest = None"
  using assms
proof (induction "length dest - i" arbitrary: i dest)
  case 0
  then show ?case by (simp add: unserial_string_loop.simps)
next
  case (Suc n)
  have "unserial_string_loop (length dest) (Suc i) (buf, p) (dest[i := buf ! (p + i)]) = None"
    using Suc.hyps(1) [of "dest[i := buf ! (p + i)]" "Suc i"] Suc.hyps(2) Suc.prems by auto
  then show ?case using Suc.prems by (subst unserial_string_loop.simps) auto
qed

section \<open>Properties\<close>

text \<open>
  Every integer and time serialiser writes the same
  bytes at the same place whether the host is little or big endian.
\<close>

theorem serial_host_independent:
  "serial_int16 True a c = serial_int16 False a c \<and> serial_uint16 True a c = serial_uint16 False a c \<and>
   serial_int32 True b c = serial_int32 False b c \<and> serial_uint32 True b c = serial_uint32 False b c \<and>
   serial_int64 True d c = serial_int64 False d c \<and> serial_uint64 True d c = serial_uint64 False d c \<and>
   serial_btime True d c = serial_btime False d c \<and> serial_float64 True d c = serial_float64 False d c"
  by (simp add: int16.ser_be uint16.ser_be int32.ser_be uint32.ser_be
      int64.ser_be uint64.ser_be btime.ser_be float64.ser_be)

text \<open>
  A 64 bit value serialised on one host is read back
  unchanged on any other host, the reader stops exactly where the writer stopped, and
  nothing outside the eight bytes changes.
\<close>

theorem serial_uint64_roundtrip:
  assumes "serial_uint64 big v (buf, p) = Some (buf', p')"
  shows "unserial_uint64 big' (buf', p) = Some (v, (buf', p')) \<and> p' = p + 8 \<and>
    take p buf' = take p buf \<and> drop p' buf' = drop p' buf \<and> length buf' = length buf"
proof -
  from assms have "serial_uint64 big' v (buf, p) = Some (buf', p')"
    by (simp add: uint64.ser_be)
  then have "unserial_uint64 big' (buf', p) = Some (v, (buf', p'))" by (rule uint64.ser_unser)
  moreover have "p' = p + 8" using assms by (auto simp: uint64.ser_be put_Some_iff)
  ultimately show ?thesis using uint64.ser_frame [OF assms] by simp
qed

theorem serial_uint64_roundtrip_witness:
  "\<exists>buf' p'. serial_uint64 False 0x0102030405060708 (replicate 10 0xFF, 1) = Some (buf', p') \<and>
     unserial_uint64 True (buf', 1) = Some (0x0102030405060708, (buf', p'))"
proof -
  have "serial_uint64 False 0x0102030405060708 (replicate 10 0xFF, 1) =
      Some (buf_write (replicate 10 0xFF) 1 (be_bytes 8 (0x0102030405060708 :: u64)), 9)"
    by (simp add: uint64.ser_ok)
  with serial_uint64_roundtrip [OF this, of True] show ?thesis by blast
qed

text \<open>
  A NUL terminated string written by
  \<open>serial_string\<close> is read back by \<open>unserial_string\<close> into any array with room for
  it and its NUL, and both end at the same position.
\<close>

theorem serial_string_roundtrip:
  assumes "serial_string (s @ 0 # junk) (buf, p) = Some (buf', p')" and "0 \<notin> set s"
    and "length s \<le> maxl" and "length s < length dest"
  shows "unserial_string maxl (buf', p) dest = Some (buf_write dest 0 (s @ [0]), (buf', p'))"
proof -
  from assms(1,2) have p: "p + length s + 1 \<le> length buf" "buf' = buf_write buf p (s @ [0])"
    "p' = p + length s + 1"
    by (simp_all add: serial_string_put put_Some_iff)
  then have "buf_slice buf' p (length s) = s" "buf' ! (p + length s) = 0" "length buf' = length buf"
    by (simp_all add: buf_slice_def buf_write_def nth_append)
  then show ?thesis
    using unserial_string_loop_copies [of s 0 maxl dest buf' p] assms p
    by (simp add: unserial_string_def)
qed

theorem serial_string_roundtrip_witness:
  "serial_string [65, 66, 0, 5] ([9, 9, 9, 9, 9, 9], 1) = Some ([9, 65, 66, 0, 9, 9], 4) \<and>
   unserial_string 4 ([9, 65, 66, 0, 9, 9], 1) [7, 7, 7, 7] =
     Some ([65, 66, 0, 7], ([9, 65, 66, 0, 9, 9], 4))"
proof -
  have "serial_string ([65, 66] @ 0 # [5]) ([9, 9, 9, 9, 9, 9], 1) = Some ([9, 65, 66, 0, 9, 9], 4)"
    by (subst serial_string_put) (simp_all add: put_def buf_write_def)
  with serial_string_roundtrip [OF this, of 4 "[7, 7, 7, 7]"] show ?thesis
    by (simp add: buf_write_def)
qed

text \<open>
  Called as \<^verbatim>\<open>unser_string(x)\<close> calls it, with
  the size of the destination as the limit, \<open>unserial_string\<close> stores its NUL one byte
  past the destination whenever the input has that many bytes without a NUL.
\<close>

theorem unserial_string_overflows:
  assumes "\<forall>k < length dest. p + k < length buf \<and> buf ! (p + k) \<noteq> 0"
  shows "unserial_string (length dest) (buf, p) dest = None"
  using unserial_string_loop_overflow [OF assms] by (simp add: unserial_string_def)

theorem unserial_string_overflows_witness:
  "unserial_string (length [0, 0 :: u8]) ([65, 66, 67, 0], 0) [0, 0] = None"
  by (rule unserial_string_overflows) code_simp

end
