(* ===== verification/Media.thy ===== *)
theory Media
  imports Serial
begin

text \<open>
  The data of the media format: the constants and structures of
  \<^verbatim>\<open>src/bacula/src/stored/block.h\<close>, \<^verbatim>\<open>record.h\<close> and the part of
  \<^verbatim>\<open>dev.h\<close> and \<^verbatim>\<open>streams.h\<close> that the block and record code reads.
  A \<^verbatim>\<open>DEV_BLOCK\<close> and a \<^verbatim>\<open>DEV_RECORD\<close> are records whose fields carry the
  C names behind \<open>b_\<close> and \<open>r_\<close>; the pointer \<^verbatim>\<open>bufp\<close> is the offset
  \<^verbatim>\<open>bufp - buf\<close>, and \<open>b_buf_out_enc\<close> says which of \<^verbatim>\<open>buf\<close> and
  \<^verbatim>\<open>buf_enc\<close> the pointer \<^verbatim>\<open>buf_out\<close> points to.
\<close>

section \<open>Constants\<close>

definition MAX_BLOCK_LENGTH :: u32 where "MAX_BLOCK_LENGTH = 20000000"
definition DEFAULT_BLOCK_SIZE :: u32 where "DEFAULT_BLOCK_SIZE = 512 * 126"
definition BLKHDR1_LENGTH :: nat where "BLKHDR1_LENGTH = 16"
definition BLKHDR2_LENGTH :: nat where "BLKHDR2_LENGTH = 24"
definition BLKHDR3_LENGTH :: nat where "BLKHDR3_LENGTH = 32"
definition BLKHDR_CS_LENGTH :: nat where "BLKHDR_CS_LENGTH = 4"
definition BLKHDR_CS64_OFFSET :: nat where "BLKHDR_CS64_OFFSET = 24"
definition BLKHDR_CS64_LENGTH :: nat where "BLKHDR_CS64_LENGTH = 8"
definition WRITE_BLKHDR_LENGTH :: u32 where "WRITE_BLKHDR_LENGTH = 32"
definition BLOCK_VER :: int where "BLOCK_VER = 3"
definition RECHDR1_LENGTH :: u32 where "RECHDR1_LENGTH = 20"
definition RECHDR2_LENGTH :: u32 where "RECHDR2_LENGTH = 12"
definition RECHDR3_LENGTH :: u32 where "RECHDR3_LENGTH = RECHDR2_LENGTH"
definition WRITE_RECHDR_LENGTH :: u32 where "WRITE_RECHDR_LENGTH = RECHDR2_LENGTH"
definition TAPE_BSIZE :: u32 where "TAPE_BSIZE = 1024"

definition BLKHDR1_ID :: "u8 list" where "BLKHDR1_ID = [0x42, 0x42, 0x30, 0x31]"
definition BLKHDR2_ID :: "u8 list" where "BLKHDR2_ID = [0x42, 0x42, 0x30, 0x32]"
definition BLKHDR3_ID :: "u8 list" where "BLKHDR3_ID = [0x42, 0x42, 0x30, 0x33]"

definition BLKHOPT_NONE :: u32 where "BLKHOPT_NONE = 0"
definition BLKHOPT_CHKSUM :: u32 where "BLKHOPT_CHKSUM = 1"
definition BLKHOPT_ENCRYPT_VOL :: u32 where "BLKHOPT_ENCRYPT_VOL = 2"
definition BLKHOPT_ENCRYPT_BLOCK :: u32 where "BLKHOPT_ENCRYPT_BLOCK = 4"

definition REC_NO_HEADER :: u32 where "REC_NO_HEADER = 0x01"
definition REC_PARTIAL_RECORD :: u32 where "REC_PARTIAL_RECORD = 0x02"
definition REC_BLOCK_EMPTY :: u32 where "REC_BLOCK_EMPTY = 0x04"
definition REC_NO_MATCH :: u32 where "REC_NO_MATCH = 0x08"
definition REC_CONTINUATION :: u32 where "REC_CONTINUATION = 0x10"
definition REC_ISTAPE :: u32 where "REC_ISTAPE = 0x20"
definition REC_ADATA_EMPTY :: u32 where "REC_ADATA_EMPTY = 0x40"
definition REC_NO_SPLIT :: u32 where "REC_NO_SPLIT = 0x80"

definition STREAMMASK_TYPE :: i32 where "STREAMMASK_TYPE = 0x7FF"

lemmas media_lengths =
  BLKHDR1_LENGTH_def BLKHDR2_LENGTH_def BLKHDR3_LENGTH_def BLKHDR_CS_LENGTH_def
  BLKHDR_CS64_OFFSET_def BLKHDR_CS64_LENGTH_def WRITE_BLKHDR_LENGTH_def
  RECHDR1_LENGTH_def RECHDR2_LENGTH_def RECHDR3_LENGTH_def WRITE_RECHDR_LENGTH_def

lemmas rec_bits =
  REC_NO_HEADER_def REC_PARTIAL_RECORD_def REC_BLOCK_EMPTY_def REC_NO_MATCH_def
  REC_CONTINUATION_def REC_ISTAPE_def REC_ADATA_EMPTY_def REC_NO_SPLIT_def

section \<open>Structures\<close>

datatype rec_state =
    st_none | st_header | st_cont_header | st_data | st_adata_blkhdr | st_adata_rechdr
  | st_cont_adata_rechdr | st_adata | st_cont_adata | st_adata_label | st_header_only

record filemedia_item =
  fm_RecordNo :: u32
  fm_FileIndex :: u32
  fm_BlockAddr :: u64
  fm_FileOffset :: u64
  fm_VolMediaId :: i64

record dev_block =
  b_BlockAddr :: u64
  b_binbuf :: u32
  b_block_len :: u32
  b_buf_len :: u32
  b_reclen :: u32
  b_BlockNumber :: u32
  b_read_len :: u32
  b_VolSessionId :: u32
  b_VolSessionTime :: u32
  b_read_errors :: u32
  b_CheckSum64 :: u64
  b_RecNum :: u32
  b_extra_bytes :: u32
  b_BlockVer :: int
  b_write_failed :: bool
  b_block_read :: bool
  b_needs_write :: bool
  b_adata :: bool
  b_no_header :: bool
  b_first_block :: bool
  b_FirstIndex :: i32
  b_LastIndex :: i32
  b_bufp :: nat
  b_buf :: "u8 list"
  b_buf_enc :: "u8 list"
  b_buf_out_enc :: bool
  b_filemedia :: "filemedia_item list"
  b_blkh_options :: u32

record dev_record =
  r_FileOffset :: u64
  r_StartAddr :: u64
  r_Addr :: u64
  r_VolSessionId :: u32
  r_VolSessionTime :: u32
  r_FileIndex :: i32
  r_Stream :: i32
  r_maskedStream :: i32
  r_data_len :: u32
  r_remainder :: u32
  r_remlen :: u32
  r_data_bytes :: u32
  r_extra_bytes :: u32
  r_state_bits :: u32
  r_RecNum :: u32
  r_BlockVer :: int
  r_blkh_options :: u32
  r_wstate :: rec_state
  r_rstate :: rec_state
  r_data :: "u8 list"
  r_VolumeName :: "string option"

text \<open>What the block and record code reads and writes of a \<^verbatim>\<open>DEVICE\<close>.\<close>

record device =
  d_is_tape :: bool
  d_is_aligned :: bool
  d_do_checksum :: bool
  d_volume_encryption :: bool
  d_crypto_device_ctx :: bool
  d_min_block_size :: u32
  d_max_block_size :: u32
  d_padding_size :: u32
  d_max_volume_size :: u64
  d_VolCatBytes :: u64
  d_VolCatMaxBytes :: u64
  d_EndAddr :: u64
  d_dev_errno :: int

text \<open>The kinds of message a routine queues for the job.\<close>

datatype jmsg = M_ERROR | M_FATAL | M_WARNING | M_INFO

definition EIO :: int where "EIO = 5"

text \<open>
  \<^verbatim>\<open>is_partial_record\<close> and \<^verbatim>\<open>is_block_marked_empty\<close>.
\<close>

definition is_partial_record :: "dev_record \<Rightarrow> bool" where
  "is_partial_record r \<longleftrightarrow> r_state_bits r AND REC_PARTIAL_RECORD \<noteq> 0"

definition is_block_marked_empty :: "dev_record \<Rightarrow> bool" where
  "is_block_marked_empty r \<longleftrightarrow> r_state_bits r AND (REC_BLOCK_EMPTY OR REC_ADATA_EMPTY) \<noteq> 0"

end
