(* ===== verification/Bcrc32.thy ===== *)
theory Bcrc32
  imports Bcrc32_Tables
begin

text \<open>
  The CRC-32 routines of \<^verbatim>\<open>src/bacula/src/lib/bcrc32.c\<close>: the bitwise
  reference, the half-byte and byte tables, slicing by 4, 8 and 16, and
  \<^verbatim>\<open>bcrc32\<close>, the one the daemons call on every BB01 and BB02 block.  The data is
  the list of the \<^verbatim>\<open>length\<close> bytes at \<^verbatim>\<open>data\<close>; a 32 bit load is
  \<open>host_load\<close> of four of them, and \<open>big\<close> selects the
  \<^verbatim>\<open>HAVE_BIG_ENDIAN\<close> branch.  All of them compute the same function, and that
  function detects every error burst of up to four bytes.
\<close>

section \<open>The routines\<close>

definition swap :: "u32 \<Rightarrow> u32" where
  "swap x = drop_bit 24 x OR (drop_bit 8 x AND 0x0000FF00) OR (push_bit 8 x AND 0x00FF0000) OR push_bit 24 x"

definition crc32_bitwise :: "u8 list \<Rightarrow> u32 \<Rightarrow> u32" where
  "crc32_bitwise data previousCrc32 =
     NOT (fold (\<lambda>b crc. (crc_bit ^^ 8) (crc XOR ucast b)) data (NOT previousCrc32))"

definition halfbyte_step :: "u8 \<Rightarrow> u32 \<Rightarrow> u32" where
  "halfbyte_step b crc0 =
     (let crc1 = Crc32Lookup16 ! unat ((crc0 XOR ucast b) AND 0x0F) XOR drop_bit 4 crc0
      in Crc32Lookup16 ! unat ((crc1 XOR ucast (drop_bit 4 b)) AND 0x0F) XOR drop_bit 4 crc1)"

definition crc32_halfbyte :: "u8 list \<Rightarrow> u32 \<Rightarrow> u32" where
  "crc32_halfbyte data previousCrc32 = NOT (fold halfbyte_step data (NOT previousCrc32))"

text \<open>\<^verbatim>\<open>crc = (crc >> 8) ^ Crc32Lookup[0][(crc & 0xFF) ^ *current++]\<close>\<close>

definition byte_step :: "u8 \<Rightarrow> u32 \<Rightarrow> u32" where
  "byte_step b crc = drop_bit 8 crc XOR Crc32Lookup ! 0 ! unat ((crc AND 0xFF) XOR ucast b)"

definition crc32_1byte :: "u8 list \<Rightarrow> u32 \<Rightarrow> u32" where
  "crc32_1byte data previousCrc32 = NOT (fold byte_step data (NOT previousCrc32))"

text \<open>\<^verbatim>\<open>Crc32Lookup[k][w & 0xFF]\<close>\<close>

abbreviation lut :: "nat \<Rightarrow> u32 \<Rightarrow> u32" where
  "lut k w \<equiv> Crc32Lookup ! k ! unat (w AND 0xFF)"

text \<open>One iteration of a slicing loop: the bytes still to do and the register.\<close>

definition slice4 :: "bool \<Rightarrow> u8 list \<times> u32 \<Rightarrow> u8 list \<times> u32" where
  "slice4 big = (\<lambda>(cur, crc).
     (drop 4 cur,
      if big then
        (let one = host_load True (take 4 cur) XOR swap crc
         in lut 0 one XOR lut 1 (drop_bit 8 one) XOR lut 2 (drop_bit 16 one) XOR lut 3 (drop_bit 24 one))
      else
        (let one = host_load False (take 4 cur) XOR crc
         in lut 0 (drop_bit 24 one) XOR lut 1 (drop_bit 16 one) XOR lut 2 (drop_bit 8 one) XOR lut 3 one)))"

definition slice8 :: "bool \<Rightarrow> u8 list \<times> u32 \<Rightarrow> u8 list \<times> u32" where
  "slice8 big = (\<lambda>(cur, crc).
     (drop 8 cur,
      if big then
        (let one = host_load True (take 4 cur) XOR swap crc;
             two = host_load True (take 4 (drop 4 cur))
         in lut 0 two XOR lut 1 (drop_bit 8 two) XOR lut 2 (drop_bit 16 two) XOR lut 3 (drop_bit 24 two) XOR
            lut 4 one XOR lut 5 (drop_bit 8 one) XOR lut 6 (drop_bit 16 one) XOR lut 7 (drop_bit 24 one))
      else
        (let one = host_load False (take 4 cur) XOR crc;
             two = host_load False (take 4 (drop 4 cur))
         in lut 0 (drop_bit 24 two) XOR lut 1 (drop_bit 16 two) XOR lut 2 (drop_bit 8 two) XOR lut 3 two XOR
            lut 4 (drop_bit 24 one) XOR lut 5 (drop_bit 16 one) XOR lut 6 (drop_bit 8 one) XOR lut 7 one)))"

definition slice16 :: "bool \<Rightarrow> u8 list \<times> u32 \<Rightarrow> u8 list \<times> u32" where
  "slice16 big = (\<lambda>(cur, crc).
     (drop 16 cur,
      if big then
        (let one = host_load True (take 4 cur) XOR swap crc;
             two = host_load True (take 4 (drop 4 cur));
             three = host_load True (take 4 (drop 8 cur));
             four = host_load True (take 4 (drop 12 cur))
         in lut 0 four XOR lut 1 (drop_bit 8 four) XOR lut 2 (drop_bit 16 four) XOR lut 3 (drop_bit 24 four) XOR
            lut 4 three XOR lut 5 (drop_bit 8 three) XOR lut 6 (drop_bit 16 three) XOR lut 7 (drop_bit 24 three) XOR
            lut 8 two XOR lut 9 (drop_bit 8 two) XOR lut 10 (drop_bit 16 two) XOR lut 11 (drop_bit 24 two) XOR
            lut 12 one XOR lut 13 (drop_bit 8 one) XOR lut 14 (drop_bit 16 one) XOR lut 15 (drop_bit 24 one))
      else
        (let one = host_load False (take 4 cur) XOR crc;
             two = host_load False (take 4 (drop 4 cur));
             three = host_load False (take 4 (drop 8 cur));
             four = host_load False (take 4 (drop 12 cur))
         in lut 0 (drop_bit 24 four) XOR lut 1 (drop_bit 16 four) XOR lut 2 (drop_bit 8 four) XOR lut 3 four XOR
            lut 4 (drop_bit 24 three) XOR lut 5 (drop_bit 16 three) XOR lut 6 (drop_bit 8 three) XOR lut 7 three XOR
            lut 8 (drop_bit 24 two) XOR lut 9 (drop_bit 16 two) XOR lut 10 (drop_bit 8 two) XOR lut 11 two XOR
            lut 12 (drop_bit 24 one) XOR lut 13 (drop_bit 16 one) XOR lut 14 (drop_bit 8 one) XOR lut 15 one)))"

text \<open>
  \<^verbatim>\<open>while (length >= limit) { ...; length -= step; }\<close> followed by the byte loop
  on what is left; \<open>length\<close> is the number of bytes not yet consumed, and
  \<open>n\<close> bounds the number of iterations (each consumes at least one byte).
\<close>

fun slice_loop :: "nat \<Rightarrow> (u8 list \<times> u32 \<Rightarrow> u8 list \<times> u32) \<Rightarrow> nat \<Rightarrow> u8 list \<times> u32 \<Rightarrow> u8 list \<times> u32" where
  "slice_loop 0 body limit st = st"
| "slice_loop (Suc n) body limit st =
     (if limit \<le> length (fst st) then slice_loop n body limit (body st) else st)"

definition finish_bytes :: "u8 list \<times> u32 \<Rightarrow> u32" where
  "finish_bytes st = NOT (fold byte_step (fst st) (snd st))"

definition crc32_4bytes :: "bool \<Rightarrow> u8 list \<Rightarrow> u32 \<Rightarrow> u32" where
  "crc32_4bytes big data previousCrc32 =
     finish_bytes (slice_loop (length data) (slice4 big) 4 (data, NOT previousCrc32))"

definition crc32_8bytes :: "bool \<Rightarrow> u8 list \<Rightarrow> u32 \<Rightarrow> u32" where
  "crc32_8bytes big data previousCrc32 =
     finish_bytes (slice_loop (length data) (slice8 big) 8 (data, NOT previousCrc32))"

definition crc32_4x8bytes :: "bool \<Rightarrow> u8 list \<Rightarrow> u32 \<Rightarrow> u32" where
  "crc32_4x8bytes big data previousCrc32 =
     (let Unroll = 4; BytesAtOnce = 8 * Unroll
      in finish_bytes (slice_loop (length data) (slice8 big ^^ Unroll) BytesAtOnce (data, NOT previousCrc32)))"

definition crc32_16bytes :: "bool \<Rightarrow> u8 list \<Rightarrow> u32 \<Rightarrow> u32" where
  "crc32_16bytes big data previousCrc32 =
     (let Unroll = 4; BytesAtOnce = 16 * Unroll
      in finish_bytes (slice_loop (length data) (slice16 big ^^ Unroll) BytesAtOnce (data, NOT previousCrc32)))"

definition bcrc32 :: "bool \<Rightarrow> u8 list \<Rightarrow> u32" where
  "bcrc32 big buf =
     (let previousCrc32 = 0; prefetchAhead = 256; Unroll = 4; BytesAtOnce = 16 * Unroll
      in finish_bytes (slice_loop (length buf) (slice16 big ^^ Unroll) (BytesAtOnce + prefetchAhead)
           (buf, NOT previousCrc32)))"

definition crc32_fast :: "bool \<Rightarrow> u8 list \<Rightarrow> u32 \<Rightarrow> u32" where
  "crc32_fast big data previousCrc32 = crc32_16bytes big data previousCrc32"

section \<open>One byte\<close>

lemma and_0xFF: "w AND 0xFF = take_bit 8 w" for w :: u32
  by (simp add: take_bit_eq_mask mask_eq_exp_minus_1)

lemma and_0x0F: "w AND 0x0F = take_bit 4 w" for w :: u32
  by (simp add: take_bit_eq_mask mask_eq_exp_minus_1)

lemma unat_take_bit_less: "n < 32 \<Longrightarrow> unat (take_bit n (w :: u32)) < 2 ^ n"
  by (simp add: unsigned_take_bit_eq)

lemma lut_shift: "k < 16 \<Longrightarrow> lut k w = (crc_shift8 ^^ Suc k) (take_bit 8 w)"
  using Crc32Lookup_nth [of k "unat (take_bit 8 w)"] unat_take_bit_less [of 8 w]
  by (simp add: and_0xFF del: funpow.simps)

lemma crc_shift8_push: "crc_shift8 (push_bit 8 x) = take_bit 24 x"
proof -
  have "crc_shift8 (push_bit 8 x) = drop_bit 8 (push_bit 8 x)"
    unfolding crc_shift8_def by (rule crc_bits_low_zero) (simp add: bit_simps)
  also have "\<dots> = take_bit 24 x" by (rule bit_word_eqI) (auto simp: bit_simps)
  finally show ?thesis .
qed

lemma crc_shift8_split: "crc_shift8 c = drop_bit 8 c XOR crc_shift8 (take_bit 8 c)"
proof -
  have "c = push_bit 8 (drop_bit 8 c) XOR take_bit 8 c"
    by (rule bit_word_eqI) (auto simp: bit_simps)
  then have "crc_shift8 c = crc_shift8 (push_bit 8 (drop_bit 8 c)) XOR crc_shift8 (take_bit 8 c)"
    by (metis crc_shift8_xor)
  moreover have "take_bit 24 (drop_bit 8 c) = drop_bit 8 c"
    by (rule bit_word_eqI) (auto simp: bit_simps dest: bit_imp_le_length)
  ultimately show ?thesis by (simp add: crc_shift8_push)
qed

lemma byte_step_shift: "byte_step b crc = crc_shift8 (crc XOR ucast b)"
proof -
  have i: "take_bit 8 crc XOR ucast b = take_bit 8 (crc XOR ucast b)"
    by (rule bit_word_eqI) (auto simp: bit_simps dest: bit_imp_le_length)
  have d: "drop_bit 8 (crc XOR ucast b) = drop_bit 8 crc"
    by (rule bit_word_eqI) (auto simp: bit_simps dest: bit_imp_le_length)
  have "Crc32Lookup ! 0 ! unat (take_bit 8 (crc XOR ucast b)) = crc_shift8 (take_bit 8 (crc XOR ucast b))"
    using Crc32Lookup_nth [of 0 "unat (take_bit 8 (crc XOR ucast b))"] unat_take_bit_less [of 8 "crc XOR ucast b"]
    by simp
  then show ?thesis
    using crc_shift8_split [of "crc XOR ucast b"]
    by (simp only: byte_step_def and_0xFF i d)
qed

lemma halfbyte_step_shift: "halfbyte_step b crc = crc_shift8 (crc XOR ucast b)"
proof -
  have half: "Crc32Lookup16 ! unat ((c XOR x) AND 0x0F) XOR drop_bit 4 c = (crc_bit ^^ 4) (c XOR take_bit 4 x)"
    for c x :: u32
  proof -
    let ?t = "take_bit 4 (c XOR x)"
    have "Crc32Lookup16 ! unat ?t = (crc_bit ^^ 4) ?t"
      using Crc32Lookup16_nth [of "unat ?t"] unat_take_bit_less [of 4 "c XOR x"] by simp
    moreover have "(crc_bit ^^ 4) (push_bit 4 (drop_bit 4 c)) = drop_bit 4 (push_bit 4 (drop_bit 4 c))"
      by (rule crc_bits_low_zero) (simp add: bit_simps)
    moreover have "drop_bit 4 (push_bit 4 (drop_bit 4 c)) = drop_bit 4 c"
      by (rule bit_word_eqI) (auto simp: bit_simps dest: bit_imp_le_length)
    moreover have "c XOR take_bit 4 x = ?t XOR push_bit 4 (drop_bit 4 c)"
      by (rule bit_word_eqI) (auto simp: bit_simps)
    ultimately show ?thesis by (simp only: crc_bits_xor and_0x0F)
  qed
  have lo: "(crc_bit ^^ 4) (crc XOR take_bit 4 (ucast b)) XOR take_bit 4 (ucast (drop_bit 4 b)) =
      (crc_bit ^^ 4) (crc XOR ucast b)"
  proof -
    have "(crc_bit ^^ 4) (push_bit 4 (ucast (drop_bit 4 b))) = drop_bit 4 (push_bit 4 (ucast (drop_bit 4 b)))"
      by (rule crc_bits_low_zero) (simp add: bit_simps)
    moreover have "drop_bit 4 (push_bit 4 (ucast (drop_bit 4 b))) = (take_bit 4 (ucast (drop_bit 4 b)) :: u32)"
      by (rule bit_word_eqI) (auto simp: bit_simps dest: bit_imp_le_length)
    moreover have "crc XOR ucast b = (crc XOR take_bit 4 (ucast b)) XOR push_bit 4 (ucast (drop_bit 4 b))"
      by (rule bit_word_eqI) (auto simp: bit_simps dest: bit_imp_le_length)
    ultimately show ?thesis by (simp only: crc_bits_xor)
  qed
  show ?thesis
    by (simp add: halfbyte_step_def Let_def half lo crc_shift8_def funpow_add [of 4 4, simplified])
qed


section \<open>Four bytes at a time\<close>

lemma shift_push_byte:
  "n \<le> 3 \<Longrightarrow> (crc_shift8 ^^ n) (push_bit (8 * n) (take_bit 8 y)) = take_bit 8 y"
proof (induction n)
  case 0
  then show ?case by simp
next
  case (Suc n)
  have split: "push_bit (8 * Suc n) (take_bit 8 y) = push_bit 8 (push_bit (8 * n) (take_bit 8 y))"
    by (simp add: push_bit_push_bit add.commute)
  have fits: "take_bit 24 (push_bit (8 * n) (take_bit 8 y)) = push_bit (8 * n) (take_bit 8 y)"
    using Suc.prems by (auto intro!: bit_word_eqI simp: bit_simps)
  have "(crc_shift8 ^^ Suc n) (push_bit (8 * Suc n) (take_bit 8 y)) =
      (crc_shift8 ^^ n) (push_bit (8 * n) (take_bit 8 y))"
    by (simp only: split fits funpow_Suc_right o_apply crc_shift8_push)
  then show ?case using Suc.IH Suc.prems by (metis Suc_leD)
qed

lemma shift_xor_byte:
  assumes "n \<le> 3"
  shows "(crc_shift8 ^^ n) x XOR take_bit 8 y = (crc_shift8 ^^ n) (x XOR push_bit (8 * n) (take_bit 8 y))"
  by (simp add: crc_shifts_xor shift_push_byte [OF assms])

lemma ucast_byte: "(ucast (b :: u8) :: u32) = take_bit 8 (ucast b)"
  by (rule bit_word_eqI) (auto simp: bit_simps dest: bit_imp_le_length)

lemma from_le_4: "(from_le [a, b, c, d] :: u32) =
   ucast a XOR push_bit 8 (ucast b) XOR push_bit 16 (ucast c) XOR push_bit 24 (ucast d)"
  by (rule bit_word_eqI) (auto simp: bit_simps dest: bit_imp_le_length)

lemma fold_byte_step_4:
  "fold byte_step [a, b, c, d] crc = (crc_shift8 ^^ 4) (crc XOR from_le [a, b, c, d])"
proof -
  let ?x = "crc XOR ucast a"
  have 1: "(crc_shift8 ^^ 1) ?x XOR ucast b = (crc_shift8 ^^ 1) (?x XOR push_bit 8 (ucast b))"
    using shift_xor_byte [of 1 ?x "ucast b"] by (simp flip: ucast_byte)
  have 2: "(crc_shift8 ^^ 2) y XOR ucast c = (crc_shift8 ^^ 2) (y XOR push_bit 16 (ucast c))" for y
    using shift_xor_byte [of 2 y "ucast c"] by (simp flip: ucast_byte)
  have 3: "(crc_shift8 ^^ 3) y XOR ucast d = (crc_shift8 ^^ 3) (y XOR push_bit 24 (ucast d))" for y
    using shift_xor_byte [of 3 y "ucast d"] by (simp flip: ucast_byte)
  have "fold byte_step [a, b] crc = (crc_shift8 ^^ 2) (?x XOR push_bit 8 (ucast b))"
    using 1 by (simp add: byte_step_shift numeral_2_eq_2)
  then have "fold byte_step [a, b, c] crc =
      (crc_shift8 ^^ 3) (?x XOR push_bit 8 (ucast b) XOR push_bit 16 (ucast c))"
    using 2 by (simp add: byte_step_shift numeral_3_eq_3 numeral_2_eq_2 xor.assoc)
  then have "fold byte_step [a, b, c, d] crc = crc_shift8 ((crc_shift8 ^^ 3)
      (?x XOR push_bit 8 (ucast b) XOR push_bit 16 (ucast c) XOR push_bit 24 (ucast d)))"
    using 3 by (simp add: byte_step_shift xor.assoc)
  then show ?thesis
    unfolding from_le_4 by (simp only: xor.assoc funpow.simps o_apply numeral_eq_Suc pred_numeral_simps BitM.simps)
qed

lemma lut_word:
  assumes "k + 3 < 16"
  shows "lut k (drop_bit 24 w) XOR lut (k + 1) (drop_bit 16 w) XOR lut (k + 2) (drop_bit 8 w) XOR lut (k + 3) w =
    (crc_shift8 ^^ (k + 4)) w"
proof -
  have four: "4 + k = Suc (Suc (Suc (Suc k)))" by simp
  let ?b = "\<lambda>n. push_bit (8 * n) (take_bit 8 (drop_bit (8 * n) w))"
  have part: "(crc_shift8 ^^ (k + 4)) (?b n) = (crc_shift8 ^^ (k + 4 - n)) (take_bit 8 (drop_bit (8 * n) w))"
    if "n \<le> 3" for n
  proof -
    have "(crc_shift8 ^^ (k + 4)) (?b n) = (crc_shift8 ^^ (k + 4 - n)) ((crc_shift8 ^^ n) (?b n))"
      using that by (simp flip: funpow_add [THEN fun_cong, unfolded o_apply])
    then show ?thesis by (simp add: shift_push_byte [OF that])
  qed
  have "w = ?b 3 XOR (?b 2 XOR (?b 1 XOR ?b 0))"
  proof (rule bit_word_eqI)
    fix n assume "n < LENGTH(32)"
    consider "n < 8" | "8 \<le> n" "n < 16" | "16 \<le> n" "n < 24" | "24 \<le> n" by linarith
    then show "bit w n = bit (?b 3 XOR (?b 2 XOR (?b 1 XOR ?b 0))) n"
      using \<open>n < LENGTH(32)\<close> by cases (auto simp: bit_simps)
  qed
  then have "(crc_shift8 ^^ (k + 4)) w = (crc_shift8 ^^ (k + 4)) (?b 3) XOR ((crc_shift8 ^^ (k + 4)) (?b 2) XOR
      ((crc_shift8 ^^ (k + 4)) (?b 1) XOR (crc_shift8 ^^ (k + 4)) (?b 0)))"
    by (metis crc_shifts_xor)
  also have "\<dots> = lut k (drop_bit 24 w) XOR lut (k + 1) (drop_bit 16 w) XOR lut (k + 2) (drop_bit 8 w) XOR lut (k + 3) w"
    using assms part [of 3] part [of 2] part [of 1] part [of 0]
    by (simp add: lut_shift add.commute [of k] numeral_3_eq_3 four del: funpow.simps)
  finally show ?thesis by simp
qed


lemma bit_swap:
  "bit (swap x) n \<longleftrightarrow> (n < 8 \<and> bit x (n + 24)) \<or> (8 \<le> n \<and> n < 16 \<and> bit x (n + 8)) \<or>
     (16 \<le> n \<and> n < 24 \<and> bit x (n - 8)) \<or> (24 \<le> n \<and> n < 32 \<and> bit x (n - 24))"
proof -
  have m: "(0xFF00 :: u32) = push_bit 8 (mask 8)" "(0xFF0000 :: u32) = push_bit 16 (mask 8)"
    by (simp_all add: mask_eq_exp_minus_1)
  show ?thesis
    by (auto simp: swap_def m bit_simps add.commute [of _ n] dest: bit_imp_le_length)
qed

lemma take_bit_swap:
  "take_bit 8 (swap x) = take_bit 8 (drop_bit 24 x)"
  "take_bit 8 (drop_bit 8 (swap x)) = take_bit 8 (drop_bit 16 x)"
  "take_bit 8 (drop_bit 16 (swap x)) = take_bit 8 (drop_bit 8 x)"
  "take_bit 8 (drop_bit 24 (swap x)) = take_bit 8 x"
  by (auto intro!: bit_word_eqI simp: bit_simps bit_swap add.commute)

lemma lut_swap:
  "lut k (swap w) = lut k (drop_bit 24 w)"
  "lut k (drop_bit 8 (swap w)) = lut k (drop_bit 16 w)"
  "lut k (drop_bit 16 (swap w)) = lut k (drop_bit 8 w)"
  "lut k (drop_bit 24 (swap w)) = lut k w"
  by (simp_all add: and_0xFF take_bit_swap)

lemma swap_xor: "swap (x XOR y) = swap x XOR swap y"
  by (rule bit_word_eqI) (auto simp: bit_simps bit_swap)

lemma swap_bytes:
  "swap (ucast (a :: u8)) = push_bit 24 (ucast a)"
  "swap (push_bit 8 (ucast (a :: u8))) = push_bit 16 (ucast a)"
  "swap (push_bit 16 (ucast (a :: u8))) = push_bit 8 (ucast a)"
  "swap (push_bit 24 (ucast (a :: u8))) = ucast a"
  by (rule bit_word_eqI, force simp: bit_swap bit_simps dest: bit_imp_le_length)+

lemma host_load_swap:
  assumes "length bs = 4" shows "host_load True bs = swap (from_le bs)"
proof -
  obtain a b c d where "bs = [a, b, c, d]"
    using assms by (auto simp: numeral_eq_Suc length_Suc_conv)
  then show ?thesis
    by (simp add: host_load_def from_le_4 swap_xor swap_bytes xor.commute xor.left_commute del: from_le.simps)
qed

lemma fold_byte_step_word:
  assumes "length bs = 4"
  shows "fold byte_step bs crc = (crc_shift8 ^^ 4) (from_le bs XOR crc)"
proof -
  obtain a b c d where "bs = [a, b, c, d]"
    using assms by (auto simp: numeral_eq_Suc length_Suc_conv)
  then show ?thesis by (simp only: fold_byte_step_4 xor.commute [of crc])
qed

section \<open>The slicing loops\<close>

text \<open>
  What a loop body of a slicing routine does: it consumes \<open>n\<close> bytes and leaves the
  register as the byte loop over those bytes would.
\<close>

locale slicer =
  fixes body :: "u8 list \<times> u32 \<Rightarrow> u8 list \<times> u32" and n :: nat
  assumes body_consumes: "n \<le> length cur \<Longrightarrow> body (cur, crc) = (drop n cur, fold byte_step (take n cur) crc)"
    and progress: "0 < n"
begin

lemma iterate_consumes:
  "m * n \<le> length cur \<Longrightarrow> (body ^^ m) (cur, crc) = (drop (m * n) cur, fold byte_step (take (m * n) cur) crc)"
proof (induction m arbitrary: cur crc)
  case 0
  then show ?case by simp
next
  case (Suc m)
  then have "n \<le> length cur" by simp
  then have "(body ^^ Suc m) (cur, crc) = (body ^^ m) (drop n cur, fold byte_step (take n cur) crc)"
    by (simp only: funpow_Suc_right o_apply body_consumes)
  also have "\<dots> = (drop (m * n) (drop n cur),
      fold byte_step (take (m * n) (drop n cur)) (fold byte_step (take n cur) crc))"
    using Suc.prems by (intro Suc.IH) simp
  also have "take (Suc m * n) cur = take n cur @ take (m * n) (drop n cur)"
    by (simp add: take_add)
  then have "fold byte_step (take (m * n) (drop n cur)) (fold byte_step (take n cur) crc) =
      fold byte_step (take (Suc m * n) cur) crc"
    by simp
  finally show ?case by (simp add: add.commute)
qed

lemma loop_result:
  "n \<le> limit \<Longrightarrow> finish_bytes (slice_loop k body limit (cur, crc)) = NOT (fold byte_step cur crc)"
proof (induction k arbitrary: cur crc)
  case 0
  then show ?case by (simp add: finish_bytes_def)
next
  case (Suc k)
  show ?case
  proof (cases "limit \<le> length cur")
    case True
    then have "finish_bytes (slice_loop (Suc k) body limit (cur, crc)) =
        NOT (fold byte_step (drop n cur) (fold byte_step (take n cur) crc))"
      using Suc by (simp add: body_consumes)
    then show ?thesis by (simp flip: fold_append [THEN fun_cong, unfolded o_apply])
  next
    case False
    then show ?thesis by (simp add: finish_bytes_def)
  qed
qed

lemma loop_ends:
  assumes "n \<le> limit" "length cur \<le> k" "0 < limit"
  shows "length (fst (slice_loop k body limit (cur, crc))) < limit"
  using assms
proof (induction k arbitrary: cur crc)
  case 0
  then show ?case by simp
next
  case (Suc k)
  then show ?case using progress by (cases "limit \<le> length cur") (auto simp: body_consumes)
qed

end

lemma lut_words:
  "lut 0 (drop_bit 24 w) XOR lut 1 (drop_bit 16 w) XOR lut 2 (drop_bit 8 w) XOR lut 3 w = (crc_shift8 ^^ 4) w"
  "lut 0 (drop_bit 24 w) XOR lut 1 (drop_bit 16 w) XOR lut 2 (drop_bit 8 w) XOR lut 3 w XOR r = (crc_shift8 ^^ 4) w XOR r"
  "lut 4 (drop_bit 24 w) XOR lut 5 (drop_bit 16 w) XOR lut 6 (drop_bit 8 w) XOR lut 7 w = (crc_shift8 ^^ 8) w"
  "lut 4 (drop_bit 24 w) XOR lut 5 (drop_bit 16 w) XOR lut 6 (drop_bit 8 w) XOR lut 7 w XOR r = (crc_shift8 ^^ 8) w XOR r"
  "lut 8 (drop_bit 24 w) XOR lut 9 (drop_bit 16 w) XOR lut 10 (drop_bit 8 w) XOR lut 11 w = (crc_shift8 ^^ 12) w"
  "lut 8 (drop_bit 24 w) XOR lut 9 (drop_bit 16 w) XOR lut 10 (drop_bit 8 w) XOR lut 11 w XOR r = (crc_shift8 ^^ 12) w XOR r"
  "lut 12 (drop_bit 24 w) XOR lut 13 (drop_bit 16 w) XOR lut 14 (drop_bit 8 w) XOR lut 15 w = (crc_shift8 ^^ 16) w"
  "lut 12 (drop_bit 24 w) XOR lut 13 (drop_bit 16 w) XOR lut 14 (drop_bit 8 w) XOR lut 15 w XOR r = (crc_shift8 ^^ 16) w XOR r"
  using lut_word [of 0 w] lut_word [of 4 w] lut_word [of 8 w] lut_word [of 12 w]
  by (simp_all add: numeral_2_eq_2 flip: xor.assoc)

lemma host_load_le: "host_load False bs = from_le bs"
  by (simp add: host_load_def)

lemma slice4_consumes:
  assumes "4 \<le> length cur"
  shows "slice4 big (cur, crc) = (drop 4 cur, fold byte_step (take 4 cur) crc)"
proof -
  have len: "length (take 4 cur) = 4" using assms by simp
  show ?thesis
    by (cases big)
      (simp_all only: slice4_def prod.case Let_def if_True if_False simp_thms host_load_swap [OF len] host_load_le
        swap_xor [symmetric] lut_swap lut_words fold_byte_step_word [OF len])
qed

lemma take_4_words:
  "take 8 xs = take 4 xs @ take 4 (drop 4 xs)"
  "take 16 xs = take 4 xs @ take 4 (drop 4 xs) @ take 4 (drop 8 xs) @ take 4 (drop 12 xs)"
  using take_add [of 4 4 xs] take_add [of 8 4 xs] take_add [of 12 4 xs] by simp_all

lemma shift_more: "(crc_shift8 ^^ 4) ((crc_shift8 ^^ 4) x) = (crc_shift8 ^^ 8) x"
  "(crc_shift8 ^^ 4) ((crc_shift8 ^^ 8) x) = (crc_shift8 ^^ 12) x"
  "(crc_shift8 ^^ 4) ((crc_shift8 ^^ 12) x) = (crc_shift8 ^^ 16) x"
  by (simp_all flip: funpow_add [THEN fun_cong, unfolded o_apply])

lemma slice8_consumes:
  assumes "8 \<le> length cur"
  shows "slice8 big (cur, crc) = (drop 8 cur, fold byte_step (take 8 cur) crc)"
proof -
  have len: "length (take 4 cur) = 4" "length (take 4 (drop 4 cur)) = 4" using assms by simp_all
  have "fold byte_step (take 8 cur) crc =
      (crc_shift8 ^^ 4) (from_le (take 4 (drop 4 cur))) XOR (crc_shift8 ^^ 8) (from_le (take 4 cur) XOR crc)"
    by (simp only: take_4_words fold_append o_apply fold_byte_step_word [OF len(1)]
        fold_byte_step_word [OF len(2)] crc_shifts_xor shift_more)
  then show ?thesis
    by (cases big)
      (simp_all only: slice8_def prod.case Let_def if_True if_False simp_thms host_load_swap [OF len(1)]
        host_load_swap [OF len(2)] host_load_le swap_xor [symmetric] lut_swap lut_words)
qed

lemma slice16_consumes:
  assumes "16 \<le> length cur"
  shows "slice16 big (cur, crc) = (drop 16 cur, fold byte_step (take 16 cur) crc)"
proof -
  have len: "length (take 4 cur) = 4" "length (take 4 (drop 4 cur)) = 4"
    "length (take 4 (drop 8 cur)) = 4" "length (take 4 (drop 12 cur)) = 4"
    using assms by simp_all
  have "fold byte_step (take 16 cur) crc =
      (crc_shift8 ^^ 4) (from_le (take 4 (drop 12 cur))) XOR (crc_shift8 ^^ 8) (from_le (take 4 (drop 8 cur))) XOR
      (crc_shift8 ^^ 12) (from_le (take 4 (drop 4 cur))) XOR (crc_shift8 ^^ 16) (from_le (take 4 cur) XOR crc)"
    by (simp only: take_4_words fold_append o_apply fold_byte_step_word [OF len(1)]
        fold_byte_step_word [OF len(2)] fold_byte_step_word [OF len(3)] fold_byte_step_word [OF len(4)]
        crc_shifts_xor shift_more)
  then show ?thesis
    by (cases big)
      (simp_all only: slice16_def prod.case Let_def if_True if_False simp_thms host_load_swap [OF len(1)]
        host_load_swap [OF len(2)] host_load_swap [OF len(3)] host_load_swap [OF len(4)]
        host_load_le swap_xor [symmetric] lut_swap lut_words)
qed

interpretation slice4: slicer "slice4 big" 4 for big
  by unfold_locales (simp_all add: slice4_consumes)

interpretation slice8: slicer "slice8 big" 8 for big
  by unfold_locales (simp_all add: slice8_consumes)

interpretation slice16: slicer "slice16 big" 16 for big
  by unfold_locales (simp_all add: slice16_consumes)

interpretation slice4x8: slicer "slice8 big ^^ 4" 32 for big
  by unfold_locales (use slice8.iterate_consumes [of 4] in simp_all)

interpretation slice4x16: slicer "slice16 big ^^ 4" 64 for big
  by unfold_locales (use slice16.iterate_consumes [of 4] in simp_all)

section \<open>Error detection\<close>

lemma xor_cancel: "a XOR b = d XOR b \<longleftrightarrow> a = d" for a b d :: u32
  by (auto simp: bit_eq_iff bit_simps)

lemma crc_bit_eq_0: "crc_bit c = 0 \<Longrightarrow> c = 0"
proof -
  assume z: "crc_bit c = 0"
  have p: "bit Polynomial 31" by (simp add: Polynomial_def bit_simps)
  have m: "- (c AND 1) = (if bit c 0 then - 1 else 0 :: u32)"
    by (simp add: and_one_eq bit_0 mod_2_eq_odd)
  have "bit (crc_bit c) 31 = bit c 0"
    by (simp add: crc_bit_def m bit_simps p) (auto dest: bit_imp_le_length)
  with z have even: "\<not> bit c 0" by simp
  then have d: "drop_bit 1 c = 0" using z by (simp add: crc_bit_even)
  have "bit c (1 + k) = bit (drop_bit 1 c) k" for k by (simp only: bit_drop_bit_eq o_apply)
  then have "\<not> bit c (Suc k)" for k by (simp only: d) simp
  with even have "\<not> bit c n" for n by (cases n) simp_all
  then show "c = 0" by (intro bit_word_eqI) simp
qed

lemma inj_crc_bit: "inj crc_bit"
proof (rule injI)
  fix a b assume "crc_bit a = crc_bit b"
  then have "crc_bit (a XOR b) = 0" by (simp add: crc_bit_xor)
  then have "a XOR b = b XOR b" by (simp add: crc_bit_eq_0)
  then show "a = b" by (simp only: xor_cancel)
qed

lemma inj_crc_shift8: "inj crc_shift8"
  unfolding crc_shift8_def by (rule inj_fn [OF inj_crc_bit])

lemma byte_step_inj: "byte_step b c = byte_step b d \<longleftrightarrow> c = d"
  by (simp add: byte_step_shift inj_eq [OF inj_crc_shift8] xor_cancel)

lemma fold_byte_step_inj: "fold byte_step ys c = fold byte_step ys d \<longleftrightarrow> c = d"
  by (induction ys arbitrary: c d) (simp_all add: byte_step_inj)

text \<open>Within four bytes the register after them determines them.\<close>

lemma fold_byte_step_word_inj:
  assumes "length v = 4" "length w = 4"
  shows "fold byte_step v c = fold byte_step w c \<longleftrightarrow> v = w"
proof -
  have "inj (crc_shift8 ^^ 4)" by (rule inj_fn [OF inj_crc_shift8])
  then have "fold byte_step v c = fold byte_step w c \<longleftrightarrow> (from_le v :: u32) = from_le w"
    by (simp add: fold_byte_step_word assms inj_eq xor_cancel)
  also have "\<dots> \<longleftrightarrow> v = w"
  proof
    assume "(from_le v :: u32) = from_le w"
    then have "mem_le 4 (from_le v :: u32) = mem_le 4 (from_le w :: u32)" by simp
    then show "v = w" using assms by (simp add: mem_le_from_le)
  qed simp
  finally show ?thesis .
qed

lemma fold_byte_step_burst:
  assumes "length v = length w" "length v \<le> 4"
  shows "fold byte_step v c = fold byte_step w c \<longleftrightarrow> v = w"
proof -
  let ?pad = "replicate (4 - length v) 0"
  have "fold byte_step v c = fold byte_step w c \<longleftrightarrow>
      fold byte_step (v @ ?pad) c = fold byte_step (w @ ?pad) c"
    by (simp only: fold_append o_apply fold_byte_step_inj)
  also have "\<dots> \<longleftrightarrow> v = w"
    using assms by (subst fold_byte_step_word_inj) auto
  finally show ?thesis .
qed

section \<open>Properties\<close>

lemma crc32_bitwise_bytes: "crc32_bitwise data p = NOT (fold byte_step data (NOT p))"
proof -
  have "(\<lambda>b crc. (crc_bit ^^ 8) (crc XOR ucast b)) = byte_step"
    by (simp add: fun_eq_iff byte_step_shift crc_shift8_def)
  then show ?thesis by (simp add: crc32_bitwise_def)
qed

lemma bcrc32_bytes: "bcrc32 big buf = NOT (fold byte_step buf (NOT 0))"
  by (simp add: bcrc32_def slice4x16.loop_result)

text \<open>
  C17 (crc32_variants_agree). The table driven and the slicing routines, on either byte
  order, compute what the bitwise routine computes, for every input and every previous
  checksum; this also certifies all the constants of the look-up tables.
\<close>

theorem crc32_variants_agree:
  "crc32_halfbyte data p = crc32_bitwise data p \<and> crc32_1byte data p = crc32_bitwise data p \<and>
   crc32_4bytes big data p = crc32_bitwise data p \<and> crc32_8bytes big data p = crc32_bitwise data p \<and>
   crc32_4x8bytes big data p = crc32_bitwise data p \<and> crc32_16bytes big data p = crc32_bitwise data p \<and>
   crc32_fast big data p = crc32_bitwise data p"
proof -
  have "halfbyte_step = byte_step"
    by (simp add: fun_eq_iff halfbyte_step_shift byte_step_shift)
  then show ?thesis
    by (simp add: crc32_bitwise_bytes crc32_halfbyte_def crc32_1byte_def crc32_4bytes_def crc32_8bytes_def
        crc32_4x8bytes_def crc32_16bytes_def crc32_fast_def slice4.loop_result slice8.loop_result
        slice4x8.loop_result slice4x16.loop_result)
qed

text \<open>
  \<open>bcrc32\<close>, the checksum of a BB01 or BB02 block, is the
  bitwise CRC-32 of the buffer started from a zero previous checksum, on either byte order.
\<close>

theorem bcrc32_is_crc32: "bcrc32 big buf = crc32_bitwise buf 0"
  by (simp only: bcrc32_bytes crc32_bitwise_bytes)

lemma bcrc32_burst:
  "length v = length w \<Longrightarrow> length v \<le> 4 \<Longrightarrow>
   bcrc32 big (xs @ v @ ys) = bcrc32 big (xs @ w @ ys) \<longleftrightarrow> v = w"
  by (simp add: bcrc32_bytes fold_byte_step_inj fold_byte_step_burst)

text \<open>
  Replacing up to four consecutive bytes of a buffer by
  other bytes always changes its \<open>bcrc32\<close>.
\<close>

theorem bcrc32_detects_bursts:
  assumes "length v = length w" and "length v \<le> 4" and "v \<noteq> w"
  shows "bcrc32 big (xs @ v @ ys) \<noteq> bcrc32 big (xs @ w @ ys)"
  using assms by (simp add: bcrc32_burst)

theorem bcrc32_detects_bursts_witness:
  "bcrc32 False ([1, 2, 3] @ [0, 0x10] @ [9]) \<noteq> bcrc32 False ([1, 2, 3] @ [0, 0x11] @ [9])"
  by (rule bcrc32_detects_bursts) simp_all

end
