(* ===== verification/Block_Util.thy ===== *)
theory Block_Util
  imports Media Bcrc32
begin

text \<open>
  Blocks, the unit written to a device: \<^verbatim>\<open>src/bacula/src/stored/block_util.c\<close>.
  Modelled are the creation, duplication and emptying of a block, the block header
  writer and reader with its three format versions, checksum and encryption, the
  padding of a block to the device's block size, and the volume size test.  The
  XXH3 hash and the block cipher are not part of this code and are parameters of it,
  collected with the global variables the code reads in \<open>blk_env\<close>.
  An access outside a buffer is \<open>None\<close>.
\<close>

record blk_env =
  e_big :: bool
  e_xxh :: "u8 list \<Rightarrow> u64"
  e_encrypt :: "u32 \<times> u32 \<times> u32 \<Rightarrow> u8 list \<Rightarrow> u8 list option"
  e_decrypt :: "u32 \<times> u32 \<times> u32 \<Rightarrow> u8 list \<Rightarrow> u8 list option"
  e_forge_on :: bool
  e_verbose :: nat

section \<open>Creating and emptying blocks\<close>

definition is_block_empty :: "dev_block \<Rightarrow> bool" where
  "is_block_empty block =
     (if b_adata block then b_binbuf block \<le> 0 else b_binbuf block \<le> WRITE_BLKHDR_LENGTH)"

definition empty_block :: "dev_block \<Rightarrow> dev_block" where
  "empty_block block =
     (let binbuf = (if b_adata block then 0 else WRITE_BLKHDR_LENGTH)
      in block\<lparr>b_binbuf := binbuf, b_bufp := unat binbuf, b_buf_out_enc := False, b_read_len := 0,
           b_write_failed := False, b_block_read := False, b_needs_write := False,
           b_FirstIndex := 0, b_LastIndex := 0, b_RecNum := 0, b_BlockAddr := 0,
           b_filemedia := [], b_extra_bytes := 0, b_first_block := False\<rparr>)"

text \<open>The contents of freshly allocated memory are arbitrary: \<open>mem n\<close> gives \<open>n\<close> bytes.\<close>

definition new_block :: "(nat \<Rightarrow> u8 list) \<Rightarrow> device \<Rightarrow> u32 \<Rightarrow> dev_block" where
  "new_block mem dev sz =
     (let len = (if d_max_block_size dev = 0 then DEFAULT_BLOCK_SIZE else d_max_block_size dev);
          len = (if sz \<noteq> 0 then sz else len);
          block = \<lparr>b_BlockAddr = 0, b_binbuf = 0, b_block_len = 0, b_buf_len = len, b_reclen = 0,
            b_BlockNumber = 0, b_read_len = 0, b_VolSessionId = 0, b_VolSessionTime = 0,
            b_read_errors = 0, b_CheckSum64 = 0, b_RecNum = 0, b_extra_bytes = 0, b_BlockVer = 0,
            b_write_failed = False, b_block_read = False, b_needs_write = False, b_adata = False,
            b_no_header = False, b_first_block = False, b_FirstIndex = 0, b_LastIndex = 0,
            b_bufp = 0, b_buf = mem (unat len), b_buf_enc = mem (unat len), b_buf_out_enc = False,
            b_filemedia = [], b_blkh_options = (if d_do_checksum dev then BLKHOPT_CHKSUM else 0)\<rparr>;
          block = empty_block block
      in block\<lparr>b_BlockVer := BLOCK_VER\<rparr>)"

text \<open>
  Duplication of a block.  The second component says whether \<^verbatim>\<open>buf_out\<close> of
  the copy points into the copy; otherwise it points into \<^verbatim>\<open>buf_enc\<close> of the
  original.  A \<^verbatim>\<open>bufp\<close> outside the buffer becomes \<^verbatim>\<open>NULL\<close>,
  the third component.
\<close>

definition dup_block :: "dev_block \<Rightarrow> dev_block \<times> bool \<times> bool" where
  "dup_block eblock =
     (let buf_len = length (b_buf eblock);
          block = eblock\<lparr>b_buf_enc := take buf_len (b_buf_enc eblock)\<rparr>
      in (block, \<not> b_buf_out_enc eblock, \<not> b_bufp eblock < buf_len))"

section \<open>The block header\<close>

text \<open>The header fields, in order, and the zero checksum.\<close>

definition ser_header_fields :: "bool \<Rightarrow> u32 \<Rightarrow> u32 \<Rightarrow> dev_block \<Rightarrow> cursor \<Rightarrow> cursor option" where
  "ser_header_fields big hdr_option block_len block c =
     do { c \<leftarrow> serial_uint32 big hdr_option c;
          c \<leftarrow> serial_uint32 big block_len c;
          c \<leftarrow> serial_uint32 big (b_BlockNumber block) c;
          c \<leftarrow> put BLKHDR3_ID c;
          c \<leftarrow> serial_uint32 big (b_VolSessionId block) c;
          c \<leftarrow> serial_uint32 big (b_VolSessionTime block) c;
          serial_uint64 big 0 c }"

text \<open>The XXH3 checksum of the block with a zero checksum field, stored in that field.\<close>

definition store_block_sum :: "blk_env \<Rightarrow> bool \<Rightarrow> u32 \<Rightarrow> dev_block \<Rightarrow> dev_block option" where
  "store_block_sum env do_checksum block_len block =
     (if do_checksum then
        do { (bs, _) \<leftarrow> fetch (unat block_len) (b_buf block, 0);
             let cs = e_xxh env bs;
             (buf, _) \<leftarrow> serial_uint64 (e_big env) cs (b_buf block, BLKHDR_CS64_OFFSET);
             Some (block\<lparr>b_buf := buf, b_CheckSum64 := cs\<rparr>) }
      else Some block)"

text \<open>
  Encryption into \<^verbatim>\<open>buf_enc\<close>: the payload is encrypted, the header copied.
  The cipher returns \<open>None\<close> when it fails, which the code does not test.
\<close>

definition encrypt_payload :: "blk_env \<Rightarrow> bool \<Rightarrow> u32 \<Rightarrow> dev_block \<Rightarrow> dev_block option" where
  "encrypt_payload env do_encrypt_block block_len block =
     (if do_encrypt_block then
        do { (src, _) \<leftarrow> fetch (unat (block_len - of_nat BLKHDR3_LENGTH)) (b_buf block, BLKHDR3_LENGTH);
             enc \<leftarrow>
               (case e_encrypt env (b_BlockNumber block, b_VolSessionId block, b_VolSessionTime block) src of
                  None \<Rightarrow> Some (b_buf_enc block)
                | Some dst \<Rightarrow> map_option fst (put dst (b_buf_enc block, BLKHDR3_LENGTH)));
             (hdr, _) \<leftarrow> fetch BLKHDR3_LENGTH (b_buf block, 0);
             (enc, _) \<leftarrow> put hdr (enc, 0);
             Some (block\<lparr>b_buf_enc := enc, b_buf_out_enc := True\<rparr>) }
      else Some block)"

definition ser_block_header :: "blk_env \<Rightarrow> device \<Rightarrow> dev_block \<Rightarrow> bool \<Rightarrow> (u64 \<times> dev_block) option" where
  "ser_block_header env dev block do_checksum =
     (let big = e_big env;
          block_len = b_binbuf block;
          do_encrypt_vol = (d_volume_encryption dev \<and> d_crypto_device_ctx dev);
          do_encrypt_block = (do_encrypt_vol \<and> \<not> b_first_block block);
          hdr_option = (if do_checksum then BLKHOPT_CHKSUM else 0) OR
                       (if do_encrypt_vol then BLKHOPT_ENCRYPT_VOL else 0) OR
                       (if do_encrypt_block then BLKHOPT_ENCRYPT_BLOCK else 0);
          block = block\<lparr>b_CheckSum64 := 0\<rparr>
      in if b_adata block then
           (if do_checksum then
              do { (bs, _) \<leftarrow> fetch (unat block_len) (b_buf block, 0);
                   let cs = ucast (bcrc32 big bs);
                   Some (cs, block\<lparr>b_CheckSum64 := cs\<rparr>) }
            else Some (0, block))
         else
           do { (buf, _) \<leftarrow> ser_header_fields big hdr_option block_len block (b_buf block, 0);
                block \<leftarrow> store_block_sum env do_checksum block_len (block\<lparr>b_buf := buf\<rparr>);
                let block = block\<lparr>b_buf_out_enc := False\<rparr>;
                block \<leftarrow> encrypt_payload env do_encrypt_block block_len block;
                Some (b_CheckSum64 block, block) })"

text \<open>The bytes \<^verbatim>\<open>buf_out\<close> points to: what is handed to the device.\<close>

definition buf_out :: "dev_block \<Rightarrow> u8 list" where
  "buf_out block = (if b_buf_out_enc block then b_buf_enc block else b_buf block)"

text \<open>
  The tail of the header reader, common to the three versions: the length checks,
  the buffer pointers and the checksum.  \<open>bhl\<close> is the header length and
  \<open>ver3\<close> whether the checksum is the 64 bit one.
\<close>

definition report :: "blk_env \<Rightarrow> dev_block \<Rightarrow> jmsg \<Rightarrow> jmsg list" where
  "report env block m = (if b_read_errors block = 0 \<or> 2 \<le> e_verbose env then [m] else [])"

definition check_block_sums ::
  "blk_env \<Rightarrow> device \<Rightarrow> dev_block \<Rightarrow> u32 \<Rightarrow> bool \<Rightarrow> (bool \<times> dev_block \<times> device \<times> jmsg list) option" where
  "check_block_sums env dev block block_len ver3 =
     (if block_len \<le> b_read_len block \<and> d_do_checksum dev then
        do { cs \<leftarrow>
               (if ver3 then
                  do { (save, _) \<leftarrow> fetch BLKHDR_CS64_LENGTH (b_buf block, BLKHDR_CS64_OFFSET);
                       (buf, _) \<leftarrow> put (replicate BLKHDR_CS64_LENGTH 0) (b_buf block, BLKHDR_CS64_OFFSET);
                       (bs, _) \<leftarrow> fetch (unat block_len) (buf, 0);
                       Some (e_xxh env bs) }
                else
                  do { (bs, _) \<leftarrow> fetch (unat (block_len - of_nat BLKHDR_CS_LENGTH)) (b_buf block, BLKHDR_CS_LENGTH);
                       Some (ucast (bcrc32 (e_big env) bs)) });
             if cs \<noteq> b_CheckSum64 block then
               Some (e_forge_on env, block\<lparr>b_read_errors := b_read_errors block + 1\<rparr>,
                     dev\<lparr>d_dev_errno := EIO\<rparr>, report env block M_ERROR)
             else Some (True, block, dev, []) }
      else Some (True, block, dev, []))"

definition finish_block_header ::
  "blk_env \<Rightarrow> device \<Rightarrow> dev_block \<Rightarrow> u32 \<Rightarrow> u32 \<Rightarrow> nat \<Rightarrow> bool \<Rightarrow>
   (bool \<times> dev_block \<times> device \<times> jmsg list) option" where
  "finish_block_header env dev block block_len BlockNumber bhl ver3 =
     (if MAX_BLOCK_LENGTH < block_len then
        Some (False, block\<lparr>b_read_errors := b_read_errors block + 1\<rparr>,
              dev\<lparr>d_dev_errno := EIO\<rparr>, report env block M_ERROR)
      else
        (let block_end = (if b_read_len block < block_len then b_read_len block else block_len);
             block = block\<lparr>b_binbuf := block_end - of_nat bhl, b_block_len := block_len,
                           b_BlockNumber := BlockNumber\<rparr>
         in check_block_sums env dev block block_len ver3))"

definition decrypt_payload ::
  "blk_env \<Rightarrow> dev_block \<Rightarrow> u32 \<Rightarrow> u32 \<Rightarrow> dev_block option" where
  "decrypt_payload env block block_len BlockNumber =
     do { (src, _) \<leftarrow> fetch (unat (block_len - of_nat BLKHDR3_LENGTH)) (b_buf block, BLKHDR3_LENGTH);
          enc \<leftarrow>
            (case e_decrypt env (BlockNumber, b_VolSessionId block, b_VolSessionTime block) src of
               None \<Rightarrow> Some (b_buf_enc block)
             | Some dst \<Rightarrow> map_option fst (put dst (b_buf_enc block, 0)));
          (dst, _) \<leftarrow> fetch (unat (block_len - of_nat BLKHDR3_LENGTH)) (enc, 0);
          (buf, _) \<leftarrow> put dst (b_buf block, BLKHDR3_LENGTH);
          Some (block\<lparr>b_buf := buf, b_buf_enc := enc\<rparr>) }"

text \<open>The three versions of the header, told apart by the identifier, from the first 16 bytes on.\<close>

definition unser_block_versions ::
  "blk_env \<Rightarrow> device \<Rightarrow> dev_block \<Rightarrow> u32 \<Rightarrow> u32 \<Rightarrow> u32 \<Rightarrow> u8 list \<Rightarrow> cursor \<Rightarrow>
   (bool \<times> dev_block \<times> device \<times> jmsg list) option" where
  "unser_block_versions env dev block CheckSumLo block_len BlockNumber ident c =
     (let big = e_big env
      in if ident = BLKHDR1_ID then
           (let block = block\<lparr>b_BlockVer := 1, b_bufp := BLKHDR1_LENGTH\<rparr>
            in finish_block_header env dev block block_len BlockNumber BLKHDR1_LENGTH False)
         else if ident = BLKHDR2_ID then
           do { (sid, c) \<leftarrow> unserial_uint32 big c;
                (stime, c) \<leftarrow> unserial_uint32 big c;
                let block = block\<lparr>b_VolSessionId := sid, b_VolSessionTime := stime,
                                  b_BlockVer := 2, b_bufp := BLKHDR2_LENGTH\<rparr>;
                finish_block_header env dev block block_len BlockNumber BLKHDR2_LENGTH False }
         else if ident = BLKHDR3_ID then
           do { (sid, c) \<leftarrow> unserial_uint32 big c;
                (stime, c) \<leftarrow> unserial_uint32 big c;
                let block = block\<lparr>b_blkh_options := CheckSumLo,
                                  b_VolSessionId := sid, b_VolSessionTime := stime\<rparr>;
                block \<leftarrow>
                  (if CheckSumLo AND BLKHOPT_ENCRYPT_BLOCK \<noteq> 0 \<and> d_crypto_device_ctx dev
                   then decrypt_payload env block block_len BlockNumber
                   else Some block);
                (cs, c) \<leftarrow> unserial_uint64 big (b_buf block, BLKHDR_CS64_OFFSET);
                let block = block\<lparr>b_CheckSum64 := cs, b_BlockVer := 3, b_bufp := BLKHDR3_LENGTH\<rparr>;
                finish_block_header env dev block block_len BlockNumber BLKHDR3_LENGTH True }
         else
           do { (sid, c) \<leftarrow> unserial_uint32 big c;
                (stime, c) \<leftarrow> unserial_uint32 big c;
                Some (False, block\<lparr>b_read_errors := b_read_errors block + 1,
                                   b_VolSessionId := sid, b_VolSessionTime := stime\<rparr>,
                      dev\<lparr>d_dev_errno := EIO\<rparr>, report env block M_FATAL) })"

definition unser_block_header ::
  "blk_env \<Rightarrow> device \<Rightarrow> dev_block \<Rightarrow> (bool \<times> dev_block \<times> device \<times> jmsg list) option" where
  "unser_block_header env dev block =
     (let big = e_big env
      in if b_adata block then
           (if b_block_len block \<le> b_read_len block \<and> d_do_checksum dev then
              do { (bs, _) \<leftarrow> fetch (unat (b_block_len block)) (b_buf block, 0);
                   if ucast (bcrc32 big bs) \<noteq> b_CheckSum64 block then
                     Some (e_forge_on env, block\<lparr>b_read_errors := b_read_errors block + 1\<rparr>,
                           dev\<lparr>d_dev_errno := EIO\<rparr>, report env block M_ERROR)
                   else Some (True, block, dev, []) }
            else Some (True, block, dev, []))
         else if b_no_header block then Some (True, block, dev, [])
         else
           do { (CheckSumLo, c) \<leftarrow> unserial_uint32 big (b_buf block, 0);
                (block_len, c) \<leftarrow> unserial_uint32 big c;
                (BlockNumber, c) \<leftarrow> unserial_uint32 big c;
                (ident, c) \<leftarrow> fetch 4 c;
                let block = block\<lparr>b_CheckSum64 := ucast CheckSumLo, b_blkh_options := BLKHOPT_NONE\<rparr>;
                unser_block_versions env dev block CheckSumLo block_len BlockNumber ident c })"

section \<open>Length to write and padding\<close>

definition round_up :: "u32 \<Rightarrow> u32 \<Rightarrow> u32" where
  "round_up n m = (n + m - 1) div m * m"

text \<open>
  The result is the length to write, the padding and the block; \<open>None\<close> is the failed
  \<^verbatim>\<open>ASSERT(wlen <= block->buf_len)\<close> or a store outside the buffer.
\<close>

definition get_len_and_clear_block :: "dev_block \<Rightarrow> device \<Rightarrow> (u32 \<times> u32 \<times> dev_block) option" where
  "get_len_and_clear_block block dev =
     (let wlen = b_binbuf block
      in if wlen \<noteq> b_buf_len block then
           (let wlen =
                  (if d_is_tape dev \<or> b_adata block then
                     (if d_min_block_size dev = d_max_block_size dev then b_buf_len block
                      else if wlen < d_min_block_size dev then round_up (d_min_block_size dev) TAPE_BSIZE
                      else round_up wlen TAPE_BSIZE)
                   else wlen);
                wlen = (if b_adata block \<and> 0 < d_padding_size dev
                        then round_up wlen (d_padding_size dev) else wlen)
            in if wlen \<le> b_buf_len block then
                 do { block \<leftarrow>
                        (if 0 < wlen - b_binbuf block then
                           do { (buf, _) \<leftarrow> put (replicate (unat (wlen - b_binbuf block)) 0) (b_buf block, b_bufp block);
                                Some (block\<lparr>b_buf := buf\<rparr>) }
                         else Some block);
                      Some (wlen, wlen - b_binbuf block, block) }
               else None)
         else Some (wlen, 0, block))"

section \<open>The user's limit on the size of a Volume\<close>

definition is_user_volume_size_reached :: "(device \<Rightarrow> bool) \<Rightarrow> device \<Rightarrow> dev_block \<Rightarrow> dev_block \<Rightarrow> bool" where
  "is_user_volume_size_reached is_pool_size_reached dev ameta_block adata_block =
     (let size = (if d_is_aligned dev
                  then d_VolCatBytes dev + ucast (b_buf_len ameta_block) + ucast (b_buf_len adata_block)
                  else d_VolCatBytes dev + ucast (b_binbuf ameta_block));
          hit_max1 = (0 < d_max_volume_size dev \<and> d_max_volume_size dev \<le> size);
          hit_max2 = (0 < d_VolCatMaxBytes dev \<and> d_VolCatMaxBytes dev \<le> size)
      in if hit_max1 \<or> hit_max2 then True else is_pool_size_reached dev)"

section \<open>The image of a block on the media\<close>

text \<open>What a BB03 block looks like on the media: the header fields and the payload.\<close>

definition block_image :: "u32 \<Rightarrow> u32 \<Rightarrow> u32 \<Rightarrow> u32 \<Rightarrow> u32 \<Rightarrow> u64 \<Rightarrow> u8 list \<Rightarrow> u8 list" where
  "block_image opts len num sid stime cs payload =
     be_bytes 4 opts @ be_bytes 4 len @ be_bytes 4 num @ BLKHDR3_ID @ be_bytes 4 sid @
     be_bytes 4 stime @ be_bytes 8 cs @ payload"

lemma length_BLKHDR_ID [simp]:
  "length BLKHDR1_ID = 4" "length BLKHDR2_ID = 4" "length BLKHDR3_ID = 4"
  by (simp_all add: BLKHDR1_ID_def BLKHDR2_ID_def BLKHDR3_ID_def)

lemma BLKHDR_ID_distinct [simp]:
  "BLKHDR3_ID \<noteq> BLKHDR1_ID" "BLKHDR3_ID \<noteq> BLKHDR2_ID" "BLKHDR2_ID \<noteq> BLKHDR1_ID"
  by (simp_all add: BLKHDR1_ID_def BLKHDR2_ID_def BLKHDR3_ID_def)

lemma length_block_image [simp]:
  "length (block_image opts len num sid stime cs payload) = 32 + length payload"
  by (simp add: block_image_def)

lemma ser_header_fields_put:
  "ser_header_fields big opts len block c =
   put (block_image opts len (b_BlockNumber block) (b_VolSessionId block) (b_VolSessionTime block) 0 []) c"
proof -
  have *: "put xs c \<bind> (\<lambda>c. put ys c \<bind> f) = put (xs @ ys) c \<bind> f" for xs ys c f
    by (simp add: put_put [symmetric])
  show ?thesis
    by (simp add: ser_header_fields_def uint32.ser_be uint64.ser_be block_image_def * put_put)
qed

lemma block_image_set_cs:
  "buf_write (block_image opts len num sid stime cs payload) 24 (be_bytes 8 cs') =
   block_image opts len num sid stime cs' payload"
  by (simp add: block_image_def buf_write_append_right buf_write_append_left buf_write_all)

lemma block_image_append:
  "block_image opts len num sid stime cs payload @ rest = block_image opts len num sid stime cs (payload @ rest)"
  by (simp add: block_image_def)

lemma block_image_payload:
  "buf_slice (block_image opts len num sid stime cs payload) 32 n = buf_slice payload 0 n"
  by (simp add: block_image_def)

lemma block_image_write_payload:
  "length bs \<le> length payload \<Longrightarrow>
   buf_write (block_image opts len num sid stime cs payload) 32 bs =
   block_image opts len num sid stime cs (buf_write payload 0 bs)"
  by (simp add: block_image_def buf_write_append_right)

section \<open>What the header writer produces\<close>

definition encrypts :: "device \<Rightarrow> dev_block \<Rightarrow> bool" where
  "encrypts dev block \<longleftrightarrow> d_volume_encryption dev \<and> d_crypto_device_ctx dev \<and> \<not> b_first_block block"

definition hdr_options :: "device \<Rightarrow> dev_block \<Rightarrow> bool \<Rightarrow> u32" where
  "hdr_options dev block ck =
     (if ck then BLKHOPT_CHKSUM else 0) OR
     (if d_volume_encryption dev \<and> d_crypto_device_ctx dev then BLKHOPT_ENCRYPT_VOL else 0) OR
     (if encrypts dev block then BLKHOPT_ENCRYPT_BLOCK else 0)"

definition block_payload :: "dev_block \<Rightarrow> u8 list" where
  "block_payload block = buf_slice (b_buf block) 32 (unat (b_binbuf block) - 32)"

definition block_sum :: "blk_env \<Rightarrow> device \<Rightarrow> dev_block \<Rightarrow> bool \<Rightarrow> u64" where
  "block_sum env dev block ck =
     (if ck then e_xxh env (block_image (hdr_options dev block ck) (b_binbuf block) (b_BlockNumber block)
                             (b_VolSessionId block) (b_VolSessionTime block) 0 (block_payload block))
      else 0)"

definition block_iv :: "dev_block \<Rightarrow> u32 \<times> u32 \<times> u32" where
  "block_iv block = (b_BlockNumber block, b_VolSessionId block, b_VolSessionTime block)"

text \<open>The payload as it goes to the device, when the cipher keeps the length.\<close>

definition sent_payload :: "blk_env \<Rightarrow> device \<Rightarrow> dev_block \<Rightarrow> u8 list" where
  "sent_payload env dev block =
     (if encrypts dev block then the (e_encrypt env (block_iv block) (block_payload block))
      else block_payload block)"

text \<open>A block that is ready to be written.\<close>

definition writable_block :: "dev_block \<Rightarrow> bool" where
  "writable_block block \<longleftrightarrow>
     \<not> b_adata block \<and> 32 \<le> unat (b_binbuf block) \<and> unat (b_binbuf block) \<le> length (b_buf block)"

definition cipher_ok :: "blk_env \<Rightarrow> device \<Rightarrow> dev_block \<Rightarrow> bool" where
  "cipher_ok env dev block \<longleftrightarrow>
     (encrypts dev block \<longrightarrow>
      unat (b_binbuf block) \<le> length (b_buf_enc block) \<and>
      (case e_encrypt env (block_iv block) (block_payload block) of
         None \<Rightarrow> False
       | Some dst \<Rightarrow> length dst = length (block_payload block) \<and>
                     e_decrypt env (block_iv block) dst = Some (block_payload block)))"

lemma length_block_payload:
  "writable_block block \<Longrightarrow> length (block_payload block) = unat (b_binbuf block) - 32"
  by (simp add: writable_block_def block_payload_def)

lemma length_sent_payload:
  "writable_block block \<Longrightarrow> cipher_ok env dev block \<Longrightarrow>
   length (sent_payload env dev block) = unat (b_binbuf block) - 32"
  by (auto simp: sent_payload_def cipher_ok_def length_block_payload split: option.splits)

lemma header_put:
  assumes "32 \<le> length buf"
  shows "put (block_image opts len num sid stime cs []) (buf, 0) =
         Some (block_image opts len num sid stime cs (drop 32 buf), 32)"
  using assms by (simp add: put_def buf_write_def block_image_append)

lemma drop_header_payload:
  assumes "writable_block block"
  shows "drop 32 (b_buf block) = block_payload block @ drop (unat (b_binbuf block)) (b_buf block)"
proof -
  have "drop 32 (b_buf block) = take (unat (b_binbuf block) - 32) (drop 32 (b_buf block)) @
        drop (unat (b_binbuf block) - 32) (drop 32 (b_buf block))"
    by (rule append_take_drop_id [symmetric])
  then show ?thesis
    using assms by (simp add: block_payload_def buf_slice_def writable_block_def)
qed

text \<open>A length field as the code passes it to the cipher.\<close>

lemma unat_payload_len: "32 \<le> unat l \<Longrightarrow> unat (l - 32) = unat l - 32" for l :: u32
  by (simp add: unat_sub u32_le)

lemma store_block_sum_image:
  assumes "b_buf block = block_image opts len num sid stime 0 (payload @ rest)"
    and "unat n = 32 + length payload" and "b_CheckSum64 block = 0"
    and "cs = (if ck then e_xxh env (block_image opts len num sid stime 0 payload) else 0)"
  shows "store_block_sum env ck n block =
    Some (block\<lparr>b_buf := block_image opts len num sid stime cs (payload @ rest), b_CheckSum64 := cs\<rparr>)"
proof -
  have "buf_slice (block_image opts len num sid stime 0 (payload @ rest)) 0 (unat n) =
      block_image opts len num sid stime 0 payload"
    using assms(2) by (simp flip: block_image_append)
  then show ?thesis
    using assms
    by (simp add: store_block_sum_def fetch_def uint64.ser_ok BLKHDR_CS64_OFFSET_def block_image_set_cs Let_def)
qed

lemma encrypt_payload_image:
  assumes "b_buf block = block_image opts len num sid stime cs (payload @ rest)"
    and "unat n = 32 + length payload" and "unat n \<le> length (b_buf_enc block)"
    and "e_encrypt env (b_BlockNumber block, b_VolSessionId block, b_VolSessionTime block) payload = Some dst"
    and "length dst = length payload"
  shows "encrypt_payload env True n block =
    Some (block\<lparr>b_buf_enc := block_image opts len num sid stime cs (dst @ drop (unat n) (b_buf_enc block)),
                b_buf_out_enc := True\<rparr>)"
proof -
  have hdr: "buf_slice (b_buf block) 0 32 = block_image opts len num sid stime cs []"
    using assms(1) by (simp add: block_image_def buf_slice_def)
  have src: "buf_slice (b_buf block) 32 (unat n - 32) = payload"
    using assms(1,2) by (simp add: block_image_payload)
  have "buf_write (buf_write (b_buf_enc block) 32 dst) 0 (block_image opts len num sid stime cs []) =
      block_image opts len num sid stime cs (dst @ drop (unat n) (b_buf_enc block))"
    using assms(2,3,5) by (simp add: buf_write_def block_image_append ac_simps)
  moreover have "unat (n - 32) = length payload"
    using assms(2) by (simp add: unat_payload_len)
  ultimately show ?thesis
    using assms hdr src
    by (simp add: encrypt_payload_def fetch_def put_def BLKHDR3_LENGTH_def)
qed

text \<open>The block between the checksum and the encryption.\<close>

definition summed_block :: "blk_env \<Rightarrow> device \<Rightarrow> dev_block \<Rightarrow> bool \<Rightarrow> dev_block" where
  "summed_block env dev block ck =
     block\<lparr>b_buf := block_image (hdr_options dev block ck) (b_binbuf block) (b_BlockNumber block)
               (b_VolSessionId block) (b_VolSessionTime block) (block_sum env dev block ck)
               (block_payload block @ drop (unat (b_binbuf block)) (b_buf block)),
           b_CheckSum64 := block_sum env dev block ck, b_buf_out_enc := False\<rparr>"

lemma ser_block_header_eq:
  assumes wb: "writable_block block"
  shows "ser_block_header env dev block ck =
    encrypt_payload env (encrypts dev block) (b_binbuf block) (summed_block env dev block ck)
      \<bind> (\<lambda>b. Some (b_CheckSum64 b, b))"
proof -
  let ?n = "unat (b_binbuf block)"
  let ?img = "block_image (hdr_options dev block ck) (b_binbuf block) (b_BlockNumber block)
      (b_VolSessionId block) (b_VolSessionTime block)"
  let ?rest = "drop ?n (b_buf block)" and ?cs = "block_sum env dev block ck"
  let ?b1 = "block\<lparr>b_CheckSum64 := 0, b_buf := ?img 0 (block_payload block @ ?rest)\<rparr>"
  have len: "32 \<le> ?n" "?n \<le> length (b_buf block)" and ad: "\<not> b_adata block"
    using wb by (auto simp: writable_block_def)
  have pl: "?n = 32 + length (block_payload block)"
    using wb len(1) by (simp add: length_block_payload)
  have "store_block_sum env ck (b_binbuf block) ?b1 =
      Some (?b1\<lparr>b_buf := ?img ?cs (block_payload block @ ?rest), b_CheckSum64 := ?cs\<rparr>)"
    by (rule store_block_sum_image) (use pl in \<open>auto simp: block_sum_def\<close>)
  then show ?thesis
    using len ad drop_header_payload [OF wb]
    by (simp add: ser_block_header_def ser_header_fields_put header_put hdr_options_def encrypts_def
        summed_block_def Let_def)
qed

lemma ser_block_header_plain:
  assumes "writable_block block" and "\<not> encrypts dev block"
  shows "ser_block_header env dev block ck = Some (block_sum env dev block ck, summed_block env dev block ck)"
  using assms by (simp add: ser_block_header_eq encrypt_payload_def) (simp add: summed_block_def)

lemma ser_block_header_image:
  assumes wb: "writable_block block" and ci: "cipher_ok env dev block"
  shows "\<exists>block'. ser_block_header env dev block ck = Some (block_sum env dev block ck, block') \<and>
     take (unat (b_binbuf block)) (buf_out block') =
       block_image (hdr_options dev block ck) (b_binbuf block) (b_BlockNumber block) (b_VolSessionId block)
         (b_VolSessionTime block) (block_sum env dev block ck) (sent_payload env dev block)"
proof -
  let ?n = "unat (b_binbuf block)" and ?b2 = "summed_block env dev block ck" and ?cs = "block_sum env dev block ck"
  let ?img = "block_image (hdr_options dev block ck) (b_binbuf block) (b_BlockNumber block)
      (b_VolSessionId block) (b_VolSessionTime block)"
  have pl: "?n = 32 + length (block_payload block)"
    using wb by (simp add: length_block_payload writable_block_def)
  show ?thesis
  proof (cases "encrypts dev block")
    case False
    then show ?thesis
      using pl ser_block_header_plain [OF wb False]
      by (simp add: summed_block_def buf_out_def sent_payload_def block_image_append [symmetric])
  next
    case True
    then obtain dst where dst: "e_encrypt env (block_iv block) (block_payload block) = Some dst"
      "length dst = length (block_payload block)" "?n \<le> length (b_buf_enc block)"
      using ci by (auto simp: cipher_ok_def split: option.splits)
    have "encrypt_payload env True (b_binbuf block) ?b2 =
        Some (?b2\<lparr>b_buf_enc := ?img ?cs (dst @ drop ?n (b_buf_enc ?b2)), b_buf_out_enc := True\<rparr>)"
      by (rule encrypt_payload_image) (use pl dst in \<open>auto simp: block_iv_def summed_block_def\<close>)
    then show ?thesis
      using True pl dst
      by (simp add: ser_block_header_eq [OF wb] buf_out_def sent_payload_def summed_block_def
          block_image_append [symmetric])
  qed
qed

text \<open>
  When a block is encrypted, the bytes after its data in the buffer handed to
  the device are those \<^verbatim>\<open>buf_enc\<close> held before: the padding that
  \<open>get_len_and_clear_block\<close> cleared in \<^verbatim>\<open>buf\<close> is not what is written.
\<close>

theorem encrypted_padding_kept:
  assumes "writable_block block" and "cipher_ok env dev block" and "encrypts dev block"
    and "ser_block_header env dev block ck = Some (cs, block')"
  shows "drop (unat (b_binbuf block)) (buf_out block') = drop (unat (b_binbuf block)) (b_buf_enc block)"
proof -
  let ?n = "unat (b_binbuf block)" and ?b2 = "summed_block env dev block ck" and ?cs = "block_sum env dev block ck"
  let ?img = "block_image (hdr_options dev block ck) (b_binbuf block) (b_BlockNumber block)
      (b_VolSessionId block) (b_VolSessionTime block)"
  have pl: "?n = 32 + length (block_payload block)"
    using assms(1) by (simp add: length_block_payload writable_block_def)
  obtain dst where dst: "e_encrypt env (block_iv block) (block_payload block) = Some dst"
    "length dst = length (block_payload block)" "?n \<le> length (b_buf_enc block)"
    using assms(2,3) by (auto simp: cipher_ok_def split: option.splits)
  have "encrypt_payload env True (b_binbuf block) ?b2 =
      Some (?b2\<lparr>b_buf_enc := ?img ?cs (dst @ drop ?n (b_buf_enc ?b2)), b_buf_out_enc := True\<rparr>)"
    by (rule encrypt_payload_image) (use pl dst in \<open>auto simp: block_iv_def summed_block_def\<close>)
  then have "buf_out block' = ?img ?cs dst @ drop ?n (b_buf_enc block)"
    using assms(3,4)
    by (auto simp: ser_block_header_eq [OF assms(1)] buf_out_def summed_block_def block_image_append)
  then show ?thesis using pl dst(2) by simp
qed

section \<open>What the header reader makes of an image\<close>

lemma image_fields:
  fixes opts len num sid stime cs payload
  defines "img \<equiv> block_image opts len num sid stime cs payload"
  shows "unserial_uint32 big (img, 0) = Some (opts, (img, 4))"
    and "unserial_uint32 big (img, 4) = Some (len, (img, 8))"
    and "unserial_uint32 big (img, 8) = Some (num, (img, 12))"
    and "fetch 4 (img, 12) = Some (BLKHDR3_ID, (img, 16))"
    and "unserial_uint32 big (img, 16) = Some (sid, (img, 20))"
    and "unserial_uint32 big (img, 20) = Some (stime, (img, 24))"
    and "unserial_uint64 big (img, 24) = Some (cs, (img, 32))"
  unfolding img_def
  by (simp_all add: block_image_def uint32.unser_be uint64.unser_be fetch_def from_be_be_bytes)

lemma decrypt_payload_image:
  assumes "b_buf block = block_image opts len num sid stime cs (sent @ rest)"
    and "unat len = 32 + length sent" and "length sent \<le> length (b_buf_enc block)"
    and "e_decrypt env (num, b_VolSessionId block, b_VolSessionTime block) sent = Some plain"
    and "length plain = length sent"
  shows "decrypt_payload env block len num =
    Some (block\<lparr>b_buf := block_image opts len num sid stime cs (plain @ rest),
                b_buf_enc := buf_write (b_buf_enc block) 0 plain\<rparr>)"
proof -
  have "unat (len - 32) = length sent"
    using assms(2) by (simp add: unat_payload_len)
  moreover have "buf_slice (buf_write (b_buf_enc block) 0 plain) 0 (length sent) = plain"
    using assms(3,5) by (simp add: buf_slice_write_n)
  moreover have "buf_write (block_image opts len num sid stime cs (sent @ rest)) 32 plain =
      block_image opts len num sid stime cs (plain @ rest)"
    using assms(5) by (simp add: block_image_write_payload buf_write_append_left buf_write_all)
  ultimately show ?thesis
    using assms
    by (simp add: decrypt_payload_def fetch_def put_def BLKHDR3_LENGTH_def block_image_payload)
qed

lemma check_block_sums_image:
  assumes "b_buf block = block_image opts len num sid stime cs (plain @ rest)"
    and "unat len = 32 + length plain" and "b_CheckSum64 block = cs"
    and "d_do_checksum dev \<Longrightarrow> cs = e_xxh env (block_image opts len num sid stime 0 plain)"
  shows "check_block_sums env dev block len True = Some (True, block, dev, [])"
proof -
  let ?img = "block_image opts len num sid stime"
  have z: "replicate 8 0 = be_bytes 8 (0 :: u64)"
    by (simp add: be_bytes_def mem_le_def eval_nat_numeral)
  have "buf_slice (?img 0 (plain @ rest)) 0 (unat len) = ?img 0 plain"
    using assms(2) by (simp flip: block_image_append)
  then show ?thesis
    using assms
    by (simp add: check_block_sums_def fetch_def put_def media_lengths z block_image_set_cs)
qed

lemma unser_block_header_image:
  assumes "\<not> b_adata block" "\<not> b_no_header block"
    and buf: "b_buf block = block_image opts len num sid stime cs (sent @ rest)"
    and len: "unat len = 32 + length sent" "len \<le> MAX_BLOCK_LENGTH" "len \<le> b_read_len block"
    and plain: "length plain = length sent"
      "if opts AND BLKHOPT_ENCRYPT_BLOCK \<noteq> 0 \<and> d_crypto_device_ctx dev
       then e_decrypt env (num, sid, stime) sent = Some plain \<and> length sent \<le> length (b_buf_enc block)
       else plain = sent"
    and ck: "d_do_checksum dev \<Longrightarrow> cs = e_xxh env (block_image opts len num sid stime 0 plain)"
  shows "\<exists>enc. unser_block_header env dev block =
    Some (True, block\<lparr>b_blkh_options := opts, b_VolSessionId := sid, b_VolSessionTime := stime,
                b_buf := block_image opts len num sid stime cs (plain @ rest), b_buf_enc := enc,
                b_CheckSum64 := cs, b_BlockVer := 3, b_bufp := 32, b_binbuf := len - 32, b_block_len := len,
                b_BlockNumber := num\<rparr>, dev, [])"
proof -
  let ?b1 = "block\<lparr>b_CheckSum64 := ucast opts, b_blkh_options := opts, b_VolSessionId := sid, b_VolSessionTime := stime\<rparr>"
  obtain enc where dec: "(if opts AND BLKHOPT_ENCRYPT_BLOCK \<noteq> 0 \<and> d_crypto_device_ctx dev
        then decrypt_payload env ?b1 len num else Some ?b1) =
      Some (?b1\<lparr>b_buf := block_image opts len num sid stime cs (plain @ rest), b_buf_enc := enc\<rparr>)"
  proof (cases "opts AND BLKHOPT_ENCRYPT_BLOCK \<noteq> 0 \<and> d_crypto_device_ctx dev")
    case True
    then have "decrypt_payload env ?b1 len num =
        Some (?b1\<lparr>b_buf := block_image opts len num sid stime cs (plain @ rest),
                   b_buf_enc := buf_write (b_buf_enc ?b1) 0 plain\<rparr>)"
      using plain len buf by (intro decrypt_payload_image) auto
    with True that show ?thesis by auto
  next
    case False
    with that [of "b_buf_enc block"] plain buf show ?thesis by simp
  qed
  let ?b3 = "block\<lparr>b_blkh_options := opts, b_VolSessionId := sid, b_VolSessionTime := stime,
                b_buf := block_image opts len num sid stime cs (plain @ rest), b_buf_enc := enc,
                b_CheckSum64 := cs, b_BlockVer := 3, b_bufp := 32, b_binbuf := len - 32, b_block_len := len,
                b_BlockNumber := num\<rparr>"
  have "check_block_sums env dev ?b3 len True = Some (True, ?b3, dev, [])"
    using len(1) plain(1) ck
    by (intro check_block_sums_image [of _ opts len num sid stime cs plain rest]) auto
  then show ?thesis
    using assms(1,2) len buf dec leD [OF len(2)] leD [OF len(3)]
    by (intro exI [of _ enc])
      (simp add: unser_block_header_def unser_block_versions_def image_fields finish_block_header_def BLKHDR3_LENGTH_def
        BLKHDR_CS64_OFFSET_def Let_def)
qed

section \<open>Properties of the header code\<close>

lemma hdr_options_encrypt: "hdr_options dev block ck AND BLKHOPT_ENCRYPT_BLOCK \<noteq> 0 \<longleftrightarrow> encrypts dev block"
  by (simp add: hdr_options_def BLKHOPT_CHKSUM_def BLKHOPT_ENCRYPT_VOL_def BLKHOPT_ENCRYPT_BLOCK_def)

text \<open>
  C9 (block_header_roundtrip). A block passed through \<open>ser_block_header\<close> and read back by
  \<open>unser_block_header\<close>, possibly on another device and on a host of the same or the other
  byte order, is accepted without message, with the block number, the session, the length, the
  checksum and the data of the block that was written.  The cipher is assumed to invert
  itself on this payload and keep its length; a reader that verifies checksums needs a
  writer that stores them.
\<close>

theorem block_header_roundtrip:
  assumes "writable_block block" and "cipher_ok env wdev block" and "b_binbuf block \<le> MAX_BLOCK_LENGTH"
    and ser: "ser_block_header env wdev block ck = Some (cs, wblock)"
    and "\<not> b_adata rblock" and "\<not> b_no_header rblock" and "b_binbuf block \<le> b_read_len rblock"
    and same: "take (unat (b_binbuf block)) (b_buf rblock) = take (unat (b_binbuf block)) (buf_out wblock)"
    and enc: "unat (b_binbuf block) \<le> length (b_buf_enc rblock)"
    and "encrypts wdev block \<Longrightarrow> d_crypto_device_ctx rdev" and "d_do_checksum rdev \<Longrightarrow> ck"
  shows "\<exists>b'. unser_block_header (env\<lparr>e_big := rbig\<rparr>) rdev rblock = Some (True, b', rdev, []) \<and>
     b_BlockNumber b' = b_BlockNumber block \<and> b_VolSessionId b' = b_VolSessionId block \<and>
     b_VolSessionTime b' = b_VolSessionTime block \<and> b_block_len b' = b_binbuf block \<and>
     b_CheckSum64 b' = cs \<and> b_bufp b' = 32 \<and> b_binbuf b' = b_binbuf block - 32 \<and>
     buf_slice (b_buf b') 32 (unat (b_binbuf block) - 32) = buf_slice (b_buf block) 32 (unat (b_binbuf block) - 32)"
proof -
  let ?n = "unat (b_binbuf block)" and ?rest = "drop (unat (b_binbuf block)) (b_buf rblock)"
  let ?sent = "sent_payload env wdev block" and ?opts = "hdr_options wdev block ck"
  let ?img = "block_image ?opts (b_binbuf block) (b_BlockNumber block) (b_VolSessionId block)
      (b_VolSessionTime block)"
  have out: "take ?n (buf_out wblock) = ?img cs ?sent" and cs: "cs = block_sum env wdev block ck"
    using ser_block_header_image [OF assms(1,2), of ck] unfolding ser by (simp_all only: option.inject prod.inject) blast+
  have len: "?n = 32 + length ?sent" "length (block_payload block) = length ?sent"
    using assms(1) length_sent_payload [OF assms(1,2)] length_block_payload [OF assms(1)]
    by (auto simp: writable_block_def)
  have buf: "b_buf rblock = ?img cs (?sent @ ?rest)"
    using append_take_drop_id [of ?n "b_buf rblock"] same out by (simp add: block_image_append [symmetric])
  have len_enc: "length ?sent \<le> length (b_buf_enc rblock)"
    using enc len(1) by linarith
  have plain: "if ?opts AND BLKHOPT_ENCRYPT_BLOCK \<noteq> 0 \<and> d_crypto_device_ctx rdev
      then e_decrypt (env\<lparr>e_big := rbig\<rparr>) (b_BlockNumber block, b_VolSessionId block, b_VolSessionTime block) ?sent
             = Some (block_payload block) \<and> length ?sent \<le> length (b_buf_enc rblock)
      else block_payload block = ?sent"
  proof (cases "encrypts wdev block")
    case True
    then show ?thesis
      using assms(2,10) len_enc
      by (auto simp: hdr_options_encrypt cipher_ok_def sent_payload_def block_iv_def split: option.splits)
  qed (simp add: hdr_options_encrypt sent_payload_def)
  have ck: "d_do_checksum rdev \<Longrightarrow> cs = e_xxh (env\<lparr>e_big := rbig\<rparr>) (?img 0 (block_payload block))"
    using assms(11) by (simp add: cs block_sum_def)
  from unser_block_header_image [OF assms(5,6) buf len(1) assms(3,7) len(2) plain ck] obtain e where
    "unser_block_header (env\<lparr>e_big := rbig\<rparr>) rdev rblock =
      Some (True, rblock\<lparr>b_blkh_options := ?opts, b_VolSessionId := b_VolSessionId block,
        b_VolSessionTime := b_VolSessionTime block, b_buf := ?img cs (block_payload block @ ?rest), b_buf_enc := e,
        b_CheckSum64 := cs, b_BlockVer := 3, b_bufp := 32, b_binbuf := b_binbuf block - 32,
        b_block_len := b_binbuf block, b_BlockNumber := b_BlockNumber block\<rparr>, rdev, [])"
    by blast
  then show ?thesis
    using len by (simp add: block_image_payload block_payload_def)
qed

text \<open>What acceptance of a block header tells.\<close>

lemma check_block_sums_frame:
  assumes "check_block_sums env dev block len ver3 = Some (r, b', dev', msgs)"
  shows "b' = block \<or> b' = block\<lparr>b_read_errors := b_read_errors block + 1\<rparr>"
  using assms by (auto simp: check_block_sums_def split: if_splits Option.bind_splits prod.splits)

lemma check_block_sums_True:
  assumes "check_block_sums env dev block len True = Some (True, b', dev', msgs)"
    and "len \<le> b_read_len block" "d_do_checksum dev" "\<not> e_forge_on env"
  shows "b' = block \<and> b_CheckSum64 block = e_xxh env (take (unat len) (buf_write (b_buf block) 24 (replicate 8 0)))"
  using assms
  by (auto simp: check_block_sums_def fetch_def put_def media_lengths buf_slice_def
      split: if_splits Option.bind_splits prod.splits)

lemma finish_block_header_True:
  assumes "finish_block_header env dev block len num bhl ver3 = Some (True, b', dev', msgs)"
  shows "len \<le> MAX_BLOCK_LENGTH" and "b_buf b' = b_buf block" and "b_bufp b' = b_bufp block"
    and "b_block_len b' = len" and "b_read_len b' = b_read_len block" and "b_BlockVer b' = b_BlockVer block"
    and "b_binbuf b' = min (b_read_len block) len - of_nat bhl"
    and "ver3 \<Longrightarrow> len \<le> b_read_len block \<Longrightarrow> d_do_checksum dev \<Longrightarrow> \<not> e_forge_on env \<Longrightarrow>
      b_CheckSum64 b' = e_xxh env (take (unat len) (buf_write (b_buf b') 24 (replicate 8 0)))"
proof -
  let ?b = "block\<lparr>b_binbuf := (if b_read_len block < len then b_read_len block else len) - of_nat bhl,
      b_block_len := len, b_BlockNumber := num\<rparr>"
  have le: "len \<le> MAX_BLOCK_LENGTH" and ck: "check_block_sums env dev ?b len ver3 = Some (True, b', dev', msgs)"
    using assms by (auto simp: finish_block_header_def Let_def split: if_splits)
  show "len \<le> MAX_BLOCK_LENGTH" by (rule le)
  note b' = check_block_sums_frame [OF ck]
  show "b_buf b' = b_buf block" "b_bufp b' = b_bufp block" "b_block_len b' = len"
    "b_read_len b' = b_read_len block" "b_BlockVer b' = b_BlockVer block"
    using b' by auto
  show "b_binbuf b' = min (b_read_len block) len - of_nat bhl"
    using b' by (auto simp: min_def)
  show "b_CheckSum64 b' = e_xxh env (take (unat len) (buf_write (b_buf b') 24 (replicate 8 0)))"
    if "ver3" "len \<le> b_read_len block" "d_do_checksum dev" "\<not> e_forge_on env"
    using check_block_sums_True [of env dev ?b len b' dev' msgs] ck that by auto
qed

lemma decrypt_payload_frame:
  assumes "decrypt_payload env block len num = Some b'"
  shows "b_read_len b' = b_read_len block \<and> length (b_buf b') = length (b_buf block)"
  using assms
  by (auto simp: decrypt_payload_def fetch_def put_def split: if_splits Option.bind_splits prod.splits)

lemma unser_block_header_True:
  assumes "\<not> b_adata block" "\<not> b_no_header block"
    and "unser_block_header env dev block = Some (True, b', dev', msgs)"
  obtains b1 len num bhl ver where
    "finish_block_header env dev b1 len num bhl (ver = 3) = Some (True, b', dev', msgs)"
    "b_BlockVer b1 = ver" "b_bufp b1 = bhl" "(ver, bhl) \<in> {(1, 16), (2, 24), (3, 32)}"
    "b_read_len b1 = b_read_len block" "length (b_buf b1) = length (b_buf block)"
proof -
  obtain opts len num ident c where
    un: "unser_block_versions env dev (block\<lparr>b_CheckSum64 := ucast opts, b_blkh_options := BLKHOPT_NONE\<rparr>)
       opts len num ident c = Some (True, b', dev', msgs)"
    using assms by (auto simp: unser_block_header_def Let_def split: Option.bind_splits)
  let ?b0 = "block\<lparr>b_CheckSum64 := ucast opts, b_blkh_options := BLKHOPT_NONE\<rparr>"
  consider "ident = BLKHDR1_ID" | "ident = BLKHDR2_ID" | "ident = BLKHDR3_ID"
    | "ident \<noteq> BLKHDR1_ID" "ident \<noteq> BLKHDR2_ID" "ident \<noteq> BLKHDR3_ID" by blast
  then show ?thesis
  proof cases
    case 1
    with un that [of "?b0\<lparr>b_BlockVer := 1, b_bufp := 16\<rparr>" len num 16 1] show ?thesis
      by (simp add: unser_block_versions_def BLKHDR1_LENGTH_def)
  next
    case 2
    with un obtain sid st where
      "finish_block_header env dev (?b0\<lparr>b_VolSessionId := sid, b_VolSessionTime := st, b_BlockVer := 2, b_bufp := 24\<rparr>)
        len num 24 False = Some (True, b', dev', msgs)"
      by (auto simp: unser_block_versions_def BLKHDR2_LENGTH_def Let_def split: Option.bind_splits)
    with that [of _ len num 24 2] show ?thesis by simp
  next
    case 3
    with un obtain b2 cs where b2: "finish_block_header env dev (b2\<lparr>b_CheckSum64 := cs, b_BlockVer := 3, b_bufp := 32\<rparr>)
        len num 32 True = Some (True, b', dev', msgs)"
      "b_read_len b2 = b_read_len block" "length (b_buf b2) = length (b_buf block)"
      by (auto simp: unser_block_versions_def BLKHDR3_LENGTH_def Let_def dest!: decrypt_payload_frame split: Option.bind_splits if_splits)
    with that [of _ len num 32 3] show ?thesis by simp
  next
    case 4
    with un show ?thesis by (auto simp: unser_block_versions_def Let_def split: Option.bind_splits)
  qed
qed

text \<open>The length and the checksum of an accepted BB03 header are the bytes at offsets 4 and 24 of the block that was read.\<close>

lemma unser_uint32_bytes: "unserial_uint32 big (buf, p) = Some (v, c) \<Longrightarrow> be_bytes 4 v = buf_slice buf p 4 \<and> c = (buf, p + 4)"
  by (auto simp: uint32.unser_be fetch_def be_bytes_from_be split: if_splits)

lemma unser_uint64_bytes: "unserial_uint64 big (buf, p) = Some (v, c) \<Longrightarrow> be_bytes 8 v = buf_slice buf p 8"
  by (auto simp: uint64.unser_be fetch_def be_bytes_from_be split: if_splits)

lemma decrypt_payload_header:
  assumes "decrypt_payload env block len num = Some b'"
  shows "buf_slice (b_buf b') 24 8 = buf_slice (b_buf block) 24 8"
  using assms
  by (auto simp: decrypt_payload_def BLKHDR3_LENGTH_def put_def buf_slice_write_before
      split: if_splits Option.bind_splits prod.splits)

lemma unser_block_header_fields:
  assumes "\<not> b_adata block" "\<not> b_no_header block"
    and "unser_block_header env dev block = Some (True, b', dev', msgs)" and "b_BlockVer b' = 3"
  shows "be_bytes 4 (b_block_len b') = buf_slice (b_buf block) 4 4 \<and> be_bytes 8 (b_CheckSum64 b') = buf_slice (b_buf block) 24 8"
proof -
  obtain opts len num ident c c' where
    un: "unser_block_versions env dev (block\<lparr>b_CheckSum64 := ucast opts, b_blkh_options := BLKHOPT_NONE\<rparr>)
       opts len num ident c = Some (True, b', dev', msgs)"
    and len: "unserial_uint32 (e_big env) (b_buf block, 4) = Some (len, c')"
    using assms(1-3) by (auto simp: unser_block_header_def Let_def dest!: unser_uint32_bytes split: Option.bind_splits)
  let ?b0 = "block\<lparr>b_CheckSum64 := ucast opts, b_blkh_options := BLKHOPT_NONE\<rparr>"
  have "ident = BLKHDR3_ID"
  proof (rule ccontr)
    assume "ident \<noteq> BLKHDR3_ID"
    then have "\<exists>b1 bhl. finish_block_header env dev b1 len num bhl False = Some (True, b', dev', msgs) \<and> b_BlockVer b1 \<noteq> 3"
      using un by (fastforce simp: unser_block_versions_def Let_def split: Option.bind_splits if_splits)
    then show False using finish_block_header_True(6) assms(4) by metis
  qed
  with un obtain b2 cs c2 where b2: "finish_block_header env dev (b2\<lparr>b_CheckSum64 := cs, b_BlockVer := 3, b_bufp := 32\<rparr>)
        len num 32 True = Some (True, b', dev', msgs)"
    and cs: "unserial_uint64 (e_big env) (b_buf b2, 24) = Some (cs, c2)" "buf_slice (b_buf b2) 24 8 = buf_slice (b_buf block) 24 8"
    by (auto simp: unser_block_versions_def BLKHDR3_LENGTH_def BLKHDR_CS64_OFFSET_def Let_def dest!: decrypt_payload_header
        split: Option.bind_splits if_splits)
  have "b_CheckSum64 b' = cs"
    using b2 by (auto simp: finish_block_header_def Let_def dest!: check_block_sums_frame split: if_splits)
  then show ?thesis
    using finish_block_header_True(4) [OF b2] unser_uint32_bytes [OF len] unser_uint64_bytes [OF cs(1)] cs(2) by simp
qed

text \<open>
  C19 (unser_block_header_verified). With checksums on and the forge switch off, a BB03 block whose stated length (the
  bytes at offset 4) was read in full is accepted only if the eight bytes at offset 24 of what was read are the XXH3 hash,
  most significant byte first, of that length of the block, decrypted where it is encrypted, with zeros at offset 24.
\<close>

theorem unser_block_header_verified:
  assumes "\<not> b_adata block" and "\<not> b_no_header block" and "d_do_checksum dev" and "\<not> e_forge_on env"
    and "unser_block_header env dev block = Some (True, b', dev', msgs)"
    and "b_BlockVer b' = 3" and "b_block_len b' \<le> b_read_len b'"
  shows "buf_slice (b_buf block) 4 4 = be_bytes 4 (b_block_len b') \<and> buf_slice (b_buf block) 24 8 =
     be_bytes 8 (e_xxh env (take (unat (b_block_len b')) (buf_write (b_buf b') 24 (replicate 8 0))))"
proof -
  from assms(1,2,5) obtain b1 len num bhl ver where
    f: "finish_block_header env dev b1 len num bhl (ver = 3) = Some (True, b', dev', msgs)" and "b_BlockVer b1 = ver"
    by (rule unser_block_header_True)
  then have "b_CheckSum64 b' = e_xxh env (take (unat (b_block_len b')) (buf_write (b_buf b') 24 (replicate 8 0)))"
    using finish_block_header_True [OF f] assms(3,4,6,7) by simp
  then show ?thesis using unser_block_header_fields [OF assms(1,2,5,6)] by simp
qed

text \<open>
  C20 (unser_block_header_in_bounds). When a header is accepted and both the length it states and the
  number of bytes read cover at least the header itself, the data the reader is told to
  take (\<^verbatim>\<open>binbuf\<close> bytes at \<^verbatim>\<open>bufp\<close>) lies inside the buffer.
\<close>

theorem unser_block_header_in_bounds:
  assumes "\<not> b_adata block" and "\<not> b_no_header block"
    and "unser_block_header env dev block = Some (True, b', dev', msgs)"
    and "unat (b_read_len block) \<le> length (b_buf block)"
    and "b_bufp b' \<le> unat (b_block_len b')" and "b_bufp b' \<le> unat (b_read_len b')"
  shows "b_bufp b' + unat (b_binbuf b') \<le> length (b_buf b') \<and> length (b_buf b') = length (b_buf block)"
proof -
  from assms(1-3) obtain b1 len num bhl ver where
    f: "finish_block_header env dev b1 len num bhl (ver = 3) = Some (True, b', dev', msgs)"
    and b1: "b_BlockVer b1 = ver" "b_bufp b1 = bhl" "(ver, bhl) \<in> {(1, 16), (2, 24), (3, 32)}"
      "b_read_len b1 = b_read_len block" "length (b_buf b1) = length (b_buf block)"
    by (rule unser_block_header_True)
  note fin = finish_block_header_True [OF f]
  have "unat (min (b_read_len block) len - of_nat bhl) = min (unat (b_read_len block)) (unat len) - bhl"
    using b1 fin assms(5,6) by (subst unat_sub) (auto simp: u32_le min_def)
  then show ?thesis
    using b1 fin assms(4-6) by (auto simp: min_def)
qed

text \<open>
  There is no lower bound on the length in a header: with
  checksums off, a BB03 header whose length is below 32 is accepted, and the number of data bytes
  wraps around to nearly \<open>2\<^sup>3\<^sup>2\<close>.
\<close>

theorem unser_block_header_underflow:
  assumes "\<not> b_adata block" and "\<not> b_no_header block" and "\<not> d_do_checksum dev"
    and "b_buf block = block_image 0 len num sid stime cs payload"
    and "unat len < 32" and "len \<le> b_read_len block"
  shows "\<exists>b'. unser_block_header env dev block = Some (True, b', dev, []) \<and>
     b_bufp b' = 32 \<and> unat (b_binbuf b') = 2 ^ 32 - (32 - unat len)"
proof -
  have "\<not> MAX_BLOCK_LENGTH < len"
    using assms(5) by (simp add: MAX_BLOCK_LENGTH_def u32_less)
  moreover have "unat (len - 32) = 2 ^ 32 - (32 - unat len)"
    using assms(5) by (simp add: unat_sub_if' u32_le)
  ultimately show ?thesis
    using assms leD [OF assms(6)]
    by (simp add: unser_block_header_def unser_block_versions_def image_fields finish_block_header_def
        check_block_sums_def media_lengths Let_def)
qed

text \<open>The header of a BB02 block.\<close>

definition block_image2 :: "u32 \<Rightarrow> u32 \<Rightarrow> u32 \<Rightarrow> u32 \<Rightarrow> u32 \<Rightarrow> u8 list \<Rightarrow> u8 list" where
  "block_image2 cs len num sid stime payload =
     be_bytes 4 cs @ be_bytes 4 len @ be_bytes 4 num @ BLKHDR2_ID @ be_bytes 4 sid @ be_bytes 4 stime @ payload"

lemma length_block_image2 [simp]: "length (block_image2 cs len num sid stime payload) = 24 + length payload"
  by (simp add: block_image2_def)

lemma image2_fields:
  fixes cs len num sid stime payload
  defines "img \<equiv> block_image2 cs len num sid stime payload"
  shows "unserial_uint32 big (img, 0) = Some (cs, (img, 4))"
    and "unserial_uint32 big (img, 4) = Some (len, (img, 8))"
    and "unserial_uint32 big (img, 8) = Some (num, (img, 12))"
    and "fetch 4 (img, 12) = Some (BLKHDR2_ID, (img, 16))"
    and "unserial_uint32 big (img, 16) = Some (sid, (img, 20))"
    and "unserial_uint32 big (img, 20) = Some (stime, (img, 24))"
  unfolding img_def
  by (simp_all add: block_image2_def uint32.unser_be fetch_def from_be_be_bytes)

text \<open>Acceptance of a BB02 block with checksums on, as an equation on the CRC.\<close>

lemma unser_block_header_image2:
  assumes "\<not> b_adata block" "\<not> b_no_header block" "d_do_checksum dev"
    and "b_buf block = block_image2 cs len num sid stime (payload @ rest)"
    and "unat len = 24 + length payload" "len \<le> MAX_BLOCK_LENGTH" "len \<le> b_read_len block"
  shows "\<exists>b'. unser_block_header env dev block =
    (if bcrc32 (e_big env) (drop 4 (block_image2 cs len num sid stime payload)) = cs
     then Some (True, b', dev, [])
     else Some (e_forge_on env, b'\<lparr>b_read_errors := b_read_errors block + 1\<rparr>, dev\<lparr>d_dev_errno := EIO\<rparr>,
                report env block M_ERROR))"
proof -
  have l4: "unat (len - 4) = 20 + length payload"
    using assms(5) by (subst unat_sub) (auto simp: u32_le)
  have img: "block_image2 cs len num sid stime (payload @ rest) = block_image2 cs len num sid stime payload @ rest"
    by (simp add: block_image2_def)
  have "buf_slice (b_buf block) 4 (20 + length payload) = drop 4 (block_image2 cs len num sid stime payload)"
    unfolding assms(4) img by (simp add: buf_slice_def)
  moreover have "(ucast x = (ucast y :: u64)) = (x = y)" for x y :: u32
  proof
    have "ucast (ucast z :: u64) = z" for z :: u32
      by (rule bit_word_eqI) (auto simp: bit_simps)
    then show "x = y" if "ucast x = (ucast y :: u64)"
      using that by metis
  qed simp
  moreover let ?b = "block\<lparr>b_CheckSum64 := ucast cs, b_blkh_options := BLKHOPT_NONE, b_VolSessionId := sid,
      b_VolSessionTime := stime, b_BlockVer := 2, b_bufp := 24, b_binbuf := len - 24, b_block_len := len,
      b_BlockNumber := num\<rparr>"
  have "unser_block_header env dev block = check_block_sums env dev ?b len False"
    using assms(1-4) leD [OF assms(6)] leD [OF assms(7)]
    by (simp add: unser_block_header_def unser_block_versions_def image2_fields finish_block_header_def
        BLKHDR2_LENGTH_def Let_def)
  ultimately show ?thesis
    using assms(3,4,5,7) l4
    by (intro exI [of _ ?b]) (simp add: check_block_sums_def fetch_def report_def BLKHDR_CS_LENGTH_def)
qed

text \<open>
  C18 (block_burst_detected). With checksums on and the forge switch off, a BB02 block that was
  accepted is rejected with an I/O error once up to four consecutive bytes of its data are
  changed in any way.
\<close>

theorem block_burst_detected:
  assumes "\<not> b_adata block" and "\<not> b_no_header block" and "d_do_checksum dev" and "\<not> e_forge_on env"
    and "b_buf block = block_image2 cs len num sid stime (xs @ v @ ys @ rest)"
    and "unat len = 24 + length (xs @ v @ ys)" and "len \<le> MAX_BLOCK_LENGTH" and "len \<le> b_read_len block"
    and accepted: "unser_block_header env dev block = Some (True, b', dev', msgs)"
    and "length w = length v" and "length v \<le> 4" and "w \<noteq> v"
  shows "\<exists>b''. unser_block_header env dev
           (block\<lparr>b_buf := block_image2 cs len num sid stime (xs @ w @ ys @ rest)\<rparr>) =
         Some (False, b''\<lparr>b_read_errors := b_read_errors block + 1\<rparr>, dev\<lparr>d_dev_errno := EIO\<rparr>,
               report env block M_ERROR)"
proof -
  let ?crc = "\<lambda>u. bcrc32 (e_big env) (drop 4 (block_image2 cs len num sid stime (xs @ u @ ys)))"
  let ?hd = "be_bytes 4 len @ be_bytes 4 num @ BLKHDR2_ID @ be_bytes 4 sid @ be_bytes 4 stime @ xs"
  have crc: "?crc u = bcrc32 (e_big env) (?hd @ u @ ys)" for u
    by (simp add: block_image2_def)
  have ok: "?crc v = cs"
    using unser_block_header_image2 [of block dev cs len num sid stime "xs @ v @ ys" rest env]
      accepted assms(1-8) by (auto split: if_splits)
  then have "?crc w \<noteq> cs"
    using bcrc32_burst assms(10-12) unfolding crc by metis
  then show ?thesis
    using unser_block_header_image2 [of "block\<lparr>b_buf := block_image2 cs len num sid stime (xs @ w @ ys @ rest)\<rparr>"
        dev cs len num sid stime "xs @ w @ ys" rest env] assms(1-8,10) by (simp add: report_def)
qed

section \<open>Properties of the other block routines\<close>

lemma round_up_bounds:
  assumes "0 < m" and "unat n + unat m \<le> 2 ^ 32"
  shows "unat n \<le> unat (round_up n m)" and "unat (round_up n m) < unat n + unat m"
    and "unat m dvd unat (round_up n m)"
    and "\<And>k. unat m dvd k \<Longrightarrow> unat n \<le> k \<Longrightarrow> unat (round_up n m) \<le> k"
proof -
  let ?q = "(unat n + unat m - 1) div unat m"
  have m: "0 < unat m" using assms(1) by (simp add: word_less_nat_alt)
  have s: "unat (n + m - 1) = unat n + unat m - 1"
  proof -
    have "unat (m - 1) = unat m - 1"
      using m by (subst unat_sub) (auto simp: u32_le)
    then have "unat (n + (m - 1)) = unat n + (unat m - 1)"
      using assms(2) m by (subst unat_add_lt) auto
    then show ?thesis using m by (simp add: algebra_simps)
  qed
  have le: "?q * unat m \<le> unat n + unat m - 1"
    by simp
  have lt: "unat n + unat m - 1 < ?q * unat m + unat m"
    using m mod_less_divisor [of "unat m" "unat n + unat m - 1"] div_mult_mod_eq [of "unat n + unat m - 1" "unat m"]
    by linarith
  have r: "unat (round_up n m) = ?q * unat m"
  proof -
    have "unat (round_up n m) = ?q * unat m mod 2 ^ 32"
      by (simp add: round_up_def unat_word_ariths unat_div s mod_mult_left_eq)
    also have "\<dots> = ?q * unat m"
      using le assms(2) m by (intro mod_less) linarith
    finally show ?thesis .
  qed
  show "unat n \<le> unat (round_up n m)" "unat (round_up n m) < unat n + unat m"
    using r le lt m by linarith+
  show "unat m dvd unat (round_up n m)" by (simp add: r)
  show "unat (round_up n m) \<le> k" if k: "unat m dvd k" "unat n \<le> k" for k
  proof -
    obtain j where j: "k = unat m * j" using k(1) by blast
    have "?q * unat m < unat m * j + unat m"
      using le k(2) j m by linarith
    also have "\<dots> = (j + 1) * unat m" by simp
    finally have "?q < j + 1" using mult_less_cancel2 by blast
    then show ?thesis using r j by (simp add: mult.commute)
  qed
qed

text \<open>A buffered block: the buffer has its length and the write position is \<^verbatim>\<open>binbuf\<close>.\<close>

definition block_inv :: "dev_block \<Rightarrow> bool" where
  "block_inv block \<longleftrightarrow>
     length (b_buf block) = unat (b_buf_len block) \<and> b_bufp block = unat (b_binbuf block) \<and>
     b_binbuf block \<le> b_buf_len block"

text \<open>The length chosen, without the padding of aligned data.\<close>

definition padded_len :: "dev_block \<Rightarrow> device \<Rightarrow> u32" where
  "padded_len block dev =
     (if b_binbuf block = b_buf_len block \<or> \<not> d_is_tape dev then b_binbuf block
      else if d_min_block_size dev = d_max_block_size dev then b_buf_len block
      else if b_binbuf block < d_min_block_size dev then round_up (d_min_block_size dev) TAPE_BSIZE
      else round_up (b_binbuf block) TAPE_BSIZE)"

lemma padded_len_bounds:
  assumes "b_binbuf block \<le> b_buf_len block" and "b_buf_len block \<le> MAX_BLOCK_LENGTH"
    and "d_min_block_size dev \<le> b_buf_len block" and "unat TAPE_BSIZE dvd unat (b_buf_len block)"
  shows "b_binbuf block \<le> padded_len block dev" and "padded_len block dev \<le> b_buf_len block"
proof -
  have sz: "unat x + unat TAPE_BSIZE \<le> 2 ^ 32" if "x \<le> b_buf_len block" for x
    using that assms(2) by (simp add: u32_le MAX_BLOCK_LENGTH_def TAPE_BSIZE_def)
  have pos: "0 < TAPE_BSIZE" by (simp add: TAPE_BSIZE_def)
  note up = round_up_bounds [OF pos sz]
  show "b_binbuf block \<le> padded_len block dev"
    using assms(1) up(1) [OF assms(1)] up(1) [OF assms(3)]
    by (auto simp: padded_len_def u32_le u32_less)
  show "padded_len block dev \<le> b_buf_len block"
    using assms up(4) [OF assms(1) assms(4)] up(4) [OF assms(3) assms(4)]
    by (auto simp: padded_len_def u32_le)
qed

lemma padded_len_tape:
  assumes "d_is_tape dev" and "b_binbuf block \<le> b_buf_len block" and "b_buf_len block \<le> MAX_BLOCK_LENGTH"
    and "d_min_block_size dev \<le> b_buf_len block" and "unat TAPE_BSIZE dvd unat (b_buf_len block)"
  shows "unat TAPE_BSIZE dvd unat (padded_len block dev)"
proof -
  have "unat x + unat TAPE_BSIZE \<le> 2 ^ 32" if "x \<le> b_buf_len block" for x
    using that assms(3) by (simp add: u32_le MAX_BLOCK_LENGTH_def TAPE_BSIZE_def)
  moreover have "0 < TAPE_BSIZE" by (simp add: TAPE_BSIZE_def)
  ultimately show ?thesis
    using round_up_bounds(3) assms by (auto simp: padded_len_def)
qed

text \<open>What the routine does when the chosen length fits.\<close>

lemma get_len_and_clear_block_eq:
  assumes "\<not> b_adata block" and "b_bufp block = unat (b_binbuf block)"
    and "unat (padded_len block dev) \<le> length (b_buf block)"
    and "b_binbuf block \<le> padded_len block dev" and "padded_len block dev \<le> b_buf_len block"
  shows "get_len_and_clear_block block dev =
    Some (padded_len block dev, padded_len block dev - b_binbuf block,
          block\<lparr>b_buf := buf_write (b_buf block) (unat (b_binbuf block))
                          (replicate (unat (padded_len block dev) - unat (b_binbuf block)) 0)\<rparr>)"
proof (cases "b_binbuf block = b_buf_len block")
  case True
  then show ?thesis by (simp add: get_len_and_clear_block_def padded_len_def)
next
  case False
  let ?w = "padded_len block dev"
  have pad: "unat (?w - b_binbuf block) = unat ?w - unat (b_binbuf block)" "unat (b_binbuf block) \<le> unat ?w"
    using assms(4) by (simp_all add: unat_sub u32_le)
  have len: "(if d_is_tape dev then if d_min_block_size dev = d_max_block_size dev then b_buf_len block
      else if b_binbuf block < d_min_block_size dev then round_up (d_min_block_size dev) TAPE_BSIZE
      else round_up (b_binbuf block) TAPE_BSIZE else b_binbuf block) = ?w"
    using False by (simp add: padded_len_def)
  show ?thesis
  proof (cases "0 < ?w - b_binbuf block")
    case True
    then show ?thesis
      using False assms pad by (simp add: get_len_and_clear_block_def len put_def Let_def)
  next
    case no_pad: False
    then have "?w = b_binbuf block" by (simp add: word_gt_0)
    then show ?thesis
      using False assms by (simp add: get_len_and_clear_block_def len)
  qed
qed

text \<open>
  For a block whose buffer length is a multiple of the tape
  block size and not below the minimum block size, \<open>get_len_and_clear_block\<close> never fails its
  assertion: it returns a length between the bytes used and the buffer length, a
  multiple of 1024 on a tape, the bytes used otherwise;
  the padding is the difference, the padding bytes are zero and the data is unchanged.
\<close>

theorem get_len_and_clear_block_pads:
  assumes "block_inv block" and "\<not> b_adata block" and "b_buf_len block \<le> MAX_BLOCK_LENGTH"
    and "d_min_block_size dev \<le> b_buf_len block" and "unat TAPE_BSIZE dvd unat (b_buf_len block)"
  shows "\<exists>wlen pad block'. get_len_and_clear_block block dev = Some (wlen, pad, block') \<and>
     b_binbuf block \<le> wlen \<and> wlen \<le> b_buf_len block \<and> unat pad = unat wlen - unat (b_binbuf block) \<and>
     (if d_is_tape dev then unat TAPE_BSIZE dvd unat wlen else wlen = b_binbuf block) \<and>
     take (unat wlen) (b_buf block') = take (unat (b_binbuf block)) (b_buf block) @ replicate (unat pad) 0"
proof -
  let ?w = "padded_len block dev" and ?p = "unat (b_binbuf block)"
  have inv: "length (b_buf block) = unat (b_buf_len block)" "b_bufp block = ?p"
    "b_binbuf block \<le> b_buf_len block"
    using assms(1) by (auto simp: block_inv_def)
  note w = padded_len_bounds [OF inv(3) assms(3-5)]
  have room: "?p + (unat ?w - ?p) = unat ?w" "unat ?w \<le> length (b_buf block)"
    using w inv(1) by (auto simp: u32_le)
  have "take (unat ?w) (buf_write (b_buf block) ?p (replicate (unat ?w - ?p) 0)) =
      take ?p (b_buf block) @ replicate (unat ?w - ?p) 0"
    using room take_buf_write [of ?p "replicate (unat ?w - ?p) 0" "b_buf block"] by simp
  then show ?thesis
    using get_len_and_clear_block_eq [OF assms(2) inv(2) room(2) w] w padded_len_tape [OF _ inv(3) assms(3-5)]
    by (auto simp: unat_sub padded_len_def)
qed

text \<open>
  A new block satisfies the buffer invariant, is empty, has the current
  version and the length asked for, or the device's, or the default; emptying any block
  whose buffer can hold a header leaves an empty block in the invariant.
\<close>

theorem new_block_ready:
  assumes "\<And>n. length (mem n) = n"
    and "sz = 0 \<Longrightarrow> d_max_block_size dev = 0 \<or> 32 \<le> d_max_block_size dev" and "sz \<noteq> 0 \<Longrightarrow> 32 \<le> sz"
  shows "block_inv (new_block mem dev sz) \<and> is_block_empty (new_block mem dev sz) \<and>
     b_BlockVer (new_block mem dev sz) = 3 \<and>
     b_buf_len (new_block mem dev sz) =
       (if sz \<noteq> 0 then sz else if d_max_block_size dev = 0 then 64512 else d_max_block_size dev) \<and>
     (block_inv block \<and> 32 \<le> b_buf_len block \<longrightarrow> block_inv (empty_block block) \<and> is_block_empty (empty_block block))"
  using assms
  by (auto simp: block_inv_def new_block_def empty_block_def is_block_empty_def Let_def
      WRITE_BLKHDR_LENGTH_def DEFAULT_BLOCK_SIZE_def BLOCK_VER_def)

text \<open>
  The duplicate of a block has its contents, but when the block was
  encrypted for writing, the output pointer of the duplicate still points into the
  original, so it does not survive the original.
\<close>

lemma dup_block_aliases:
  assumes "length (b_buf_enc block) = length (b_buf block)"
  shows "fst (dup_block block) = block \<and> (fst (snd (dup_block block)) \<longleftrightarrow> \<not> b_buf_out_enc block)"
  using assms by (simp add: dup_block_def Let_def)

section \<open>Instances\<close>

text \<open>A small environment with a cipher that inverts itself, a device and a block with 8 bytes of data.\<close>

definition xor_cipher :: "u32 \<times> u32 \<times> u32 \<Rightarrow> u8 list \<Rightarrow> u8 list option" where
  "xor_cipher iv bs = Some (map (\<lambda>b. b XOR ucast (fst iv)) bs)"

definition sample_env :: blk_env where
  "sample_env = \<lparr>e_big = False, e_xxh = (\<lambda>bs. of_nat (length (filter (\<lambda>b. b \<noteq> 0) bs))),
     e_encrypt = xor_cipher, e_decrypt = xor_cipher, e_forge_on = False, e_verbose = 0\<rparr>"

definition sample_dev :: device where
  "sample_dev = \<lparr>d_is_tape = True, d_is_aligned = False, d_do_checksum = True, d_volume_encryption = True,
     d_crypto_device_ctx = True, d_min_block_size = 0, d_max_block_size = 1024, d_padding_size = 0,
     d_max_volume_size = 0, d_VolCatBytes = 0, d_VolCatMaxBytes = 0, d_EndAddr = 0, d_dev_errno = 0\<rparr>"

definition sample_block :: dev_block where
  "sample_block =
     (new_block (\<lambda>n. replicate n 0x55) sample_dev 64)\<lparr>b_BlockNumber := 77, b_VolSessionId := 3,
        b_VolSessionTime := 1700000000, b_bufp := 40, b_binbuf := 40\<rparr>"

lemmas sample_defs = sample_env_def sample_dev_def sample_block_def xor_cipher_def new_block_def empty_block_def

definition sample_written :: dev_block where
  "sample_written = snd (the (ser_block_header sample_env sample_dev sample_block True))"

definition sample_rblock :: dev_block where
  "sample_rblock = (new_block (\<lambda>n. replicate n 0) sample_dev 64)\<lparr>b_buf := buf_out sample_written, b_read_len := 40\<rparr>"

lemma sample_block_facts:
  "writable_block sample_block" "cipher_ok sample_env sample_dev sample_block" "b_binbuf sample_block = 40"
  by code_simp+

lemma sample_rblock_facts:
  "\<not> b_adata sample_rblock" "\<not> b_no_header sample_rblock" "b_read_len sample_rblock = 40"
  "length (b_buf_enc sample_rblock) = 64" "b_buf sample_rblock = buf_out sample_written"
  by (simp_all add: sample_rblock_def new_block_def empty_block_def Let_def)

theorem block_header_roundtrip_witness:
  "\<exists>b'. unser_block_header (sample_env\<lparr>e_big := True\<rparr>) sample_dev sample_rblock = Some (True, b', sample_dev, []) \<and>
     b_BlockNumber b' = 77 \<and> buf_slice (b_buf b') 32 8 = replicate 8 0x55"
proof -
  have "\<exists>block'. ser_block_header sample_env sample_dev sample_block True =
      Some (block_sum sample_env sample_dev sample_block True, block')"
    using ser_block_header_image [OF sample_block_facts(1,2)] by blast
  then have ser: "ser_block_header sample_env sample_dev sample_block True =
      Some (block_sum sample_env sample_dev sample_block True, sample_written)"
    by (auto simp: sample_written_def)
  have "d_crypto_device_ctx sample_dev" by (simp add: sample_dev_def)
  moreover have "b_BlockNumber sample_block = 77" by (simp add: sample_block_def)
  moreover have "buf_slice (b_buf sample_block) 32 8 = replicate 8 0x55" by code_simp
  moreover have "(40 :: u32) \<le> MAX_BLOCK_LENGTH" by (simp add: MAX_BLOCK_LENGTH_def)
  ultimately show ?thesis
    using block_header_roundtrip [OF sample_block_facts(1,2) _ ser, of sample_rblock sample_dev True]
      sample_rblock_facts sample_block_facts by auto
qed

theorem encrypted_padding_kept_witness:
  "drop 40 (buf_out sample_written) = replicate 24 0x55"
proof -
  have "\<exists>block'. ser_block_header sample_env sample_dev sample_block True =
      Some (block_sum sample_env sample_dev sample_block True, block')"
    using ser_block_header_image [OF sample_block_facts(1,2)] by blast
  then have ser: "ser_block_header sample_env sample_dev sample_block True =
      Some (block_sum sample_env sample_dev sample_block True, sample_written)"
    by (auto simp: sample_written_def)
  have "encrypts sample_dev sample_block" by code_simp
  moreover have "drop 40 (b_buf_enc sample_block) = replicate 24 0x55" by code_simp
  ultimately show ?thesis
    using encrypted_padding_kept [OF sample_block_facts(1,2) _ ser] sample_block_facts(3) by simp
qed

theorem get_len_and_clear_block_pads_witness:
  "\<exists>wlen pad block'. get_len_and_clear_block (new_block (\<lambda>n. replicate n 7) sample_dev 2048) sample_dev = Some (wlen, pad, block') \<and>
     take (unat wlen) (b_buf block') = replicate 32 7 @ replicate (unat pad) 0"
proof -
  let ?b = "new_block (\<lambda>n. replicate n 7) sample_dev 2048"
  have b: "block_inv ?b" "\<not> b_adata ?b" "b_buf_len ?b = 2048" "b_binbuf ?b = 32" "b_buf ?b = replicate 2048 7"
    by (simp_all add: new_block_def empty_block_def block_inv_def Let_def WRITE_BLKHDR_LENGTH_def)
  have "d_min_block_size sample_dev = 0" by (simp add: sample_dev_def)
  then show ?thesis
    using get_len_and_clear_block_pads [of ?b sample_dev] b
    by (auto simp: MAX_BLOCK_LENGTH_def TAPE_BSIZE_def min_def)
qed

theorem new_block_ready_witness:
  "block_inv (new_block (\<lambda>n. replicate n 7) sample_dev 2048) \<and> block_inv (empty_block sample_block)"
proof -
  have "block_inv sample_block" "b_buf_len sample_block = 64" by code_simp+
  then show ?thesis
    using new_block_ready [of "\<lambda>n. replicate n 7" 2048 sample_dev sample_block] by simp
qed

lemma sample_read:
  "case unser_block_header sample_env sample_dev sample_rblock of
     Some (r, b', d', ms) \<Rightarrow> r \<and> b_BlockVer b' = 3 \<and> b_block_len b' = 40 \<and> b_read_len b' = 40 \<and> b_bufp b' = 32
   | None \<Rightarrow> False"
  by code_simp

theorem unser_block_header_verified_witness:
  "\<exists>b' d' ms. unser_block_header sample_env sample_dev sample_rblock = Some (True, b', d', ms) \<and>
     buf_slice (b_buf sample_rblock) 24 8 = be_bytes 8 (e_xxh sample_env (take 40 (buf_write (b_buf b') 24 (replicate 8 0))))"
proof -
  obtain b' d' ms where r: "unser_block_header sample_env sample_dev sample_rblock = Some (True, b', d', ms)"
    "b_BlockVer b' = 3" "b_block_len b' = 40" "b_read_len b' = 40"
    using sample_read by (auto split: option.splits)
  have "d_do_checksum sample_dev" "\<not> e_forge_on sample_env"
    by (simp_all add: sample_dev_def sample_env_def)
  from unser_block_header_verified [OF sample_rblock_facts(1,2) this r(1,2)] r show ?thesis by simp
qed

theorem unser_block_header_in_bounds_witness:
  "\<exists>b' d' ms. unser_block_header sample_env sample_dev sample_rblock = Some (True, b', d', ms) \<and>
     32 + unat (b_binbuf b') \<le> length (b_buf b')"
proof -
  obtain b' d' ms where r: "unser_block_header sample_env sample_dev sample_rblock = Some (True, b', d', ms)"
    "b_block_len b' = 40" "b_read_len b' = 40" "b_bufp b' = 32"
    using sample_read by (auto split: option.splits)
  have "length (b_buf sample_rblock) = 64" by code_simp
  then show ?thesis
    using unser_block_header_in_bounds [OF sample_rblock_facts(1,2) r(1)] r sample_rblock_facts(3) by simp
qed

theorem unser_block_header_underflow_witness:
  "\<exists>b'. unser_block_header sample_env (sample_dev\<lparr>d_do_checksum := False\<rparr>)
       (sample_rblock\<lparr>b_buf := block_image 0 16 1 2 3 4 (replicate 32 0)\<rparr>) =
     Some (True, b', sample_dev\<lparr>d_do_checksum := False\<rparr>, []) \<and> unat (b_binbuf b') = 4294967280"
proof -
  let ?b = "sample_rblock\<lparr>b_buf := block_image 0 16 1 2 3 4 (replicate 32 0)\<rparr>"
  have "(16 :: u32) \<le> b_read_len ?b" by (simp add: sample_rblock_facts)
  then show ?thesis
    using unser_block_header_underflow [of ?b "sample_dev\<lparr>d_do_checksum := False\<rparr>" 16 1 2 3 4 "replicate 32 0" sample_env]
      sample_rblock_facts by auto
qed

definition sample_crc :: u32 where
  "sample_crc = bcrc32 False (drop 4 (block_image2 0 28 1 2 3 [1, 2, 3, 4]))"

theorem block_burst_detected_witness:
  "\<exists>b''. unser_block_header sample_env sample_dev
       (sample_rblock\<lparr>b_buf := block_image2 sample_crc 28 1 2 3 [1, 2, 4, 4]\<rparr>) =
     Some (False, b''\<lparr>b_read_errors := 1\<rparr>, sample_dev\<lparr>d_dev_errno := EIO\<rparr>, [M_ERROR])"
proof -
  let ?b = "sample_rblock\<lparr>b_buf := block_image2 sample_crc 28 1 2 3 [1, 2, 3, 4]\<rparr>"
  have dev: "d_do_checksum sample_dev" "\<not> e_forge_on sample_env" "e_big sample_env = False"
    by (simp_all add: sample_dev_def sample_env_def)
  have len: "(28 :: u32) \<le> MAX_BLOCK_LENGTH" "28 \<le> b_read_len ?b"
    by (simp_all add: MAX_BLOCK_LENGTH_def sample_rblock_facts)
  have crc: "bcrc32 False (drop 4 (block_image2 sample_crc 28 1 2 3 [1, 2, 3, 4])) = sample_crc"
    by (simp add: sample_crc_def block_image2_def)
  have "\<exists>b'. unser_block_header sample_env sample_dev ?b = Some (True, b', sample_dev, [])"
    using unser_block_header_image2 [of ?b sample_dev sample_crc 28 1 2 3 "[1, 2, 3, 4]" "[]" sample_env]
      dev crc len sample_rblock_facts by simp
  then obtain b' where "unser_block_header sample_env sample_dev ?b = Some (True, b', sample_dev, [])" ..
  moreover have "b_read_errors sample_rblock = 0"
    by (simp add: sample_rblock_def new_block_def empty_block_def Let_def)
  ultimately show ?thesis
    using block_burst_detected [of ?b sample_dev sample_env sample_crc 28 1 2 3 "[1, 2]" "[3]" "[4]" "[]" b'
        sample_dev "[]" "[4]"] dev len sample_rblock_facts
    by (simp add: report_def)
qed

end
