(* ===== verification/Record_Util.thy ===== *)
theory Record_Util
  imports Block_Util
begin

text \<open>
  Utility routines for records: \<^verbatim>\<open>src/bacula/src/stored/record_util.c\<close>.
  The routines that name a FileIndex and a stream for the operator, the creation and
  emptying of a record, and the test whether a record fits into a block as a whole.
  The scratch buffer the C routines print numbers into is left out: the model returns
  the string the returned pointer designates.
\<close>

section \<open>Names\<close>

definition PRE_LABEL :: i32 where "PRE_LABEL = - 1"
definition VOL_LABEL :: i32 where "VOL_LABEL = - 2"
definition EOM_LABEL :: i32 where "EOM_LABEL = - 3"
definition SOS_LABEL :: i32 where "SOS_LABEL = - 4"
definition EOS_LABEL :: i32 where "EOS_LABEL = - 5"
definition EOT_LABEL :: i32 where "EOT_LABEL = - 6"
definition SOB_LABEL :: i32 where "SOB_LABEL = - 7"
definition EOB_LABEL :: i32 where "EOB_LABEL = - 8"

definition FI_to_ascii :: "i32 \<Rightarrow> string" where
  "FI_to_ascii fi =
     (if 0 \<le> sint fi then dec_int (sint fi)
      else if fi = PRE_LABEL then ''PRE_LABEL''
      else if fi = VOL_LABEL then ''VOL_LABEL''
      else if fi = EOM_LABEL then ''EOM_LABEL''
      else if fi = SOS_LABEL then ''SOS_LABEL''
      else if fi = EOS_LABEL then ''EOS_LABEL''
      else if fi = EOT_LABEL then ''EOT_LABEL''
      else if fi = SOB_LABEL then ''SOB_LABEL''
      else if fi = EOB_LABEL then ''EOB_LABEL''
      else ''unknown: '' @ dec_int (sint fi))"

text \<open>
  The two \<^verbatim>\<open>switch\<close> statements of \<^verbatim>\<open>stream_to_ascii\<close>, with the values of
  the \<^verbatim>\<open>STREAM_\<close> constants of \<^verbatim>\<open>streams.h\<close>: the names of continuation
  streams and of plain streams.
\<close>

definition cont_stream_names :: "(i32 \<times> string) list" where
  "cont_stream_names = [
    (37, ''contUATTRU''), (1, ''contUATTR''), (2, ''contDATA''), (11, ''contWIN32-DATA''),
     (12, ''contWIN32-GZIP''), (31, ''contWIN32-COMPRESSED''), (3, ''contMD5''), (10, ''contSHA1''),
     (4, ''contGZIP''), (29, ''contCOMPRESSED''), (5, ''contUNIX-ATTR-EX''),
     (28, ''contRESTORE-OBJECT''), (34, ''contPLUGIN-OBJECT''),
     (35, ''convPLUGIN-METADATA-BINARY''), (36, ''convPLUGIN-METADATA-CATALOG''),
     (6, ''contSPARSE-DATA''), (7, ''contSPARSE-GZIP''), (30, ''contSPARSE-COMPRESSED''),
     (8, ''contPROG-NAMES''), (9, ''contPROG-DATA''), (13, ''contMACOS-RSRC''),
     (14, ''contHFSPLUS-ATTR''), (17, ''contSHA256''), (18, ''contSHA512''),
     (19, ''contSIGNED-DIGEST''), (22, ''contENCRYPTED-SESSION-DATA''),
     (20, ''contENCRYPTED-FILE''), (23, ''contENCRYPTED-GZIP''), (32, ''contENCRYPTED-COMPRESSED''),
     (21, ''contENCRYPTED-WIN32-DATA''), (24, ''contENCRYPTED-WIN32-GZIP''),
     (33, ''contENCRYPTED-WIN32-COMPRESSED''), (25, ''contENCRYPTED-MACOS-RSRC''),
     (26, ''contPLUGIN-NAME''), (200, ''contADATA-BLOCK-HEADER''),
     (201, ''contADATA-RECORD-HEADER''), (38, ''FileEvent''), (39, ''contXXHASH64''),
     (40, ''contXXH3_63''), (41, ''contXXH3_128'')]"

definition stream_names :: "(i32 \<times> string) list" where
  "stream_names = [
    (1, ''UATTR''), (2, ''DATA''), (11, ''WIN32-DATA''), (12, ''WIN32-GZIP''),
     (31, ''WIN32-COMPRESSED''), (3, ''MD5''), (10, ''SHA1''), (4, ''GZIP''), (29, ''COMPRESSED''),
     (5, ''UNIX-ATTR-EX''), (28, ''RESTORE-OBJECT''), (34, ''PLUGIN-OBJECT''),
     (35, ''PLUGIN-METADATA-BINARY''), (36, ''PLUGIN-METADATA-CATALOG''), (6, ''SPARSE-DATA''),
     (7, ''SPARSE-GZIP''), (30, ''SPARSE-COMPRESSED''), (8, ''PROG-NAMES''), (9, ''PROG-DATA''),
     (26, ''PLUGIN-NAME''), (13, ''MACOS-RSRC''), (14, ''HFSPLUS-ATTR''), (17, ''SHA256''),
     (18, ''SHA512''), (19, ''SIGNED-DIGEST''), (22, ''ENCRYPTED-SESSION-DATA''),
     (20, ''ENCRYPTED-FILE''), (23, ''ENCRYPTED-GZIP''), (32, ''ENCRYPTED-COMPRESSED''),
     (21, ''ENCRYPTED-WIN32-DATA''), (24, ''ENCRYPTED-WIN32-GZIP''),
     (33, ''ENCRYPTED-WIN32-COMPRESSED''), (25, ''ENCRYPTED-MACOS-RSRC''),
     (200, ''ADATA-BLOCK-HEADER''), (201, ''ADATA-RECORD-HEADER''), (38, ''FileEvent''),
     (39, ''XXHASH64''), (40, ''XXH3_63''), (41, ''XXH3_128'')]"

definition stream_to_ascii :: "i32 \<Rightarrow> i32 \<Rightarrow> string" where
  "stream_to_ascii stream fi =
     (if sint fi < 0 then dec_int (sint stream)
      else if sint stream < 0 then
        (let stream = (- stream) AND STREAMMASK_TYPE
         in case map_of cont_stream_names stream of
              Some s \<Rightarrow> s
            | None \<Rightarrow> dec_int (sint (- stream)))
      else
        (case map_of stream_names (stream AND STREAMMASK_TYPE) of
           Some s \<Rightarrow> s
         | None \<Rightarrow> dec_int (sint stream)))"

definition STREAM_BIT_DEDUPLICATION_DATA :: i32 where "STREAM_BIT_DEDUPLICATION_DATA = push_bit 24 1"
definition STREAM_BIT_NO_DEDUPLICATION :: i32 where "STREAM_BIT_NO_DEDUPLICATION = push_bit 23 1"

definition stream_to_ascii_ex :: "i32 \<Rightarrow> i32 \<Rightarrow> string" where
  "stream_to_ascii_ex stream fi =
     (if sint fi < 0 then stream_to_ascii stream fi
      else
        (let ustream = (if 0 \<le> sint stream then stream else - stream);
             p = stream_to_ascii stream fi
         in if ustream AND (STREAM_BIT_DEDUPLICATION_DATA OR STREAM_BIT_NO_DEDUPLICATION) \<noteq> 0 then
              p @ ''-'' @
              (if ustream AND STREAM_BIT_DEDUPLICATION_DATA \<noteq> 0 then ''D'' else []) @
              (if ustream AND STREAM_BIT_NO_DEDUPLICATION \<noteq> 0 then ''d'' else [])
            else p))"

section \<open>Records\<close>

definition new_record :: "u8 list \<Rightarrow> dev_record" where
  "new_record data =
     \<lparr>r_FileOffset = 0, r_StartAddr = 0, r_Addr = 0, r_VolSessionId = 0, r_VolSessionTime = 0,
      r_FileIndex = 0, r_Stream = 0, r_maskedStream = 0, r_data_len = 0, r_remainder = 0, r_remlen = 0,
      r_data_bytes = 0, r_extra_bytes = 0, r_state_bits = 0, r_RecNum = 0, r_BlockVer = 0,
      r_blkh_options = 0, r_wstate = st_none, r_rstate = st_none, r_data = data, r_VolumeName = None\<rparr>"

definition empty_record :: "dev_record \<Rightarrow> dev_record" where
  "empty_record rec =
     rec\<lparr>r_RecNum := 0, r_StartAddr := 0, r_Addr := 0, r_VolSessionId := 0, r_VolSessionTime := 0,
         r_FileIndex := 0, r_Stream := 0, r_data_len := 0, r_remainder := 0,
         r_state_bits := r_state_bits rec AND
           NOT (REC_PARTIAL_RECORD OR REC_ADATA_EMPTY OR REC_BLOCK_EMPTY OR REC_NO_MATCH OR REC_CONTINUATION),
         r_FileOffset := 0, r_wstate := st_none, r_rstate := st_none, r_VolumeName := None\<rparr>"

definition can_write_record_to_block :: "dev_block \<Rightarrow> dev_record \<Rightarrow> bool \<times> dev_record" where
  "can_write_record_to_block block rec =
     (let remlen = b_buf_len block - b_binbuf block
      in if r_remainder rec = 0 then
           (if WRITE_RECHDR_LENGTH \<le> remlen then
              (let remlen = remlen - WRITE_RECHDR_LENGTH;
                   rec = rec\<lparr>r_remainder := r_data_len rec\<rparr>
               in if 0 < r_remainder rec \<and> remlen < r_remainder rec then (False, rec) else (True, rec))
            else (False, rec))
         else (False, rec))"

definition get_record_address :: "dev_record \<Rightarrow> u64" where
  "get_record_address rec = r_Addr rec"

definition get_record_start_address :: "dev_record \<Rightarrow> u64" where
  "get_record_start_address rec = r_StartAddr rec"

section \<open>Properties\<close>

lemma sint_minus:
  assumes "0 < sint (x :: i32)"
  shows "sint (- x) = - sint x"
proof -
  have "sint x < 2 ^ 31" using sint_lt [of x] by simp
  then show ?thesis
    using assms by (simp add: sint_word_ariths signed_take_bit_int_eq_self)
qed

text \<open>
  The name shown for the continuation of a stream is ``cont'' followed by the
  name of the stream, for every stream type that has a name, except the two kinds of plugin
  metadata (spelled ``conv'') and file events (same name for both).
\<close>

theorem stream_to_ascii_continuation:
  assumes "0 \<le> sint fi" and "0 < sint stream" and "stream AND STREAMMASK_TYPE \<in> fst ` set stream_names"
    and "stream AND STREAMMASK_TYPE \<notin> {35, 36, 38}"
  shows "stream_to_ascii (- stream) fi = ''cont'' @ stream_to_ascii stream fi"
proof -
  have neg: "sint (- stream) < 0"
    using assms(2) by (simp add: sint_minus)
  have "list_all (\<lambda>(c, n). c \<in> {35, 36, 38} \<or> map_of cont_stream_names c = Some (''cont'' @ n) \<and>
      map_of stream_names c = Some n) stream_names"
    by code_simp
  then obtain n where "map_of cont_stream_names (stream AND STREAMMASK_TYPE) = Some (''cont'' @ n)"
    "map_of stream_names (stream AND STREAMMASK_TYPE) = Some n"
    using assms(3,4) by (auto simp: list_all_iff)
  then show ?thesis
    using assms(1,2) neg by (simp add: stream_to_ascii_def Let_def)
qed

text \<open>
  Two positive streams of named types are shown alike only if their types
  agree, so the name tells the type.
\<close>

theorem stream_to_ascii_separates:
  assumes "0 \<le> sint fi" and "0 \<le> sint s" and "0 \<le> sint t"
    and "s AND STREAMMASK_TYPE \<in> fst ` set stream_names" and "t AND STREAMMASK_TYPE \<in> fst ` set stream_names"
    and "stream_to_ascii s fi = stream_to_ascii t fi"
  shows "s AND STREAMMASK_TYPE = t AND STREAMMASK_TYPE"
proof -
  have names: "map_of stream_names c = Some n" if "(c, n) \<in> set stream_names" for c n
  proof -
    have "distinct (map fst stream_names)" by code_simp
    with that show ?thesis by simp
  qed
  have "distinct (map snd stream_names)" by code_simp
  then have inj: "inj_on snd (set stream_names)"
    by (rule distinct_map [THEN iffD1, THEN conjunct2])
  obtain a b where ab: "(s AND STREAMMASK_TYPE, a) \<in> set stream_names" "(t AND STREAMMASK_TYPE, b) \<in> set stream_names"
    using assms(4,5) by auto
  have "a = b"
    using assms(1,2,3,6) names [OF ab(1)] names [OF ab(2)] by (simp add: stream_to_ascii_def)
  then show ?thesis using inj_onD [OF inj _ ab] by simp
qed

theorem stream_to_ascii_continuation_witness:
  "stream_to_ascii (- 0x20000002) 1 = ''contDATA''"
proof -
  have "stream_to_ascii 0x20000002 1 = ''DATA''" by code_simp
  moreover have "(0x20000002 :: i32) AND STREAMMASK_TYPE = 2" by code_simp
  moreover have "2 \<in> fst ` set stream_names" by code_simp
  ultimately show ?thesis
    using stream_to_ascii_continuation [of 1 "0x20000002"] by simp
qed

theorem stream_to_ascii_separates_witness:
  "(0x20000002 :: i32) AND STREAMMASK_TYPE = 0x800002 AND STREAMMASK_TYPE"
proof (rule stream_to_ascii_separates [of 1])
  show "(0x20000002 :: i32) AND STREAMMASK_TYPE \<in> fst ` set stream_names" by code_simp
  show "(0x800002 :: i32) AND STREAMMASK_TYPE \<in> fst ` set stream_names" by code_simp
  show "stream_to_ascii 0x20000002 1 = stream_to_ascii 0x800002 1" by code_simp
qed simp_all

end
