(* ===== verification/Record_Write.thy ===== *)
theory Record_Write
  imports Record_Util
begin

text \<open>
  Writing records into blocks: \<^verbatim>\<open>src/bacula/src/stored/record_write.c\<close>.
  The state machine of \<^verbatim>\<open>write_record_to_block\<close> is a step function on the block
  and the record; its loop, which need not end, is a partial function whose
  value \<open>None\<close> is divergence.  A failed \<^verbatim>\<open>ASSERT\<close> and a store outside the buffer are
  values of \<open>fault\<close>.  The virtual functions of the device are those of the base class
  \<^verbatim>\<open>DEVICE\<close> (\<^verbatim>\<open>dev.h\<close>), whose data path is not aligned: the current block of
  the \<^verbatim>\<open>DCR\<close> is the metadata block throughout, and \<^verbatim>\<open>set_ameta\<close>
  and \<^verbatim>\<open>set_adata\<close> change nothing.
\<close>

section \<open>State and results\<close>

datatype fault = ASSERT_FAILED | BAD_ACCESS

record dcr =
  c_block :: dev_block
  c_adata_label :: bool

definition or_bad_access :: "'a option \<Rightarrow> fault + 'a" where
  "or_bad_access x = (case x of None \<Rightarrow> Inl BAD_ACCESS | Some y \<Rightarrow> Inr y)"

definition bind_res :: "fault + 'a \<Rightarrow> ('a \<Rightarrow> fault + 'b) \<Rightarrow> fault + 'b" where
  "bind_res m f = (case m of Inl e \<Rightarrow> Inl e | Inr x \<Rightarrow> f x)"

lemma bind_res_simps [simp]: "bind_res (Inl e) f = Inl e" "bind_res (Inr x) f = f x"
  by (simp_all add: bind_res_def)

lemma or_bad_access_Some [simp]: "or_bad_access (Some x) = Inr x" "or_bad_access None = Inl BAD_ACCESS"
  by (simp_all add: or_bad_access_def)

section \<open>Headers and data\<close>

definition ser_rec_header ::
  "bool \<Rightarrow> dev_record \<Rightarrow> i32 \<Rightarrow> u32 \<Rightarrow> cursor \<Rightarrow> cursor option" where
  "ser_rec_header big rec Stream len c =
     do { c \<leftarrow> (if BLOCK_VER = 1
                then do { c \<leftarrow> serial_uint32 big (r_VolSessionId rec) c;
                          serial_uint32 big (r_VolSessionTime rec) c }
                else Some c);
          c \<leftarrow> serial_int32 big (r_FileIndex rec) c;
          c \<leftarrow> serial_int32 big Stream c;
          serial_uint32 big len c }"

text \<open>The session of the record goes to the block header in versions 2 and 3.\<close>

definition set_block_session :: "dev_block \<Rightarrow> dev_record \<Rightarrow> dev_block" where
  "set_block_session block rec =
     (if BLOCK_VER = 1 then block
      else block\<lparr>b_VolSessionId := r_VolSessionId rec, b_VolSessionTime := r_VolSessionTime rec\<rparr>)"

definition note_file_index :: "dev_block \<Rightarrow> dev_record \<Rightarrow> dev_block" where
  "note_file_index block rec =
     (if 0 < sint (r_FileIndex rec) then
        (let block = (if b_FirstIndex block = 0 then block\<lparr>b_FirstIndex := r_FileIndex rec\<rparr> else block)
         in block\<lparr>b_LastIndex := r_FileIndex rec\<rparr>)
      else block)"

definition write_header_to_block ::
  "bool \<Rightarrow> dev_block \<Rightarrow> dev_record \<Rightarrow> fault + (bool \<times> dev_block \<times> dev_record)" where
  "write_header_to_block big block rec =
     (if b_adata block then Inl ASSERT_FAILED
      else
        (let rec = rec\<lparr>r_remlen := b_buf_len block - b_binbuf block\<rparr>
         in if r_remlen rec < WRITE_RECHDR_LENGTH then
              Inr (False, block, rec\<lparr>r_remainder := r_data_len rec + WRITE_RECHDR_LENGTH\<rparr>)
            else
              bind_res (or_bad_access (ser_rec_header big rec (r_Stream rec) (r_data_len rec)
                                         (b_buf block, b_bufp block)))
                (\<lambda>(buf, _).
                  let block = set_block_session block rec;
                      block = block\<lparr>b_buf := buf,
                                    b_bufp := b_bufp block + unat WRITE_RECHDR_LENGTH,
                                    b_binbuf := b_binbuf block + WRITE_RECHDR_LENGTH,
                                    b_RecNum := b_RecNum block + 1\<rparr>;
                      rec = rec\<lparr>r_remlen := r_remlen rec - WRITE_RECHDR_LENGTH,
                                r_remainder := r_data_len rec\<rparr>;
                      block = note_file_index block rec;
                      block = block\<lparr>b_extra_bytes := b_extra_bytes block + r_extra_bytes rec\<rparr>
                  in Inr (True, block, rec))))"

definition write_continue_header_to_block ::
  "bool \<Rightarrow> dev_block \<Rightarrow> dev_record \<Rightarrow> fault + (dev_block \<times> dev_record)" where
  "write_continue_header_to_block big block rec =
     (if b_adata block then Inl ASSERT_FAILED
      else
        (let rec = rec\<lparr>r_remlen := b_buf_len block - b_binbuf block\<rparr>
         in if r_remlen rec = 0 then Inr (block, rec)
            else
              (let full = (r_data_len rec < r_remainder rec)
               in bind_res (or_bad_access (ser_rec_header big rec
                     (if full then r_Stream rec else - r_Stream rec)
                     (if full then r_data_len rec else r_remainder rec)
                     (b_buf block, b_bufp block)))
                    (\<lambda>(buf, _).
                      let block = (set_block_session block rec)\<lparr>b_buf := buf\<rparr>;
                          rec = (if full then rec\<lparr>r_remainder := r_data_len rec\<rparr> else rec)
                      in if \<not> WRITE_RECHDR_LENGTH \<le> r_remlen rec then Inl ASSERT_FAILED
                         else
                           (let block = block\<lparr>b_bufp := b_bufp block + unat WRITE_RECHDR_LENGTH,
                                              b_binbuf := b_binbuf block + WRITE_RECHDR_LENGTH\<rparr>;
                                rec = rec\<lparr>r_remlen := r_remlen rec - WRITE_RECHDR_LENGTH\<rparr>;
                                block = note_file_index block rec;
                                block = block\<lparr>b_RecNum := b_RecNum block + 1,
                                              b_extra_bytes := b_extra_bytes block + r_extra_bytes rec\<rparr>
                            in Inr (block, rec))))))"

text \<open>\<^verbatim>\<open>memcpy(block->bufp, rec->data+rec->data_len-rec->remainder, n)\<close> and the advance of the block.\<close>

definition copy_data :: "dev_block \<Rightarrow> dev_record \<Rightarrow> u32 \<Rightarrow> fault + dev_block" where
  "copy_data block rec n =
     bind_res (if r_remainder rec \<le> r_data_len rec
               then or_bad_access (fetch (unat n) (r_data rec, unat (r_data_len rec) - unat (r_remainder rec)))
               else Inl BAD_ACCESS)
       (\<lambda>(bs, _). bind_res (or_bad_access (put bs (b_buf block, b_bufp block)))
         (\<lambda>(buf, _). Inr (block\<lparr>b_buf := buf, b_bufp := b_bufp block + unat n, b_binbuf := b_binbuf block + n\<rparr>)))"

definition write_data_to_block ::
  "dev_block \<Rightarrow> dev_record \<Rightarrow> fault + (bool \<times> dev_block \<times> dev_record)" where
  "write_data_to_block block rec =
     (if b_adata block then Inl ASSERT_FAILED
      else
        (let rec = rec\<lparr>r_remlen := b_buf_len block - b_binbuf block\<rparr>
         in if r_remainder rec \<le> r_remlen rec then
              bind_res (copy_data block rec (r_remainder rec))
                (\<lambda>block. Inr (True, block, rec\<lparr>r_remainder := 0\<rparr>))
            else if r_state_bits rec AND REC_NO_SPLIT \<noteq> 0 then Inr (False, block, rec)
            else
              bind_res (copy_data block rec (r_remlen rec))
                (\<lambda>block. Inr (False, block, rec\<lparr>r_remainder := r_remainder rec - r_remlen rec\<rparr>))))"

section \<open>The state machine\<close>

datatype wstep = Continue dev_block dev_record | Leave bool dev_block dev_record

text \<open>
  One pass through the \<^verbatim>\<open>for (;;)\<close> loop.  In the base class \<^verbatim>\<open>write_adata\<close> and
  \<^verbatim>\<open>write_cont_adata\<close> do nothing, \<^verbatim>\<open>write_adata_label\<close> fails and
  \<^verbatim>\<open>write_adata_rechdr\<close> returns \<open>-1\<close>; \<^verbatim>\<open>select_data_stream\<close> leaves the
  state \<open>st_header\<close> for label and data records alike.
\<close>

definition write_record_step ::
  "bool \<Rightarrow> bool \<Rightarrow> dev_block \<Rightarrow> dev_record \<Rightarrow> fault + wstep" where
  "write_record_step big adata_label block rec =
     (if b_binbuf block \<noteq> of_nat (b_bufp block) then Inl ASSERT_FAILED
      else if \<not> b_binbuf block \<le> b_buf_len block then Inl ASSERT_FAILED
      else case r_wstate rec of
        st_none \<Rightarrow>
          (if adata_label then Inr (Continue block (rec\<lparr>r_wstate := st_adata_label\<rparr>))
           else Inr (Continue block (rec\<lparr>r_wstate := st_header\<rparr>)))
      | st_header \<Rightarrow>
          bind_res (write_header_to_block big block rec)
            (\<lambda>(ok, block, rec).
              if \<not> ok then Inr (Leave False block (rec\<lparr>r_wstate := st_cont_header\<rparr>))
              else Inr (Continue block (rec\<lparr>r_wstate := st_data\<rparr>)))
      | st_cont_header \<Rightarrow>
          bind_res (write_continue_header_to_block big block rec)
            (\<lambda>(block, rec).
              let rec = rec\<lparr>r_wstate := st_data\<rparr>
              in if r_remlen rec = 0 then Inr (Leave False block rec) else Inr (Continue block rec))
      | st_data \<Rightarrow>
          (let finished = (\<lambda>block rec. Inr (Leave True block
                 (rec\<lparr>r_state_bits := r_state_bits rec AND NOT REC_NO_SPLIT, r_remainder := 0, r_wstate := st_none\<rparr>)))
           in if 0 < r_remainder rec then
                bind_res (write_data_to_block block rec)
                  (\<lambda>(ok, block, rec).
                    if \<not> ok then
                      Inr (Leave False block
                        (rec\<lparr>r_wstate := (if r_state_bits rec AND REC_NO_SPLIT \<noteq> 0 then st_header else st_cont_header)\<rparr>))
                    else finished block rec)
              else finished block rec)
      | st_adata_label \<Rightarrow> Inr (Leave False block rec)
      | st_adata \<Rightarrow> Inr (Continue block rec)
      | st_cont_adata \<Rightarrow> Inr (Continue block rec)
      | st_cont_adata_rechdr \<Rightarrow> Inr (Leave False block rec)
      | st_adata_rechdr \<Rightarrow> Inr (Leave False block rec)
      | _ \<Rightarrow> Inr (Leave True block (rec\<lparr>r_wstate := st_none\<rparr>)))"

partial_function (option) write_record_loop ::
  "bool \<Rightarrow> bool \<Rightarrow> dev_block \<Rightarrow> dev_record \<Rightarrow> (fault + (bool \<times> dev_block \<times> dev_record)) option" where
  "write_record_loop big adata_label block rec =
     (case write_record_step big adata_label block rec of
        Inl e \<Rightarrow> Some (Inl e)
      | Inr (Leave r block' rec') \<Rightarrow> Some (Inr (r, block', rec'))
      | Inr (Continue block' rec') \<Rightarrow> write_record_loop big adata_label block' rec')"

definition write_record_to_block ::
  "bool \<Rightarrow> 'z dcr_scheme \<Rightarrow> dev_record \<Rightarrow> (fault + (bool \<times> 'z dcr_scheme \<times> dev_record)) option" where
  "write_record_to_block big d rec =
     map_option (map_sum id (\<lambda>(r, block, rec). (r, d\<lparr>c_block := block\<rparr>, rec)))
       (write_record_loop big (c_adata_label d) (c_block d) rec)"

text \<open>
  \<^verbatim>\<open>DCR::write_record\<close>: full blocks go to the device with \<^verbatim>\<open>write_block_to_device\<close>, an
  argument of this definition, as is the cancellation test on the job.
\<close>

partial_function (option) write_record ::
  "('z dcr_scheme \<Rightarrow> fault + (bool \<times> 'z dcr_scheme)) \<Rightarrow> ('z dcr_scheme \<Rightarrow> bool) \<Rightarrow> bool \<Rightarrow> 'z dcr_scheme \<Rightarrow>
   dev_record \<Rightarrow> (fault + (bool \<times> 'z dcr_scheme \<times> dev_record)) option" where
  "write_record write_block_to_device is_canceled big d rec =
     (case write_record_to_block big d rec of
        None \<Rightarrow> None
      | Some (Inl e) \<Rightarrow> Some (Inl e)
      | Some (Inr (r, d, rec)) \<Rightarrow>
          if r then Some (Inr (True, d, rec))
          else if is_canceled d then Some (Inr (False, d, rec))
          else
            (case write_block_to_device d of
               Inl e \<Rightarrow> Some (Inl e)
             | Inr (ok, d) \<Rightarrow>
                 if \<not> ok then Some (Inr (False, d, rec))
                 else write_record write_block_to_device is_canceled big d rec))"

section \<open>What a call adds to the block\<close>

text \<open>The bytes in use, those after the block header, and the room left.\<close>

definition used :: "dev_block \<Rightarrow> u8 list" where
  "used block = take (b_bufp block) (b_buf block)"

definition payload_of :: "dev_block \<Rightarrow> u8 list" where
  "payload_of block = drop 32 (used block)"

definition room :: "dev_block \<Rightarrow> nat" where
  "room block = unat (b_buf_len block) - unat (b_binbuf block)"

definition winv :: "dev_block \<Rightarrow> bool" where
  "winv block \<longleftrightarrow> block_inv block \<and> \<not> b_adata block"

definition rec_header :: "i32 \<Rightarrow> i32 \<Rightarrow> u32 \<Rightarrow> u8 list" where
  "rec_header fi stream len = be_bytes 4 fi @ be_bytes 4 stream @ be_bytes 4 len"

text \<open>\<open>b'\<close> is \<open>b\<close> with the bytes \<open>bs\<close> appended.\<close>

definition extends :: "dev_block \<Rightarrow> dev_block \<Rightarrow> u8 list \<Rightarrow> bool" where
  "extends b b' bs \<longleftrightarrow> winv b' \<and> used b' = used b @ bs \<and> b_buf_len b' = b_buf_len b \<and>
     b_BlockNumber b' = b_BlockNumber b \<and> b_first_block b' = b_first_block b"

definition in_session :: "dev_record \<Rightarrow> dev_block \<Rightarrow> bool" where
  "in_session rec b \<longleftrightarrow> b_VolSessionId b = r_VolSessionId rec \<and> b_VolSessionTime b = r_VolSessionTime rec"

lemma length_rec_header [simp]: "length (rec_header fi stream len) = 12"
  by (simp add: rec_header_def)

lemma ser_rec_header_put:
  "ser_rec_header big rec stream len c = put (rec_header (r_FileIndex rec) stream len) c"
proof -
  have "put xs c \<bind> (\<lambda>c. put ys c \<bind> f) = put (xs @ ys) c \<bind> f" for xs ys c f
    by (simp add: put_put [symmetric])
  then show ?thesis
    by (simp add: ser_rec_header_def uint32.ser_be int32.ser_be rec_header_def put_put BLOCK_VER_def)
qed

lemma room_unat: "winv b \<Longrightarrow> unat (b_buf_len b - b_binbuf b) = room b"
  by (simp add: winv_def block_inv_def room_def unat_sub)

lemma length_used: "winv b \<Longrightarrow> length (used b) = unat (b_binbuf b)"
  by (auto simp: winv_def block_inv_def used_def u32_le)

lemma room_extends: "winv b \<Longrightarrow> extends b b' bs \<Longrightarrow> room b' = room b - length bs"
  using length_used [of b] length_used [of b'] by (auto simp: extends_def room_def)

lemma extends_trans: "extends a b xs \<Longrightarrow> extends b c ys \<Longrightarrow> extends a c (xs @ ys)"
  by (simp add: extends_def)

text \<open>Storing bytes at \<^verbatim>\<open>bufp\<close> and advancing.\<close>

lemma put_extends:
  assumes "winv b" and "length bs \<le> room b"
  shows "put bs (b_buf b, b_bufp b) = Some (buf_write (b_buf b) (b_bufp b) bs, b_bufp b + length bs)"
    and "b_buf b' = buf_write (b_buf b) (b_bufp b) bs \<Longrightarrow> b_bufp b' = b_bufp b + length bs \<Longrightarrow>
      b_binbuf b' = b_binbuf b + of_nat (length bs) \<Longrightarrow> b_buf_len b' = b_buf_len b \<Longrightarrow>
      b_adata b' = b_adata b \<Longrightarrow> b_BlockNumber b' = b_BlockNumber b \<Longrightarrow> b_first_block b' = b_first_block b \<Longrightarrow>
      extends b b' bs"
proof -
  have inv: "length (b_buf b) = unat (b_buf_len b)" "b_bufp b = unat (b_binbuf b)"
    "unat (b_binbuf b) \<le> unat (b_buf_len b)" "\<not> b_adata b"
    using assms(1) by (auto simp: winv_def block_inv_def u32_le)
  have fit: "b_bufp b + length bs \<le> length (b_buf b)"
    using assms(2) inv by (simp add: room_def)
  then show "put bs (b_buf b, b_bufp b) = Some (buf_write (b_buf b) (b_bufp b) bs, b_bufp b + length bs)"
    by (simp add: put_def)
  have un: "unat (b_binbuf b + of_nat (length bs)) = unat (b_binbuf b) + length bs"
  proof -
    have "unat (b_binbuf b) + length bs < 2 ^ 32"
      using fit inv unat_lt_2p32 [of "b_buf_len b"] by linarith
    then show ?thesis
      by (subst unat_add_lt) (simp_all add: unat_of_nat_u32)
  qed
  assume b': "b_buf b' = buf_write (b_buf b) (b_bufp b) bs" "b_bufp b' = b_bufp b + length bs"
    "b_binbuf b' = b_binbuf b + of_nat (length bs)" "b_buf_len b' = b_buf_len b"
    "b_adata b' = b_adata b" "b_BlockNumber b' = b_BlockNumber b" "b_first_block b' = b_first_block b"
  have "used b' = used b @ bs"
    using b' fit by (simp add: used_def)
  moreover have "winv b'"
    using b' inv fit un by (auto simp: winv_def block_inv_def u32_le)
  ultimately show "extends b b' bs"
    using b' by (simp add: extends_def)
qed

lemma note_file_index_fields [simp]:
  "b_buf (note_file_index b r) = b_buf b" "b_bufp (note_file_index b r) = b_bufp b"
  "b_binbuf (note_file_index b r) = b_binbuf b" "b_buf_len (note_file_index b r) = b_buf_len b"
  "b_adata (note_file_index b r) = b_adata b" "b_BlockNumber (note_file_index b r) = b_BlockNumber b"
  "b_first_block (note_file_index b r) = b_first_block b" "b_VolSessionId (note_file_index b r) = b_VolSessionId b"
  "b_VolSessionTime (note_file_index b r) = b_VolSessionTime b"
  by (simp_all add: note_file_index_def Let_def)

lemma set_block_session_eq:
  "set_block_session b r = b\<lparr>b_VolSessionId := r_VolSessionId r, b_VolSessionTime := r_VolSessionTime r\<rparr>"
  by (simp add: set_block_session_def BLOCK_VER_def)

lemma rechdr_room: "winv b \<Longrightarrow> b_buf_len b - b_binbuf b < WRITE_RECHDR_LENGTH \<longleftrightarrow> room b < 12"
  by (simp add: u32_less room_unat WRITE_RECHDR_LENGTH_def RECHDR2_LENGTH_def)

lemma write_header_to_block_full:
  assumes "winv b" and "room b < 12"
  shows "write_header_to_block big b rec =
    Inr (False, b, rec\<lparr>r_remlen := b_buf_len b - b_binbuf b, r_remainder := r_data_len rec + 12\<rparr>)"
  using assms
  by (simp add: write_header_to_block_def rechdr_room Let_def)
    (simp add: winv_def WRITE_RECHDR_LENGTH_def RECHDR2_LENGTH_def)

lemma write_header_to_block_ok:
  assumes "winv b" and "12 \<le> room b"
  obtains b' rl where "write_header_to_block big b rec = Inr (True, b', rec\<lparr>r_remlen := rl, r_remainder := r_data_len rec\<rparr>)"
    "extends b b' (rec_header (r_FileIndex rec) (r_Stream rec) (r_data_len rec))" "in_session rec b'"
proof -
  let ?h = "rec_header (r_FileIndex rec) (r_Stream rec) (r_data_len rec)"
  have h: "length ?h \<le> room b" using assms by simp
  note put = put_extends [OF assms(1) h]
  have "\<not> b_adata b" using assms(1) by (simp add: winv_def)
  moreover have "\<not> b_buf_len b - b_binbuf b < WRITE_RECHDR_LENGTH"
    using assms by (simp add: rechdr_room)
  ultimately show ?thesis
    using put
    by (intro that)
      (auto simp: write_header_to_block_def ser_rec_header_put set_block_session_eq Let_def in_session_def
        WRITE_RECHDR_LENGTH_def RECHDR2_LENGTH_def)
qed

lemma write_continue_header_to_block_ok:
  assumes "winv b" and "12 \<le> room b"
    and "full = (r_data_len rec < r_remainder rec)"
  obtains b' rl where "write_continue_header_to_block big b rec =
      Inr (b', rec\<lparr>r_remainder := (if full then r_data_len rec else r_remainder rec), r_remlen := rl\<rparr>)"
    "unat rl = room b - 12"
    "extends b b' (rec_header (r_FileIndex rec) (if full then r_Stream rec else - r_Stream rec)
                     (if full then r_data_len rec else r_remainder rec))" "in_session rec b'"
proof -
  let ?h = "rec_header (r_FileIndex rec) (if full then r_Stream rec else - r_Stream rec)
                     (if full then r_data_len rec else r_remainder rec)"
  have h: "length ?h \<le> room b" using assms by simp
  note put = put_extends [OF assms(1) h]
  have "\<not> b_adata b" using assms(1) by (simp add: winv_def)
  moreover have le: "WRITE_RECHDR_LENGTH \<le> b_buf_len b - b_binbuf b"
    using rechdr_room [OF assms(1)] assms(2) by simp
  moreover have "b_buf_len b - b_binbuf b \<noteq> 0"
    using assms(2) room_unat [OF assms(1)] by auto
  moreover have rl: "unat (b_buf_len b - b_binbuf b - 12) = room b - 12"
    using le room_unat [OF assms(1)] by (simp add: unat_sub WRITE_RECHDR_LENGTH_def RECHDR2_LENGTH_def)
  ultimately have "\<exists>b'. write_continue_header_to_block big b rec =
      Inr (b', rec\<lparr>r_remainder := (if full then r_data_len rec else r_remainder rec),
                   r_remlen := b_buf_len b - b_binbuf b - 12\<rparr>) \<and>
      extends b b' ?h \<and> in_session rec b'"
    using put assms(3)
    by (cases full)
      (simp_all add: write_continue_header_to_block_def ser_rec_header_put set_block_session_eq Let_def
        in_session_def WRITE_RECHDR_LENGTH_def RECHDR2_LENGTH_def)
  with rl that show ?thesis by blast
qed

lemma copy_data_ok:
  assumes "winv b" and "unat n \<le> room b" and "n \<le> r_remainder rec" and "r_remainder rec \<le> r_data_len rec"
    and "unat (r_data_len rec) \<le> length (r_data rec)"
  obtains b' where "copy_data b rec n = Inr b'"
    "extends b b' (take (unat n) (drop (unat (r_data_len rec) - unat (r_remainder rec)) (r_data rec)))"
    "b_VolSessionId b' = b_VolSessionId b" "b_VolSessionTime b' = b_VolSessionTime b"
proof -
  let ?p = "unat (r_data_len rec) - unat (r_remainder rec)"
  let ?bs = "buf_slice (r_data rec) ?p (unat n)"
  have fit: "?p + unat n \<le> length (r_data rec)"
    using assms(3-5) by (auto simp: u32_le)
  then have len: "length ?bs = unat n" by simp
  then have r: "length ?bs \<le> room b" using assms(2) by simp
  note put = put_extends [OF assms(1) r]
  show ?thesis
    using put fit len assms(4)
    by (intro that [of "b\<lparr>b_buf := buf_write (b_buf b) (b_bufp b) ?bs, b_bufp := b_bufp b + unat n,
            b_binbuf := b_binbuf b + n\<rparr>"])
      (simp_all add: copy_data_def fetch_def buf_slice_def)
qed

section \<open>What a call of the state machine does\<close>

text \<open>The data not yet transferred, the fields a call leaves alone, and a record whose data may be split.\<close>

definition pending :: "dev_record \<Rightarrow> u8 list" where
  "pending rec = drop (unat (r_data_len rec) - unat (r_remainder rec)) (take (unat (r_data_len rec)) (r_data rec))"

definition rec_frame :: "dev_record \<Rightarrow> dev_record \<Rightarrow> bool" where
  "rec_frame rec rec' \<longleftrightarrow>
     r_FileIndex rec' = r_FileIndex rec \<and> r_Stream rec' = r_Stream rec \<and> r_data rec' = r_data rec \<and>
     r_data_len rec' = r_data_len rec \<and> r_VolSessionId rec' = r_VolSessionId rec \<and>
     r_VolSessionTime rec' = r_VolSessionTime rec"

definition splittable :: "dev_record \<Rightarrow> bool" where
  "splittable rec \<longleftrightarrow> r_state_bits rec AND REC_NO_SPLIT = 0 \<and> unat (r_data_len rec) \<le> length (r_data rec)"

lemma rec_frame_trans: "rec_frame a b \<Longrightarrow> rec_frame b c \<Longrightarrow> rec_frame a c"
  by (simp add: rec_frame_def)

lemma length_pending:
  "splittable rec \<Longrightarrow> r_remainder rec \<le> r_data_len rec \<Longrightarrow> length (pending rec) = unat (r_remainder rec)"
  by (auto simp: pending_def splittable_def u32_le)

lemma winv_asserts: "winv b \<Longrightarrow> b_binbuf b = of_nat (b_bufp b)" "winv b \<Longrightarrow> b_binbuf b \<le> b_buf_len b"
  by (simp_all add: winv_def block_inv_def)

lemma take_pending:
  assumes "splittable rec" and "n \<le> unat (r_remainder rec)" and "r_remainder rec \<le> r_data_len rec"
  shows "take n (drop (unat (r_data_len rec) - unat (r_remainder rec)) (r_data rec)) = take n (pending rec)"
  using assms by (simp add: pending_def drop_take u32_le)

text \<open>The data state: everything fits, or the block is filled.\<close>

lemma loop_data_fits:
  assumes "r_wstate rec = st_data" and b: "winv b" and "splittable rec"
    and "r_remainder rec \<le> r_data_len rec" and fits: "unat (r_remainder rec) \<le> room b"
  obtains b' rec' where "write_record_loop big al b rec = Some (Inr (True, b', rec'))"
    "extends b b' (pending rec)" "rec_frame rec rec'" "r_wstate rec' = st_none" "r_remainder rec' = 0"
    "in_session rec b \<Longrightarrow> in_session rec' b'"
proof (cases "r_remainder rec = 0")
  case True
  then have "pending rec = []" by (simp add: pending_def)
  then have "extends b b (pending rec)" using b by (simp add: extends_def)
  with True assms(1) winv_asserts [OF b] that show ?thesis
    by (subst (asm) write_record_loop.simps)
      (auto simp: write_record_step_def rec_frame_def in_session_def Let_def)
next
  case False
  let ?rec = "rec\<lparr>r_remlen := b_buf_len b - b_binbuf b\<rparr>"
  have le: "r_remainder rec \<le> b_buf_len b - b_binbuf b" "0 < r_remainder rec"
    using fits room_unat [OF b] False by (auto simp: u32_le word_gt_0)
  obtain b' where b': "copy_data b ?rec (r_remainder rec) = Inr b'"
    "extends b b' (take (unat (r_remainder rec)) (drop (unat (r_data_len rec) - unat (r_remainder rec)) (r_data rec)))"
    "b_VolSessionId b' = b_VolSessionId b" "b_VolSessionTime b' = b_VolSessionTime b"
    using assms(3-5) copy_data_ok [OF b, of "r_remainder rec" ?rec]
    by (simp add: splittable_def) blast
  have "take (unat (r_remainder rec)) (pending rec) = pending rec"
    using length_pending [OF assms(3,4)] by simp
  then have "extends b b' (pending rec)"
    using b'(2) take_pending [OF assms(3) _ assms(4), of "unat (r_remainder rec)"] by simp
  moreover have "write_data_to_block b rec = Inr (True, b', ?rec\<lparr>r_remainder := 0\<rparr>)"
    using b le b'(1) by (simp add: write_data_to_block_def winv_def Let_def)
  ultimately show ?thesis
    using assms(1) le(2) winv_asserts [OF b] b'(3,4)
    by (intro that [of b' "?rec\<lparr>r_remainder := 0, r_state_bits := r_state_bits rec AND NOT REC_NO_SPLIT, r_wstate := st_none\<rparr>"])
      (simp_all add: write_record_loop.simps [of big al b rec] write_record_step_def rec_frame_def in_session_def Let_def)
qed

lemma loop_data_fills:
  assumes "r_wstate rec = st_data" and b: "winv b" and "splittable rec"
    and "r_remainder rec \<le> r_data_len rec" and more: "room b < unat (r_remainder rec)"
  obtains b' rec' where "write_record_loop big al b rec = Some (Inr (False, b', rec'))"
    "extends b b' (take (room b) (pending rec))" "rec_frame rec rec'" "r_wstate rec' = st_cont_header"
    "unat (r_remainder rec') = unat (r_remainder rec) - room b" "splittable rec'"
    "pending rec' = drop (room b) (pending rec)" "in_session rec b \<Longrightarrow> in_session rec' b'"
proof -
  let ?rl = "b_buf_len b - b_binbuf b"
  let ?rec = "rec\<lparr>r_remlen := ?rl\<rparr>"
  have le: "\<not> r_remainder rec \<le> ?rl" "?rl \<le> r_remainder rec" "0 < r_remainder rec"
    using more room_unat [OF b] by (auto simp: u32_le word_less_nat_alt)
  have un: "unat (r_remainder rec - ?rl) = unat (r_remainder rec) - room b"
    using le room_unat [OF b] by (simp add: unat_sub)
  obtain b' where b': "copy_data b ?rec ?rl = Inr b'"
    "extends b b' (take (room b) (drop (unat (r_data_len rec) - unat (r_remainder rec)) (r_data rec)))"
    "b_VolSessionId b' = b_VolSessionId b" "b_VolSessionTime b' = b_VolSessionTime b"
    using assms(3,4) le(2) copy_data_ok [OF b, of ?rl ?rec]
    by (simp add: splittable_def room_unat [OF b]) blast
  have ext: "extends b b' (take (room b) (pending rec))"
    using b'(2) take_pending [OF assms(3) _ assms(4), of "room b"] more by simp
  let ?rec' = "?rec\<lparr>r_remainder := r_remainder rec - ?rl, r_wstate := st_cont_header\<rparr>"
  have "write_data_to_block b rec = Inr (False, b', ?rec\<lparr>r_remainder := r_remainder rec - ?rl\<rparr>)"
    using b le(1) b'(1) assms(3) by (simp add: write_data_to_block_def winv_def splittable_def Let_def)
  then have loop: "write_record_loop big al b rec = Some (Inr (False, b', ?rec'))"
    using assms(1,3) le(3) winv_asserts [OF b]
    by (simp add: write_record_loop.simps [of big al b rec] write_record_step_def splittable_def Let_def)
  have "unat (r_data_len rec) - (unat (r_remainder rec) - room b) =
      room b + (unat (r_data_len rec) - unat (r_remainder rec))"
    using more assms(4) by (simp add: u32_le)
  then have "pending ?rec' = drop (room b) (pending rec)"
    by (simp add: pending_def un)
  then show ?thesis
    using loop ext un assms(3) b'(3,4)
    by (intro that [of b' ?rec']) (simp_all add: rec_frame_def splittable_def in_session_def)
qed

text \<open>
  A record about to be written or continued: what is still to be written is a header,
  the plain one or the one marking a continuation, and the pending data.
\<close>

definition ready_rec :: "dev_record \<Rightarrow> bool" where
  "ready_rec rec \<longleftrightarrow> splittable rec \<and> unat (r_data_len rec) + 12 < 2 ^ 32 \<and>
     (r_wstate rec = st_none \<or> r_wstate rec = st_header \<or> r_wstate rec = st_cont_header)"

definition continuing :: "dev_record \<Rightarrow> bool" where
  "continuing rec \<longleftrightarrow> r_wstate rec = st_cont_header \<and> r_remainder rec \<le> r_data_len rec"

definition to_write :: "dev_record \<Rightarrow> u8 list" where
  "to_write rec = (if continuing rec then pending rec else take (unat (r_data_len rec)) (r_data rec))"

definition next_header :: "dev_record \<Rightarrow> u8 list" where
  "next_header rec =
     (if continuing rec then rec_header (r_FileIndex rec) (- r_Stream rec) (r_remainder rec)
      else rec_header (r_FileIndex rec) (r_Stream rec) (r_data_len rec))"

text \<open>The header states lead to the data state with the header appended, when there is room for it.\<close>

lemma loop_header:
  assumes rec: "ready_rec rec" and b: "winv b" and r: "12 \<le> room b"
    and cont: "r_wstate rec = st_cont_header \<Longrightarrow> 12 < room b"
  obtains b' rec' where "extends b b' (next_header rec)" "in_session rec' b'" "rec_frame rec rec'"
    "r_wstate rec' = st_data" "splittable rec'" "r_remainder rec' \<le> r_data_len rec'" "pending rec' = to_write rec"
    "write_record_loop big False b rec = write_record_loop big False b' rec'"
proof (cases "r_wstate rec = st_cont_header")
  case True
  let ?full = "r_data_len rec < r_remainder rec"
  obtain b' rl where w: "write_continue_header_to_block big b rec =
      Inr (b', rec\<lparr>r_remainder := (if ?full then r_data_len rec else r_remainder rec), r_remlen := rl\<rparr>)"
    "unat rl = room b - 12"
    "extends b b' (rec_header (r_FileIndex rec) (if ?full then r_Stream rec else - r_Stream rec)
                     (if ?full then r_data_len rec else r_remainder rec))" "in_session rec b'"
    using write_continue_header_to_block_ok [OF b r refl] by blast
  let ?rec' = "rec\<lparr>r_remainder := (if ?full then r_data_len rec else r_remainder rec), r_remlen := rl, r_wstate := st_data\<rparr>"
  have c: "continuing rec \<longleftrightarrow> \<not> ?full" using True by (simp add: continuing_def not_less)
  have "rl \<noteq> 0" using w(2) cont [OF True] by auto
  then have "write_record_loop big False b rec = write_record_loop big False b' ?rec'"
    using True winv_asserts [OF b] w(1)
    by (simp add: write_record_loop.simps [of big False b rec] write_record_step_def Let_def)
  moreover have "pending ?rec' = to_write rec" by (simp add: pending_def to_write_def c)
  moreover have "extends b b' (next_header rec)" using w(3) by (auto simp: next_header_def c split: if_splits)
  moreover have "(if ?full then r_data_len rec else r_remainder rec) \<le> r_data_len rec" by (simp add: not_less)
  ultimately show ?thesis
    using that [of b' ?rec'] w(4) rec True
    by (auto simp: rec_frame_def ready_rec_def splittable_def in_session_def)
next
  case False
  let ?r1 = "rec\<lparr>r_wstate := st_header\<rparr>"
  have c: "\<not> continuing rec" using False by (simp add: continuing_def)
  obtain b' rl where w: "write_header_to_block big b ?r1 = Inr (True, b', ?r1\<lparr>r_remlen := rl, r_remainder := r_data_len rec\<rparr>)"
    "extends b b' (rec_header (r_FileIndex rec) (r_Stream rec) (r_data_len rec))" "in_session rec b'"
    using write_header_to_block_ok [OF b r, of big ?r1] by (auto simp: in_session_def)
  let ?rec' = "rec\<lparr>r_remlen := rl, r_remainder := r_data_len rec, r_wstate := st_data\<rparr>"
  have hdr: "write_record_loop big False b ?r1 = write_record_loop big False b' ?rec'"
    using winv_asserts [OF b] w(1)
    by (simp add: write_record_loop.simps [of big False b ?r1] write_record_step_def)
  have "write_record_loop big False b rec = write_record_loop big False b' ?rec'"
  proof (cases "r_wstate rec = st_none")
    case True
    then have "write_record_loop big False b rec = write_record_loop big False b ?r1"
      using winv_asserts [OF b]
      by (simp add: write_record_loop.simps [of big False b rec] write_record_step_def)
    with hdr show ?thesis by simp
  next
    case no: False
    then have "?r1 = rec" using False rec by (simp add: ready_rec_def)
    with hdr show ?thesis by simp
  qed
  moreover have "pending ?rec' = to_write rec" by (simp add: pending_def to_write_def c)
  moreover have "extends b b' (next_header rec)" using w(2) by (simp add: next_header_def c)
  ultimately show ?thesis
    using that [of b' ?rec'] w(3) rec False
    by (auto simp: rec_frame_def ready_rec_def splittable_def in_session_def)
qed

lemma length_to_write:
  "ready_rec rec \<Longrightarrow> length (to_write rec) = unat (if continuing rec then r_remainder rec else r_data_len rec)"
  using length_pending [of rec] by (auto simp: to_write_def continuing_def ready_rec_def splittable_def)

text \<open>One call of \<open>write_record_to_block\<close>: the record is finished, the block is filled, or there is no room at all.\<close>

lemma loop_finishes:
  assumes rec: "ready_rec rec" and b: "winv b" and fits: "12 + length (to_write rec) \<le> room b"
    and cont: "r_wstate rec = st_cont_header \<Longrightarrow> 12 < room b"
  obtains b' rec' where "write_record_loop big False b rec = Some (Inr (True, b', rec'))"
    "extends b b' (next_header rec @ to_write rec)" "rec_frame rec rec'" "in_session rec' b'"
    "r_wstate rec' = st_none" "r_remainder rec' = 0"
proof -
  have r: "12 \<le> room b" using fits by simp
  obtain b1 r1 where 1: "extends b b1 (next_header rec)" "in_session r1 b1" "rec_frame rec r1"
    "r_wstate r1 = st_data" "splittable r1" "r_remainder r1 \<le> r_data_len r1" "pending r1 = to_write rec"
    "write_record_loop big False b rec = write_record_loop big False b1 r1"
    using loop_header [OF rec b r cont, of big] by blast
  have "length (next_header rec) = 12" by (simp add: next_header_def)
  then have "unat (r_remainder r1) \<le> room b1"
    using room_extends [OF b 1(1)] length_pending [OF 1(5,6)] 1(7) fits by simp
  moreover have "winv b1" using 1(1) by (simp add: extends_def)
  ultimately obtain b' rec' where 2: "write_record_loop big False b1 r1 = Some (Inr (True, b', rec'))"
    "extends b1 b' (pending r1)" "rec_frame r1 rec'" "r_wstate rec' = st_none" "r_remainder rec' = 0"
    "in_session r1 b1 \<Longrightarrow> in_session rec' b'"
    using loop_data_fits [OF 1(4) _ 1(5,6), of b1 big False] by blast
  show ?thesis
    using that [of b' rec'] 1 2 extends_trans [OF 1(1) 2(2)] rec_frame_trans [OF 1(3) 2(3)] by simp
qed

lemma loop_fills:
  assumes rec: "ready_rec rec" and b: "winv b" and r: "12 \<le> room b" and more: "room b < 12 + length (to_write rec)"
    and cont: "r_wstate rec = st_cont_header \<Longrightarrow> 12 < room b"
  obtains b' rec' where "write_record_loop big False b rec = Some (Inr (False, b', rec'))"
    "extends b b' (next_header rec @ take (room b - 12) (to_write rec))" "rec_frame rec rec'" "in_session rec' b'"
    "ready_rec rec'" "continuing rec'" "to_write rec' = drop (room b - 12) (to_write rec)"
proof -
  obtain b1 r1 where 1: "extends b b1 (next_header rec)" "in_session r1 b1" "rec_frame rec r1"
    "r_wstate r1 = st_data" "splittable r1" "r_remainder r1 \<le> r_data_len r1" "pending r1 = to_write rec"
    "write_record_loop big False b rec = write_record_loop big False b1 r1"
    using loop_header [OF rec b r cont, of big] by blast
  have "length (next_header rec) = 12" by (simp add: next_header_def)
  then have room1: "room b1 = room b - 12"
    using room_extends [OF b 1(1)] by simp
  then have "room b1 < unat (r_remainder r1)"
    using length_pending [OF 1(5,6)] 1(7) more r by simp
  moreover have "winv b1" using 1(1) by (simp add: extends_def)
  ultimately obtain b' rec' where 2: "write_record_loop big False b1 r1 = Some (Inr (False, b', rec'))"
    "extends b1 b' (take (room b1) (pending r1))" "rec_frame r1 rec'" "r_wstate rec' = st_cont_header"
    "unat (r_remainder rec') = unat (r_remainder r1) - room b1" "splittable rec'"
    "pending rec' = drop (room b1) (pending r1)" "in_session r1 b1 \<Longrightarrow> in_session rec' b'"
    using loop_data_fills [OF 1(4) _ 1(5,6), of b1 big False] by blast
  have "r_remainder rec' \<le> r_data_len rec'"
    using 1(6) 2(3,5) by (auto simp: rec_frame_def u32_le)
  then have c: "continuing rec'" using 2(4) by (simp add: continuing_def)
  have "ready_rec rec'"
    using 2(4,6) rec 1(3) 2(3) by (simp add: ready_rec_def rec_frame_def)
  then show ?thesis
    using that [of b' rec'] 1 2 c room1 extends_trans [OF 1(1) 2(2)] rec_frame_trans [OF 1(3) 2(3)]
    by (simp add: to_write_def)
qed

lemma loop_no_room:
  assumes rec: "ready_rec rec" and b: "winv b" and r: "room b < 12" and st: "r_wstate rec \<noteq> st_cont_header"
  obtains rec' where "write_record_loop big False b rec = Some (Inr (False, b, rec'))" "rec_frame rec rec'"
    "ready_rec rec'" "r_wstate rec' = st_cont_header" "\<not> continuing rec'" "to_write rec' = to_write rec"
proof -
  let ?r1 = "rec\<lparr>r_wstate := st_header\<rparr>"
  let ?r2 = "?r1\<lparr>r_remlen := b_buf_len b - b_binbuf b, r_remainder := r_data_len rec + 12, r_wstate := st_cont_header\<rparr>"
  have hdr: "write_record_loop big False b ?r1 = Some (Inr (False, b, ?r2))"
    using winv_asserts [OF b] write_header_to_block_full [OF b r, of big ?r1]
    by (simp add: write_record_loop.simps [of big False b ?r1] write_record_step_def)
  have loop: "write_record_loop big False b rec = Some (Inr (False, b, ?r2))"
  proof (cases "r_wstate rec = st_none")
    case True
    then have "write_record_loop big False b rec = write_record_loop big False b ?r1"
      using winv_asserts [OF b]
      by (simp add: write_record_loop.simps [of big False b rec] write_record_step_def)
    with hdr show ?thesis by simp
  next
    case False
    then have "?r1 = rec" using st rec by (simp add: ready_rec_def)
    with hdr show ?thesis by simp
  qed
  have "unat (r_data_len rec + 12) = unat (r_data_len rec) + 12"
    using rec by (subst unat_add_lt) (auto simp: ready_rec_def)
  then have "\<not> continuing ?r2" "\<not> continuing rec"
    using st by (auto simp: continuing_def u32_le)
  then show ?thesis
    using that [of ?r2] loop rec by (simp add: rec_frame_def ready_rec_def splittable_def to_write_def)
qed

section \<open>The fragments of a record\<close>

text \<open>
  The specification of the writer: the bytes a record adds to the block that is open and to
  each following block.  The first block has \<open>room\<close> bytes left, the others offer \<open>cap\<close>.
\<close>

function cont_fragments :: "nat \<Rightarrow> i32 \<Rightarrow> i32 \<Rightarrow> u8 list \<Rightarrow> u8 list list" where
  "cont_fragments cap fi stream ds =
     (let h = rec_header fi (- stream) (of_nat (length ds))
      in if cap \<le> 12 \<or> length ds \<le> cap - 12 then [h @ ds]
         else (h @ take (cap - 12) ds) # cont_fragments cap fi stream (drop (cap - 12) ds))"
  by pat_completeness auto

termination cont_fragments
  by (relation "measure (\<lambda>(cap, fi, stream, ds). length ds)") auto

declare cont_fragments.simps [simp del]

lemma cont_fragments_last:
  "length ds \<le> cap - 12 \<Longrightarrow> cont_fragments cap fi stream ds = [rec_header fi (- stream) (of_nat (length ds)) @ ds]"
  by (simp add: cont_fragments.simps Let_def)

lemma cont_fragments_more:
  "12 < cap \<Longrightarrow> cap - 12 < length ds \<Longrightarrow> cont_fragments cap fi stream ds =
   (rec_header fi (- stream) (of_nat (length ds)) @ take (cap - 12) ds) # cont_fragments cap fi stream (drop (cap - 12) ds)"
  by (subst cont_fragments.simps) (simp add: Let_def)

lemma cont_fragments_not_Nil: "cont_fragments cap fi stream ds \<noteq> []"
  by (subst cont_fragments.simps) (simp add: Let_def)

definition first_fragments :: "nat \<Rightarrow> nat \<Rightarrow> i32 \<Rightarrow> i32 \<Rightarrow> u8 list \<Rightarrow> u8 list list" where
  "first_fragments rm cap fi stream ds =
     (let h = rec_header fi stream (of_nat (length ds))
      in if length ds \<le> rm - 12 then [h @ ds]
         else (h @ take (rm - 12) ds) # cont_fragments cap fi stream (drop (rm - 12) ds))"

definition record_fragments :: "nat \<Rightarrow> nat \<Rightarrow> i32 \<Rightarrow> i32 \<Rightarrow> u8 list \<Rightarrow> u8 list list" where
  "record_fragments rm cap fi stream ds =
     (if rm < 12 then [] # first_fragments cap cap fi stream ds
      else first_fragments rm cap fi stream ds)"

text \<open>What remains to be written of a record in any of the header states.\<close>

definition fragments_of :: "nat \<Rightarrow> nat \<Rightarrow> dev_record \<Rightarrow> u8 list list" where
  "fragments_of rm cap rec =
     (if continuing rec then cont_fragments rm (r_FileIndex rec) (r_Stream rec) (to_write rec)
      else record_fragments rm cap (r_FileIndex rec) (r_Stream rec) (to_write rec))"

lemma next_header_eq:
  assumes "ready_rec rec"
  shows "next_header rec = rec_header (r_FileIndex rec) (if continuing rec then - r_Stream rec else r_Stream rec)
     (of_nat (length (to_write rec)))"
  using length_to_write [OF assms] by (simp add: next_header_def)

lemma fragments_of_fits:
  assumes "ready_rec rec" and "12 + length (to_write rec) \<le> rm"
  shows "fragments_of rm cap rec = [next_header rec @ to_write rec]"
proof -
  have "length (to_write rec) \<le> rm - 12" "\<not> rm < 12" using assms(2) by auto
  then show ?thesis
    using assms(1)
    by (simp add: fragments_of_def record_fragments_def first_fragments_def cont_fragments_last next_header_eq)
qed

lemma fragments_of_fills:
  assumes "ready_rec rec" and "12 \<le> rm" and "rm < 12 + length (to_write rec)"
    and "continuing rec \<Longrightarrow> rm = cap \<and> 12 < cap"
    and "continuing rec'" and "rec_frame rec rec'" and "to_write rec' = drop (rm - 12) (to_write rec)"
  shows "fragments_of rm cap rec = (next_header rec @ take (rm - 12) (to_write rec)) # fragments_of cap cap rec'"
proof -
  have more: "rm - 12 < length (to_write rec)" using assms(2,3) by linarith
  show ?thesis
  proof (cases "continuing rec")
    case True
    then show ?thesis
      using assms(1,4-7) more
      by (simp add: fragments_of_def cont_fragments_more [of cap "to_write rec"] next_header_eq rec_frame_def)
  next
    case False
    then show ?thesis
      using assms(1,2,5-7) more
      by (simp add: fragments_of_def record_fragments_def first_fragments_def next_header_eq rec_frame_def)
  qed
qed

lemma fragments_of_no_room:
  assumes "rm < 12" and "12 \<le> cap" and "\<not> continuing rec" and "\<not> continuing rec'"
    and "rec_frame rec rec'" and "to_write rec' = to_write rec"
  shows "fragments_of rm cap rec = [] # fragments_of cap cap rec'"
  using assms by (simp add: fragments_of_def record_fragments_def rec_frame_def)

lemma fragments_of_not_Nil: "fragments_of rm cap rec \<noteq> []"
  by (simp add: fragments_of_def record_fragments_def first_fragments_def cont_fragments_not_Nil Let_def)

lemma fragments_of_pos: "length (fragments_of rm cap rec) \<le> n \<Longrightarrow> 0 < n"
  using fragments_of_not_Nil [of rm cap rec] by (cases "fragments_of rm cap rec") auto

lemma payload_of_extends:
  assumes "winv b" and "extends b b' bs" and "32 \<le> b_bufp b"
  shows "payload_of b' = payload_of b @ bs" and "b_bufp b' = b_bufp b + length bs"
proof -
  have l: "length (used b) = b_bufp b" "length (used b') = b_bufp b'"
    using assms(1,2) length_used [of b] length_used [of b'] by (auto simp: extends_def winv_def block_inv_def)
  then show "payload_of b' = payload_of b @ bs"
    using assms(2,3) by (simp add: payload_of_def extends_def)
  show "b_bufp b' = b_bufp b + length bs"
    using l assms(2) by (auto simp: extends_def dest: arg_cong [of _ _ length])
qed

lemma room_bufp: "winv b \<Longrightarrow> room b = unat (b_buf_len b) - b_bufp b"
  by (simp add: room_def winv_def block_inv_def)

text \<open>
  What \<open>write_record\<close> needs from the routine that writes a full block: given a block with data and
  space on the Volume, it succeeds, the data of the block is added to what the Volume holds
  and the block is empty.  \<open>free\<close> counts the blocks that can still be written; the blocks are of the
  session \<open>sid\<close>, \<open>stime\<close> and of size \<open>blen\<close>.
\<close>

locale block_sink =
  fixes write_block :: "'z dcr_scheme \<Rightarrow> fault + (bool \<times> 'z dcr_scheme)"
    and is_canceled :: "'z dcr_scheme \<Rightarrow> bool"
    and media :: "'z dcr_scheme \<Rightarrow> u8 list list"
    and free :: "'z dcr_scheme \<Rightarrow> nat"
    and inv :: "'z dcr_scheme \<Rightarrow> bool"
    and sid :: u32 and stime :: u32 and blen :: u32
  assumes write_ok: "inv d \<Longrightarrow> 0 < free d \<Longrightarrow> winv (c_block d) \<Longrightarrow> 32 < b_bufp (c_block d) \<Longrightarrow>
      b_VolSessionId (c_block d) = sid \<Longrightarrow> b_VolSessionTime (c_block d) = stime \<Longrightarrow> b_buf_len (c_block d) = blen \<Longrightarrow>
      \<exists>d'. write_block d = Inr (True, d') \<and> inv d' \<and> winv (c_block d') \<and> b_bufp (c_block d') = 32 \<and>
           b_buf_len (c_block d') = b_buf_len (c_block d) \<and> c_adata_label d' = c_adata_label d \<and>
           media d' = media d @ [payload_of (c_block d)] \<and> free d' = free d - 1"
    and frame: "media (d\<lparr>c_block := b\<rparr>) = media d" "free (d\<lparr>c_block := b\<rparr>) = free d"
      "inv (d\<lparr>c_block := b\<rparr>) = inv d" "is_canceled (d\<lparr>c_block := b\<rparr>) = is_canceled d"
    and not_canceled: "inv d \<Longrightarrow> \<not> is_canceled d"
begin

text \<open>A state in which records can be written: blocks of more than 44 bytes, on an ordinary device,
  an open block being one of the session.\<close>

definition sink_ok :: "'z dcr_scheme \<Rightarrow> bool" where
  "sink_ok d \<longleftrightarrow> inv d \<and> winv (c_block d) \<and> 32 \<le> b_bufp (c_block d) \<and> \<not> c_adata_label d \<and>
     b_buf_len (c_block d) = blen \<and> 44 < unat blen \<and>
     (32 < b_bufp (c_block d) \<longrightarrow> b_VolSessionId (c_block d) = sid \<and> b_VolSessionTime (c_block d) = stime)"

definition cap :: "'z dcr_scheme \<Rightarrow> nat" where
  "cap d = unat (b_buf_len (c_block d)) - 32"

text \<open>Writing succeeds and adds the byte strings \<open>frs\<close>, the first to the open block.\<close>

definition writes :: "bool \<Rightarrow> 'z dcr_scheme \<Rightarrow> dev_record \<Rightarrow> u8 list list \<Rightarrow> bool" where
  "writes big d rec frs \<longleftrightarrow>
     (\<exists>d' rec'. write_record write_block is_canceled big d rec = Some (Inr (True, d', rec')) \<and>
        media d' @ [payload_of (c_block d')] = media d @ (payload_of (c_block d) @ hd frs) # tl frs \<and>
        sink_ok d' \<and> b_buf_len (c_block d') = b_buf_len (c_block d) \<and> in_session rec (c_block d') \<and>
        rec_frame rec rec' \<and> r_wstate rec' = st_none \<and> r_remainder rec' = 0)"

text \<open>A call that leaves the record unfinished is followed by a write of the block and another call.\<close>

lemma writes_again:
  assumes d: "sink_ok d" and fr: "0 < free d"
    and loop: "write_record_loop big False (c_block d) rec = Some (Inr (False, b', rec'))"
    and ext: "extends (c_block d) b' bs" and ne: "32 < b_bufp b'" and rf: "rec_frame rec rec'"
    and ss: "b_VolSessionId b' = sid" "b_VolSessionTime b' = stime"
    and rest: "\<And>d'. sink_ok d' \<Longrightarrow> room (c_block d') = cap d' \<Longrightarrow> cap d' = cap d \<Longrightarrow> free d' = free d - 1 \<Longrightarrow>
      writes big d' rec' frs" and "frs \<noteq> []"
  shows "writes big d rec (bs # frs)"
proof -
  let ?d = "d\<lparr>c_block := b'\<rparr>"
  have inv: "inv d" "winv (c_block d)" "32 \<le> b_bufp (c_block d)" "\<not> c_adata_label d" "b_buf_len (c_block d) = blen"
    "44 < unat blen"
    using d by (auto simp: sink_ok_def)
  have b': "winv b'" "b_buf_len b' = b_buf_len (c_block d)" using ext by (auto simp: extends_def)
  obtain d' where d': "write_block ?d = Inr (True, d')" "inv d'" "winv (c_block d')" "b_bufp (c_block d') = 32"
    "b_buf_len (c_block d') = b_buf_len b'" "c_adata_label d' = c_adata_label d"
    "media d' = media d @ [payload_of b']" "free d' = free d - 1"
    using write_ok [of ?d] fr inv(1,5) b' ne ss by (auto simp: frame)
  have eq: "write_record write_block is_canceled big d rec = write_record write_block is_canceled big d' rec'"
    using loop inv(1,4) not_canceled [of d] d'(1)
    by (subst write_record.simps) (simp add: write_record_to_block_def frame)
  have "writes big d' rec' frs"
    using d' b'(2) inv room_bufp [OF d'(3)] by (intro rest) (simp_all add: sink_ok_def cap_def)
  moreover have "payload_of (c_block d') = []"
    using d'(4) by (simp add: payload_of_def used_def)
  moreover have "payload_of b' = payload_of (c_block d) @ bs"
    by (rule payload_of_extends [OF inv(2) ext inv(3)])
  ultimately show ?thesis
    using eq d'(5,7) b'(2) rf assms(10) by (auto simp: writes_def rec_frame_def in_session_def)
qed

lemma writes_fits:
  assumes d: "sink_ok d" and rec: "ready_rec rec" and fits: "12 + length (to_write rec) \<le> room (c_block d)"
    and cont: "r_wstate rec = st_cont_header \<Longrightarrow> 12 < room (c_block d)"
    and ss: "r_VolSessionId rec = sid" "r_VolSessionTime rec = stime"
  shows "writes big d rec [next_header rec @ to_write rec]"
proof -
  have b: "winv (c_block d)" "32 \<le> b_bufp (c_block d)" "\<not> c_adata_label d"
    using d by (auto simp: sink_ok_def)
  obtain b' rec' where w: "write_record_loop big False (c_block d) rec = Some (Inr (True, b', rec'))"
    "extends (c_block d) b' (next_header rec @ to_write rec)" "rec_frame rec rec'" "in_session rec' b'"
    "r_wstate rec' = st_none" "r_remainder rec' = 0"
    using loop_finishes [OF rec b(1) fits cont] by blast
  have "write_record write_block is_canceled big d rec = Some (Inr (True, d\<lparr>c_block := b'\<rparr>, rec'))"
    using w(1) b(3) by (subst write_record.simps) (simp add: write_record_to_block_def)
  moreover have "sink_ok (d\<lparr>c_block := b'\<rparr>)"
    using d w(2-4) ss payload_of_extends(2) [OF b(1) w(2) b(2)]
    by (auto simp: sink_ok_def extends_def frame in_session_def rec_frame_def)
  ultimately show ?thesis
    using w payload_of_extends(1) [OF b(1) w(2) b(2)]
    by (auto simp: writes_def extends_def frame in_session_def rec_frame_def)
qed

text \<open>The writer implements its specification.\<close>

lemma writes_fragments:
  assumes "sink_ok d" and "ready_rec rec" and "r_wstate rec = st_cont_header \<Longrightarrow> room (c_block d) = cap d"
    and "length (fragments_of (room (c_block d)) (cap d) rec) \<le> free d + 1"
    and "r_VolSessionId rec = sid" and "r_VolSessionTime rec = stime"
  shows "writes big d rec (fragments_of (room (c_block d)) (cap d) rec)"
  using assms
proof (induction "length (to_write rec) + (if r_wstate rec = st_cont_header then 0 else 1)"
    arbitrary: d rec rule: less_induct)
  case less
  let ?b = "c_block d"
  note d = less.prems(1) and rec = less.prems(2) and ss = less.prems(5,6)
  have b: "winv ?b" "32 \<le> b_bufp ?b" "44 < unat (b_buf_len ?b)"
    using d by (auto simp: sink_ok_def)
  have cap: "12 < cap d" using b(3) by (simp add: cap_def)
  have cont: "r_wstate rec = st_cont_header \<Longrightarrow> 12 < room ?b" using less.prems(3) cap by simp
  consider (fits) "12 + length (to_write rec) \<le> room ?b"
    | (fills) "12 \<le> room ?b" "room ?b < 12 + length (to_write rec)" | (full) "room ?b < 12"
    by linarith
  then show ?case
  proof cases
    case fits
    then show ?thesis
      using writes_fits [OF d rec _ cont ss] fragments_of_fits [OF rec] by simp
  next
    case fills
    obtain b' rec' where w: "write_record_loop big False ?b rec = Some (Inr (False, b', rec'))"
      "extends ?b b' (next_header rec @ take (room ?b - 12) (to_write rec))" "rec_frame rec rec'" "in_session rec' b'"
      "ready_rec rec'" "continuing rec'" "to_write rec' = drop (room ?b - 12) (to_write rec)"
      using loop_fills [OF rec b(1) fills cont] by blast
    have frs: "fragments_of (room ?b) (cap d) rec =
        (next_header rec @ take (room ?b - 12) (to_write rec)) # fragments_of (cap d) (cap d) rec'"
      using fragments_of_fills [OF rec fills _ w(6,3,7)] less.prems(3) cap by (simp add: continuing_def)
    have st: "r_wstate rec' = st_cont_header" using w(6) by (simp add: continuing_def)
    have ne: "32 < b_bufp b'"
      using payload_of_extends(2) [OF b(1) w(2) b(2)] b(2) by (simp add: next_header_def)
    have "length (to_write rec') + (if r_wstate rec' = st_cont_header then 0 else 1) <
        length (to_write rec) + (if r_wstate rec = st_cont_header then 0 else 1)"
      using w(7) st cont fills by auto
    note hyp = less.hyps [OF this _ w(5)]
    have fr: "0 < free d" "length (fragments_of (cap d) (cap d) rec') \<le> free d"
      using less.prems(4) by (simp_all add: frs fragments_of_pos)
    have IH: "writes big d' rec' (fragments_of (cap d) (cap d) rec')"
      if "sink_ok d'" "room (c_block d') = cap d'" "cap d' = cap d" "free d' = free d - 1" for d'
      using hyp [of d'] that fr w(3) ss by (simp add: rec_frame_def)
    have "b_VolSessionId b' = sid" "b_VolSessionTime b' = stime"
      using w(3,4) ss by (simp_all add: in_session_def rec_frame_def)
    then show ?thesis unfolding frs
      by (intro writes_again [OF d fr(1) w(1,2) ne w(3)]) (simp_all add: IH fragments_of_not_Nil)
  next
    case full
    have st: "r_wstate rec \<noteq> st_cont_header" using full cont by auto
    obtain rec' where w: "write_record_loop big False ?b rec = Some (Inr (False, ?b, rec'))" "rec_frame rec rec'"
      "ready_rec rec'" "r_wstate rec' = st_cont_header" "\<not> continuing rec'" "to_write rec' = to_write rec"
      using loop_no_room [OF rec b(1) full st] by blast
    have frs: "fragments_of (room ?b) (cap d) rec = [] # fragments_of (cap d) (cap d) rec'"
      using fragments_of_no_room [OF full _ _ w(5,2,6)] cap st by (simp add: continuing_def)
    have ext: "extends ?b ?b []" using b(1) by (simp add: extends_def)
    have ne: "32 < b_bufp ?b" using full b(3) room_bufp [OF b(1)] by simp
    have "length (to_write rec') + (if r_wstate rec' = st_cont_header then 0 else 1) <
        length (to_write rec) + (if r_wstate rec = st_cont_header then 0 else 1)"
      using w(4,6) st by simp
    note hyp = less.hyps [OF this _ w(3)]
    have fr: "0 < free d" "length (fragments_of (cap d) (cap d) rec') \<le> free d"
      using less.prems(4) by (simp_all add: frs fragments_of_pos)
    have IH: "writes big d' rec' (fragments_of (cap d) (cap d) rec')"
      if "sink_ok d'" "room (c_block d') = cap d'" "cap d' = cap d" "free d' = free d - 1" for d'
      using hyp [of d'] that fr w(2) ss by (simp add: rec_frame_def)
    have "b_VolSessionId ?b = sid" "b_VolSessionTime ?b = stime" using d ne by (auto simp: sink_ok_def)
    then show ?thesis unfolding frs
      by (intro writes_again [OF d fr(1) w(1) ext ne w(2)]) (simp_all add: IH fragments_of_not_Nil)
  qed
qed

end

section \<open>Properties\<close>

lemma write_record_to_block_loop:
  "\<not> c_adata_label d \<Longrightarrow> write_record_loop big False (c_block d) rec = Some (Inr (r, b, rec')) \<Longrightarrow>
   write_record_to_block big d rec = Some (Inr (r, d\<lparr>c_block := b\<rparr>, rec'))"
  by (simp add: write_record_to_block_def)


text \<open>
  C21 (can_write_record_to_block_exact). The test \<open>can_write_record_to_block\<close> on a fresh record is exact: it
  answers yes just when a single call of \<open>write_record_to_block\<close> writes the whole record.
\<close>

theorem can_write_record_to_block_exact:
  assumes "ready_rec rec" and "r_wstate rec = st_none" and "r_remainder rec = 0"
    and "winv (c_block d)" and "\<not> c_adata_label d"
  shows "fst (can_write_record_to_block (c_block d) rec) \<longleftrightarrow>
    (\<exists>d' rec'. write_record_to_block big d rec = Some (Inr (True, d', rec')))"
proof -
  let ?b = "c_block d"
  have len: "length (to_write rec) = unat (r_data_len rec)"
    using assms(2) length_to_write [OF assms(1)] by (simp add: continuing_def)
  have le: "WRITE_RECHDR_LENGTH \<le> b_buf_len ?b - b_binbuf ?b \<longleftrightarrow> 12 \<le> room ?b"
    using rechdr_room [OF assms(4)] by (simp add: not_less [symmetric])
  have sub: "unat (b_buf_len ?b - b_binbuf ?b - WRITE_RECHDR_LENGTH) = room ?b - 12" if "12 \<le> room ?b"
    using that le room_unat [OF assms(4)]
    by (simp add: unat_sub WRITE_RECHDR_LENGTH_def RECHDR2_LENGTH_def)
  have can: "fst (can_write_record_to_block ?b rec) \<longleftrightarrow> 12 + length (to_write rec) \<le> room ?b"
  proof (cases "12 \<le> room ?b")
    case True
    then show ?thesis
      using assms(3) le sub len
      by (auto simp: can_write_record_to_block_def Let_def u32_less word_gt_0 unat_eq_0)
  next
    case False
    then show ?thesis using assms(3) le by (simp add: can_write_record_to_block_def Let_def)
  qed
  consider "12 + length (to_write rec) \<le> room ?b"
    | "12 \<le> room ?b" "room ?b < 12 + length (to_write rec)" | "room ?b < 12"
    by linarith
  then show ?thesis
  proof cases
    case 1
    then obtain b' rec' where "write_record_loop big False ?b rec = Some (Inr (True, b', rec'))"
      using loop_finishes [OF assms(1,4), of big] assms(2) by (metis rec_state.distinct(3))
    from write_record_to_block_loop [OF assms(5) this] can 1 show ?thesis by blast
  next
    case 2
    then obtain b' rec' where "write_record_loop big False ?b rec = Some (Inr (False, b', rec'))"
      using loop_fills [OF assms(1,4), of big] assms(2) by (metis rec_state.distinct(3))
    from write_record_to_block_loop [OF assms(5) this] can 2 show ?thesis by simp
  next
    case 3
    then obtain rec' where "write_record_loop big False ?b rec = Some (Inr (False, ?b, rec'))"
      using loop_no_room [OF assms(1,4), of big] assms(2) by (metis rec_state.distinct(3))
    from write_record_to_block_loop [OF assms(5) this] can 3 show ?thesis by simp
  qed
qed

text \<open>
  A record that must not be split and does not fit after its header
  adds only the header to the block and is left in the state it started from, to be tried
  again in the next block: a record larger than any block is never finished.
\<close>

theorem no_split_record_stalls:
  assumes "r_state_bits rec AND REC_NO_SPLIT \<noteq> 0" and "r_wstate rec = st_header"
    and "winv (c_block d)" and "12 \<le> room (c_block d)" and "room (c_block d) < 12 + unat (r_data_len rec)"
  shows "\<exists>b' rec'. write_record_to_block big d rec = Some (Inr (False, d\<lparr>c_block := b'\<rparr>, rec')) \<and>
     extends (c_block d) b' (rec_header (r_FileIndex rec) (r_Stream rec) (r_data_len rec)) \<and>
     r_wstate rec' = st_header \<and> rec_frame rec rec' \<and> r_state_bits rec' = r_state_bits rec"
proof -
  let ?b = "c_block d"
  obtain b' rl where w: "write_header_to_block big ?b rec = Inr (True, b', rec\<lparr>r_remlen := rl, r_remainder := r_data_len rec\<rparr>)"
    "extends ?b b' (rec_header (r_FileIndex rec) (r_Stream rec) (r_data_len rec))"
    using write_header_to_block_ok [OF assms(3,4), of big rec] by blast
  let ?r1 = "rec\<lparr>r_remlen := rl, r_remainder := r_data_len rec, r_wstate := st_data\<rparr>"
  have b': "winv b'" "room b' = room ?b - 12"
    using w(2) room_extends [OF assms(3) w(2)] by (auto simp: extends_def)
  have more: "\<not> r_data_len rec \<le> b_buf_len b' - b_binbuf b'" "0 < r_data_len rec"
    using assms(4,5) room_unat [OF b'(1)] b'(2) by (auto simp: u32_le word_less_nat_alt)
  have "write_record_loop big (c_adata_label d) ?b rec = write_record_loop big (c_adata_label d) b' ?r1"
    using assms(2) winv_asserts [OF assms(3)] w(1)
    by (simp add: write_record_loop.simps [of big _ ?b rec] write_record_step_def)
  also have "\<dots> = Some (Inr (False, b', ?r1\<lparr>r_remlen := b_buf_len b' - b_binbuf b', r_wstate := st_header\<rparr>))"
    using more b'(1) winv_asserts [OF b'(1)] assms(1)
    by (simp add: write_record_loop.simps [of big _ b' ?r1] write_record_step_def write_data_to_block_def
        winv_def Let_def)
  finally show ?thesis
    using w(2)
    by (intro exI [of _ b'] exI [of _ "?r1\<lparr>r_remlen := b_buf_len b' - b_binbuf b', r_wstate := st_header\<rparr>"])
      (simp add: write_record_to_block_def rec_frame_def)
qed

section \<open>Instances\<close>

definition sample_record :: dev_record where
  "sample_record = (new_record (map of_nat [0..<60]))\<lparr>r_FileIndex := 1, r_Stream := 2, r_data_len := 60,
     r_VolSessionId := 3, r_VolSessionTime := 1700000000\<rparr>"

definition sample_dcr :: dcr where
  "sample_dcr = \<lparr>c_block = new_block (\<lambda>n. replicate n 0) sample_dev 64, c_adata_label = False\<rparr>"

lemma sample_record_facts:
  "ready_rec sample_record" "r_wstate sample_record = st_none" "r_remainder sample_record = 0"
  "length (to_write sample_record) = 60"
  by (simp_all add: sample_record_def new_record_def ready_rec_def splittable_def to_write_def continuing_def)

lemma sample_dcr_facts:
  "winv (c_block sample_dcr)" "\<not> c_adata_label sample_dcr" "room (c_block sample_dcr) = 32"
  by (simp_all add: sample_dcr_def new_block_def empty_block_def winv_def block_inv_def room_def
      WRITE_BLKHDR_LENGTH_def Let_def)


theorem can_write_record_to_block_exact_witness:
  "\<not> fst (can_write_record_to_block (c_block sample_dcr) sample_record) \<and>
   \<not> (\<exists>d' rec'. write_record_to_block False sample_dcr sample_record = Some (Inr (True, d', rec')))"
proof -
  have "\<not> fst (can_write_record_to_block (c_block sample_dcr) sample_record)" by code_simp
  then show ?thesis
    using can_write_record_to_block_exact [OF sample_record_facts(1-3) sample_dcr_facts(1,2), of False] by simp
qed

theorem no_split_record_stalls_witness:
  "\<exists>b' rec'. write_record_to_block False sample_dcr
       (sample_record\<lparr>r_state_bits := REC_NO_SPLIT, r_wstate := st_header\<rparr>) =
     Some (Inr (False, sample_dcr\<lparr>c_block := b'\<rparr>, rec')) \<and> r_wstate rec' = st_header"
proof -
  let ?r = "sample_record\<lparr>r_state_bits := REC_NO_SPLIT, r_wstate := st_header\<rparr>"
  have "unat (r_data_len ?r) = 60" by code_simp
  then show ?thesis
    using no_split_record_stalls [of ?r sample_dcr False] sample_dcr_facts
    by (auto simp: REC_NO_SPLIT_def)
qed

end
