(* ===== verification/Volume.thy ===== *)
theory Volume
  imports Record_Write
begin

text \<open>
  The accounting of a Volume during writing: the JobMedia queue of
  \<^verbatim>\<open>src/bacula/src/stored/askdir.c\<close>, the catalog counters and flags of
  \<^verbatim>\<open>dev.c\<close>, the start of a new Volume or file of \<^verbatim>\<open>device.c\<close> and the
  end of a Volume of \<^verbatim>\<open>block_util.c\<close>, for a device of the base class or a tape
  (no aligned Volumes).  The structures \<^verbatim>\<open>DCR\<close>, \<^verbatim>\<open>DEVICE\<close>,
  \<^verbatim>\<open>VOLUME_CAT_INFO\<close> and \<^verbatim>\<open>JCR\<close> are records; locks, timers and debug
  output have no counterpart.  The operating system, the tape drive, the Director's
  answers and the mount dialog are arguments, collected in \<open>write_ops\<close>.
\<close>

section \<open>State\<close>

definition EBUSY :: int where "EBUSY = 16"
definition ENOSPC :: int where "ENOSPC = 28"
definition EBADF :: int where "EBADF = 9"

record jobmedia_item =
  jm_VolMediaId :: i64
  jm_StartAddr :: u64
  jm_EndAddr :: u64
  jm_VolFirstIndex :: u32
  jm_VolLastIndex :: u32
  jm_StartFile :: u32
  jm_EndFile :: u32
  jm_StartBlock :: u32
  jm_EndBlock :: u32

text \<open>State flags and position of the device.\<close>

record dev_state =
  s_enabled :: bool
  s_is_open :: bool
  s_APPEND :: bool
  s_EOF :: bool
  s_EOT :: bool
  s_WEOT :: bool
  s_NOSPACE :: bool
  s_SHORT :: bool
  s_m_unload :: bool
  s_VolumeName :: string
  s_PrevVolumeName :: string
  s_LoadedVolName :: string
  s_file :: u32
  s_block_num :: u32
  s_LastBlock :: u32
  s_file_addr :: u64
  s_file_size :: u64
  s_max_file_size :: u64
  s_usage :: u64
  s_part :: u32
  s_part_size :: u64
  s_CAP_TWOEOF :: bool
  s_set_vol_immutable :: bool
  s_set_vol_read_only :: bool

text \<open>The catalog's view of the Volume; the byte count and its limit are fields of \<open>device\<close>.\<close>

record vol_cat_info =
  v_VolCatName :: string
  v_VolCatStatus :: string
  v_VolCatJobs :: u32
  v_VolCatFiles :: u32
  v_VolCatBlocks :: u32
  v_VolCatWrites :: u32
  v_VolCatReads :: u32
  v_VolCatErrors :: u32
  v_VolCatPadding :: u64
  v_VolCatRBytes :: u64
  v_BytesWritten :: u64
  v_VolCatParts :: u32
  v_VolLastPartBytes :: u64
  v_VolMediaId :: i64
  v_UseProtect :: bool
  v_Protected :: bool
  v_valid :: bool

record jcr =
  j_JobId :: u32
  j_canceled :: bool
  j_system_job :: bool
  j_incomplete :: bool
  j_NumWriteVolumes :: nat
  j_jobmedia_queue :: "jobmedia_item list"
  j_lastFileIndex :: u32
  j_lastFlushIndex :: u32
  j_msgs :: "jmsg list"

text \<open>Another job's \<^verbatim>\<open>DCR\<close> attached to the device, as far as a Volume change reaches it.\<close>

record attached =
  at_JobId :: u32
  at_NewVol :: bool
  at_NewFile :: bool
  at_VolumeName :: string

record 'os wdcr = dcr +
  w_dev :: device
  w_st :: dev_state
  w_vol :: vol_cat_info
  w_jcr :: jcr
  w_attached :: "attached list"
  w_NewVol :: bool
  w_NewFile :: bool
  w_spooling :: bool
  w_force_update :: bool
  w_VolumeName :: string
  w_StartAddr :: u64
  w_EndAddr :: u64
  w_VolMediaId :: i64
  w_VolFirstIndex :: u32
  w_VolLastIndex :: u32
  w_WroteVol :: bool
  w_os :: 'os

text \<open>
  The arguments.  \<open>o_write\<close> and \<open>o_read\<close> are the system calls (the number of bytes or \<open>-1\<close>,
  \<^verbatim>\<open>errno\<close>, the new state of the system, and for a read the bytes);
  \<open>o_send_jobmedia\<close> sends the JobMedia items and tells whether the Director accepted them;
  \<open>o_update_media\<close> sends the Volume's counters and gives the answer, if it is a good one;
  \<open>o_no_freespace\<close> says whether the measured free space is below the minimum;
  \<open>o_set_atime\<close>, \<open>o_set_readonly\<close> and \<open>o_set_immutable\<close> protect the Volume's file;
  the remaining ones are the tape drive, the catalog look-up of a new Volume, the mount of the next
  Volume, the spool file and fresh memory.
\<close>

record vol_answer =
  va_VolCatStatus :: string
  va_VolCatPadding :: u64
  va_VolCatFiles :: u32
  va_VolCatBytes :: u64
  va_VolCatJobs :: u32
  va_VolCatWrites :: u32
  va_VolCatReads :: u32
  va_VolCatMaxBytes :: u64

record 'os write_ops =
  o_env :: blk_env
  o_mem :: "nat \<Rightarrow> u8 list"
  o_write :: "'os \<Rightarrow> u8 list \<Rightarrow> int \<times> int \<times> 'os"
  o_send_jobmedia :: "jobmedia_item list \<Rightarrow> 'os \<Rightarrow> bool \<times> 'os"
  o_update_media :: "vol_cat_info \<Rightarrow> u64 \<Rightarrow> 'os \<Rightarrow> vol_answer option \<times> 'os"
  o_no_freespace :: "'os \<Rightarrow> bool"
  o_set_atime :: "'os \<Rightarrow> bool \<times> 'os"
  o_set_readonly :: "'os \<Rightarrow> bool \<times> 'os"
  o_set_immutable :: "'os \<Rightarrow> bool \<times> 'os"
  o_tape_weof :: "'os wdcr \<Rightarrow> bool \<times> 'os wdcr"
  o_tape_end_of_volume :: "'os wdcr \<Rightarrow> bool \<times> 'os wdcr"
  o_tape_reread_last_block :: "'os wdcr \<Rightarrow> 'os wdcr"
  o_get_new_volume_info :: "'os wdcr \<Rightarrow> 'os wdcr"
  o_mount_next_write_volume :: "'os wdcr \<Rightarrow> bool \<times> 'os wdcr"
  o_write_block_to_spool_file :: "'os wdcr \<Rightarrow> bool \<times> 'os wdcr"

section \<open>Counters and flags of the device\<close>

definition setVolCatInfo :: "bool \<Rightarrow> 'os wdcr \<Rightarrow> 'os wdcr" where
  "setVolCatInfo valid d = w_vol_update (\<lambda>v. v\<lparr>v_valid := valid\<rparr>) d"

definition updateVolCatBytes :: "u64 \<Rightarrow> 'os wdcr \<Rightarrow> 'os wdcr" where
  "updateVolCatBytes bytes d =
     setVolCatInfo False
       (w_vol_update (\<lambda>v. v\<lparr>v_BytesWritten := v_BytesWritten v + bytes\<rparr>)
         (w_dev_update (\<lambda>e. e\<lparr>d_VolCatBytes := d_VolCatBytes e + bytes\<rparr>) d))"

definition updateVolCatPadding :: "u64 \<Rightarrow> 'os wdcr \<Rightarrow> 'os wdcr" where
  "updateVolCatPadding padding d =
     setVolCatInfo False (w_vol_update (\<lambda>v. v\<lparr>v_VolCatPadding := v_VolCatPadding v + padding\<rparr>) d)"

definition updateVolCatBlocks :: "u32 \<Rightarrow> 'os wdcr \<Rightarrow> 'os wdcr" where
  "updateVolCatBlocks blocks d =
     setVolCatInfo False (w_vol_update (\<lambda>v. v\<lparr>v_VolCatBlocks := v_VolCatBlocks v + blocks\<rparr>) d)"

definition updateVolCatWrites :: "u32 \<Rightarrow> 'os wdcr \<Rightarrow> 'os wdcr" where
  "updateVolCatWrites writes d =
     setVolCatInfo False (w_vol_update (\<lambda>v. v\<lparr>v_VolCatWrites := v_VolCatWrites v + writes\<rparr>) d)"

definition setVolCatStatus :: "string \<Rightarrow> 'os wdcr \<Rightarrow> 'os wdcr" where
  "setVolCatStatus status d = setVolCatInfo False (w_vol_update (\<lambda>v. v\<lparr>v_VolCatStatus := status\<rparr>) d)"

definition get_full_addr :: "'os wdcr \<Rightarrow> u64" where
  "get_full_addr d =
     (if d_is_tape (w_dev d) then push_bit 32 (ucast (s_file (w_st d))) OR ucast (s_block_num (w_st d))
      else s_file_addr (w_st d))"

definition get_file :: "'os wdcr \<Rightarrow> u32" where
  "get_file d =
     (if d_is_tape (w_dev d) then s_file (w_st d) else ucast (drop_bit 32 (d_VolCatBytes (w_dev d))))"

definition set_dev_errno :: "int \<Rightarrow> 'os wdcr \<Rightarrow> 'os wdcr" where
  "set_dev_errno e d = w_dev_update (\<lambda>v. v\<lparr>d_dev_errno := e\<rparr>) d"

text \<open>
  A message to the job.  A fatal one sets the job's status to a fatal error, with which it counts as
  canceled, unless the job is marked incomplete: that status has the higher priority and stays.
  Every type of message has a destination.
\<close>

definition setJobStatus_fatal :: "jcr \<Rightarrow> jcr" where
  "setJobStatus_fatal j = (if j_incomplete j then j else j\<lparr>j_canceled := True\<rparr>)"

definition Jmsg :: "jmsg \<Rightarrow> 'os wdcr \<Rightarrow> 'os wdcr" where
  "Jmsg m d =
     w_jcr_update (\<lambda>j. (if m = M_FATAL then setJobStatus_fatal j else j)\<lparr>j_msgs := j_msgs j @ [m]\<rparr>) d"

lemma setJobStatus_fatal_frame [simp]:
  "j_jobmedia_queue (setJobStatus_fatal j) = j_jobmedia_queue j" "j_JobId (setJobStatus_fatal j) = j_JobId j"
  "j_system_job (setJobStatus_fatal j) = j_system_job j" "j_incomplete (setJobStatus_fatal j) = j_incomplete j"
  "j_canceled (setJobStatus_fatal j) \<longleftrightarrow> j_canceled j \<or> \<not> j_incomplete j"
  by (simp_all add: setJobStatus_fatal_def)

definition set_ateot :: "'os wdcr \<Rightarrow> 'os wdcr" where
  "set_ateot d = w_st_update (\<lambda>s. s\<lparr>s_EOF := True, s_EOT := True, s_WEOT := True, s_APPEND := False\<rparr>) d"

definition is_ateot :: "'os wdcr \<Rightarrow> bool" where
  "is_ateot d \<longleftrightarrow> s_EOF (w_st d) \<and> s_EOT (w_st d) \<and> s_WEOT (w_st d)"

definition notify_newvol_in_attached_dcrs :: "string option \<Rightarrow> 'os wdcr \<Rightarrow> 'os wdcr" where
  "notify_newvol_in_attached_dcrs newVolumeName d =
     (let name = (\<lambda>old. case newVolumeName of None \<Rightarrow> old | Some n \<Rightarrow> n);
          d = d\<lparr>w_attached := map (\<lambda>a. if at_JobId a = 0 then a
                  else a\<lparr>at_NewVol := True, at_NewFile := True, at_VolumeName := name (at_VolumeName a)\<rparr>)
                (w_attached d)\<rparr>
      in if j_JobId (w_jcr d) = 0 then d
         else d\<lparr>w_NewVol := True, w_NewFile := True, w_VolumeName := name (w_VolumeName d)\<rparr>)"

definition notify_newfile_in_attached_dcrs :: "'os wdcr \<Rightarrow> 'os wdcr" where
  "notify_newfile_in_attached_dcrs d =
     (let d = d\<lparr>w_attached := map (\<lambda>a. if at_JobId a = 0 then a else a\<lparr>at_NewFile := True\<rparr>) (w_attached d)\<rparr>
      in if j_JobId (w_jcr d) = 0 then d else d\<lparr>w_NewFile := True\<rparr>)"

definition set_unload :: "'os wdcr \<Rightarrow> 'os wdcr" where
  "set_unload d =
     (if \<not> s_m_unload (w_st d) \<and> s_VolumeName (w_st d) \<noteq> []
      then notify_newvol_in_attached_dcrs None (w_st_update (\<lambda>s. s\<lparr>s_m_unload := True\<rparr>) d) else d)"

text \<open>The base class only resets the file size; a tape drive writes a mark.\<close>

definition weof :: "'os write_ops \<Rightarrow> 'os wdcr \<Rightarrow> bool \<times> 'os wdcr" where
  "weof ops d =
     (if d_is_tape (w_dev d) then o_tape_weof ops d
      else if \<not> s_is_open (w_st d) then (False, Jmsg M_FATAL (set_dev_errno EBADF d))
      else if \<not> s_APPEND (w_st d) then (False, Jmsg M_FATAL d)
      else (True, w_st_update (\<lambda>s. s\<lparr>s_file_size := 0\<rparr>) d))"

definition end_of_volume :: "'os write_ops \<Rightarrow> 'os wdcr \<Rightarrow> bool \<times> 'os wdcr" where
  "end_of_volume ops d = (if d_is_tape (w_dev d) then o_tape_end_of_volume ops d else (True, d))"

definition reread_last_block :: "'os write_ops \<Rightarrow> 'os wdcr \<Rightarrow> 'os wdcr" where
  "reread_last_block ops d = (if d_is_tape (w_dev d) then o_tape_reread_last_block ops d else d)"

section \<open>The JobMedia queue\<close>

text \<open>
  An incomplete job sends no item that starts at or after the last file saved, and cuts
  an item that ends there.
\<close>

definition jobmedia_to_send :: "jcr \<Rightarrow> jobmedia_item list" where
  "jobmedia_to_send j =
     (if j_incomplete j then
        map (\<lambda>i. if j_lastFileIndex j \<le> jm_VolLastIndex i
                 then i\<lparr>jm_VolLastIndex := j_lastFileIndex j - 1\<rparr> else i)
          (filter (\<lambda>i. jm_VolFirstIndex i < j_lastFileIndex j) (j_jobmedia_queue j))
      else j_jobmedia_queue j)"

definition flush_jobmedia_queue :: "'os write_ops \<Rightarrow> 'os wdcr \<Rightarrow> bool \<times> 'os wdcr" where
  "flush_jobmedia_queue ops d =
     (if j_jobmedia_queue (w_jcr d) = [] then (True, d)
      else
        (let items = jobmedia_to_send (w_jcr d);
             (ok, os) = o_send_jobmedia ops items (w_os d);
             d = d\<lparr>w_os := os\<rparr>;
             d = w_jcr_update (\<lambda>j. j\<lparr>j_lastFlushIndex :=
                     (if items = [] then j_lastFlushIndex j else jm_VolLastIndex (last items)),
                   j_jobmedia_queue := []\<rparr>) d
         in if ok then (True, d) else (False, Jmsg M_FATAL d)))"

definition new_jobmedia_item :: "bool \<Rightarrow> 'os wdcr \<Rightarrow> jobmedia_item" where
  "new_jobmedia_item zero d =
     (if zero then
        \<lparr>jm_VolMediaId = w_VolMediaId d, jm_StartAddr = 0, jm_EndAddr = 0, jm_VolFirstIndex = 0,
         jm_VolLastIndex = 0, jm_StartFile = 0, jm_EndFile = 0, jm_StartBlock = 0, jm_EndBlock = 0\<rparr>
      else
        \<lparr>jm_VolMediaId = w_VolMediaId d, jm_StartAddr = w_StartAddr d, jm_EndAddr = w_EndAddr d,
         jm_VolFirstIndex = w_VolFirstIndex d, jm_VolLastIndex = w_VolLastIndex d,
         jm_StartFile = ucast (drop_bit 32 (w_StartAddr d)), jm_EndFile = ucast (drop_bit 32 (w_EndAddr d)),
         jm_StartBlock = ucast (w_StartAddr d), jm_EndBlock = ucast (w_EndAddr d)\<rparr>)"

definition dir_create_jobmedia_record :: "'os write_ops \<Rightarrow> bool \<Rightarrow> 'os wdcr \<Rightarrow> bool \<times> 'os wdcr" where
  "dir_create_jobmedia_record ops zero d =
     (if \<not> zero \<and> \<not> w_WroteVol d then (True, d)
      else if \<not> zero \<and> w_VolLastIndex d = 0 then (True, d)
      else if \<not> zero \<and> w_EndAddr d < w_StartAddr d then (True, d)
      else if j_system_job (w_jcr d) then (True, d)
      else if \<not> zero \<and> w_VolFirstIndex d = 0 \<and> (w_StartAddr d \<noteq> 0 \<or> w_EndAddr d \<noteq> 0) then (True, d)
      else
        (let d = (if j_incomplete (w_jcr d) then d\<lparr>w_VolLastIndex := j_lastFileIndex (w_jcr d)\<rparr> else d);
             item = new_jobmedia_item zero d;
             d = w_jcr_update (\<lambda>j. j\<lparr>j_jobmedia_queue := j_jobmedia_queue j @ [item]\<rparr>) d;
             (ok, d) = (if zero \<or> 1000 \<le> length (j_jobmedia_queue (w_jcr d))
                        then flush_jobmedia_queue ops d else (True, d))
         in (ok, d\<lparr>w_VolFirstIndex := 0, w_VolLastIndex := 0, w_StartAddr := 0, w_EndAddr := 0,
                   w_VolMediaId := 0, w_WroteVol := False\<rparr>)))"

text \<open>The counters are sent to the Director, and what it answers becomes the view of the device.\<close>

definition take_vol_answer :: "vol_answer \<Rightarrow> 'os wdcr \<Rightarrow> 'os wdcr" where
  "take_vol_answer a d =
     w_vol_update (\<lambda>v. v\<lparr>v_VolCatStatus := va_VolCatStatus a, v_VolCatPadding := va_VolCatPadding a,
         v_VolCatFiles := va_VolCatFiles a, v_VolCatJobs := va_VolCatJobs a, v_VolCatWrites := va_VolCatWrites a,
         v_VolCatReads := va_VolCatReads a, v_BytesWritten := 0\<rparr>)
       (w_dev_update (\<lambda>e. e\<lparr>d_VolCatBytes := va_VolCatBytes a, d_VolCatMaxBytes := va_VolCatMaxBytes a\<rparr>) d)"

definition dir_update_volume_info :: "'os write_ops \<Rightarrow> bool \<Rightarrow> 'os wdcr \<Rightarrow> bool \<times> 'os wdcr" where
  "dir_update_volume_info ops label d =
     (if j_system_job (w_jcr d) \<and> \<not> w_force_update d then (True, d)
      else
        (let d = (if label then setVolCatStatus ''Append'' d else d);
             vol = w_vol d;
             d = w_vol_update (\<lambda>v. v\<lparr>v_BytesWritten := 0\<rparr>) d
         in if v_VolCatName vol = [] then (False, d)
            else if j_canceled (w_jcr d) then (False, d)
            else
              (case o_update_media ops vol (d_VolCatBytes (w_dev d)) (w_os d) of
                 (None, os) \<Rightarrow> (False, Jmsg M_FATAL (d\<lparr>w_os := os\<rparr>))
               | (Some a, os) \<Rightarrow> (True, take_vol_answer a (d\<lparr>w_os := os\<rparr>)))))"

section \<open>A new Volume or file\<close>

definition set_start_vol_position :: "'os wdcr \<Rightarrow> 'os wdcr" where
  "set_start_vol_position d = d\<lparr>w_StartAddr := get_full_addr d, w_EndAddr := get_full_addr d\<rparr>"

definition set_new_file_parameters :: "'os wdcr \<Rightarrow> 'os wdcr" where
  "set_new_file_parameters d =
     (set_start_vol_position d)\<lparr>w_VolFirstIndex := 0, w_VolLastIndex := 0, w_NewFile := False, w_WroteVol := False\<rparr>"

definition set_new_volume_parameters :: "'os write_ops \<Rightarrow> 'os wdcr \<Rightarrow> 'os wdcr" where
  "set_new_volume_parameters ops d =
     (let d = (if w_NewVol d then o_get_new_volume_info ops d else d);
          d = set_new_file_parameters d;
          d = w_jcr_update (\<lambda>j. j\<lparr>j_NumWriteVolumes := j_NumWriteVolumes j + 1\<rparr>) d
      in d\<lparr>w_NewVol := False\<rparr>)"

definition check_for_newvol_or_newfile :: "'os write_ops \<Rightarrow> 'os wdcr \<Rightarrow> bool \<times> 'os wdcr" where
  "check_for_newvol_or_newfile ops d =
     (if w_NewVol d \<or> w_NewFile d then
        (if j_canceled (w_jcr d) then (False, d)
         else
           (let (ok, d) = (if w_VolFirstIndex d \<noteq> 0 then dir_create_jobmedia_record ops False d else (True, d))
            in if \<not> ok then (False, set_new_volume_parameters ops (Jmsg M_FATAL (set_dev_errno EIO d)))
               else if w_NewVol d then (True, set_new_volume_parameters ops (snd (flush_jobmedia_queue ops d)))
               else (True, set_new_file_parameters d)))
      else (True, d))"

section \<open>The end of a Volume\<close>

text \<open>The protection of a finished Volume's file; a failure is only reported.\<close>

definition protect_volume :: "'os write_ops \<Rightarrow> 'os wdcr \<Rightarrow> 'os wdcr" where
  "protect_volume ops d =
     (let d = (if s_set_vol_immutable (w_st d) \<or> s_set_vol_read_only (w_st d) then
                 (let (ok, os) = o_set_atime ops (w_os d);
                      d = d\<lparr>w_os := os\<rparr>;
                      d = (if ok then d else Jmsg M_WARNING d)
                  in w_vol_update (\<lambda>v. v\<lparr>v_UseProtect := True\<rparr>) d)
               else d);
          d = (if s_set_vol_read_only (w_st d) then
                 (let (ok, os) = o_set_readonly ops (w_os d);
                      d = d\<lparr>w_os := os\<rparr>
                  in if ok then w_vol_update (\<lambda>v. v\<lparr>v_Protected := True\<rparr>) (Jmsg M_INFO d) else Jmsg M_WARNING d)
               else d)
      in if s_set_vol_immutable (w_st d) then
           (let (ok, os) = o_set_immutable ops (w_os d);
                d = d\<lparr>w_os := os\<rparr>
            in if ok then w_vol_update (\<lambda>v. v\<lparr>v_Protected := True\<rparr>) (Jmsg M_INFO d) else Jmsg M_WARNING d)
         else d)"

text \<open>A failed end of file mark: the error is counted and reported.\<close>

definition weof_error :: "'os wdcr \<Rightarrow> 'os wdcr" where
  "weof_error d = Jmsg M_ERROR (w_vol_update (\<lambda>v. v\<lparr>v_VolCatErrors := v_VolCatErrors v + 1\<rparr>) d)"

text \<open>The JobMedia record of the end of the medium, the end of file mark and the end of volume label.\<close>

definition close_medium :: "'os write_ops \<Rightarrow> 'os wdcr \<Rightarrow> bool \<times> 'os wdcr" where
  "close_medium ops d =
     (let d = w_vol_update (\<lambda>v. v\<lparr>v_VolCatFiles := get_file d, v_VolLastPartBytes := s_part_size (w_st d),
                v_VolCatParts := s_part (w_st d)\<rparr>) d;
          (ok, d) = dir_create_jobmedia_record ops False d;
          d = (if ok then d else Jmsg M_FATAL (set_dev_errno EIO d));
          d = snd (flush_jobmedia_queue ops d);
          d = w_st_update (\<lambda>s. s\<lparr>s_LoadedVolName := v_VolCatName (w_vol d)\<rparr>) d;
          d = c_block_update (\<lambda>b. b\<lparr>b_write_failed := True\<rparr>) d;
          (wok, d) = (if s_APPEND (w_st d) then weof ops d else (True, d))
      in if \<not> wok then (False, weof_error d) else if ok then end_of_volume ops d else (False, d))"

text \<open>The Volume is marked full, protected, reported to the Director, and the jobs are told.\<close>

definition mark_full :: "'os write_ops \<Rightarrow> 'os wdcr \<Rightarrow> bool \<times> 'os wdcr" where
  "mark_full ops d =
     (let d = (if v_VolCatStatus (w_vol d) = ''Append'' then setVolCatStatus ''Full'' d else d);
          d = protect_volume ops d;
          (upd, d) = dir_update_volume_info ops False d
      in (upd, set_new_file_parameters (notify_newvol_in_attached_dcrs None d)))"

definition terminate_writing_volume :: "'os write_ops \<Rightarrow> 'os wdcr \<Rightarrow> bool \<times> 'os wdcr" where
  "terminate_writing_volume ops d =
     (if is_ateot d then (True, d)
      else
        (let (closed, d) = close_medium ops d;
             (upd, d) = mark_full ops d;
             ok = (closed \<and> upd);
             (wok, d) = (if ok \<and> s_CAP_TWOEOF (w_st d) \<and> s_APPEND (w_st d) then weof ops d else (True, d));
             d = (if wok then d else weof_error d)
         in (ok, set_ateot d)))"

definition do_new_file_bookkeeping :: "'os write_ops \<Rightarrow> 'os wdcr \<Rightarrow> bool \<times> 'os wdcr" where
  "do_new_file_bookkeeping ops d =
     (case dir_create_jobmedia_record ops False d of (ok, d) \<Rightarrow>
        if \<not> ok then
          (False, set_dev_errno EIO (snd (terminate_writing_volume ops (Jmsg M_FATAL (set_dev_errno EIO d)))))
        else
          (let d = w_vol_update (\<lambda>v. v\<lparr>v_VolCatFiles := get_file d, v_VolLastPartBytes := s_part_size (w_st d),
                     v_VolCatParts := s_part (w_st d)\<rparr>) d
           in case dir_update_volume_info ops False d of (upd, d) \<Rightarrow>
                if \<not> upd then (False, set_dev_errno EIO (snd (terminate_writing_volume ops d)))
                else (True, set_new_file_parameters (notify_newfile_in_attached_dcrs d))))"

text \<open>No limit on the size of a Pool is configured in this edition: its test is constantly false.\<close>

definition is_pool_size_reached :: "device \<Rightarrow> bool" where
  "is_pool_size_reached dev = False"

definition do_size_checks :: "'os write_ops \<Rightarrow> 'os wdcr \<Rightarrow> bool \<times> 'os wdcr" where
  "do_size_checks ops d =
     (if is_user_volume_size_reached is_pool_size_reached (w_dev d) (c_block d) (c_block d) then
        (False, set_dev_errno ENOSPC (reread_last_block ops (snd (terminate_writing_volume ops d))))
      else if 0 < s_max_file_size (w_st d) \<and>
              s_max_file_size (w_st d) \<le> s_file_size (w_st d) + ucast (b_binbuf (c_block d)) then
        (case weof ops (w_st_update (\<lambda>s. s\<lparr>s_file_size := 0\<rparr>) d) of (ok, d) \<Rightarrow>
           if \<not> ok then (False, set_dev_errno ENOSPC (snd (terminate_writing_volume ops (Jmsg M_FATAL d))))
           else do_new_file_bookkeeping ops d)
      else (True, d))"

section \<open>What the bookkeeping leaves alone\<close>

lemmas vol_counters =
  setVolCatInfo_def updateVolCatBytes_def updateVolCatPadding_def updateVolCatBlocks_def updateVolCatWrites_def
  setVolCatStatus_def set_dev_errno_def Jmsg_def set_start_vol_position_def set_new_file_parameters_def weof_error_def

text \<open>The part of the state that the routines of this theory never change on a disk.\<close>

definition job_view :: "'os wdcr \<Rightarrow> (bool \<times> bool \<times> bool \<times> bool \<times> u64) \<times> bool \<times> bool \<times> bool \<times> bool" where
  "job_view d = ((d_is_tape (w_dev d), d_do_checksum (w_dev d), d_volume_encryption (w_dev d),
       d_crypto_device_ctx (w_dev d), d_max_volume_size (w_dev d)),
     s_enabled (w_st d), s_is_open (w_st d), c_adata_label d, w_spooling d)"

lemma flush_jobmedia_queue_frame [simp]:
  "c_block (snd (flush_jobmedia_queue ops d)) = c_block d" "w_dev (snd (flush_jobmedia_queue ops d)) = w_dev d"
  "w_st (snd (flush_jobmedia_queue ops d)) = w_st d" "w_vol (snd (flush_jobmedia_queue ops d)) = w_vol d"
  "c_adata_label (snd (flush_jobmedia_queue ops d)) = c_adata_label d"
  "w_spooling (snd (flush_jobmedia_queue ops d)) = w_spooling d"
  "job_view (snd (flush_jobmedia_queue ops d)) = job_view d"
  by (simp_all add: flush_jobmedia_queue_def Let_def case_prod_beta Jmsg_def job_view_def)

lemma dir_create_jobmedia_record_frame [simp]:
  "c_block (snd (dir_create_jobmedia_record ops z d)) = c_block d"
  "w_dev (snd (dir_create_jobmedia_record ops z d)) = w_dev d"
  "w_st (snd (dir_create_jobmedia_record ops z d)) = w_st d"
  "job_view (snd (dir_create_jobmedia_record ops z d)) = job_view d"
  by (simp_all add: dir_create_jobmedia_record_def Let_def case_prod_beta job_view_def)

lemma dir_update_volume_info_frame [simp]:
  "c_block (snd (dir_update_volume_info ops l d)) = c_block d" "w_st (snd (dir_update_volume_info ops l d)) = w_st d"
  "job_view (snd (dir_update_volume_info ops l d)) = job_view d"
  by (simp_all add: dir_update_volume_info_def Let_def vol_counters take_vol_answer_def job_view_def
      split: prod.split option.split)

lemma notify_frame [simp]:
  "c_block (notify_newvol_in_attached_dcrs n d) = c_block d" "w_st (notify_newvol_in_attached_dcrs n d) = w_st d"
  "job_view (notify_newvol_in_attached_dcrs n d) = job_view d"
  "c_block (notify_newfile_in_attached_dcrs d) = c_block d" "w_st (notify_newfile_in_attached_dcrs d) = w_st d"
  "job_view (notify_newfile_in_attached_dcrs d) = job_view d"
  by (simp_all add: notify_newvol_in_attached_dcrs_def notify_newfile_in_attached_dcrs_def Let_def job_view_def)

lemma protect_volume_frame [simp]:
  "c_block (protect_volume ops d) = c_block d" "w_st (protect_volume ops d) = w_st d"
  "job_view (protect_volume ops d) = job_view d"
  by (simp_all add: protect_volume_def Let_def case_prod_beta Jmsg_def job_view_def)

lemma weof_frame:
  assumes "\<not> d_is_tape (w_dev d)"
  shows "c_block (snd (weof ops d)) = c_block d" "job_view (snd (weof ops d)) = job_view d"
    "s_APPEND (w_st (snd (weof ops d))) = s_APPEND (w_st d)"
    "d_is_tape (w_dev (snd (weof ops d))) = d_is_tape (w_dev d)"
  using assms by (simp_all add: weof_def vol_counters job_view_def)

lemma counters_frame [simp]:
  "c_block (Jmsg m d) = c_block d" "w_st (Jmsg m d) = w_st d" "job_view (Jmsg m d) = job_view d"
  "c_block (set_dev_errno e d) = c_block d" "w_st (set_dev_errno e d) = w_st d"
  "job_view (set_dev_errno e d) = job_view d"
  "c_block (setVolCatStatus st d) = c_block d" "job_view (setVolCatStatus st d) = job_view d"
  "c_block (set_new_file_parameters d) = c_block d" "job_view (set_new_file_parameters d) = job_view d"
  "w_st (set_new_file_parameters d) = w_st d"
  "w_dev (Jmsg m d) = w_dev d" "d_is_tape (w_dev (set_dev_errno e d)) = d_is_tape (w_dev d)"
  "c_block (weof_error d) = c_block d" "job_view (weof_error d) = job_view d"
  by (simp_all add: vol_counters job_view_def)

lemma job_view_tape: "job_view d = job_view d' \<Longrightarrow> d_is_tape (w_dev d) = d_is_tape (w_dev d')"
  by (simp add: job_view_def)

lemma job_view_updates [simp]:
  "job_view (w_vol_update f d) = job_view d" "job_view (c_block_update g d) = job_view d"
  "job_view (w_st_update (s_LoadedVolName_update h) d) = job_view d" "job_view (set_ateot d) = job_view d"
  "job_view (w_st_update (s_file_size_update h') d) = job_view d"
  by (simp_all add: job_view_def set_ateot_def)

lemma close_medium_frame:
  assumes "\<not> d_is_tape (w_dev d)"
  shows "c_block (snd (close_medium ops d)) = (c_block d)\<lparr>b_write_failed := True\<rparr>"
    and "job_view (snd (close_medium ops d)) = job_view d"
  using assms by (simp_all add: close_medium_def end_of_volume_def Let_def case_prod_beta weof_frame)

lemma mark_full_frame [simp]:
  "c_block (snd (mark_full ops d)) = c_block d" "job_view (snd (mark_full ops d)) = job_view d"
  by (simp_all add: mark_full_def Let_def case_prod_beta)

lemma set_ateot_facts [simp]:
  "is_ateot (set_ateot d)" "s_WEOT (w_st (set_ateot d))" "\<not> s_APPEND (w_st (set_ateot d))" "c_block (set_ateot d) = c_block d"
  by (simp_all add: set_ateot_def is_ateot_def)

lemma terminate_writing_volume_frame:
  assumes "\<not> d_is_tape (w_dev d)"
  shows "c_block (snd (terminate_writing_volume ops d)) =
      (if is_ateot d then c_block d else (c_block d)\<lparr>b_write_failed := True\<rparr>)"
    and "job_view (snd (terminate_writing_volume ops d)) = job_view d"
    and "is_ateot (snd (terminate_writing_volume ops d))"
proof -
  let ?d1 = "snd (mark_full ops (snd (close_medium ops d)))"
  have t: "\<not> d_is_tape (w_dev ?d1)"
    using assms close_medium_frame(2) [OF assms, of ops] job_view_tape [of ?d1 d] by simp
  show "c_block (snd (terminate_writing_volume ops d)) =
      (if is_ateot d then c_block d else (c_block d)\<lparr>b_write_failed := True\<rparr>)"
    "job_view (snd (terminate_writing_volume ops d)) = job_view d"
    "is_ateot (snd (terminate_writing_volume ops d))"
    by (simp_all add: terminate_writing_volume_def Let_def case_prod_beta weof_frame [OF t]
        close_medium_frame [OF assms])
qed

section \<open>Properties\<close>

text \<open>An item that a restore can use: it does not end before it starts.\<close>

definition item_ok :: "jobmedia_item \<Rightarrow> bool" where
  "item_ok i \<longleftrightarrow> jm_StartAddr i \<le> jm_EndAddr i"

text \<open>
  C27 (jobmedia_queue_invariant).  The queue of JobMedia records never holds a thousand items between calls, and none of
  its items ends before it starts: \<^verbatim>\<open>dir_create_jobmedia_record\<close> keeps both, for every state of
  the job and every answer of the Director.
\<close>
theorem jobmedia_queue_invariant:
  assumes "length (j_jobmedia_queue (w_jcr d)) < 1000" and "list_all item_ok (j_jobmedia_queue (w_jcr d))"
  shows "length (j_jobmedia_queue (w_jcr (snd (dir_create_jobmedia_record ops zero d)))) < 1000 \<and>
    list_all item_ok (j_jobmedia_queue (w_jcr (snd (dir_create_jobmedia_record ops zero d))))"
proof -
  let ?d1 = "if j_incomplete (w_jcr d) then d\<lparr>w_VolLastIndex := j_lastFileIndex (w_jcr d)\<rparr> else d"
  let ?d2 = "w_jcr_update (\<lambda>j. j\<lparr>j_jobmedia_queue := j_jobmedia_queue j @ [new_jobmedia_item zero ?d1]\<rparr>) ?d1"
  have fl: "j_jobmedia_queue (w_jcr (snd (flush_jobmedia_queue ops x))) = []" for x
    by (simp add: flush_jobmedia_queue_def Let_def case_prod_beta Jmsg_def)
  have "item_ok (new_jobmedia_item zero ?d1)" if "zero \<or> \<not> w_EndAddr d < w_StartAddr d"
    using that by (auto simp: item_ok_def new_jobmedia_item_def not_less)
  then show ?thesis
    using assms by (auto simp: dir_create_jobmedia_record_def Let_def case_prod_beta fl)
qed

text \<open>The address of the parts, \<^verbatim>\<open>get_full_addr(hi, low)\<close>.\<close>

definition get_full_addr_parts :: "u32 \<Rightarrow> u32 \<Rightarrow> u64" where
  "get_full_addr_parts hi low = push_bit 32 (ucast hi) OR ucast low"

lemma full_addr_parts: "get_full_addr_parts (ucast (drop_bit 32 a)) (ucast a) = a"
proof (rule bit_eqI)
  fix k assume "possible_bit TYPE(64 word) k"
  then have "k < 64" by simp
  then show "bit (get_full_addr_parts (ucast (drop_bit 32 a)) (ucast a)) k = bit a k"
    by (auto simp: get_full_addr_parts_def bit_simps)
qed

text \<open>
  A JobMedia record that is queued for data written to a Volume carries the addresses of the job,
  split in file and block numbers from which the full addresses are recovered, and the
  range of file indexes; the job's own record of them starts afresh.
\<close>
theorem jobmedia_covers_written:
  assumes "w_WroteVol d" and "w_VolLastIndex d \<noteq> 0" and "w_VolFirstIndex d \<noteq> 0" and "w_StartAddr d \<le> w_EndAddr d"
    and "\<not> j_system_job (w_jcr d)" and "\<not> j_incomplete (w_jcr d)" and "length (j_jobmedia_queue (w_jcr d)) < 999"
  shows "\<exists>i d'. dir_create_jobmedia_record ops False d = (True, d') \<and>
    j_jobmedia_queue (w_jcr d') = j_jobmedia_queue (w_jcr d) @ [i] \<and>
    get_full_addr_parts (jm_StartFile i) (jm_StartBlock i) = w_StartAddr d \<and>
    get_full_addr_parts (jm_EndFile i) (jm_EndBlock i) = w_EndAddr d \<and>
    jm_VolFirstIndex i = w_VolFirstIndex d \<and> jm_VolLastIndex i = w_VolLastIndex d \<and> jm_VolMediaId i = w_VolMediaId d \<and>
    \<not> w_WroteVol d' \<and> w_VolFirstIndex d' = 0"
  using assms
  by (intro exI [of _ "new_jobmedia_item False d"])
    (simp add: dir_create_jobmedia_record_def new_jobmedia_item_def full_addr_parts not_less [symmetric])

text \<open>
  What an incomplete job sends of its queue never reaches the last
  file, which was not saved completely: every item sent has its first and last index below it, and
  indexes that were in order stay in order.
\<close>
theorem incomplete_job_cut:
  assumes "j_incomplete j" and "i \<in> set (jobmedia_to_send j)"
    and "\<forall>q \<in> set (j_jobmedia_queue j). jm_VolFirstIndex q \<le> jm_VolLastIndex q"
  shows "jm_VolFirstIndex i \<le> jm_VolLastIndex i \<and> jm_VolLastIndex i < j_lastFileIndex j"
proof -
  obtain q where q: "q \<in> set (j_jobmedia_queue j)" "jm_VolFirstIndex q < j_lastFileIndex j"
    and i: "i = (if j_lastFileIndex j \<le> jm_VolLastIndex q then q\<lparr>jm_VolLastIndex := j_lastFileIndex j - 1\<rparr> else q)"
    using assms(1,2) by (auto simp: jobmedia_to_send_def)
  have "0 < j_lastFileIndex j" using q(2) by (metis word_not_simps(1) word_gt_0)
  then have "j_lastFileIndex j - 1 < j_lastFileIndex j" "jm_VolFirstIndex q \<le> j_lastFileIndex j - 1"
    using q(2) by (simp_all add: word_less_nat_alt word_le_nat_alt unat_sub unat_minus_one word_gt_0)
  then show ?thesis using q assms(3) by (auto simp: i not_le)
qed

section \<open>Instances\<close>

definition disk_dev :: device where
  "disk_dev = sample_dev\<lparr>d_is_tape := False, d_volume_encryption := False, d_max_block_size := 64\<rparr>"

definition disk_state :: dev_state where
  "disk_state = \<lparr>s_enabled = True, s_is_open = True, s_APPEND = True, s_EOF = False, s_EOT = False, s_WEOT = False,
     s_NOSPACE = False, s_SHORT = False, s_m_unload = False, s_VolumeName = ''Vol1'', s_PrevVolumeName = [],
     s_LoadedVolName = [], s_file = 0, s_block_num = 0, s_LastBlock = 0, s_file_addr = 0, s_file_size = 0,
     s_max_file_size = 0, s_usage = 0, s_part = 0, s_part_size = 0, s_CAP_TWOEOF = False,
     s_set_vol_immutable = False, s_set_vol_read_only = False\<rparr>"

definition disk_vol :: vol_cat_info where
  "disk_vol = \<lparr>v_VolCatName = ''Vol1'', v_VolCatStatus = ''Append'', v_VolCatJobs = 0, v_VolCatFiles = 0,
     v_VolCatBlocks = 0, v_VolCatWrites = 0, v_VolCatReads = 0, v_VolCatErrors = 0, v_VolCatPadding = 0,
     v_VolCatRBytes = 0, v_BytesWritten = 0, v_VolCatParts = 0, v_VolLastPartBytes = 0, v_VolMediaId = 1,
     v_UseProtect = False, v_Protected = False, v_valid = True\<rparr>"

definition disk_jcr :: jcr where
  "disk_jcr = \<lparr>j_JobId = 1, j_canceled = False, j_system_job = False, j_incomplete = False, j_NumWriteVolumes = 0,
     j_jobmedia_queue = [], j_lastFileIndex = 0, j_lastFlushIndex = 0, j_msgs = []\<rparr>"

definition sample_wdcr :: "dev_block \<Rightarrow> 'os \<Rightarrow> 'os wdcr" where
  "sample_wdcr b os =
     \<lparr>c_block = b, c_adata_label = False, w_dev = disk_dev, w_st = disk_state, w_vol = disk_vol, w_jcr = disk_jcr,
      w_attached = [], w_NewVol = False, w_NewFile = False, w_spooling = False, w_force_update = False,
      w_VolumeName = ''Vol1'', w_StartAddr = 0, w_EndAddr = 0, w_VolMediaId = 0, w_VolFirstIndex = 0,
      w_VolLastIndex = 0, w_WroteVol = False, w_os = os\<rparr>"

definition sample_item :: jobmedia_item where
  "sample_item = \<lparr>jm_VolMediaId = 1, jm_StartAddr = 0x500000003, jm_EndAddr = 0x600000004, jm_VolFirstIndex = 1,
     jm_VolLastIndex = 9, jm_StartFile = 5, jm_EndFile = 6, jm_StartBlock = 3, jm_EndBlock = 4\<rparr>"

theorem jobmedia_queue_invariant_witness:
  "\<forall>ops :: unit write_ops.
     length (j_jobmedia_queue (w_jcr (snd (dir_create_jobmedia_record ops True (sample_wdcr sample_block ()))))) < 1000"
  using jobmedia_queue_invariant [of "sample_wdcr sample_block ()" _ True]
  by (simp add: sample_wdcr_def disk_jcr_def)

definition sample_wrote :: "unit wdcr" where
  "sample_wrote = (sample_wdcr sample_block ())\<lparr>w_WroteVol := True, w_VolFirstIndex := 1, w_VolLastIndex := 9,
     w_StartAddr := 0x500000003, w_EndAddr := 0x600000004\<rparr>"

theorem jobmedia_covers_written_witness:
  "\<forall>ops. \<exists>i. j_jobmedia_queue (w_jcr (snd (dir_create_jobmedia_record ops False sample_wrote))) = [i] \<and>
     get_full_addr_parts (jm_StartFile i) (jm_StartBlock i) = 0x500000003"
proof
  fix ops
  have "w_WroteVol sample_wrote" "w_VolLastIndex sample_wrote \<noteq> 0" "w_VolFirstIndex sample_wrote \<noteq> 0"
    "w_StartAddr sample_wrote \<le> w_EndAddr sample_wrote" "\<not> j_system_job (w_jcr sample_wrote)"
    "\<not> j_incomplete (w_jcr sample_wrote)" "j_jobmedia_queue (w_jcr sample_wrote) = []"
    "w_StartAddr sample_wrote = 0x500000003"
    by (simp_all add: sample_wrote_def sample_wdcr_def disk_jcr_def)
  then show "\<exists>i. j_jobmedia_queue (w_jcr (snd (dir_create_jobmedia_record ops False sample_wrote))) = [i] \<and>
     get_full_addr_parts (jm_StartFile i) (jm_StartBlock i) = 0x500000003"
    using jobmedia_covers_written [of sample_wrote ops] by auto
qed

theorem incomplete_job_cut_witness:
  "jobmedia_to_send (disk_jcr\<lparr>j_incomplete := True, j_lastFileIndex := 5, j_jobmedia_queue := [sample_item]\<rparr>) =
     [sample_item\<lparr>jm_VolLastIndex := 4\<rparr>] \<and> jm_VolLastIndex (sample_item\<lparr>jm_VolLastIndex := 4\<rparr>) < 5"
proof -
  let ?j = "disk_jcr\<lparr>j_incomplete := True, j_lastFileIndex := 5, j_jobmedia_queue := [sample_item]\<rparr>"
  have s: "jobmedia_to_send ?j = [sample_item\<lparr>jm_VolLastIndex := 4\<rparr>]"
    by (simp add: jobmedia_to_send_def disk_jcr_def sample_item_def)
  then show ?thesis
    using incomplete_job_cut [of ?j "sample_item\<lparr>jm_VolLastIndex := 4\<rparr>"] by (simp add: sample_item_def)
qed

end
