(* ===== verification/Block_IO.thy ===== *)
theory Block_IO
  imports Volume
begin

text \<open>
  Writing a block to the device: \<^verbatim>\<open>DCR::write_block_to_device\<close> and
  \<^verbatim>\<open>DCR::write_block_to_dev\<close> of \<^verbatim>\<open>src/bacula/src/stored/block.c\<close> and
  the recovery from a full Volume, \<^verbatim>\<open>fixup_device_block_write_error\<close> of
  \<^verbatim>\<open>device.c\<close>, for a device of the base class or a tape.  The debug switches
  (\<^verbatim>\<open>no_tape_write_test\<close>, \<^verbatim>\<open>debug_block_checksum\<close>,
  \<^verbatim>\<open>debug_io_error\<close>) are off.  The last section proves that the routine meets
  the contract \<open>block_sink\<close> the record writer relies on.
\<close>

section \<open>The write\<close>

text \<open>The write is tried again at most three times when the device is busy or reports an I/O error.\<close>

fun write_retry :: "('os \<Rightarrow> u8 list \<Rightarrow> int \<times> int \<times> 'os) \<Rightarrow> nat \<Rightarrow> 'os \<Rightarrow> u8 list \<Rightarrow> int \<times> int \<times> 'os" where
  "write_retry w 0 os bs = w os bs"
| "write_retry w (Suc k) os bs =
     (case w os bs of (stat, err, os') \<Rightarrow>
        if stat = - 1 \<and> (err = EBUSY \<or> err = EIO) then write_retry w k os' bs else (stat, err, os'))"

text \<open>A write that did not take the whole block: the Volume is ended, the routine returns false.\<close>

definition note_write_error :: "'os write_ops \<Rightarrow> int \<Rightarrow> int \<Rightarrow> 'os wdcr \<Rightarrow> 'os wdcr" where
  "note_write_error ops stat err d =
     (let d = (if stat = - 1 then
                 (let d = set_dev_errno (if err = 0 then ENOSPC else err) d
                  in if d_dev_errno (w_dev d) \<noteq> ENOSPC then
                       Jmsg (if b_adata (c_block d) then M_FATAL else M_ERROR)
                         (w_vol_update (\<lambda>v. v\<lparr>v_VolCatErrors := v_VolCatErrors v + 1\<rparr>) d)
                     else d)
               else set_dev_errno ENOSPC d)
      in if d_dev_errno (w_dev d) = ENOSPC then
           (if o_no_freespace ops (w_os d)
            then Jmsg M_WARNING (w_st_update (\<lambda>s. s\<lparr>s_NOSPACE := True\<rparr>) d)
            else Jmsg M_INFO (w_st_update (\<lambda>s. s\<lparr>s_NOSPACE := False\<rparr>) d))
         else d)"

definition write_block_failed :: "'os write_ops \<Rightarrow> int \<Rightarrow> int \<Rightarrow> 'os wdcr \<Rightarrow> 'os wdcr" where
  "write_block_failed ops stat err d =
     (let (ok, d) = terminate_writing_volume ops (note_write_error ops stat err d)
      in if ok then reread_last_block ops d else d)"

text \<open>The housekeeping after a successful write, in the order of the code.\<close>

definition note_end_addr :: "u32 \<Rightarrow> 'os wdcr \<Rightarrow> 'os wdcr" where
  "note_end_addr wlen d =
     (if d_is_tape (w_dev d) then
        (let ea = get_full_addr d;
             d = w_dev_update (\<lambda>e. e\<lparr>d_EndAddr := ea\<rparr>) d;
             d = (if w_EndAddr d < ea then d\<lparr>w_EndAddr := ea\<rparr> else d)
         in w_st_update (\<lambda>s. s\<lparr>s_block_num := s_block_num s + 1\<rparr>) d)
      else
        c_block_update (\<lambda>b. b\<lparr>b_BlockAddr := get_full_addr d + ucast wlen\<rparr>)
          (d\<lparr>w_EndAddr := s_file_addr (w_st d) + ucast wlen - 1\<rparr>))"

definition note_job_indexes :: "'os wdcr \<Rightarrow> 'os wdcr" where
  "note_job_indexes d =
     (let block = c_block d;
          d = d\<lparr>w_VolMediaId := v_VolMediaId (w_vol d)\<rparr>;
          d = (if w_VolFirstIndex d = 0 \<and> 0 < sint (b_FirstIndex block)
               then d\<lparr>w_VolFirstIndex := b_FirstIndex block\<rparr> else d);
          d = (if sint (w_VolLastIndex d) < sint (b_LastIndex block)
               then d\<lparr>w_VolLastIndex := b_LastIndex block\<rparr> else d)
      in d\<lparr>w_WroteVol := True\<rparr>)"

definition advance_position :: "u32 \<Rightarrow> 'os wdcr \<Rightarrow> 'os wdcr" where
  "advance_position wlen d =
     w_st_update (\<lambda>s. s\<lparr>s_file_addr := s_file_addr s + ucast wlen, s_file_size := s_file_size s + ucast wlen,
       s_usage := s_usage s + ucast wlen,
       s_part_size := (if 0 < s_part s then s_part_size s + ucast wlen else s_part_size s)\<rparr>) d"

definition write_block_done :: "u32 \<Rightarrow> 'os wdcr \<Rightarrow> 'os wdcr" where
  "write_block_done wlen d =
     (let d = updateVolCatBytes (ucast wlen) d;
          d = updateVolCatBlocks 1 d;
          d = w_st_update (\<lambda>s. s\<lparr>s_LastBlock := b_BlockNumber (c_block d)\<rparr>) d;
          d = c_block_update (\<lambda>b. b\<lparr>b_BlockNumber := b_BlockNumber b + 1\<rparr>) d;
          d = note_end_addr wlen d;
          d = note_job_indexes d;
          d = advance_position wlen d;
          d = setVolCatInfo False d
      in c_block_update empty_block d)"

definition write_block_to_dev :: "'os write_ops \<Rightarrow> 'os wdcr \<Rightarrow> fault + (bool \<times> 'os wdcr)" where
  "write_block_to_dev ops d =
     (let block = c_block d
      in if j_canceled (w_jcr d) then Inr (False, d)
         else if \<not> s_enabled (w_st d) then Inr (False, Jmsg M_FATAL d)
         else if b_adata block then Inl ASSERT_FAILED
         else if b_binbuf block \<noteq> of_nat (b_bufp block) then Inl ASSERT_FAILED
         else if is_block_empty block then Inr (True, d)
         else if s_WEOT (w_st d) then Inr (False, Jmsg M_FATAL (set_dev_errno ENOSPC d))
         else if \<not> s_APPEND (w_st d) then Inr (False, Jmsg M_FATAL (set_dev_errno EIO d))
         else if \<not> s_is_open (w_st d) then Inr (False, Jmsg M_FATAL d)
         else
           (case get_len_and_clear_block block (w_dev d) of
              None \<Rightarrow> Inl ASSERT_FAILED
            | Some (wlen, pad, block) \<Rightarrow>
                (let block = block\<lparr>b_block_len := wlen\<rparr>;
                     d = updateVolCatPadding (ucast pad) d
                 in case ser_block_header (o_env ops) (w_dev d) block (d_do_checksum (w_dev d)) of
                      None \<Rightarrow> Inl BAD_ACCESS
                    | Some (checksum, block) \<Rightarrow>
                        (case do_size_checks ops (d\<lparr>c_block := block\<rparr>) of (ok, d) \<Rightarrow>
                           if \<not> ok then Inr (False, d)
                           else
                             (let d = updateVolCatWrites 1 d
                              in case fetch (unat wlen) (buf_out (c_block d), 0) of
                                   None \<Rightarrow> Inl BAD_ACCESS
                                 | Some (bs, _) \<Rightarrow>
                                     (case write_retry (o_write ops) 3 (w_os d) bs of (stat, err, os) \<Rightarrow>
                                        (let d = d\<lparr>w_os := os\<rparr>
                                         in if stat = uint wlen then
                                              (let d = c_block_update (\<lambda>b. b\<lparr>b_first_block := False\<rparr>) d
                                               in Inr (True, write_block_done wlen d))
                                            else Inr (False, write_block_failed ops stat err d))))))))"

section \<open>Recovery from a full Volume\<close>

text \<open>
  \<^verbatim>\<open>fixup_device_block_write_error\<close>: the next Volume is mounted, its label written
  and then the block that did not fit.  The mount works on fresh blocks; the caller's block is put back
  before the routine returns, except when the Director refuses the Volume update.  \<open>retries\<close> bounds the recursion.
\<close>

definition begin_fixup :: "'os write_ops \<Rightarrow> 'os wdcr \<Rightarrow> 'os wdcr" where
  "begin_fixup ops d =
     (let d = w_st_update (\<lambda>s. s\<lparr>s_PrevVolumeName := v_VolCatName (w_vol d)\<rparr>) d;
          d = d\<lparr>c_block := new_block (o_mem ops) (w_dev d) 0\<rparr>;
          d = set_unload (Jmsg M_INFO d)
      in d\<lparr>w_VolFirstIndex := 0, w_VolLastIndex := 0, w_StartAddr := 0, w_EndAddr := 0, w_VolMediaId := 0,
           w_WroteVol := False\<rparr>)"

definition mount_and_label :: "'os write_ops \<Rightarrow> 'os wdcr \<Rightarrow> fault + (bool \<times> 'os wdcr)" where
  "mount_and_label ops d =
     (let block = c_block d
      in case o_mount_next_write_volume ops (begin_fixup ops d) of (ok, d) \<Rightarrow>
        if \<not> ok then Inr (False, d\<lparr>c_block := block\<rparr>)
        else
          (let d = notify_newvol_in_attached_dcrs (Some (w_VolumeName d)) d;
               d = w_vol_update (\<lambda>v. v\<lparr>v_VolCatJobs := v_VolCatJobs v + 1\<rparr>) d
           in case dir_update_volume_info ops False d of (ok, d) \<Rightarrow>
                if \<not> ok then Inr (False, d)
                else
                  bind_res (write_block_to_dev ops (Jmsg M_INFO d))
                    (\<lambda>(ok, d). let d = d\<lparr>c_block := block\<rparr>
                               in if \<not> ok then Inr (False, d)
                                  else Inr (True, set_new_volume_parameters ops (d\<lparr>w_NewVol := False\<rparr>)))))"

fun fixup_loop :: "'os write_ops \<Rightarrow> nat \<Rightarrow> 'os wdcr \<Rightarrow> fault + (bool \<times> 'os wdcr)" where
  "fixup_loop ops retries d =
     bind_res (mount_and_label ops d)
       (\<lambda>(ok, d). if \<not> ok then Inr (False, d)
         else
           bind_res (write_block_to_dev ops d)
             (\<lambda>(ok, d). if ok then Inr (True, d)
               else
                 (case retries of
                    0 \<Rightarrow> Inr (False, Jmsg M_FATAL d)
                  | Suc k \<Rightarrow> bind_res (fixup_loop ops k d) (\<lambda>(ok, d). Inr (ok, if ok then d else Jmsg M_FATAL d)))))"

declare fixup_loop.simps [simp del]

definition fixup_device_block_write_error :: "'os write_ops \<Rightarrow> 'os wdcr \<Rightarrow> fault + (bool \<times> 'os wdcr)" where
  "fixup_device_block_write_error ops d = fixup_loop ops 4 d"

text \<open>\<^verbatim>\<open>write_block_to_device\<close>; a fault of the write is passed on as \<open>Inl\<close>.\<close>

definition recover_write :: "'os write_ops \<Rightarrow> 'os wdcr \<Rightarrow> fault + (bool \<times> 'os wdcr)" where
  "recover_write ops d =
     (if j_canceled (w_jcr d) \<or> j_system_job (w_jcr d) then Inr (False, d)
      else
        (case dir_create_jobmedia_record ops False d of (ok, d) \<Rightarrow>
           if \<not> ok then Inr (False, Jmsg M_FATAL d) else fixup_device_block_write_error ops d))"

definition write_block_to_device :: "'os write_ops \<Rightarrow> bool \<Rightarrow> 'os wdcr \<Rightarrow> fault + (bool \<times> 'os wdcr)" where
  "write_block_to_device ops final d =
     (if w_spooling d then Inr (o_write_block_to_spool_file ops d)
      else
        (let (ok, d) = check_for_newvol_or_newfile ops d
         in if \<not> ok then Inr (False, d)
            else
              bind_res (write_block_to_dev ops d)
                (\<lambda>(written, d).
                  bind_res (if written then Inr (True, d) else recover_write ops d)
                    (\<lambda>(ok, d). if ok \<and> final then
                       (case dir_create_jobmedia_record ops False d of (jm, d) \<Rightarrow>
                          Inr (ok, if jm then d else Jmsg M_FATAL d))
                     else Inr (ok, d)))))"

section \<open>What a write hands to the system\<close>

text \<open>The data of a block as found in its image.\<close>

definition image_payload :: "u8 list \<Rightarrow> u8 list" where
  "image_payload img = buf_slice img 32 (unat (from_be (buf_slice img 4 4) :: u32) - 32)"

lemma image_payload_image:
  "unat len = 32 + length payload \<Longrightarrow> image_payload (block_image opts len num sid stime cs payload) = payload"
  by (simp add: image_payload_def block_image_def from_be_be_bytes)

lemma block_payload_eq: "winv b \<Longrightarrow> block_payload b = payload_of b"
  by (simp add: block_payload_def payload_of_def used_def buf_slice_def winv_def block_inv_def drop_take)

lemma winv_writable: "winv b \<Longrightarrow> 32 \<le> b_bufp b \<Longrightarrow> writable_block b"
  by (auto simp: winv_def block_inv_def writable_block_def u32_le)

text \<open>A device that takes blocks: enabled, open for writing, not at its end, not a tape, no encryption.\<close>

definition dev_ready :: "'os wdcr \<Rightarrow> bool" where
  "dev_ready d \<longleftrightarrow> \<not> j_canceled (w_jcr d) \<and> s_enabled (w_st d) \<and> \<not> s_WEOT (w_st d) \<and> s_APPEND (w_st d) \<and>
     s_is_open (w_st d) \<and> \<not> d_is_tape (w_dev d) \<and> \<not> d_volume_encryption (w_dev d)"

text \<open>The block fits into the limits on the Volume and on a file of it.\<close>

definition within_limits :: "'os wdcr \<Rightarrow> bool" where
  "within_limits d \<longleftrightarrow>
     \<not> is_user_volume_size_reached is_pool_size_reached (w_dev d) (c_block d) (c_block d) \<and>
     (s_max_file_size (w_st d) = 0 \<or>
      s_file_size (w_st d) + ucast (b_binbuf (c_block d)) < s_max_file_size (w_st d))"

lemma do_size_checks_within: "within_limits d \<Longrightarrow> do_size_checks ops d = (True, d)"
  by (auto simp: within_limits_def do_size_checks_def word_gt_0 not_less)

text \<open>The image of the block of a ready device, and the state in which the write takes place.\<close>

definition written_image :: "'os write_ops \<Rightarrow> 'os wdcr \<Rightarrow> u8 list" where
  "written_image ops d =
     (let b = c_block d; ck = d_do_checksum (w_dev d)
      in block_image (hdr_options (w_dev d) b ck) (b_binbuf b) (b_BlockNumber b) (b_VolSessionId b)
           (b_VolSessionTime b) (block_sum (o_env ops) (w_dev d) b ck) (payload_of b))"

definition before_write :: "'os write_ops \<Rightarrow> 'os wdcr \<Rightarrow> 'os wdcr" where
  "before_write ops d =
     (updateVolCatPadding 0 d)\<lparr>c_block := summed_block (o_env ops) (w_dev d)
        ((c_block d)\<lparr>b_block_len := b_binbuf (c_block d)\<rparr>) (d_do_checksum (w_dev d))\<rparr>"

lemma summed_block_facts:
  assumes "winv b" and "32 \<le> b_bufp b"
  shows "length (b_buf (summed_block env dev b ck)) = length (b_buf b)"
    and "take (unat (b_binbuf b)) (buf_out (summed_block env dev b ck)) =
      block_image (hdr_options dev b ck) (b_binbuf b) (b_BlockNumber b) (b_VolSessionId b) (b_VolSessionTime b)
        (block_sum env dev b ck) (payload_of b)"
proof -
  have w: "writable_block b" using assms by (rule winv_writable)
  have n: "unat (b_binbuf b) = 32 + length (block_payload b)" "unat (b_binbuf b) \<le> length (b_buf b)"
    using w length_block_payload [OF w] by (auto simp: writable_block_def)
  then show "length (b_buf (summed_block env dev b ck)) = length (b_buf b)"
    by (simp add: summed_block_def)
  show "take (unat (b_binbuf b)) (buf_out (summed_block env dev b ck)) =
      block_image (hdr_options dev b ck) (b_binbuf b) (b_BlockNumber b) (b_VolSessionId b) (b_VolSessionTime b)
        (block_sum env dev b ck) (payload_of b)"
    using n(1) block_payload_eq [OF assms(1)]
    by (simp add: summed_block_def buf_out_def block_image_append [symmetric])
qed


lemma block_len_irrelevant [simp]:
  "hdr_options dev (b\<lparr>b_block_len := x\<rparr>) ck = hdr_options dev b ck"
  "block_sum env dev (b\<lparr>b_block_len := x\<rparr>) ck = block_sum env dev b ck"
  "payload_of (b\<lparr>b_block_len := x\<rparr>) = payload_of b" "winv (b\<lparr>b_block_len := x\<rparr>) = winv b"
  by (simp_all add: hdr_options_def encrypts_def block_sum_def block_payload_def payload_of_def used_def
      winv_def block_inv_def)

lemma get_len_disk:
  assumes b: "winv b" and dev: "\<not> d_is_tape dev"
  shows "get_len_and_clear_block b dev = Some (b_binbuf b, 0, b)"
proof -
  have inv: "\<not> b_adata b" "b_bufp b = unat (b_binbuf b)" "b_binbuf b \<le> b_buf_len b"
    "length (b_buf b) = unat (b_buf_len b)"
    using b by (auto simp: winv_def block_inv_def)
  have pad: "padded_len b dev = b_binbuf b" using dev by (simp add: padded_len_def)
  have "unat (b_binbuf b) \<le> length (b_buf b)" using inv(3,4) by (simp add: u32_le)
  then have "get_len_and_clear_block b dev =
      Some (b_binbuf b, 0, b\<lparr>b_buf := buf_write (b_buf b) (unat (b_binbuf b)) []\<rparr>)"
    using get_len_and_clear_block_eq [of b dev] inv(1-3) unfolding pad by simp
  then show ?thesis by simp
qed

lemma is_block_empty_iff: "winv b \<Longrightarrow> is_block_empty b \<longleftrightarrow> b_bufp b \<le> 32"
  by (auto simp: is_block_empty_def WRITE_BLKHDR_LENGTH_def u32_le winv_def block_inv_def)

lemma fetch_image:
  assumes "winv b" and "32 \<le> b_bufp b"
  shows "\<exists>c. fetch (unat (b_binbuf b)) (buf_out (summed_block env dev b ck), 0) =
    Some (block_image (hdr_options dev b ck) (b_binbuf b) (b_BlockNumber b) (b_VolSessionId b) (b_VolSessionTime b)
        (block_sum env dev b ck) (payload_of b), c)"
proof -
  have "unat (b_binbuf b) \<le> length (b_buf b)"
    using assms by (simp add: winv_def block_inv_def u32_le)
  moreover have "buf_out (summed_block env dev b ck) = b_buf (summed_block env dev b ck)"
    by (simp add: buf_out_def summed_block_def)
  ultimately show ?thesis
    using summed_block_facts [OF assms, of env dev ck] by (auto simp: fetch_def buf_slice_def)
qed

lemma within_limits_before_write: "within_limits (before_write ops d) = within_limits d"
  by (simp add: within_limits_def before_write_def vol_counters is_user_volume_size_reached_def summed_block_def)

lemma do_new_file_bookkeeping_frame:
  assumes "\<not> d_is_tape (w_dev d)"
  shows "c_block (snd (do_new_file_bookkeeping ops d)) \<in> {c_block d, (c_block d)\<lparr>b_write_failed := True\<rparr>}"
    and "fst (do_new_file_bookkeeping ops d) \<Longrightarrow> c_block (snd (do_new_file_bookkeeping ops d)) = c_block d"
    and "job_view (snd (do_new_file_bookkeeping ops d)) = job_view d"
proof -
  let ?d1 = "Jmsg M_FATAL (set_dev_errno EIO (snd (dir_create_jobmedia_record ops False d)))"
  let ?d0 = "snd (dir_create_jobmedia_record ops False d)"
  let ?d2 = "snd (dir_update_volume_info ops False (w_vol_update (\<lambda>v. v\<lparr>v_VolCatFiles := get_file ?d0,
      v_VolLastPartBytes := s_part_size (w_st ?d0), v_VolCatParts := s_part (w_st ?d0)\<rparr>) ?d0))"
  have t: "\<not> d_is_tape (w_dev ?d1)" "\<not> d_is_tape (w_dev ?d2)"
    using assms job_view_tape [of ?d1 d] job_view_tape [of ?d2 d] by simp_all
  note tw = terminate_writing_volume_frame [OF t(1), of ops] terminate_writing_volume_frame [OF t(2), of ops]
  show "c_block (snd (do_new_file_bookkeeping ops d)) \<in> {c_block d, (c_block d)\<lparr>b_write_failed := True\<rparr>}"
    "job_view (snd (do_new_file_bookkeeping ops d)) = job_view d"
    using tw by (simp_all add: do_new_file_bookkeeping_def Let_def case_prod_beta)
  show "c_block (snd (do_new_file_bookkeeping ops d)) = c_block d" if "fst (do_new_file_bookkeeping ops d)"
    using that by (simp add: do_new_file_bookkeeping_def Let_def case_prod_beta split: if_splits)
qed

lemma do_size_checks_frame:
  assumes t: "\<not> d_is_tape (w_dev d)"
  shows "c_block (snd (do_size_checks ops d)) \<in> {c_block d, (c_block d)\<lparr>b_write_failed := True\<rparr>}"
    and "fst (do_size_checks ops d) \<Longrightarrow> c_block (snd (do_size_checks ops d)) = c_block d"
    and "job_view (snd (do_size_checks ops d)) = job_view d"
proof -
  let ?d0 = "w_st_update (\<lambda>s. s\<lparr>s_file_size := 0\<rparr>) d"
  let ?d1 = "snd (weof ops ?d0)"
  have t0: "\<not> d_is_tape (w_dev ?d0)" using t by simp
  note w = weof_frame [OF t0, of ops]
  have t1: "\<not> d_is_tape (w_dev ?d1)" "\<not> d_is_tape (w_dev (Jmsg M_FATAL ?d1))" using w(4) t0 by simp_all
  have rr: "reread_last_block ops (snd (terminate_writing_volume ops d)) = snd (terminate_writing_volume ops d)"
    using t job_view_tape [OF terminate_writing_volume_frame(2) [OF t, of ops]] by (simp add: reread_last_block_def)
  note fr = terminate_writing_volume_frame [OF t, of ops] terminate_writing_volume_frame [OF t1(2), of ops]
    do_new_file_bookkeeping_frame [OF t1(1), of ops]
  show "c_block (snd (do_size_checks ops d)) \<in> {c_block d, (c_block d)\<lparr>b_write_failed := True\<rparr>}"
    "job_view (snd (do_size_checks ops d)) = job_view d"
    using fr w rr by (simp_all add: do_size_checks_def case_prod_beta)
  show "c_block (snd (do_size_checks ops d)) = c_block d" if "fst (do_size_checks ops d)"
    using that fr(8) w(1) by (auto simp: do_size_checks_def case_prod_beta split: if_splits)
qed

text \<open>The path of a block with data on a ready device, up to the result of the write.\<close>

definition after_write :: "'os \<Rightarrow> 'os wdcr \<Rightarrow> 'os wdcr" where
  "after_write os d = (updateVolCatWrites 1 d)\<lparr>w_os := os\<rparr>"

lemma write_block_to_dev_ready:
  assumes rd: "dev_ready d" and b: "winv (c_block d)" "32 < b_bufp (c_block d)"
    and sz: "do_size_checks ops (before_write ops d) = (ok, d1)"
    and wr: "write_retry (o_write ops) 3 (w_os d1) (written_image ops d) = (stat, err, os)"
  shows "write_block_to_dev ops d =
    (if \<not> ok then Inr (False, d1)
     else if stat = uint (b_binbuf (c_block d))
     then Inr (True, write_block_done (b_binbuf (c_block d))
                (c_block_update (\<lambda>b. b\<lparr>b_first_block := False\<rparr>) (after_write os d1)))
     else Inr (False, write_block_failed ops stat err (after_write os d1)))"
proof -
  define b1 where "b1 = (c_block d)\<lparr>b_block_len := b_binbuf (c_block d)\<rparr>"
  define d0 where "d0 = before_write ops d"
  have rdy: "\<not> j_canceled (w_jcr d)" "s_enabled (w_st d)" "\<not> s_WEOT (w_st d)" "s_APPEND (w_st d)" "s_is_open (w_st d)"
    "\<not> d_is_tape (w_dev d)" "\<not> d_volume_encryption (w_dev d)"
    using rd by (auto simp: dev_ready_def)
  have wb1: "winv b1" "32 \<le> b_bufp b1" using b by (auto simp: b1_def)
  have inv: "\<not> b_adata (c_block d)" "\<not> b_binbuf (c_block d) \<noteq> of_nat (b_bufp (c_block d))"
    using b(1) by (auto simp: winv_def block_inv_def)
  have ne: "\<not> is_block_empty (c_block d)" using b by (simp add: is_block_empty_iff)
  have len: "get_len_and_clear_block (c_block d) (w_dev d) = Some (b_binbuf (c_block d), 0, c_block d)"
    by (rule get_len_disk [OF b(1) rdy(6)])
  have d0: "(updateVolCatPadding 0 d)\<lparr>c_block := c_block d0\<rparr> = d0" "w_dev d0 = w_dev d"
    "c_block d0 = summed_block (o_env ops) (w_dev d) b1 (d_do_checksum (w_dev d))" "w_dev (updateVolCatPadding 0 d) = w_dev d"
    by (simp_all add: d0_def before_write_def b1_def vol_counters)
  have ser: "ser_block_header (o_env ops) (w_dev d) b1 (d_do_checksum (w_dev d)) =
      Some (block_sum (o_env ops) (w_dev d) b1 (d_do_checksum (w_dev d)), c_block d0)"
    using rdy(7) unfolding d0(3)
    by (subst ser_block_header_plain [OF winv_writable [OF wb1]]) (simp_all add: encrypts_def)
  have d1: "ok \<Longrightarrow> c_block d1 = c_block d0"
    using do_size_checks_frame(2) [of d0 ops] sz rdy(6) d0(2) by (simp add: d0_def [symmetric])
  obtain c where img: "fetch (unat (b_binbuf (c_block d))) (buf_out (c_block d0), 0) = Some (written_image ops d, c)"
    using fetch_image [OF wb1, of "o_env ops" "w_dev d" "d_do_checksum (w_dev d)"] unfolding d0(3)
    by (auto simp: b1_def written_image_def Let_def)
  have fr: "w_os (updateVolCatWrites 1 d1) = w_os d1" "c_block (updateVolCatWrites 1 d1) = c_block d1"
    by (simp_all add: vol_counters)
  show ?thesis
    using sz [folded d0_def] rdy inv ne ser wr d0(1,4) d1 img fr
    unfolding write_block_to_dev_def Let_def len option.case prod.case b1_def [symmetric] after_write_def
    by (cases ok) simp_all
qed

section \<open>A successful write\<close>

lemma note_job_indexes_frame [simp]:
  "w_os (note_job_indexes d) = w_os d" "w_dev (note_job_indexes d) = w_dev d" "w_st (note_job_indexes d) = w_st d"
  "w_EndAddr (note_job_indexes d) = w_EndAddr d" "w_StartAddr (note_job_indexes d) = w_StartAddr d"
  "w_NewVol (note_job_indexes d) = w_NewVol d" "w_NewFile (note_job_indexes d) = w_NewFile d"
  "c_block (note_job_indexes d) = c_block d" "w_WroteVol (note_job_indexes d)" "w_jcr (note_job_indexes d) = w_jcr d"
  "c_adata_label (note_job_indexes d) = c_adata_label d" "w_spooling (note_job_indexes d) = w_spooling d"
  by (simp_all add: note_job_indexes_def Let_def)

lemma write_block_done_disk:
  assumes "\<not> d_is_tape (w_dev d)"
  shows "w_os (write_block_done n d) = w_os d" "w_jcr (write_block_done n d) = w_jcr d"
    and "w_dev (write_block_done n d) = (w_dev d)\<lparr>d_VolCatBytes := d_VolCatBytes (w_dev d) + ucast n\<rparr>"
    and "s_file_addr (w_st (write_block_done n d)) = s_file_addr (w_st d) + ucast n"
    and "s_WEOT (w_st (write_block_done n d)) = s_WEOT (w_st d)"
    and "s_APPEND (w_st (write_block_done n d)) = s_APPEND (w_st d)"
    and "s_max_file_size (w_st (write_block_done n d)) = s_max_file_size (w_st d)"
    and "s_LastBlock (w_st (write_block_done n d)) = b_BlockNumber (c_block d)"
    and "w_EndAddr (write_block_done n d) = s_file_addr (w_st d) + ucast n - 1"
    and "w_StartAddr (write_block_done n d) = w_StartAddr d"
    and "w_WroteVol (write_block_done n d)"
    and "w_NewVol (write_block_done n d) = w_NewVol d" "w_NewFile (write_block_done n d) = w_NewFile d"
    and "c_block (write_block_done n d) = (empty_block (c_block d))\<lparr>b_BlockNumber := b_BlockNumber (c_block d) + 1\<rparr>"
    and "job_view (write_block_done n d) = job_view d"
  using assms
  by (simp_all add: write_block_done_def note_end_addr_def advance_position_def vol_counters
      Let_def job_view_def empty_block_def)


text \<open>Two blocks with the same data, session and place in the job.\<close>

definition same_data :: "dev_block \<Rightarrow> dev_block \<Rightarrow> bool" where
  "same_data b b' \<longleftrightarrow> winv b' \<and> b_bufp b' = b_bufp b \<and> payload_of b' = payload_of b \<and>
     b_buf_len b' = b_buf_len b \<and> b_BlockNumber b' = b_BlockNumber b \<and> b_VolSessionId b' = b_VolSessionId b \<and>
     b_VolSessionTime b' = b_VolSessionTime b \<and> b_FirstIndex b' = b_FirstIndex b \<and> b_LastIndex b' = b_LastIndex b"

lemma same_data_refl: "winv b \<Longrightarrow> same_data b b"
  by (simp add: same_data_def)

lemma same_data_trans: "same_data b b' \<Longrightarrow> same_data b' b'' \<Longrightarrow> same_data b b''"
  by (simp add: same_data_def)

lemma write_failed_irrelevant [simp]:
  "winv (b\<lparr>b_first_block := x'\<rparr>) = winv b" "payload_of (b\<lparr>b_first_block := x'\<rparr>) = payload_of b"
  "winv (b\<lparr>b_write_failed := x\<rparr>) = winv b" "payload_of (b\<lparr>b_write_failed := x\<rparr>) = payload_of b"
  by (simp_all add: winv_def block_inv_def payload_of_def used_def)

lemma same_data_write_failed: "same_data b b' \<Longrightarrow> same_data b (b'\<lparr>b_write_failed := True\<rparr>)"
  by (simp add: same_data_def)

lemma same_data_summed:
  assumes "winv b" and "32 \<le> b_bufp b"
  shows "same_data b (summed_block env dev (b\<lparr>b_block_len := n\<rparr>) ck)"
proof -
  let ?b = "b\<lparr>b_block_len := n\<rparr>" let ?s = "summed_block env dev ?b ck"
  have b: "winv ?b" "32 \<le> b_bufp ?b" using assms by simp_all
  have inv: "unat (b_binbuf b) = b_bufp b" "length (b_buf b) = unat (b_buf_len b)" "b_binbuf b \<le> b_buf_len b" "\<not> b_adata b"
    using assms by (auto simp: winv_def block_inv_def)
  have "drop 32 (take (b_bufp b) (b_buf ?s)) = payload_of b"
    using summed_block_facts(2) [OF b, of env dev ck] inv(1)
    by (simp add: buf_out_def summed_block_def block_image_def)
  then show ?thesis
    using summed_block_facts(1) [OF b, of env dev ck] inv
    by (simp add: same_data_def payload_of_def used_def winv_def block_inv_def)
      (simp add: summed_block_def)
qed

lemma before_write_frame [simp]:
  "w_dev (before_write ops d) = w_dev d" "w_st (before_write ops d) = w_st d" "job_view (before_write ops d) = job_view d"
  "w_os (before_write ops d) = w_os d" "w_jcr (before_write ops d) = w_jcr d"
  "w_NewVol (before_write ops d) = w_NewVol d" "w_NewFile (before_write ops d) = w_NewFile d"
  "w_StartAddr (before_write ops d) = w_StartAddr d" "w_WroteVol (before_write ops d) = w_WroteVol d"
  "w_EndAddr (before_write ops d) = w_EndAddr d"
  by (simp_all add: before_write_def vol_counters job_view_def)

lemma before_write_block: "winv (c_block d) \<Longrightarrow> 32 \<le> b_bufp (c_block d) \<Longrightarrow> same_data (c_block d) (c_block (before_write ops d))"
  by (simp add: before_write_def same_data_summed)

lemma after_write_frame [simp]:
  "w_dev (after_write os d) = w_dev d" "w_st (after_write os d) = w_st d" "job_view (after_write os d) = job_view d"
  "w_os (after_write os d) = os" "c_block (after_write os d) = c_block d" "w_jcr (after_write os d) = w_jcr d"
  "w_NewVol (after_write os d) = w_NewVol d" "w_NewFile (after_write os d) = w_NewFile d"
  "w_StartAddr (after_write os d) = w_StartAddr d"
  by (simp_all add: after_write_def vol_counters job_view_def)

lemma write_block_failed_frame:
  assumes t: "\<not> d_is_tape (w_dev d)"
  shows "c_block (write_block_failed ops stat err d) \<in> {c_block d, (c_block d)\<lparr>b_write_failed := True\<rparr>}"
    and "job_view (write_block_failed ops stat err d) = job_view d" and "is_ateot (write_block_failed ops stat err d)"
proof -
  let ?d1 = "note_write_error ops stat err d"
  have d1: "c_block ?d1 = c_block d" "job_view ?d1 = job_view d"
    by (simp_all add: note_write_error_def Let_def job_view_def set_dev_errno_def Jmsg_def)
  have t1: "\<not> d_is_tape (w_dev ?d1)" using t job_view_tape [OF d1(2)] by simp
  note fr = terminate_writing_volume_frame [OF t1, of ops]
  have "reread_last_block ops (snd (terminate_writing_volume ops ?d1)) = snd (terminate_writing_volume ops ?d1)"
    using t1 job_view_tape [OF fr(2)] by (simp add: reread_last_block_def)
  then show "c_block (write_block_failed ops stat err d) \<in> {c_block d, (c_block d)\<lparr>b_write_failed := True\<rparr>}"
    "job_view (write_block_failed ops stat err d) = job_view d" "is_ateot (write_block_failed ops stat err d)"
    using fr d1 by (simp_all add: write_block_failed_def Let_def case_prod_beta)
qed


lemma dev_ready_view:
  "dev_ready d \<Longrightarrow> job_view d' = job_view d \<Longrightarrow> j_canceled (w_jcr d') = j_canceled (w_jcr d) \<Longrightarrow> s_WEOT (w_st d') = s_WEOT (w_st d) \<Longrightarrow>
   s_APPEND (w_st d') = s_APPEND (w_st d) \<Longrightarrow> dev_ready d'"
  by (simp add: dev_ready_def job_view_def)

lemma empty_block_winv:
  assumes "winv b" and "32 \<le> b_bufp b"
  shows "winv ((empty_block b)\<lparr>b_BlockNumber := n\<rparr>)" "b_bufp ((empty_block b)\<lparr>b_BlockNumber := n\<rparr>) = 32"
    "b_buf_len ((empty_block b)\<lparr>b_BlockNumber := n\<rparr>) = b_buf_len b"
  using assms by (auto simp: winv_def block_inv_def empty_block_def Let_def WRITE_BLKHDR_LENGTH_def u32_le)

lemma written_image_payload:
  assumes "winv (c_block d)" and "32 \<le> b_bufp (c_block d)"
  shows "image_payload (written_image ops d) = payload_of (c_block d)"
proof -
  have "unat (b_binbuf (c_block d)) = 32 + length (payload_of (c_block d))"
    using assms by (auto simp: winv_def block_inv_def payload_of_def used_def u32_le)
  then show ?thesis by (simp add: written_image_def Let_def image_payload_image)
qed

lemma write_block_to_dev_success:
  assumes rd: "dev_ready d" and b: "winv (c_block d)" "32 < b_bufp (c_block d)"
    and sz: "do_size_checks ops (before_write ops d) = (True, d1)"
    and wr: "write_retry (o_write ops) 3 (w_os d1) (written_image ops d) = (uint (b_binbuf (c_block d)), err, os)"
  shows "write_block_to_dev ops d = Inr (True, write_block_done (b_binbuf (c_block d))
            (c_block_update (\<lambda>b. b\<lparr>b_first_block := False\<rparr>) (after_write os d1)))"
  using write_block_to_dev_ready [OF rd b sz wr] by simp

lemma write_block_to_dev_within:
  assumes rd: "dev_ready d" and lim: "within_limits d" and b: "winv (c_block d)" "32 < b_bufp (c_block d)"
    and wr: "write_retry (o_write ops) 3 (w_os d) (written_image ops d) = (uint (b_binbuf (c_block d)), err, os)"
  shows "\<exists>d2. write_block_to_dev ops d = Inr (True, write_block_done (b_binbuf (c_block d)) d2) \<and>
    w_os d2 = os \<and> w_dev d2 = w_dev d \<and> w_st d2 = w_st d \<and> w_jcr d2 = w_jcr d \<and> job_view d2 = job_view d \<and>
    w_NewVol d2 = w_NewVol d \<and> w_NewFile d2 = w_NewFile d \<and> w_StartAddr d2 = w_StartAddr d \<and>
    same_data (c_block d) (c_block d2)"
proof -
  let ?d2 = "c_block_update (\<lambda>b. b\<lparr>b_first_block := False\<rparr>) (after_write os (before_write ops d))"
  have sz: "do_size_checks ops (before_write ops d) = (True, before_write ops d)"
    using lim by (intro do_size_checks_within) (simp add: within_limits_before_write)
  have w: "write_block_to_dev ops d = Inr (True, write_block_done (b_binbuf (c_block d)) ?d2)"
    using write_block_to_dev_success [OF rd b sz] wr by simp
  have "same_data (c_block d) (c_block ?d2)"
    using before_write_block [OF b(1), of ops] b(2) by (simp add: same_data_def)
  then show ?thesis using w by (intro exI [of _ ?d2]) simp
qed

lemma write_block_done_ready:
  assumes rd: "dev_ready d" and d2: "w_dev d2 = w_dev d" "w_st d2 = w_st d" "job_view d2 = job_view d" "w_jcr d2 = w_jcr d"
    and sd: "same_data (c_block d) (c_block d2)" and b: "32 < b_bufp (c_block d)"
  shows "dev_ready (write_block_done n d2)" "winv (c_block (write_block_done n d2))"
    "b_bufp (c_block (write_block_done n d2)) = 32"
    "b_buf_len (c_block (write_block_done n d2)) = b_buf_len (c_block d)"
    "b_BlockNumber (c_block (write_block_done n d2)) = b_BlockNumber (c_block d) + 1"
proof -
  have t: "\<not> d_is_tape (w_dev d2)" using rd d2(1) by (simp add: dev_ready_def)
  note f = write_block_done_disk [OF t, of n]
  have b2: "winv (c_block d2)" "32 \<le> b_bufp (c_block d2)" using sd b by (simp_all add: same_data_def)
  show "dev_ready (write_block_done n d2)" using f d2 by (intro dev_ready_view [OF rd]) simp_all
  show "winv (c_block (write_block_done n d2))" "b_bufp (c_block (write_block_done n d2)) = 32"
    "b_buf_len (c_block (write_block_done n d2)) = b_buf_len (c_block d)"
    "b_BlockNumber (c_block (write_block_done n d2)) = b_BlockNumber (c_block d) + 1"
    using f empty_block_winv [OF b2] sd by (simp_all add: same_data_def)
qed

text \<open>
  On a ready disk device, with the block within the limits and a system
  that takes the whole image, \<^verbatim>\<open>write_block_to_dev\<close> returns true.  The system then is in the state after
  the write of the block's image, whose data are exactly the block's; the block is empty and carries the next
  block number; the Volume's byte count and the file address have grown by the
  length of the block, and the end address of the job is that of the last byte written.
\<close>
theorem write_block_to_dev_appends:
  assumes rd: "dev_ready d" and lim: "within_limits d" and b: "winv (c_block d)" "32 < b_bufp (c_block d)"
    and wr: "write_retry (o_write ops) 3 (w_os d) (written_image ops d) = (uint (b_binbuf (c_block d)), err, os)"
  shows "\<exists>d'. write_block_to_dev ops d = Inr (True, d') \<and> w_os d' = os \<and> dev_ready d' \<and>
    image_payload (written_image ops d) = payload_of (c_block d) \<and>
    winv (c_block d') \<and> b_bufp (c_block d') = 32 \<and> b_buf_len (c_block d') = b_buf_len (c_block d) \<and>
    b_BlockNumber (c_block d') = b_BlockNumber (c_block d) + 1 \<and>
    d_VolCatBytes (w_dev d') = d_VolCatBytes (w_dev d) + ucast (b_binbuf (c_block d)) \<and>
    s_file_addr (w_st d') = s_file_addr (w_st d) + ucast (b_binbuf (c_block d)) \<and>
    w_EndAddr d' = s_file_addr (w_st d') - 1"
proof -
  obtain d2 where w: "write_block_to_dev ops d = Inr (True, write_block_done (b_binbuf (c_block d)) d2)"
    and d2: "w_os d2 = os" "w_dev d2 = w_dev d" "w_st d2 = w_st d" "job_view d2 = job_view d" "w_jcr d2 = w_jcr d"
      "same_data (c_block d) (c_block d2)"
    using write_block_to_dev_within [OF assms] by blast
  have t: "\<not> d_is_tape (w_dev d2)" using rd d2(2) by (simp add: dev_ready_def)
  show ?thesis
    using w d2 write_block_done_disk [OF t] write_block_done_ready [OF rd d2(2-6) b(2)] written_image_payload [of d ops] b
    by simp
qed

text \<open>
  C26 (volume_size_limit).  A successful write of a block to a disk Volume with a maximum
  size leaves fewer bytes than the maximum on the Volume, for the device's limit and for
  that of the catalog (no limit on the file size being set).
\<close>
theorem volume_size_limit:
  assumes ok: "write_block_to_dev ops d = Inr (True, d')"
    and b: "winv (c_block d)" "32 < b_bufp (c_block d)"
    and dev: "\<not> d_is_tape (w_dev d)" "\<not> d_is_aligned (w_dev d)" "\<not> d_volume_encryption (w_dev d)"
    and mfs: "s_max_file_size (w_st d) = 0"
  shows "(d_max_volume_size (w_dev d) = 0 \<or> d_VolCatBytes (w_dev d') < d_max_volume_size (w_dev d)) \<and>
    (d_VolCatMaxBytes (w_dev d) = 0 \<or> d_VolCatBytes (w_dev d') < d_VolCatMaxBytes (w_dev d))"
proof -
  have inv: "\<not> b_adata (c_block d)" "\<not> is_block_empty (c_block d)"
    using b by (auto simp: is_block_empty_iff winv_def)
  have rd: "dev_ready d"
    using ok dev inv by (auto simp: write_block_to_dev_def dev_ready_def Let_def split: if_splits)
  obtain sok d1 where sz: "do_size_checks ops (before_write ops d) = (sok, d1)"
    by (cases "do_size_checks ops (before_write ops d)")
  obtain stat err os where wr: "write_retry (o_write ops) 3 (w_os d1) (written_image ops d) = (stat, err, os)"
    by (cases "write_retry (o_write ops) 3 (w_os d1) (written_image ops d)")
  have sok: "sok" and d': "d' = write_block_done (b_binbuf (c_block d))
      (c_block_update (\<lambda>b. b\<lparr>b_first_block := False\<rparr>) (after_write os d1))"
    using ok write_block_to_dev_ready [OF rd b sz wr] by (auto split: if_splits)
  have lim: "within_limits (before_write ops d)"
    using sz sok mfs by (auto simp: do_size_checks_def within_limits_def split: if_splits)
  then have d1: "d1 = before_write ops d" using sz do_size_checks_within [OF lim, of ops] by simp
  have bytes: "d_VolCatBytes (w_dev d') = d_VolCatBytes (w_dev d) + ucast (b_binbuf (c_block d))"
    using d' dev(1) by (simp add: d1 write_block_done_disk)
  show ?thesis
    using lim [unfolded within_limits_before_write] dev(2) bytes
    by (auto simp: within_limits_def is_user_volume_size_reached_def Let_def not_le word_gt_0 split: if_splits)
qed


section \<open>A failed write and the next Volume\<close>

lemma do_new_file_bookkeeping_ateot:
  assumes "\<not> d_is_tape (w_dev d)" and "\<not> fst (do_new_file_bookkeeping ops d)"
  shows "is_ateot (snd (do_new_file_bookkeeping ops d))"
proof -
  have at: "is_ateot (set_dev_errno e x) = is_ateot x" for e and x :: "'a wdcr"
    by (simp add: is_ateot_def)
  let ?d1 = "Jmsg M_FATAL (set_dev_errno EIO (snd (dir_create_jobmedia_record ops False d)))"
  let ?d0 = "snd (dir_create_jobmedia_record ops False d)"
  let ?d2 = "snd (dir_update_volume_info ops False (w_vol_update (\<lambda>v. v\<lparr>v_VolCatFiles := get_file ?d0,
      v_VolLastPartBytes := s_part_size (w_st ?d0), v_VolCatParts := s_part (w_st ?d0)\<rparr>) ?d0))"
  have t: "\<not> d_is_tape (w_dev ?d1)" "\<not> d_is_tape (w_dev ?d2)"
    using assms(1) job_view_tape [of ?d1 d] job_view_tape [of ?d2 d] by simp_all
  show ?thesis
    using assms(2) terminate_writing_volume_frame(3) [OF t(1), of ops] terminate_writing_volume_frame(3) [OF t(2), of ops]
    by (auto simp: do_new_file_bookkeeping_def Let_def case_prod_beta at split: if_splits)
qed

lemma do_size_checks_ateot:
  assumes t: "\<not> d_is_tape (w_dev d)" and f: "\<not> fst (do_size_checks ops d)"
  shows "is_ateot (snd (do_size_checks ops d))"
proof -
  have at: "is_ateot (set_dev_errno e x) = is_ateot x" for e and x :: "'a wdcr"
    by (simp add: is_ateot_def)
  let ?d1 = "snd (weof ops (w_st_update (\<lambda>s. s\<lparr>s_file_size := 0\<rparr>) d))"
  have t1: "\<not> d_is_tape (w_dev ?d1)" "\<not> d_is_tape (w_dev (Jmsg M_FATAL ?d1))"
    using weof_frame(4) [of "w_st_update (\<lambda>s. s\<lparr>s_file_size := 0\<rparr>) d" ops] t by simp_all
  note tw = terminate_writing_volume_frame [OF t, of ops]
  have "reread_last_block ops (snd (terminate_writing_volume ops d)) = snd (terminate_writing_volume ops d)"
    using t job_view_tape [OF tw(2)] by (simp add: reread_last_block_def)
  then show ?thesis
    using f tw(3) terminate_writing_volume_frame(3) [OF t1(2), of ops] do_new_file_bookkeeping_ateot [OF t1(1), of ops]
    by (auto simp: do_size_checks_def case_prod_beta at split: if_splits)
qed

lemma write_block_to_dev_failure:
  assumes fail: "write_block_to_dev ops d = Inr (False, d')" and rd: "dev_ready d"
    and b: "winv (c_block d)" "32 < b_bufp (c_block d)"
  shows "is_ateot d'" and "same_data (c_block d) (c_block d')"
proof -
  let ?d0 = "before_write ops d"
  have t0: "\<not> d_is_tape (w_dev ?d0)" using rd by (simp add: dev_ready_def)
  obtain sok d1 where sz: "do_size_checks ops ?d0 = (sok, d1)" by (cases "do_size_checks ops ?d0")
  obtain stat err os where wr: "write_retry (o_write ops) 3 (w_os d1) (written_image ops d) = (stat, err, os)"
    by (cases "write_retry (o_write ops) 3 (w_os d1) (written_image ops d)")
  note fr = do_size_checks_frame [OF t0, of ops, unfolded sz fst_conv snd_conv]
  have "\<not> d_is_tape (w_dev (after_write os d1))" using t0 job_view_tape [OF fr(3)] by simp
  note ff = write_block_failed_frame [OF this, of ops stat err]
  have d': "if sok then d' = write_block_failed ops stat err (after_write os d1) else d' = d1"
    using fail write_block_to_dev_ready [OF rd b sz wr] by (auto split: if_splits)
  show "is_ateot d'"
    using d' do_size_checks_ateot [OF t0, of ops] sz ff(3) by (cases sok) simp_all
  have sd: "same_data (c_block d) (c_block ?d0)" using b by (intro before_write_block) simp_all
  have "c_block d' \<in> {c_block ?d0, (c_block ?d0)\<lparr>b_write_failed := True\<rparr>}"
    using d' fr(1,2) ff(1) by (cases sok) auto
  then show "same_data (c_block d) (c_block d')"
    using sd same_data_write_failed [OF sd] by auto
qed

lemma write_block_to_dev_view:
  assumes "write_block_to_dev ops d = Inr (ok, d')" and t: "\<not> d_is_tape (w_dev d)"
  shows "job_view d' = job_view d"
proof -
  have sz: "job_view (snd (do_size_checks ops ((updateVolCatPadding p d)\<lparr>c_block := b\<rparr>))) = job_view d" for p b
    by (subst do_size_checks_frame(3)) (use t in \<open>simp_all add: vol_counters job_view_def\<close>)
  have fin: "job_view (write_block_done n (c_block_update g ((updateVolCatWrites 1 x)\<lparr>w_os := os\<rparr>))) = job_view d"
    "job_view (write_block_failed ops st e ((updateVolCatWrites 1 x)\<lparr>w_os := os\<rparr>)) = job_view d"
    if "job_view x = job_view d" for x n g os st e
  proof -
    have tx: "\<not> d_is_tape (w_dev (c_block_update g ((updateVolCatWrites 1 x)\<lparr>w_os := os\<rparr>)))"
      "\<not> d_is_tape (w_dev ((updateVolCatWrites 1 x)\<lparr>w_os := os\<rparr>))"
      using t job_view_tape [OF that] by (simp_all add: vol_counters)
    show "job_view (write_block_done n (c_block_update g ((updateVolCatWrites 1 x)\<lparr>w_os := os\<rparr>))) = job_view d"
      "job_view (write_block_failed ops st e ((updateVolCatWrites 1 x)\<lparr>w_os := os\<rparr>)) = job_view d"
      using write_block_done_disk(15) [OF tx(1)] write_block_failed_frame(2) [OF tx(2)] that
      by (simp_all add: vol_counters job_view_def)
  qed
  show ?thesis
    using assms(1)
    by (auto simp: write_block_to_dev_def Let_def case_prod_beta fin [OF sz] sz split: if_splits option.splits)
qed


text \<open>A disk without encryption, and what a change of Volume keeps of it: the device stays what it is,
  the look-up of the new Volume does not touch the block.\<close>

definition disk :: "'os wdcr \<Rightarrow> bool" where
  "disk d \<longleftrightarrow> \<not> d_is_tape (w_dev d) \<and> \<not> d_volume_encryption (w_dev d)"

lemma disk_view: "job_view d' = job_view d \<Longrightarrow> disk d' = disk d"
  by (simp add: disk_def job_view_def)

lemma length_written_image:
  assumes "winv (c_block d)" and "32 \<le> b_bufp (c_block d)"
  shows "int (length (written_image ops d)) = uint (b_binbuf (c_block d))"
proof -
  have "unat (b_binbuf (c_block d)) = 32 + length (payload_of (c_block d))"
    using assms by (auto simp: winv_def block_inv_def payload_of_def used_def u32_le)
  then have "length (written_image ops d) = unat (b_binbuf (c_block d))"
    by (simp add: written_image_def Let_def block_image_def)
  then show ?thesis by simp
qed

text \<open>
  The image a job's block leaves on a Volume without encryption, with its checksum or without: the bytes
  depend on the block's session, number and data only.
\<close>

definition job_image :: "blk_env \<Rightarrow> bool \<Rightarrow> dev_block \<Rightarrow> u8 list" where
  "job_image env ck b =
     (let img = (\<lambda>cs. block_image (if ck then BLKHOPT_CHKSUM else 0) (b_binbuf b) (b_BlockNumber b)
                        (b_VolSessionId b) (b_VolSessionTime b) cs (payload_of b))
      in img (if ck then e_xxh env (img 0) else 0))"

lemma written_image_job:
  assumes "winv (c_block d)" and "\<not> d_volume_encryption (w_dev d)"
  shows "written_image ops d = job_image (o_env ops) (d_do_checksum (w_dev d)) (c_block d)"
  using assms block_payload_eq [OF assms(1)]
  by (simp add: written_image_def job_image_def Let_def hdr_options_def encrypts_def block_sum_def)

lemma job_image_same_data: "winv b \<Longrightarrow> same_data b b' \<Longrightarrow> job_image env ck b' = job_image env ck b"
proof -
  assume b: "winv b" "same_data b b'"
  then have "b_binbuf b' = b_binbuf b" by (simp add: same_data_def winv_def block_inv_def word_unat_eq_iff)
  then show ?thesis using b(2) by (simp add: job_image_def same_data_def)
qed

section \<open>The log of a system\<close>

text \<open>
  What the writer relies on when it takes a write for done.  \<open>log\<close> reads, off the state of the system, the
  images it has accepted so far.  A write is accepted exactly when the system answers with the full length; the
  messages to the Director and the protection of a file leave the log alone; the mount of the next Volume (which
  may write its label) and the look-up of a new Volume only extend it, keep a disk a disk, and the latter
  keeps the block.
\<close>

locale system_log =
  fixes ops :: "'os write_ops" and log :: "'os \<Rightarrow> u8 list list"
  assumes write_log: "o_write ops os bs = (stat, err, os') \<Longrightarrow>
      log os' = (if stat = int (length bs) then log os @ [bs] else log os)"
    and jobmedia_log: "log (snd (o_send_jobmedia ops items os)) = log os"
    and media_log: "log (snd (o_update_media ops v n os)) = log os"
    and protect_log: "log (snd (o_set_atime ops os)) = log os" "log (snd (o_set_readonly ops os)) = log os"
      "log (snd (o_set_immutable ops os)) = log os"
    and mount_log: "disk x \<Longrightarrow> disk (snd (o_mount_next_write_volume ops x)) \<and>
      (\<exists>pre. log (w_os (snd (o_mount_next_write_volume ops x))) = log (w_os x) @ pre)"
    and volume_log: "disk x \<Longrightarrow> disk (o_get_new_volume_info ops x) \<and> c_block (o_get_new_volume_info ops x) = c_block x \<and>
      (\<exists>pre. log (w_os (o_get_new_volume_info ops x)) = log (w_os x) @ pre)"
begin

lemma write_retry_log:
  "write_retry (o_write ops) k os bs = (stat, err, os') \<Longrightarrow>
   log os' = (if stat = int (length bs) then log os @ [bs] else log os)"
proof (induction k arbitrary: os)
  case 0
  then show ?case using write_log by simp
next
  case (Suc k)
  obtain st1 e1 os1 where w: "o_write ops os bs = (st1, e1, os1)" by (cases "o_write ops os bs")
  show ?case
    using Suc.prems Suc.IH [of os1] write_log [OF w] by (auto simp: w split: if_splits)
qed

lemma counters_log [simp]:
  "w_os (Jmsg m d) = w_os d" "w_os (set_dev_errno e d) = w_os d" "w_os (set_new_file_parameters d) = w_os d"
  "w_os (setVolCatStatus st d) = w_os d" "w_os (weof_error d) = w_os d" "w_os (set_ateot d) = w_os d"
  "w_os (updateVolCatPadding p d) = w_os d" "w_os (updateVolCatWrites n d) = w_os d"
  "w_os (notify_newvol_in_attached_dcrs name d) = w_os d" "w_os (notify_newfile_in_attached_dcrs d) = w_os d"
  by (simp_all add: vol_counters set_ateot_def notify_newvol_in_attached_dcrs_def notify_newfile_in_attached_dcrs_def Let_def)

lemma flush_log [simp]: "log (w_os (snd (flush_jobmedia_queue ops d))) = log (w_os d)"
  using jobmedia_log by (simp add: flush_jobmedia_queue_def Let_def case_prod_beta)

lemma jobmedia_record_log [simp]: "log (w_os (snd (dir_create_jobmedia_record ops z d))) = log (w_os d)"
  by (simp add: dir_create_jobmedia_record_def Let_def case_prod_beta)

lemma update_volume_log [simp]: "log (w_os (snd (dir_update_volume_info ops l d))) = log (w_os d)"
proof -
  have "log os = log (w_os d)" if "o_update_media ops v n (w_os d) = (a, os)" for v n a os
    using media_log [of v n "w_os d"] that by simp
  then show ?thesis
    by (auto simp: dir_update_volume_info_def Let_def take_vol_answer_def split: prod.splits option.splits)
qed

lemma protect_volume_log [simp]: "log (w_os (protect_volume ops d)) = log (w_os d)"
  using protect_log by (simp add: protect_volume_def Let_def case_prod_beta)

lemma weof_log: "\<not> d_is_tape (w_dev d) \<Longrightarrow> w_os (snd (weof ops d)) = w_os d"
  by (simp add: weof_def)

lemma close_medium_log: "\<not> d_is_tape (w_dev d) \<Longrightarrow> log (w_os (snd (close_medium ops d))) = log (w_os d)"
  by (simp add: close_medium_def end_of_volume_def Let_def case_prod_beta weof_log weof_frame)

lemma mark_full_log [simp]: "log (w_os (snd (mark_full ops d))) = log (w_os d)"
  by (simp add: mark_full_def Let_def case_prod_beta)

lemma terminate_log:
  assumes "\<not> d_is_tape (w_dev d)"
  shows "log (w_os (snd (terminate_writing_volume ops d))) = log (w_os d)"
proof -
  let ?d1 = "snd (mark_full ops (snd (close_medium ops d)))"
  have "\<not> d_is_tape (w_dev ?d1)"
    using assms close_medium_frame(2) [OF assms, of ops] job_view_tape [of ?d1 d] by simp
  then show ?thesis
    by (simp add: terminate_writing_volume_def Let_def case_prod_beta weof_log close_medium_log [OF assms])
qed

lemma bookkeeping_log:
  assumes "\<not> d_is_tape (w_dev d)"
  shows "log (w_os (snd (do_new_file_bookkeeping ops d))) = log (w_os d)"
proof -
  let ?d1 = "Jmsg M_FATAL (set_dev_errno EIO (snd (dir_create_jobmedia_record ops False d)))"
  let ?d0 = "snd (dir_create_jobmedia_record ops False d)"
  let ?d2 = "snd (dir_update_volume_info ops False (w_vol_update (\<lambda>v. v\<lparr>v_VolCatFiles := get_file ?d0,
      v_VolLastPartBytes := s_part_size (w_st ?d0), v_VolCatParts := s_part (w_st ?d0)\<rparr>) ?d0))"
  have t: "\<not> d_is_tape (w_dev ?d1)" "\<not> d_is_tape (w_dev ?d2)"
    using assms job_view_tape [of ?d1 d] job_view_tape [of ?d2 d] by simp_all
  show ?thesis
    using terminate_log [OF t(1)] terminate_log [OF t(2)]
    by (simp add: do_new_file_bookkeeping_def Let_def case_prod_beta)
qed

lemma size_checks_log:
  assumes t: "\<not> d_is_tape (w_dev d)"
  shows "log (w_os (snd (do_size_checks ops d))) = log (w_os d)"
proof -
  let ?d0 = "w_st_update (\<lambda>s. s\<lparr>s_file_size := 0\<rparr>) d"
  let ?d1 = "snd (weof ops ?d0)"
  have t0: "\<not> d_is_tape (w_dev ?d0)" using t by simp
  have t1: "\<not> d_is_tape (w_dev ?d1)" "\<not> d_is_tape (w_dev (Jmsg M_FATAL ?d1))" using weof_frame(4) [OF t0, of ops] t0 by simp_all
  have "reread_last_block ops (snd (terminate_writing_volume ops d)) = snd (terminate_writing_volume ops d)"
    using t job_view_tape [OF terminate_writing_volume_frame(2) [OF t, of ops]] by (simp add: reread_last_block_def)
  then show ?thesis
    using terminate_log [OF t] terminate_log [OF t1(2)] bookkeeping_log [OF t1(1)] weof_log [OF t0]
    by (simp add: do_size_checks_def case_prod_beta)
qed

lemma write_failed_log:
  assumes "\<not> d_is_tape (w_dev d)"
  shows "log (w_os (write_block_failed ops stat err d)) = log (w_os d)"
proof -
  let ?d1 = "note_write_error ops stat err d"
  have d1: "w_os ?d1 = w_os d" "job_view ?d1 = job_view d"
    by (simp_all add: note_write_error_def Let_def job_view_def set_dev_errno_def Jmsg_def)
  have t1: "\<not> d_is_tape (w_dev ?d1)" using assms job_view_tape [OF d1(2)] by simp
  have "reread_last_block ops (snd (terminate_writing_volume ops ?d1)) = snd (terminate_writing_volume ops ?d1)"
    using t1 job_view_tape [OF terminate_writing_volume_frame(2) [OF t1, of ops]] by (simp add: reread_last_block_def)
  then show ?thesis using terminate_log [OF t1] d1(1) by (simp add: write_block_failed_def Let_def case_prod_beta)
qed

text \<open>Every write extends the log, and a write that reports a failure leaves it alone.\<close>

lemma write_block_grows:
  assumes "write_block_to_dev ops d = Inr (ok, d')" and t: "\<not> d_is_tape (w_dev d)"
  shows "\<exists>pre. log (w_os d') = log (w_os d) @ pre"
proof -
  have sz: "log (w_os x) = log (w_os d) \<and> \<not> d_is_tape (w_dev x)"
    if "do_size_checks ops ((updateVolCatPadding p d)\<lparr>c_block := b\<rparr>) = (k, x)" for p b k x
  proof -
    have t': "\<not> d_is_tape (w_dev ((updateVolCatPadding p d)\<lparr>c_block := b\<rparr>))" using t by (simp add: vol_counters)
    show ?thesis
      using size_checks_log [OF t'] job_view_tape [OF do_size_checks_frame(3) [OF t', of ops]] t' that by simp
  qed
  have fin: "log (w_os (write_block_done n (c_block_update g ((updateVolCatWrites 1 x)\<lparr>w_os := os\<rparr>)))) = log os"
    "log (w_os (write_block_failed ops st e ((updateVolCatWrites 1 x)\<lparr>w_os := os\<rparr>))) = log os"
    if "\<not> d_is_tape (w_dev x)" for x n g os st e
    using that write_block_done_disk(1) [of "c_block_update g ((updateVolCatWrites 1 x)\<lparr>w_os := os\<rparr>)" n]
      write_failed_log [of "(updateVolCatWrites 1 x)\<lparr>w_os := os\<rparr>" st e]
    by (simp_all add: vol_counters)
  have wr: "\<exists>pre. log os' = log os @ pre" if "write_retry (o_write ops) 3 os bs = (stat, err, os')" for os bs stat err os'
    using write_retry_log [OF that] by simp
  show ?thesis
    using assms(1)
    by (auto simp: write_block_to_dev_def Let_def dest!: sz wr simp: fin split: if_splits option.splits prod.splits)
qed

text \<open>The only ways out of a write of a block with data.\<close>

lemma write_block_cases:
  assumes w: "write_block_to_dev ops d = Inr (ok, d')" and dk: "disk d"
    and b: "winv (c_block d)" "32 < b_bufp (c_block d)"
  shows "if ok then log (w_os d') = log (w_os d) @ [job_image (o_env ops) (d_do_checksum (w_dev d)) (c_block d)] \<and>
           winv (c_block d') \<and> b_bufp (c_block d') = 32
         else log (w_os d') = log (w_os d) \<and> same_data (c_block d) (c_block d')"
proof (cases "dev_ready d")
  case rd: True
  let ?d0 = "before_write ops d"
  obtain sok d1 where sz: "do_size_checks ops ?d0 = (sok, d1)" by (cases "do_size_checks ops ?d0")
  obtain stat err os where wr: "write_retry (o_write ops) 3 (w_os d1) (written_image ops d) = (stat, err, os)"
    by (cases "write_retry (o_write ops) 3 (w_os d1) (written_image ops d)")
  have t0: "\<not> d_is_tape (w_dev ?d0)" using dk by (simp add: disk_def)
  note fr = do_size_checks_frame [OF t0, of ops, unfolded sz fst_conv snd_conv]
  have t1: "\<not> d_is_tape (w_dev d1)" using t0 job_view_tape [OF fr(3)] by simp
  have t2: "\<not> d_is_tape (w_dev (after_write os d1))" using t1 by simp
  have l1: "log (w_os d1) = log (w_os d)" using size_checks_log [OF t0] sz by simp
  have len: "int (length (written_image ops d)) = uint (b_binbuf (c_block d))"
    using length_written_image [OF b(1), of ops] b(2) by simp
  note l2 = write_retry_log [OF wr, unfolded len l1]
  note w' = w [unfolded write_block_to_dev_ready [OF rd b sz wr]]
  show ?thesis
  proof (cases ok)
    case False
    then have "log (w_os d') = log (w_os d)"
      using w' l1 l2 write_failed_log [OF t2, of stat err] by (auto split: if_splits)
    then show ?thesis using write_block_to_dev_failure(2) [OF _ rd b] w False by simp
  next
    case True
    let ?d2 = "c_block_update (\<lambda>b. b\<lparr>b_first_block := False\<rparr>) (after_write os d1)"
    have st: "stat = uint (b_binbuf (c_block d))" "sok" and d': "d' = write_block_done (b_binbuf (c_block d)) ?d2"
      using w' True by (auto split: if_splits)
    have "\<not> d_is_tape (w_dev ?d2)" using t1 by simp
    note cb = write_block_done_disk(1,14) [OF this, of "b_binbuf (c_block d)"]
    have "same_data (c_block d) (c_block d1)"
      using fr(2) [OF st(2)] b by (simp add: before_write_block)
    then have "winv (c_block ?d2)" "32 \<le> b_bufp (c_block ?d2)" using b(2) by (simp_all add: same_data_def)
    then show ?thesis
      using True d' cb empty_block_winv [of "c_block ?d2"] l2 st(1) written_image_job [OF b(1), of ops] dk
      by (simp add: disk_def)
  qed
next
  case False
  have "\<not> b_adata (c_block d)" "\<not> is_block_empty (c_block d)" using b by (auto simp: is_block_empty_iff winv_def)
  then show ?thesis
    using w False dk same_data_refl [OF b(1)]
    by (auto simp: write_block_to_dev_def dev_ready_def disk_def Let_def split: if_splits)
qed

end

lemma begin_fixup_disk: "disk (begin_fixup ops d) = disk d"
proof -
  have "job_view (begin_fixup ops d) = job_view d"
    by (auto simp: begin_fixup_def set_unload_def Let_def job_view_def Jmsg_def notify_newvol_in_attached_dcrs_def)
  then show ?thesis by (rule disk_view)
qed

lemma begin_fixup_os: "w_os (begin_fixup ops d) = w_os d"
  by (auto simp: begin_fixup_def set_unload_def Let_def Jmsg_def notify_newvol_in_attached_dcrs_def)

context system_log begin

lemma new_volume_parameters_log:
  assumes "disk d"
  shows "disk (set_new_volume_parameters ops d)" "c_block (set_new_volume_parameters ops d) = c_block d"
    "\<exists>pre. log (w_os (set_new_volume_parameters ops d)) = log (w_os d) @ pre"
  using volume_log [OF assms] assms
  by (auto simp: set_new_volume_parameters_def Let_def disk_def vol_counters)

lemma mount_and_label_log:
  assumes m: "mount_and_label ops d = Inr (True, d')" and "disk d"
  shows "c_block d' = c_block d \<and> disk d' \<and> (\<exists>pre. log (w_os d') = log (w_os d) @ pre)"
proof -
  obtain ok1 d1 where d1: "o_mount_next_write_volume ops (begin_fixup ops d) = (ok1, d1)"
    by (cases "o_mount_next_write_volume ops (begin_fixup ops d)")
  let ?d2 = "w_vol_update (\<lambda>v. v\<lparr>v_VolCatJobs := v_VolCatJobs v + 1\<rparr>) (notify_newvol_in_attached_dcrs (Some (w_VolumeName d1)) d1)"
  obtain ok3 d3 where d3: "dir_update_volume_info ops False ?d2 = (ok3, d3)"
    by (cases "dir_update_volume_info ops False ?d2")
  have dd: "disk d1" and l1: "\<exists>pre. log (w_os d1) = log (w_os d) @ pre"
    using mount_log [of "begin_fixup ops d"] assms(2) d1 by (simp_all add: begin_fixup_disk begin_fixup_os)
  have "job_view d3 = job_view d1"
    using dir_update_volume_info_frame(3) [of ops False ?d2] d3 by simp
  then have dd3: "disk (Jmsg M_INFO d3)" using dd disk_view [of "Jmsg M_INFO d3" d1] by simp
  have l3: "log (w_os d3) = log (w_os d1)" using update_volume_log [of False ?d2] d3 by simp
  obtain ok4 d4 where w: "write_block_to_dev ops (Jmsg M_INFO d3) = Inr (ok4, d4)" and "ok1" "ok3" "ok4"
    and d': "d' = set_new_volume_parameters ops (d4\<lparr>c_block := c_block d, w_NewVol := False\<rparr>)"
    using m d1 d3 by (auto simp: mount_and_label_def Let_def bind_res_def split: if_splits sum.splits)
  have "job_view d4 = job_view (Jmsg M_INFO d3)"
    using write_block_to_dev_view [OF w] dd3 by (simp add: disk_def)
  then have "disk d4" using dd3 disk_view by blast
  then have "disk (d4\<lparr>c_block := c_block d, w_NewVol := False\<rparr>)" by (simp add: disk_def)
  note n = new_volume_parameters_log [OF this]
  have "\<exists>pre. log (w_os d4) = log (w_os d3) @ pre"
    using write_block_grows [OF w] dd3 by (simp add: disk_def)
  then show ?thesis using n l1 l3 unfolding d' by auto
qed

lemma fixup_loop_log:
  assumes "fixup_loop ops k d = Inr (True, d')" and "disk d"
    and "winv (c_block d)" and "32 < b_bufp (c_block d)"
  shows "(\<exists>ck pre. log (w_os d') = log (w_os d) @ pre @ [job_image (o_env ops) ck (c_block d)]) \<and>
    winv (c_block d') \<and> b_bufp (c_block d') = 32"
  using assms
proof (induction k arbitrary: d)
  case (0 d)
  obtain d1 where m: "mount_and_label ops d = Inr (True, d1)" and w: "write_block_to_dev ops d1 = Inr (True, d')"
    using "0.prems"(1) by (auto simp: fixup_loop.simps [of ops 0 d] bind_res_def split: sum.splits if_splits)
  show ?case
    using write_block_cases [OF w] mount_and_label_log [OF m "0.prems"(2)] "0.prems"(3,4) by auto
next
  case (Suc k d)
  obtain d1 ok2 d2 where m: "mount_and_label ops d = Inr (True, d1)" and w: "write_block_to_dev ops d1 = Inr (ok2, d2)"
    and r: "if ok2 then d' = d2 else fixup_loop ops k d2 = Inr (True, d')"
    using Suc.prems(1)
    by (auto simp: fixup_loop.simps [of ops "Suc k" d] bind_res_def split: sum.splits if_splits)
  obtain pre where d1: "c_block d1 = c_block d" "disk d1" "log (w_os d1) = log (w_os d) @ pre"
    using mount_and_label_log [OF m Suc.prems(2)] by auto
  note c = write_block_cases [OF w d1(2), unfolded d1(1), OF Suc.prems(3,4)]
  show ?case
  proof (cases ok2)
    case True
    then show ?thesis using c r d1(3) by auto
  next
    case False
    then have sd: "same_data (c_block d) (c_block d2)" and l2: "log (w_os d2) = log (w_os d) @ pre"
      using c d1(3) by simp_all
    have "disk d2" using write_block_to_dev_view [OF w] d1(2) disk_view by (auto simp: disk_def)
    then show ?thesis
      using Suc.IH [of d2] r False sd Suc.prems(4) job_image_same_data [OF Suc.prems(3) sd] l2
      by (auto simp: same_data_def)
  qed
qed

lemma check_for_newvol_log:
  assumes "disk d"
  shows "c_block (snd (check_for_newvol_or_newfile ops d)) = c_block d \<and> disk (snd (check_for_newvol_or_newfile ops d)) \<and>
    (\<exists>pre. log (w_os (snd (check_for_newvol_or_newfile ops d))) = log (w_os d) @ pre)"
proof -
  let ?d1 = "snd (dir_create_jobmedia_record ops False d)"
  have d1: "disk ?d1" "disk (Jmsg M_FATAL (set_dev_errno EIO ?d1))" "disk (Jmsg M_FATAL (set_dev_errno EIO d))"
    "disk (snd (flush_jobmedia_queue ops ?d1))" "disk (snd (flush_jobmedia_queue ops d))"
    "disk (set_new_file_parameters ?d1)" "disk (set_new_file_parameters d)"
    using assms by (simp_all add: disk_def vol_counters)
  show ?thesis
    using assms new_volume_parameters_log [OF d1(2)] new_volume_parameters_log [OF d1(3)]
      new_volume_parameters_log [OF d1(4)] new_volume_parameters_log [OF d1(5)] d1
    by (simp add: check_for_newvol_or_newfile_def case_prod_beta Let_def)
qed

lemma write_block_to_device_log:
  assumes ok: "write_block_to_device ops final d = Inr (True, d')" and sp: "\<not> w_spooling d"
    and dk: "disk d" and b: "winv (c_block d)" "32 < b_bufp (c_block d)"
  shows "(\<exists>ck pre. log (w_os d') = log (w_os d) @ pre @ [job_image (o_env ops) ck (c_block d)]) \<and> is_block_empty (c_block d')"
proof -
  obtain ok1 d1 where d1: "check_for_newvol_or_newfile ops d = (ok1, d1)" by (cases "check_for_newvol_or_newfile ops d")
  obtain pre where fr: "c_block d1 = c_block d" "disk d1" "log (w_os d1) = log (w_os d) @ pre"
    using check_for_newvol_log [OF dk] d1 by auto
  obtain wr d2 d3 where w: "write_block_to_dev ops d1 = Inr (wr, d2)"
    and r: "(if wr then Inr (True, d2) else recover_write ops d2) = Inr (True, d3)"
    and c: "c_block d' = c_block d3" "log (w_os d') = log (w_os d3)"
  proof -
    obtain wr d2 where w: "write_block_to_dev ops d1 = Inr (wr, d2)"
      using ok sp d1 by (cases "write_block_to_dev ops d1") (auto simp: write_block_to_device_def split: if_splits)
    obtain d3 where r: "(if wr then Inr (True, d2) else recover_write ops d2) = Inr (True, d3)"
      and e: "(if final then Inr (True, if fst (dir_create_jobmedia_record ops False d3)
          then snd (dir_create_jobmedia_record ops False d3) else Jmsg M_FATAL (snd (dir_create_jobmedia_record ops False d3)))
        else Inr (True, d3)) = (Inr (True, d') :: fault + _)"
      using ok sp d1 w
      by (cases "if wr then Inr (True, d2) else recover_write ops d2")
        (auto simp: write_block_to_device_def case_prod_beta split: if_splits)
    show ?thesis using that [OF w r] e by (auto split: if_splits)
  qed
  note cs = write_block_cases [OF w fr(2), unfolded fr(1), OF b]
  show ?thesis
  proof (cases wr)
    case True
    then show ?thesis using cs r c fr(3) by (auto simp: is_block_empty_iff)
  next
    case False
    let ?d = "snd (dir_create_jobmedia_record ops False d2)"
    have fx: "fixup_loop ops 4 ?d = Inr (True, d3)"
      using r False by (auto simp: recover_write_def fixup_device_block_write_error_def case_prod_beta split: if_splits)
    have sd: "same_data (c_block d) (c_block ?d)" and l2: "log (w_os ?d) = log (w_os d) @ pre"
      using cs False fr(3) by simp_all
    have "job_view ?d = job_view d1" using write_block_to_dev_view [OF w] fr(2) by (simp add: disk_def)
    then have "disk ?d" using fr(2) disk_view by blast
    then show ?thesis
      using fixup_loop_log [OF fx] sd b(2) c l2 job_image_same_data [OF b(1) sd]
      by (auto simp: same_data_def is_block_empty_iff)
  qed
qed

end

text \<open>
  C23 (write_block_to_device_delivers).  A block of a job that is not spooling is never lost silently.  Take any system
  with a log of the images it has accepted, as \<open>system_log\<close> describes it.  When
  \<^verbatim>\<open>write_block_to_device\<close> returns true for a block with data on an unencrypted disk Volume, the last
  image the log has gained in this call is that of the caller's block --- its length, number, session and data, with
  its checksum or without --- whether it went to this Volume or, after failed writes, to a following one, behind
  the labels written there; and the caller's block is empty.
\<close>
theorem write_block_to_device_delivers:
  assumes sys: "system_log ops log" and ok: "write_block_to_device ops final d = Inr (True, d')" and sp: "\<not> w_spooling d"
    and dk: "disk d" and b: "winv (c_block d)" "32 < b_bufp (c_block d)"
  shows "(\<exists>ck pre. log (w_os d') = log (w_os d) @ pre @ [job_image (o_env ops) ck (c_block d)]) \<and>
    is_block_empty (c_block d')"
  by (rule system_log.write_block_to_device_log [OF sys ok sp dk b])


section \<open>A disk\<close>

text \<open>
  The system as a disk: the images written so far, in order, and the number of blocks it
  still takes.  The Director agrees to everything and a mount brings an empty Volume for \<open>n\<close> blocks.
\<close>

record disk_os =
  k_images :: "u8 list list"
  k_free :: nat

definition disk_write :: "disk_os \<Rightarrow> u8 list \<Rightarrow> int \<times> int \<times> disk_os" where
  "disk_write k bs =
     (if 0 < k_free k then (int (length bs), 0, k\<lparr>k_images := k_images k @ [bs], k_free := k_free k - 1\<rparr>)
      else (- 1, ENOSPC, k))"

definition mount_disk :: "nat \<Rightarrow> disk_os wdcr \<Rightarrow> bool \<times> disk_os wdcr" where
  "mount_disk n d =
     (True, d\<lparr>w_st := (w_st d)\<lparr>s_APPEND := True, s_EOF := False, s_EOT := False, s_WEOT := False, s_NOSPACE := False,
                 s_file_addr := 0, s_file_size := 0\<rparr>,
              w_dev := (w_dev d)\<lparr>d_VolCatBytes := 0\<rparr>, w_os := (w_os d)\<lparr>k_free := n\<rparr>,
              w_vol := (w_vol d)\<lparr>v_VolCatName := ''Vol2'', v_VolCatStatus := ''Append''\<rparr>, w_VolumeName := ''Vol2''\<rparr>)"

definition disk_ops :: "blk_env \<Rightarrow> nat \<Rightarrow> disk_os write_ops" where
  "disk_ops env n =
     \<lparr>o_env = env, o_mem = (\<lambda>n. replicate n 0), o_write = disk_write,
      o_send_jobmedia = (\<lambda>_ k. (True, k)),
      o_update_media = (\<lambda>v bytes k. (Some \<lparr>va_VolCatStatus = v_VolCatStatus v, va_VolCatPadding = v_VolCatPadding v,
         va_VolCatFiles = v_VolCatFiles v, va_VolCatBytes = bytes, va_VolCatJobs = v_VolCatJobs v,
         va_VolCatWrites = v_VolCatWrites v, va_VolCatReads = v_VolCatReads v, va_VolCatMaxBytes = 0\<rparr>, k)),
      o_no_freespace = (\<lambda>_. False), o_set_atime = (\<lambda>k. (True, k)), o_set_readonly = (\<lambda>k. (True, k)),
      o_set_immutable = (\<lambda>k. (True, k)), o_tape_weof = (\<lambda>d. (False, d)), o_tape_end_of_volume = (\<lambda>d. (False, d)),
      o_tape_reread_last_block = (\<lambda>d. d), o_get_new_volume_info = (\<lambda>d. d),
      o_mount_next_write_volume = mount_disk n, o_write_block_to_spool_file = (\<lambda>d. (False, d))\<rparr>"

lemma disk_ops_write [simp]: "o_write (disk_ops env n) = disk_write"
  by (simp add: disk_ops_def)

text \<open>A job that writes to a Volume without limits.\<close>

definition unlimited :: "'os wdcr \<Rightarrow> bool" where
  "unlimited d \<longleftrightarrow> d_max_volume_size (w_dev d) = 0 \<and> d_VolCatMaxBytes (w_dev d) = 0 \<and> s_max_file_size (w_st d) = 0"

definition disk_job :: "disk_os wdcr \<Rightarrow> bool" where
  "disk_job d \<longleftrightarrow> dev_ready d \<and> unlimited d \<and> \<not> w_spooling d \<and> \<not> w_NewVol d \<and> \<not> w_NewFile d"

lemma unlimited_within: "unlimited d \<Longrightarrow> within_limits d"
  by (simp add: unlimited_def within_limits_def is_user_volume_size_reached_def is_pool_size_reached_def)

lemma disk_write_retry:
  "0 < k_free k \<Longrightarrow> write_retry disk_write 3 k bs =
     (int (length bs), 0, k\<lparr>k_images := k_images k @ [bs], k_free := k_free k - 1\<rparr>)"
  by (simp add: numeral_3_eq_3 disk_write_def)

lemma disk_write_block:
  assumes j: "disk_job d" and fr: "0 < k_free (w_os d)" and b: "winv (c_block d)" "32 < b_bufp (c_block d)"
  shows "\<exists>d'. write_block_to_device (disk_ops env n) False d = Inr (True, d') \<and> disk_job d' \<and> winv (c_block d') \<and>
    b_bufp (c_block d') = 32 \<and> b_buf_len (c_block d') = b_buf_len (c_block d) \<and> c_adata_label d' = c_adata_label d \<and>
    k_images (w_os d') = k_images (w_os d) @ [written_image (disk_ops env n) d] \<and> k_free (w_os d') = k_free (w_os d) - 1 \<and>
    d_do_checksum (w_dev d') = d_do_checksum (w_dev d)"
proof -
  let ?ops = "disk_ops env n" let ?n = "b_binbuf (c_block d)"
  have rd: "dev_ready d" and u: "unlimited d" and nf: "\<not> w_spooling d" "\<not> w_NewVol d" "\<not> w_NewFile d"
    using j by (auto simp: disk_job_def)
  have "write_retry (o_write ?ops) 3 (w_os d) (written_image ?ops d) = (uint ?n, 0,
      (w_os d)\<lparr>k_images := k_images (w_os d) @ [written_image ?ops d], k_free := k_free (w_os d) - 1\<rparr>)"
    using disk_write_retry [OF fr] length_written_image [OF b(1)] b(2) by simp
  from write_block_to_dev_within [OF rd unlimited_within [OF u] b this] obtain d2
    where w: "write_block_to_dev ?ops d = Inr (True, write_block_done ?n d2)"
      and d2: "w_dev d2 = w_dev d" "w_st d2 = w_st d" "job_view d2 = job_view d" "w_jcr d2 = w_jcr d"
        "same_data (c_block d) (c_block d2)"
      and os: "w_os d2 = (w_os d)\<lparr>k_images := k_images (w_os d) @ [written_image ?ops d], k_free := k_free (w_os d) - 1\<rparr>"
      and nv: "w_NewVol d2 = w_NewVol d" "w_NewFile d2 = w_NewFile d"
    by blast
  have t: "\<not> d_is_tape (w_dev d2)" using rd d2(1) by (simp add: dev_ready_def)
  note f = write_block_done_disk [OF t, of ?n]
  have "write_block_to_device ?ops False d = Inr (True, write_block_done ?n d2)"
    using w nf by (simp add: write_block_to_device_def check_for_newvol_or_newfile_def)
  moreover have "disk_job (write_block_done ?n d2)"
    using write_block_done_ready(1) [OF rd d2 b(2)] u nf f nv d2 by (simp add: disk_job_def unlimited_def job_view_def)
  moreover have "c_adata_label (write_block_done ?n d2) = c_adata_label d"
    using f(15) d2(3) by (simp add: job_view_def)
  moreover have "d_do_checksum (w_dev (write_block_done ?n d2)) = d_do_checksum (w_dev d)"
    using f(15) d2(3) by (simp add: job_view_def)
  ultimately show ?thesis
    using write_block_done_ready(2-4) [OF rd d2 b(2), of ?n] f(1) os by simp
qed

text \<open>An image that a reader with buffers of \<open>cap\<close> bytes accepts: a valid header without encryption.\<close>

definition image_ok :: "blk_env \<Rightarrow> nat \<Rightarrow> u32 \<Rightarrow> u32 \<Rightarrow> u8 list \<Rightarrow> bool" where
  "image_ok env cap sid stime img \<longleftrightarrow>
     (\<exists>opts len num cs payload. img = block_image opts len num sid stime cs payload \<and>
        unat len = 32 + length payload \<and> unat len \<le> cap \<and> len \<le> MAX_BLOCK_LENGTH \<and>
        opts AND BLKHOPT_ENCRYPT_BLOCK = 0 \<and> cs = e_xxh env (block_image opts len num sid stime 0 payload))"

lemma written_image_ok:
  assumes b: "winv (c_block d)" "32 < b_bufp (c_block d)" and "b_buf_len (c_block d) \<le> MAX_BLOCK_LENGTH"
    and "d_do_checksum (w_dev d)" and "\<not> d_volume_encryption (w_dev d)"
  shows "image_ok (o_env ops) (unat (b_buf_len (c_block d))) (b_VolSessionId (c_block d)) (b_VolSessionTime (c_block d))
    (written_image ops d)"
proof -
  let ?b = "c_block d"
  have n: "unat (b_binbuf ?b) = 32 + length (payload_of ?b)" "b_binbuf ?b \<le> b_buf_len ?b"
    using b by (auto simp: winv_def block_inv_def payload_of_def used_def u32_le)
  have "b_binbuf ?b \<le> MAX_BLOCK_LENGTH" using n(2) assms(3) by (rule order_trans)
  moreover have "unat (b_binbuf ?b) \<le> unat (b_buf_len ?b)" using n(2) by (simp only: u32_le)
  moreover have "hdr_options (w_dev d) ?b True AND BLKHOPT_ENCRYPT_BLOCK = 0"
    using hdr_options_encrypt [of "w_dev d" ?b True] assms(5) by (auto simp: encrypts_def)
  moreover have "block_sum (o_env ops) (w_dev d) ?b True = e_xxh (o_env ops)
      (block_image (hdr_options (w_dev d) ?b True) (b_binbuf ?b) (b_BlockNumber ?b) (b_VolSessionId ?b) (b_VolSessionTime ?b) 0 (payload_of ?b))"
    using block_payload_eq [OF b(1)] by (simp add: block_sum_def)
  ultimately show ?thesis
    using n(1) assms(4) unfolding image_ok_def written_image_def Let_def
    by (intro exI conjI refl) (simp_all only: simp_thms)
qed

text \<open>A job of one session on the disk; the images after those of \<open>old\<close> are its own, and the
  disk takes \<open>tot\<close> images in all.\<close>

definition session_job :: "blk_env \<Rightarrow> u32 \<Rightarrow> u32 \<Rightarrow> u32 \<Rightarrow> u8 list list \<Rightarrow> nat \<Rightarrow> disk_os wdcr \<Rightarrow> bool" where
  "session_job env sid stime blen old tot d \<longleftrightarrow>
     disk_job d \<and> d_do_checksum (w_dev d) \<and> blen \<le> MAX_BLOCK_LENGTH \<and>
     take (length old) (k_images (w_os d)) = old \<and> length (k_images (w_os d)) + k_free (w_os d) = tot \<and>
     (\<forall>img \<in> set (drop (length old) (k_images (w_os d))). image_ok env (unat blen) sid stime img)"

lemma session_write_block:
  assumes j: "session_job env sid stime blen old tot d" and fr: "0 < k_free (w_os d)"
    and b: "winv (c_block d)" "32 < b_bufp (c_block d)"
    and ss: "b_VolSessionId (c_block d) = sid" "b_VolSessionTime (c_block d) = stime" "b_buf_len (c_block d) = blen"
  shows "\<exists>d'. write_block_to_device (disk_ops env n) False d = Inr (True, d') \<and> session_job env sid stime blen old tot d' \<and>
    winv (c_block d') \<and> b_bufp (c_block d') = 32 \<and> b_buf_len (c_block d') = b_buf_len (c_block d) \<and>
    c_adata_label d' = c_adata_label d \<and>
    k_images (w_os d') = k_images (w_os d) @ [written_image (disk_ops env n) d] \<and> k_free (w_os d') = k_free (w_os d) - 1"
proof -
  have dj: "disk_job d" and ck: "d_do_checksum (w_dev d)" using j by (auto simp: session_job_def)
  obtain d' where d': "write_block_to_device (disk_ops env n) False d = Inr (True, d')" "disk_job d'" "winv (c_block d')"
    "b_bufp (c_block d') = 32" "b_buf_len (c_block d') = b_buf_len (c_block d)" "c_adata_label d' = c_adata_label d"
    "k_images (w_os d') = k_images (w_os d) @ [written_image (disk_ops env n) d]" "k_free (w_os d') = k_free (w_os d) - 1"
    "d_do_checksum (w_dev d') = d_do_checksum (w_dev d)"
    using disk_write_block [OF dj fr b, of env n] by blast
  have "\<not> d_volume_encryption (w_dev d)" using dj by (simp add: disk_job_def dev_ready_def)
  moreover have "o_env (disk_ops env n) = env" by (simp add: disk_ops_def)
  ultimately have "image_ok env (unat blen) sid stime (written_image (disk_ops env n) d)"
    using written_image_ok [OF b, of "disk_ops env n"] ss ck j by (simp add: session_job_def)
  moreover have "length old \<le> length (k_images (w_os d))"
    using j unfolding session_job_def by (metis length_take min.cobounded1)
  ultimately have "session_job env sid stime blen old tot d'"
    using j fr d'(2,7-9) by (simp add: session_job_def)
  then show ?thesis using d' by blast
qed

interpretation disk_sink: block_sink "write_block_to_device (disk_ops env n) False" "\<lambda>d. j_canceled (w_jcr d)"
  "\<lambda>d. map image_payload (k_images (w_os d))" "\<lambda>d. k_free (w_os d)" "session_job env sid stime blen old tot" sid stime blen
proof unfold_locales
  fix d :: "disk_os wdcr"
  assume a: "session_job env sid stime blen old tot d" "0 < k_free (w_os d)" "winv (c_block d)" "32 < b_bufp (c_block d)"
    "b_VolSessionId (c_block d) = sid" "b_VolSessionTime (c_block d) = stime" "b_buf_len (c_block d) = blen"
  show "\<exists>d'. write_block_to_device (disk_ops env n) False d = Inr (True, d') \<and> session_job env sid stime blen old tot d' \<and> winv (c_block d') \<and>
      b_bufp (c_block d') = 32 \<and> b_buf_len (c_block d') = b_buf_len (c_block d) \<and> c_adata_label d' = c_adata_label d \<and>
      map image_payload (k_images (w_os d')) = map image_payload (k_images (w_os d)) @ [payload_of (c_block d)] \<and>
      k_free (w_os d') = k_free (w_os d) - 1"
    using session_write_block [OF a, of n] written_image_payload [OF a(3), of "disk_ops env n"] a(4) by auto
qed (auto simp: session_job_def disk_job_def dev_ready_def unlimited_def)

section \<open>Properties\<close>

lemma record_written:
  assumes "session_job env sid stime (b_buf_len (c_block d)) old tot d" and "winv (c_block d)" and "32 \<le> b_bufp (c_block d)"
    and "\<not> c_adata_label d" and "44 < unat (b_buf_len (c_block d))"
    and "b_bufp (c_block d) = 32 \<or> b_VolSessionId (c_block d) = sid \<and> b_VolSessionTime (c_block d) = stime"
    and "ready_rec rec" and "r_wstate rec = st_none" and "r_VolSessionId rec = sid" and "r_VolSessionTime rec = stime"
    and "frs = fragments_of (room (c_block d)) (unat (b_buf_len (c_block d)) - 32) rec"
    and "length frs \<le> k_free (w_os d) + 1"
  shows "\<exists>d' rec'. write_record (write_block_to_device (disk_ops env n) False) (\<lambda>d. j_canceled (w_jcr d)) big d rec =
      Some (Inr (True, d', rec')) \<and> r_wstate rec' = st_none \<and>
    map image_payload (k_images (w_os d')) @ [payload_of (c_block d')] =
      map image_payload (k_images (w_os d)) @ (payload_of (c_block d) @ hd frs) # tl frs \<and>
    session_job env sid stime (b_buf_len (c_block d)) old tot d' \<and> winv (c_block d') \<and>
    b_VolSessionId (c_block d') = sid \<and> b_VolSessionTime (c_block d') = stime \<and>
    b_buf_len (c_block d') = b_buf_len (c_block d)"
proof -
  let ?n = "b_buf_len (c_block d)"
  have "disk_sink.sink_ok env sid stime ?n old tot d" using assms(1-6) by (auto simp: disk_sink.sink_ok_def)
  then have "disk_sink.writes env n sid stime ?n old tot big d rec frs"
    using disk_sink.writes_fragments [of env sid stime ?n old tot d rec n big] assms(7-12) by (simp add: disk_sink.cap_def)
  then show ?thesis
    using assms(9,10) unfolding disk_sink.writes_def disk_sink.sink_ok_def in_session_def by blast
qed

text \<open>
  C24 (record_written_to_disk).  On a disk with enough space \<^verbatim>\<open>DCR::write_record\<close> ends with success, through
  any number of full blocks: the data of the images on the disk followed by the open block is what it was
  before, extended by the fragments of the record, and every image the job has
  written is one a reader accepts, with the record's session.
\<close>
theorem record_written_to_disk:
  assumes "session_job env sid stime (b_buf_len (c_block d)) old tot d" and "winv (c_block d)" and "32 \<le> b_bufp (c_block d)"
    and "\<not> c_adata_label d" and "44 < unat (b_buf_len (c_block d))"
    and "b_bufp (c_block d) = 32 \<or> b_VolSessionId (c_block d) = sid \<and> b_VolSessionTime (c_block d) = stime"
    and "ready_rec rec" and "r_wstate rec = st_none" and "r_VolSessionId rec = sid" and "r_VolSessionTime rec = stime"
    and "frs = fragments_of (room (c_block d)) (unat (b_buf_len (c_block d)) - 32) rec"
    and "length frs \<le> k_free (w_os d) + 1"
  shows "\<exists>d' rec'. write_record (write_block_to_device (disk_ops env n) False) (\<lambda>d. j_canceled (w_jcr d)) big d rec =
      Some (Inr (True, d', rec')) \<and> r_wstate rec' = st_none \<and>
    map image_payload (k_images (w_os d')) @ [payload_of (c_block d')] =
      map image_payload (k_images (w_os d)) @ (payload_of (c_block d) @ hd frs) # tl frs \<and>
    (\<forall>img \<in> set (drop (length old) (k_images (w_os d'))). image_ok env (unat (b_buf_len (c_block d))) sid stime img)"
  using record_written [OF assms, of n big] unfolding session_job_def by blast

text \<open>
  C25 (failed_write_ends_volume).  When a write to a ready disk Volume fails --- a limit is reached, or the system did
  not take the whole block --- the Volume is ended: the end of tape flags are set, and the block keeps its data for
  the next Volume.  A later write reaches nothing: it returns false at once where the failure has made the job a
  failed one (\<^verbatim>\<open>Jmsg\<close> of a fatal error cancels it), and with \<^verbatim>\<open>ENOSPC\<close> and a fatal error otherwise.
\<close>
theorem failed_write_ends_volume:
  assumes fail: "write_block_to_dev ops d = Inr (False, d')" and rd: "dev_ready d"
    and b: "winv (c_block d)" "32 < b_bufp (c_block d)"
  shows "is_ateot d' \<and> same_data (c_block d) (c_block d') \<and>
    write_block_to_dev ops d' = Inr (False, if j_canceled (w_jcr d') then d' else Jmsg M_FATAL (set_dev_errno ENOSPC d'))"
proof -
  note f = write_block_to_dev_failure [OF fail rd b]
  have "job_view d' = job_view d" using write_block_to_dev_view [OF fail] rd by (simp add: dev_ready_def)
  then have v: "s_enabled (w_st d')" using rd by (auto simp: dev_ready_def job_view_def)
  have w: "winv (c_block d')" "32 < b_bufp (c_block d')" "s_WEOT (w_st d')"
    using f b by (auto simp: same_data_def is_ateot_def)
  then have "\<not> is_block_empty (c_block d')" "\<not> b_adata (c_block d')" "b_binbuf (c_block d') = of_nat (b_bufp (c_block d'))"
    by (auto simp: is_block_empty_iff winv_def block_inv_def)
  then have "write_block_to_dev ops d' = Inr (False, if j_canceled (w_jcr d') then d' else Jmsg M_FATAL (set_dev_errno ENOSPC d'))"
    using v w(3) by (simp add: write_block_to_dev_def)
  then show ?thesis using f by simp
qed

text \<open>
  One block is offered to the system at least once and at most
  \<open>k + 1\<close> times, for any behaviour of the system: with a counter of the calls in its
  state, the counter grows by a number between 1 and \<open>k + 1\<close>.
\<close>
theorem write_retry_bounded:
  "case write_retry (\<lambda>(c, os) bs. case w os bs of (stat, err, os') \<Rightarrow> (stat, err, (Suc c, os'))) k (c, os) bs of
     (stat, err, (c', os')) \<Rightarrow> c < c' \<and> c' \<le> c + k + 1 \<and> write_retry w k os bs = (stat, err, os')"
proof (induction k arbitrary: c os)
  case 0
  then show ?case by (simp split: prod.split)
next
  case (Suc k)
  obtain stat err os1 where w: "w os bs = (stat, err, os1)" by (cases "w os bs")
  show ?case
    using Suc.IH [of "Suc c" os1] by (auto simp: w split: prod.splits if_splits)
qed

text \<open>
  When the Director refuses the update of the newly mounted Volume the recovery
  returns with the block the mount worked on instead of the job's own: the block that did
  not fit on the last Volume is no longer that of the job.
\<close>
theorem refused_update_drops_block:
  assumes m: "o_mount_next_write_volume ops (begin_fixup ops d) = (True, d1)"
    and refuse: "dir_update_volume_info ops False (w_vol_update (\<lambda>v. v\<lparr>v_VolCatJobs := v_VolCatJobs v + 1\<rparr>)
        (notify_newvol_in_attached_dcrs (Some (w_VolumeName d1)) d1)) = (False, d2)"
  shows "fixup_device_block_write_error ops d = Inr (False, d2) \<and> c_block d2 = c_block d1"
proof -
  have "mount_and_label ops d = Inr (False, d2)"
    using m refuse by (simp add: mount_and_label_def)
  moreover have "c_block d2 = c_block d1"
    using arg_cong [OF refuse, of "\<lambda>x. c_block (snd x)"] by simp
  ultimately show ?thesis
    by (simp add: fixup_device_block_write_error_def fixup_loop.simps [of ops 4])
qed


section \<open>Instances\<close>

definition sample_job :: "dev_block \<Rightarrow> nat \<Rightarrow> disk_os wdcr" where
  "sample_job b free = sample_wdcr b \<lparr>k_images = [], k_free = free\<rparr>"

lemmas job_samples = sample_job_def sample_wdcr_def disk_dev_def disk_state_def disk_vol_def disk_jcr_def sample_dev_def

lemma sample_job_facts:
  "disk_job (sample_job b k)" "dev_ready (sample_job b k)" "within_limits (sample_job b k)" "disk (sample_job b k)"
  "c_block (sample_job b k) = b" "\<not> w_spooling (sample_job b k)" "k_free (w_os (sample_job b k)) = k"
  "\<not> c_adata_label (sample_job b k)"
proof -
  show "dev_ready (sample_job b k)" "disk (sample_job b k)"
    "c_block (sample_job b k) = b" "\<not> w_spooling (sample_job b k)" "k_free (w_os (sample_job b k)) = k"
    "\<not> c_adata_label (sample_job b k)"
    by (simp_all add: job_samples dev_ready_def disk_def)
  moreover have u: "unlimited (sample_job b k)" by (simp add: job_samples unlimited_def)
  ultimately show "disk_job (sample_job b k)" "within_limits (sample_job b k)"
    by (simp_all add: disk_job_def unlimited_within) (simp_all add: job_samples)
qed

lemma sample_block_winv: "winv sample_block" "32 < b_bufp sample_block" "b_binbuf sample_block = 40"
  by (simp_all add: sample_defs Let_def winv_def block_inv_def u32_le)

text \<open>The disk is such a system: its log is the list of its images.\<close>

interpretation disk_log: system_log "disk_ops env n" k_images
  by unfold_locales (auto simp: disk_ops_def mount_disk_def disk_def disk_write_def split: if_splits)

theorem write_block_to_dev_appends_witness:
  "\<exists>d'. write_block_to_dev (disk_ops sample_env 5) (sample_job sample_block 1) = Inr (True, d') \<and>
     map image_payload (k_images (w_os d')) = [replicate 8 0x55] \<and> s_file_addr (w_st d') = 40 \<and> w_EndAddr d' = 39"
proof -
  let ?ops = "disk_ops sample_env 5" and ?d = "sample_job sample_block 1"
  have wr: "write_retry (o_write ?ops) 3 (w_os ?d) (written_image ?ops ?d) =
      (uint (b_binbuf (c_block ?d)), 0, \<lparr>k_images = [written_image ?ops ?d], k_free = 0\<rparr>)"
    using disk_write_retry [of "w_os ?d"] length_written_image [of ?d ?ops] sample_job_facts sample_block_winv
    by (simp add: job_samples)
  have "payload_of sample_block = replicate 8 0x55" by code_simp
  moreover have "s_file_addr (w_st ?d) = 0" by (simp add: job_samples)
  ultimately show ?thesis
    using write_block_to_dev_appends [OF sample_job_facts(2,3) _ _ wr] sample_job_facts(5) sample_block_winv by auto
qed

theorem volume_size_limit_witness:
  "\<exists>d'. write_block_to_dev (disk_ops sample_env 5)
        ((sample_job sample_block 1)\<lparr>w_dev := disk_dev\<lparr>d_max_volume_size := 41\<rparr>\<rparr>) = Inr (True, d') \<and>
     d_VolCatBytes (w_dev d') < 41"
proof -
  let ?ops = "disk_ops sample_env 5" and ?d = "(sample_job sample_block 1)\<lparr>w_dev := disk_dev\<lparr>d_max_volume_size := 41\<rparr>\<rparr>"
  have "case write_block_to_dev ?ops ?d of Inl _ \<Rightarrow> False | Inr (ok, _) \<Rightarrow> ok" by code_simp
  then obtain d' where ok: "write_block_to_dev ?ops ?d = Inr (True, d')" by (auto split: sum.splits)
  have "winv (c_block ?d)" "32 < b_bufp (c_block ?d)" "\<not> d_is_tape (w_dev ?d)" "\<not> d_is_aligned (w_dev ?d)"
    "\<not> d_volume_encryption (w_dev ?d)" "s_max_file_size (w_st ?d) = 0" "d_max_volume_size (w_dev ?d) = 41"
    using sample_block_winv by (simp_all add: job_samples)
  then show ?thesis using volume_size_limit [OF ok] ok by auto
qed


theorem write_block_to_device_delivers_witness:
  "\<exists>d' ck pre. write_block_to_device (disk_ops sample_env 5) True (sample_job sample_block 1) = Inr (True, d') \<and>
     k_images (w_os d') = pre @ [job_image sample_env ck sample_block] \<and> is_block_empty (c_block d')"
proof -
  let ?ops = "disk_ops sample_env 5" and ?d = "sample_job sample_block 1"
  have "case write_block_to_device ?ops True ?d of Inl _ \<Rightarrow> False | Inr (ok, d') \<Rightarrow> ok"
    by code_simp
  then obtain d' where ok: "write_block_to_device ?ops True ?d = Inr (True, d')"
    by (auto split: sum.splits)
  have "k_images (w_os ?d) = []" "o_env ?ops = sample_env" by (simp_all add: sample_job_def sample_wdcr_def disk_ops_def)
  then show ?thesis
    using write_block_to_device_delivers [OF disk_log.system_log_axioms ok sample_job_facts(6,4)] sample_block_winv
      sample_job_facts(5) [of sample_block 1] ok by auto
qed

theorem record_written_to_disk_witness:
  "\<exists>d' rec'. write_record (write_block_to_device (disk_ops sample_env 5) False) (\<lambda>d. j_canceled (w_jcr d)) False
       (sample_job sample_block 5) sample_record = Some (Inr (True, d', rec')) \<and> length (k_images (w_os d')) = 3"
proof -
  let ?d = "sample_job sample_block 5" and ?frs = "fragments_of 24 32 sample_record"
  have c: "c_block ?d = sample_block" "room sample_block = 24" "unat (b_buf_len sample_block) = 64"
    "b_VolSessionId sample_block = 3" "b_VolSessionTime sample_block = 1700000000" "b_buf_len sample_block = 64"
    using sample_job_facts(5) by (simp_all add: room_def sample_defs Let_def)
  have sj: "session_job sample_env 3 1700000000 (b_buf_len (c_block ?d)) [] 5 ?d"
    using sample_job_facts(1) c by (simp add: session_job_def job_samples MAX_BLOCK_LENGTH_def)
  have r: "r_VolSessionId sample_record = 3" "r_VolSessionTime sample_record = 1700000000"
    by (simp_all add: sample_record_def new_record_def)
  have "length ?frs = 4" by code_simp
  then obtain d' rec' where w:
    "write_record (write_block_to_device (disk_ops sample_env 5) False) (\<lambda>d. j_canceled (w_jcr d)) False ?d sample_record =
       Some (Inr (True, d', rec'))"
    "map image_payload (k_images (w_os d')) @ [payload_of (c_block d')] =
      map image_payload (k_images (w_os ?d)) @ (payload_of sample_block @ hd ?frs) # tl ?frs"
    using record_written_to_disk [OF sj _ _ sample_job_facts(8) _ _ sample_record_facts(1,2) r,
        of ?frs 5 False] c sample_block_winv sample_job_facts(7)
    by auto
  have "length (k_images (w_os ?d)) = 0" by (simp add: job_samples)
  with arg_cong [OF w(2), of length] \<open>length ?frs = 4\<close> have "length (k_images (w_os d')) = 3" by simp
  with w(1) show ?thesis by blast
qed

theorem failed_write_ends_volume_witness:
  "\<exists>d'. write_block_to_dev (disk_ops sample_env 5) (sample_job sample_block 0) = Inr (False, d') \<and> is_ateot d' \<and>
     payload_of (c_block d') = replicate 8 0x55"
proof -
  let ?ops = "disk_ops sample_env 5" and ?d = "sample_job sample_block 0"
  have "case write_block_to_dev ?ops ?d of Inl _ \<Rightarrow> False | Inr (ok, d') \<Rightarrow> \<not> ok" by code_simp
  then obtain d' where f: "write_block_to_dev ?ops ?d = Inr (False, d')" by (auto split: sum.splits)
  have "payload_of sample_block = replicate 8 0x55" by code_simp
  then show ?thesis
    using failed_write_ends_volume [OF f sample_job_facts(2)] f sample_block_winv sample_job_facts(5) [of sample_block 0]
    by (auto simp: same_data_def)
qed

theorem refused_update_drops_block_witness:
  "\<exists>d'. fixup_device_block_write_error ((disk_ops sample_env 5)\<lparr>o_update_media := (\<lambda>_ _ k. (None, k))\<rparr>)
        (sample_job sample_block 0) = Inr (False, d') \<and> is_block_empty (c_block d')"
proof -
  let ?ops = "(disk_ops sample_env 5)\<lparr>o_update_media := (\<lambda>_ _ k. (None, k))\<rparr>" and ?d = "sample_job sample_block 0"
  define d1 where "d1 = snd (mount_disk 5 (begin_fixup ?ops ?d))"
  define d2 where "d2 = snd (dir_update_volume_info ?ops False (w_vol_update (\<lambda>v. v\<lparr>v_VolCatJobs := v_VolCatJobs v + 1\<rparr>)
        (notify_newvol_in_attached_dcrs (Some (w_VolumeName d1)) d1)))"
  have m: "o_mount_next_write_volume ?ops (begin_fixup ?ops ?d) = (True, d1)"
    by (simp add: d1_def disk_ops_def mount_disk_def)
  have "\<not> fst (dir_update_volume_info ?ops False (w_vol_update (\<lambda>v. v\<lparr>v_VolCatJobs := v_VolCatJobs v + 1\<rparr>)
        (notify_newvol_in_attached_dcrs (Some (w_VolumeName d1)) d1)))"
    unfolding d1_def by code_simp
  then have "dir_update_volume_info ?ops False (w_vol_update (\<lambda>v. v\<lparr>v_VolCatJobs := v_VolCatJobs v + 1\<rparr>)
        (notify_newvol_in_attached_dcrs (Some (w_VolumeName d1)) d1)) = (False, d2)"
    unfolding d2_def by (simp add: prod_eq_iff)
  moreover have "is_block_empty (c_block d1)" unfolding d1_def by code_simp
  ultimately show ?thesis using refused_update_drops_block [OF m, of d2] by (intro exI [of _ d2]) simp
qed

end
