(* ===== verification/Record_Read.thy ===== *)
theory Record_Read
  imports Record_Write
begin

text \<open>
  Reading records out of blocks: \<^verbatim>\<open>src/bacula/src/stored/record_read.c\<close>, for a device
  of the base class (no aligned data).  A block being read has \<^verbatim>\<open>binbuf\<close> bytes left at
  \<^verbatim>\<open>bufp\<close>.  \<open>mem\<close> gives the contents of memory the pool allocator adds when the
  record's buffer grows.
\<close>

section \<open>The routines\<close>

text \<open>The size is passed as an \<^verbatim>\<open>int32_t\<close>.\<close>

definition check_pool_memory_size :: "(nat \<Rightarrow> u8 list) \<Rightarrow> u8 list \<Rightarrow> nat \<Rightarrow> u8 list" where
  "check_pool_memory_size mem buf n =
     (if signed_take_bit 31 (int n) \<le> int (length buf) then buf else buf @ mem (n - length buf))"

definition unser_rec_header ::
  "bool \<Rightarrow> dev_block \<Rightarrow> ((u32 \<times> u32 \<times> i32 \<times> i32 \<times> u32) \<times> cursor) option" where
  "unser_rec_header big block =
     do { let c = (b_buf block, b_bufp block);
          (sid, stime, c) \<leftarrow>
            (if b_BlockVer block = 1
             then do { (sid, c) \<leftarrow> unserial_uint32 big c;
                       (stime, c) \<leftarrow> unserial_uint32 big c;
                       Some (sid, stime, c) }
             else Some (b_VolSessionId block, b_VolSessionTime block, c));
          (fi, c) \<leftarrow> unserial_int32 big c;
          (stream, c) \<leftarrow> unserial_int32 big c;
          (len, c) \<leftarrow> unserial_uint32 big c;
          Some ((sid, stime, fi, stream, len), c) }"

text \<open>
  The header length: as written, the second \<^verbatim>\<open>if\<close> overrides the first, so a BB01 block
  gets the length of a BB03 record header.
\<close>

definition rec_header_len :: "int \<Rightarrow> u32" where
  "rec_header_len BlockVer = (if BlockVer = 2 then RECHDR2_LENGTH else RECHDR3_LENGTH)"

definition accept_header ::
  "dev_record \<Rightarrow> u32 \<Rightarrow> u32 \<Rightarrow> i32 \<Rightarrow> i32 \<Rightarrow> bool \<times> dev_record" where
  "accept_header rec VolSessionId VolSessionTime FileIndex Stream =
     (if r_remainder rec \<noteq> 0 \<and> (r_VolSessionId rec \<noteq> VolSessionId \<or> r_VolSessionTime rec \<noteq> VolSessionTime) then
        (False, rec\<lparr>r_state_bits := r_state_bits rec OR REC_NO_MATCH\<rparr>)
      else
        (let (ok, rec) =
               (if sint Stream < 0 then
                  (let rec = rec\<lparr>r_state_bits := r_state_bits rec OR REC_CONTINUATION\<rparr>
                   in if r_remainder rec = 0 then
                        (True, rec\<lparr>r_data_len := 0, r_Stream := - Stream\<rparr>)
                      else if r_Stream rec \<noteq> - Stream then
                        (False, rec\<lparr>r_state_bits := r_state_bits rec OR REC_NO_MATCH\<rparr>)
                      else (True, rec\<lparr>r_Stream := - Stream\<rparr>))
                else (True, rec\<lparr>r_Stream := Stream, r_data_len := 0\<rparr>))
         in if \<not> ok then (False, rec)
            else (True, rec\<lparr>r_maskedStream := r_Stream rec AND STREAMMASK_TYPE,
                            r_VolSessionId := VolSessionId, r_VolSessionTime := VolSessionTime,
                            r_FileIndex := FileIndex\<rparr>)))"

definition read_header ::
  "bool \<Rightarrow> (nat \<Rightarrow> u8 list) \<Rightarrow> device \<Rightarrow> dev_block \<Rightarrow> dev_record \<Rightarrow>
   fault + (bool \<times> dev_block \<times> dev_record \<times> jmsg list)" where
  "read_header big mem dev block rec =
     (if b_adata block then Inl ASSERT_FAILED
      else
        (let rec = rec\<lparr>r_state_bits := (if d_is_tape dev then REC_ISTAPE else 0), r_Addr := d_EndAddr dev\<rparr>;
             rhl = rec_header_len (b_BlockVer block);
             no_more = (\<lambda>rec. rec\<lparr>r_state_bits := r_state_bits rec OR REC_NO_HEADER OR REC_BLOCK_EMPTY\<rparr>)
         in if rhl \<le> r_remlen rec then
              bind_res (or_bad_access (unser_rec_header big block))
                (\<lambda>((VolSessionId, VolSessionTime, FileIndex, Stream, data_bytes), _).
                  let rec = rec\<lparr>r_data_bytes := data_bytes\<rparr>;
                      block = block\<lparr>b_bufp := b_bufp block + unat rhl, b_binbuf := b_binbuf block - rhl\<rparr>;
                      rec = rec\<lparr>r_remlen := r_remlen rec - rhl\<rparr>;
                      (ok, rec) = accept_header rec VolSessionId VolSessionTime FileIndex Stream
                  in if \<not> ok then Inr (False, block, rec, [])
                     else
                       (let block = note_file_index block rec
                        in if MAX_BLOCK_LENGTH \<le> r_data_bytes rec then
                             Inr (False, empty_block block, no_more rec, [M_WARNING])
                           else
                             Inr (True, block,
                                  rec\<lparr>r_data := check_pool_memory_size mem (r_data rec)
                                        (unat (r_data_len rec + r_data_bytes rec)),
                                      r_rstate := st_data\<rparr>, [])))
            else Inr (False, empty_block block, no_more rec, [])))"

text \<open>\<^verbatim>\<open>memcpy(rec->data+rec->data_len, block->bufp, n)\<close> with the advance of both.\<close>

definition take_data :: "dev_block \<Rightarrow> dev_record \<Rightarrow> u32 \<Rightarrow> fault + (dev_block \<times> dev_record)" where
  "take_data block rec n =
     bind_res (or_bad_access (fetch (unat n) (b_buf block, b_bufp block)))
       (\<lambda>(bs, _). bind_res (or_bad_access (put bs (r_data rec, unat (r_data_len rec))))
         (\<lambda>(data, _). Inr (block\<lparr>b_bufp := b_bufp block + unat n, b_binbuf := b_binbuf block - n\<rparr>,
                            rec\<lparr>r_data := data, r_data_len := r_data_len rec + n\<rparr>)))"

definition read_data :: "dev_block \<Rightarrow> dev_record \<Rightarrow> fault + (dev_block \<times> dev_record)" where
  "read_data block rec =
     (if b_adata block then Inl ASSERT_FAILED
      else if r_data_bytes rec \<le> r_remlen rec then
        bind_res (take_data block rec (r_data_bytes rec))
          (\<lambda>(block, rec). Inr (block, rec\<lparr>r_remainder := 0\<rparr>))
      else
        bind_res (take_data block rec (r_remlen rec))
          (\<lambda>(block, rec). Inr (block, rec\<lparr>r_remainder := 1,
             r_state_bits := r_state_bits rec OR REC_PARTIAL_RECORD OR REC_BLOCK_EMPTY\<rparr>)))"

lemma read_header_True_state:
  "read_header big mem dev block rec = Inr (True, block', rec', ms) \<Longrightarrow> r_rstate rec' = st_data"
  by (auto simp: read_header_def Let_def bind_res_def or_bad_access_def
      split: if_splits sum.splits option.splits prod.splits)

text \<open>How far the state is from the end of the loop.\<close>

definition rstate_rank :: "rec_state \<Rightarrow> nat" where
  "rstate_rank s = (case s of st_adata_blkhdr \<Rightarrow> 3 | st_none \<Rightarrow> 2 | st_header \<Rightarrow> 2 | st_data \<Rightarrow> 1 | _ \<Rightarrow> 0)"

function read_record_loop ::
  "bool \<Rightarrow> (nat \<Rightarrow> u8 list) \<Rightarrow> device \<Rightarrow> dev_block \<Rightarrow> dev_record \<Rightarrow>
   fault + (bool \<times> dev_block \<times> dev_record \<times> jmsg list)" where
  "read_record_loop big mem dev block rec =
     (let fail_out = (\<lambda>block rec ms. Inr (False, block, rec\<lparr>r_rstate := st_none\<rparr>, ms))
      in if r_rstate rec = st_none \<or> r_rstate rec = st_header then
           (let rec = rec\<lparr>r_remlen := b_binbuf block\<rparr>
            in case read_header big mem dev block rec of
                 Inl e \<Rightarrow> Inl e
               | Inr (ok, block, rec, ms) \<Rightarrow>
                   if \<not> ok then fail_out block rec ms
                   else read_record_loop big mem dev block rec)
         else if r_rstate rec = st_header_only then Inr (True, block, rec, [])
         else if r_rstate rec = st_data then
           bind_res (read_data block rec)
             (\<lambda>(block, rec). Inr (True, block, rec\<lparr>r_rstate := st_header\<rparr>, []))
         else if r_rstate rec = st_adata_blkhdr then
           read_record_loop big mem dev block (rec\<lparr>r_rstate := st_header\<rparr>)
         else fail_out block rec [])"
  by pat_completeness auto

termination read_record_loop
  by (relation "measure (\<lambda>(big, mem, dev, block, rec). rstate_rank (r_rstate rec))")
    (auto simp: rstate_rank_def dest!: read_header_True_state)

declare read_record_loop.simps [simp del]

definition read_record_from_block ::
  "bool \<Rightarrow> (nat \<Rightarrow> u8 list) \<Rightarrow> device \<Rightarrow> string \<Rightarrow> dev_block \<Rightarrow> dev_record \<Rightarrow>
   fault + (bool \<times> dev_block \<times> dev_record \<times> jmsg list)" where
  "read_record_from_block big mem dev VolumeName block rec =
     (let rec = (if r_rstate rec = st_header_only then rec\<lparr>r_remainder := 0, r_rstate := st_header\<rparr> else rec);
          rec = (if r_remainder rec = 0
                 then rec\<lparr>r_RecNum := b_RecNum block, r_VolumeName := Some VolumeName,
                          r_Addr := b_BlockAddr block, r_StartAddr := b_BlockAddr block\<rparr>
                 else rec);
          rec = rec\<lparr>r_BlockVer := b_BlockVer block, r_blkh_options := b_blkh_options block\<rparr>;
          block = block\<lparr>b_RecNum := b_RecNum block + 1\<rparr>
      in read_record_loop big mem dev block rec)"

section \<open>Reading one fragment\<close>

text \<open>The unread bytes of a block, and the data a record has collected.\<close>

definition rest :: "dev_block \<Rightarrow> u8 list" where
  "rest block = buf_slice (b_buf block) (b_bufp block) (unat (b_binbuf block))"

definition rinv :: "dev_block \<Rightarrow> bool" where
  "rinv block \<longleftrightarrow> \<not> b_adata block \<and> b_BlockVer block \<noteq> 1 \<and>
     b_bufp block + unat (b_binbuf block) \<le> length (b_buf block)"

definition got :: "dev_record \<Rightarrow> u8 list" where
  "got rec = take (unat (r_data_len rec)) (r_data rec)"

definition rec_inv :: "dev_record \<Rightarrow> bool" where
  "rec_inv rec \<longleftrightarrow> unat (r_data_len rec) \<le> length (r_data rec) \<and> (r_rstate rec = st_none \<or> r_rstate rec = st_header)"

lemma length_rest: "rinv b \<Longrightarrow> length (rest b) = unat (b_binbuf b)"
  by (simp add: rinv_def rest_def)

lemma unser_rec_header_rest:
  assumes "rinv b" and "rest b = rec_header fi st len @ bs"
  shows "unser_rec_header big b =
    Some ((b_VolSessionId b, b_VolSessionTime b, fi, st, len), (b_buf b, b_bufp b + 12))"
proof -
  let ?p = "b_bufp b" and ?n = "unat (b_binbuf b)"
  have n: "?n = 12 + length bs" using length_rest [OF assms(1)] assms(2) by simp
  have sl: "buf_slice (b_buf b) (?p + k) 4 = buf_slice (rest b) k 4" if "k \<le> 8" for k
    using that n by (simp add: rest_def buf_slice_def drop_take min_def add.commute)
  have "?p + 12 \<le> length (b_buf b)" using assms(1) n by (simp add: rinv_def)
  moreover have "buf_slice (b_buf b) ?p 4 = be_bytes 4 fi" "buf_slice (b_buf b) (?p + 4) 4 = be_bytes 4 st"
    "buf_slice (b_buf b) (8 + ?p) 4 = be_bytes 4 len"
    using sl [of 0] sl [of 4] sl [of 8] assms(2) by (simp_all add: rec_header_def add.commute)
  ultimately show ?thesis
    using assms(1)
    by (simp add: unser_rec_header_def rinv_def int32.unser_slice uint32.unser_slice)
qed

lemma rest_advance:
  assumes "rinv b" and "rest b = xs @ ys" and "length xs = unat n"
    and "b' = b\<lparr>b_bufp := b_bufp b + unat n, b_binbuf := b_binbuf b - n\<rparr>"
  shows "rest b' = ys" and "rinv b'"
proof -
  have l: "unat (b_binbuf b) = unat n + length ys" using length_rest [OF assms(1)] assms(2,3) by simp
  then have u: "unat (b_binbuf b - n) = length ys" by (subst unat_sub) (auto simp: u32_le)
  have "rest b' = drop (unat n) (rest b)"
    using l u by (simp add: assms(4) rest_def buf_slice_def drop_take add.commute)
  then show "rest b' = ys" using assms(2,3) by simp
  show "rinv b'" using assms(1,4) l u by (simp add: rinv_def)
qed

lemma rest_note_file_index [simp]: "rest (note_file_index b r) = rest b"
  by (simp add: rest_def)

lemma rinv_note_file_index [simp]: "rinv (note_file_index b r) = rinv b"
  by (simp add: rinv_def) (simp add: note_file_index_def Let_def)

lemma pool_size_int32: "n < 2 ^ 31 \<Longrightarrow> signed_take_bit 31 (int n) = int n"
  by (simp add: signed_take_bit_int_eq_self_iff)

lemma check_pool_memory_size_eq:
  "n < 2 ^ 31 \<Longrightarrow> check_pool_memory_size mem buf n = (if n \<le> length buf then buf else buf @ mem (n - length buf))"
  by (simp add: check_pool_memory_size_def pool_size_int32)

lemma length_check_pool_memory_size:
  "n < 2 ^ 31 \<Longrightarrow> (\<And>n. length (mem n) = n) \<Longrightarrow> n \<le> length (check_pool_memory_size mem buf n)"
  by (simp add: check_pool_memory_size_eq)

text \<open>A size that does not fit into an \<^verbatim>\<open>int32_t\<close> is taken for a negative one: the buffer is not enlarged.\<close>

lemma pool_size_overflow: "2 ^ 31 \<le> n \<Longrightarrow> n < 2 ^ 32 \<Longrightarrow> check_pool_memory_size mem buf n = buf"
proof -
  assume n: "2 ^ 31 \<le> n" "n < 2 ^ 32"
  then have "int n - 2 ^ 32 = signed_take_bit 31 (int n - 2 ^ 32)"
    by (subst signed_take_bit_int_eq_self) simp_all
  also have "\<dots> = signed_take_bit 31 (int n)"
    by (rule signed_take_bit_eq_iff_take_bit_eq [THEN iffD2]) (simp add: take_bit_eq_mod)
  finally show ?thesis using n by (simp add: check_pool_memory_size_def)
qed

lemma take_check_pool_memory_size:
  "n \<le> length buf \<Longrightarrow> take n (check_pool_memory_size mem buf m) = take n buf"
  by (simp add: check_pool_memory_size_def)

lemma take_data_ok:
  assumes "rinv b" and "rest b = bs @ left" and "length bs = unat n"
    and "unat (r_data_len rec) + unat n \<le> length (r_data rec)" and "unat (r_data_len rec) + unat n < 2 ^ 32"
  obtains b' rec' where "take_data b rec n = Inr (b', rec')" "rinv b'" "rest b' = left"
    "b_VolSessionId b' = b_VolSessionId b" "b_VolSessionTime b' = b_VolSessionTime b"
    "rec' = rec\<lparr>r_data := r_data rec', r_data_len := r_data_len rec + n\<rparr>" "got rec' = got rec @ bs"
    "length (r_data rec') = length (r_data rec)"
proof -
  let ?b = "b\<lparr>b_bufp := b_bufp b + unat n, b_binbuf := b_binbuf b - n\<rparr>"
  let ?rec = "rec\<lparr>r_data := buf_write (r_data rec) (unat (r_data_len rec)) bs, r_data_len := r_data_len rec + n\<rparr>"
  have l: "unat (b_binbuf b) = unat n + length left"
    using length_rest [OF assms(1)] assms(2,3) by simp
  have fit: "b_bufp b + unat n \<le> length (b_buf b)"
    using assms(1) l by (simp add: rinv_def)
  have "buf_slice (b_buf b) (b_bufp b) (unat n) = take (unat n) (rest b)"
    using l by (simp add: rest_def buf_slice_def min_def)
  then have "buf_slice (b_buf b) (b_bufp b) (unat n) = bs"
    using assms(2,3) by simp
  then have "take_data b rec n = Inr (?b, ?rec)"
    using fit assms(3,4) by (simp add: take_data_def fetch_def put_def)
  moreover have "unat (r_data_len rec + n) = unat (r_data_len rec) + unat n"
    using assms(5) by (simp add: unat_add_lt)
  then have "got ?rec = got rec @ bs"
    using assms(3,4) take_buf_write [of "unat (r_data_len rec)" bs "r_data rec"] by (simp add: got_def)
  ultimately show ?thesis
    using that [of ?b ?rec] rest_advance [OF assms(1-3) refl] assms(3,4) by simp
qed

text \<open>
  What precedes the data of a fragment with stream \<open>st\<close>: nothing, or, for a continuation of the
  record in hand, the data collected so far.  \<open>fragment_ok\<close> says that the header is acceptable.
\<close>

definition collected :: "dev_record \<Rightarrow> i32 \<Rightarrow> u8 list" where
  "collected rec st = (if sint st < 0 \<and> r_remainder rec \<noteq> 0 then got rec else [])"

definition fragment_ok :: "dev_record \<Rightarrow> dev_block \<Rightarrow> i32 \<Rightarrow> bool" where
  "fragment_ok rec b st \<longleftrightarrow>
     (r_remainder rec \<noteq> 0 \<longrightarrow>
        r_VolSessionId rec = b_VolSessionId b \<and> r_VolSessionTime rec = b_VolSessionTime b \<and>
        (sint st < 0 \<longrightarrow> r_Stream rec = - st))"

definition plain_stream :: "i32 \<Rightarrow> i32" where
  "plain_stream st = (if sint st < 0 then - st else st)"

definition start_len :: "dev_record \<Rightarrow> i32 \<Rightarrow> u32" where
  "start_len rec st = (if sint st < 0 \<and> r_remainder rec \<noteq> 0 then r_data_len rec else 0)"

lemma accept_header_ok:
  assumes "fragment_ok rec b st"
  obtains bits where "accept_header rec (b_VolSessionId b) (b_VolSessionTime b) fi st =
    (True, rec\<lparr>r_state_bits := r_state_bits rec OR bits, r_data_len := start_len rec st,
       r_Stream := plain_stream st, r_maskedStream := plain_stream st AND STREAMMASK_TYPE,
       r_VolSessionId := b_VolSessionId b, r_VolSessionTime := b_VolSessionTime b, r_FileIndex := fi\<rparr>)"
    "bits \<in> {0, REC_CONTINUATION}"
proof (cases "sint st < 0")
  case True
  then show ?thesis
    using assms by (intro that [of REC_CONTINUATION]) (auto simp: accept_header_def fragment_ok_def plain_stream_def start_len_def Let_def)
next
  case False
  then show ?thesis
    using assms by (intro that [of 0]) (auto simp: accept_header_def fragment_ok_def plain_stream_def start_len_def Let_def)
qed

text \<open>The header and stream fields a fragment leaves in the record.\<close>

definition header_read :: "dev_record \<Rightarrow> dev_block \<Rightarrow> i32 \<Rightarrow> i32 \<Rightarrow> bool" where
  "header_read rec b fi st \<longleftrightarrow> r_FileIndex rec = fi \<and> r_Stream rec = plain_stream st \<and>
     r_VolSessionId rec = b_VolSessionId b \<and> r_VolSessionTime rec = b_VolSessionTime b"

text \<open>The record the header test sees.\<close>

definition header_rec :: "device \<Rightarrow> dev_record \<Rightarrow> u32 \<Rightarrow> dev_record" where
  "header_rec dev rec len = rec\<lparr>r_state_bits := (if d_is_tape dev then REC_ISTAPE else 0), r_Addr := d_EndAddr dev,
     r_data_bytes := len, r_remlen := r_remlen rec - 12\<rparr>"

lemma read_header_accepted:
  assumes "rinv b" "rest b = rec_header fi st len @ bs" "r_remlen rec = b_binbuf b"
    and "accept_header (header_rec dev rec len) (b_VolSessionId b) (b_VolSessionTime b) fi st = (True, r1)"
    and "r_data_bytes r1 < MAX_BLOCK_LENGTH"
  shows "read_header big mem dev b rec =
    Inr (True, note_file_index (b\<lparr>b_bufp := b_bufp b + 12, b_binbuf := b_binbuf b - 12\<rparr>) r1,
         r1\<lparr>r_data := check_pool_memory_size mem (r_data r1) (unat (r_data_len r1 + r_data_bytes r1)),
            r_rstate := st_data\<rparr>, [])"
proof -
  have hl: "rec_header_len (b_BlockVer b) = 12"
    by (simp add: rec_header_len_def RECHDR2_LENGTH_def RECHDR3_LENGTH_def)
  have "12 \<le> r_remlen rec" using assms(3) length_rest [OF assms(1)] assms(2) by (simp add: u32_le)
  moreover have "\<not> b_adata b" using assms(1) by (simp add: rinv_def)
  ultimately show ?thesis
    using unser_rec_header_rest [OF assms(1,2), of big] assms(4) leD [OF assms(5) [THEN less_imp_le]] assms(5)
    by (simp add: read_header_def hl Let_def header_rec_def)
qed

lemma read_header_ok:
  assumes b: "rinv b" "rest b = rec_header fi st len @ bs" and rec: "r_remlen rec = b_binbuf b" "fragment_ok rec b st"
    and len: "len < MAX_BLOCK_LENGTH" "unat (r_data_len rec) \<le> length (r_data rec)"
      "unat (start_len rec st) + unat len < 2 ^ 31"
    and mem: "\<And>n. length (mem n) = n"
  obtains b' rec' where "read_header big mem dev b rec = Inr (True, b', rec', [])" "rinv b'" "rest b' = bs"
    "b_VolSessionId b' = b_VolSessionId b" "b_VolSessionTime b' = b_VolSessionTime b"
    "r_rstate rec' = st_data" "r_remlen rec' = b_binbuf b'" "r_data_bytes rec' = len" "header_read rec' b fi st"
    "got rec' = collected rec st" "unat (r_data_len rec') + unat len \<le> length (r_data rec')"
    "unat (r_data_len rec') + unat len < 2 ^ 32" "\<not> is_partial_record rec'"
proof -
  let ?r0 = "header_rec dev rec len"
  let ?b1 = "b\<lparr>b_bufp := b_bufp b + 12, b_binbuf := b_binbuf b - 12\<rparr>"
  define dl where "dl = start_len ?r0 st"
  have ok0: "fragment_ok ?r0 b st" using rec(2) by (simp add: fragment_ok_def header_rec_def)
  obtain bits where acc: "accept_header ?r0 (b_VolSessionId b) (b_VolSessionTime b) fi st =
    (True, ?r0\<lparr>r_state_bits := r_state_bits ?r0 OR bits, r_data_len := dl, r_Stream := plain_stream st,
       r_maskedStream := plain_stream st AND STREAMMASK_TYPE, r_VolSessionId := b_VolSessionId b,
       r_VolSessionTime := b_VolSessionTime b, r_FileIndex := fi\<rparr>)" (is "_ = (True, ?r1)")
    and bits: "bits \<in> {0, REC_CONTINUATION}"
    unfolding dl_def by (rule accept_header_ok [OF ok0, of fi])
  have r1: "r_data_bytes ?r1 = len" "r_data ?r1 = r_data rec" "r_data_len ?r1 = dl" "r_remlen ?r1 = b_binbuf ?b1"
    using rec(1) by (simp_all add: header_rec_def)
  let ?r2 = "?r1\<lparr>r_data := check_pool_memory_size mem (r_data rec) (unat (dl + len)), r_rstate := st_data\<rparr>"
  have adv: "rest ?b1 = bs" "rinv ?b1"
    using rest_advance [OF b, of 12 ?b1] by simp_all
  have "read_header big mem dev b rec = Inr (True, note_file_index ?b1 ?r1, ?r2, [])"
  proof -
    have "r_data_bytes ?r1 < MAX_BLOCK_LENGTH" using r1(1) len(1) by (simp only:)
    from read_header_accepted [OF b rec(1) acc this, of big mem] show ?thesis by (simp only: r1)
  qed
  moreover have dl: "unat dl \<le> length (r_data rec)" "unat dl + unat len < 2 ^ 31" using len(2,3) by (auto simp: dl_def start_len_def header_rec_def)
  moreover from dl(2) have dl32: "unat dl + unat len < 2 ^ 32" by simp
  moreover have un: "unat (dl + len) = unat dl + unat len" using dl32 by (rule unat_add_lt)
  moreover have "got ?r2 = collected rec st"
    using take_check_pool_memory_size [OF dl(1)] by (auto simp: got_def collected_def dl_def start_len_def header_rec_def)
  moreover have "\<not> is_partial_record ?r2"
    using bits by (auto simp: is_partial_record_def rec_bits header_rec_def)
  moreover have "unat dl + unat len \<le> length (r_data ?r2)"
    using length_check_pool_memory_size [OF _ mem, of "unat (dl + len)" "r_data rec"] un dl(2) by simp
  ultimately show ?thesis
    using that [of "note_file_index ?b1 ?r1" ?r2] adv r1 by (simp add: header_read_def)
qed

text \<open>One call reads a fragment: all of its data is there, or the block ends inside it.\<close>

lemma read_record_fragment:
  assumes b: "rinv b" "rest b = rec_header fi st len @ bs @ left" and rec: "rec_inv rec" "fragment_ok rec b st"
    and len: "len < MAX_BLOCK_LENGTH" "unat (start_len rec st) + unat len < 2 ^ 31"
      "length bs = unat len \<or> length bs < unat len \<and> left = []"
    and mem: "\<And>n. length (mem n) = n"
  obtains b' rec' where "read_record_from_block big mem dev vol b rec = Inr (True, b', rec', [])"
    "rinv b'" "rest b' = left" "rec_inv rec'" "header_read rec' b fi st" "got rec' = collected rec st @ bs"
    "r_remainder rec' = (if length bs = unat len then 0 else 1)"
    "is_partial_record rec' \<longleftrightarrow> length bs < unat len" "length (got rec') = unat (r_data_len rec')"
proof -
  let ?b0 = "b\<lparr>b_RecNum := b_RecNum b + 1\<rparr>"
  let ?rA = "if r_remainder rec = 0
      then rec\<lparr>r_RecNum := b_RecNum b, r_VolumeName := Some vol, r_Addr := b_BlockAddr b, r_StartAddr := b_BlockAddr b\<rparr>
      else rec"
  let ?r0 = "?rA\<lparr>r_BlockVer := b_BlockVer b, r_blkh_options := b_blkh_options b, r_remlen := b_binbuf b\<rparr>"
  have rs: "r_rstate rec = st_none \<or> r_rstate rec = st_header" "unat (r_data_len rec) \<le> length (r_data rec)"
    using rec(1) by (auto simp: rec_inv_def)
  have b0: "rinv ?b0" "rest ?b0 = rec_header fi st len @ bs @ left"
    using b by (simp_all add: rinv_def rest_def)
  have sl: "start_len ?r0 st = start_len rec st" by (simp add: start_len_def)
  have pre: "r_remlen ?r0 = b_binbuf ?b0" "fragment_ok ?r0 ?b0 st" "unat (r_data_len ?r0) \<le> length (r_data ?r0)"
    "unat (start_len ?r0 st) + unat len < 2 ^ 31" "collected ?r0 st = collected rec st"
    using rec(2) rs(2) len(2) unfolding sl by (simp_all add: fragment_ok_def collected_def got_def)
  obtain b1 r1 where h: "read_header big mem dev ?b0 ?r0 = Inr (True, b1, r1, [])" "rinv b1" "rest b1 = bs @ left"
    "b_VolSessionId b1 = b_VolSessionId ?b0" "b_VolSessionTime b1 = b_VolSessionTime ?b0"
    "r_rstate r1 = st_data" "r_remlen r1 = b_binbuf b1" "r_data_bytes r1 = len" "header_read r1 ?b0 fi st"
    "got r1 = collected ?r0 st" "unat (r_data_len r1) + unat len \<le> length (r_data r1)"
    "unat (r_data_len r1) + unat len < 2 ^ 32" "\<not> is_partial_record r1"
    using read_header_ok [OF b0 pre(1,2) len(1) pre(3,4) mem, of big dev] by blast
  have start: "read_record_from_block big mem dev vol b rec =
      bind_res (read_data b1 r1) (\<lambda>(b, r). Inr (True, b, r\<lparr>r_rstate := st_header\<rparr>, []))"
  proof -
    have "read_record_from_block big mem dev vol b rec = read_record_loop big mem dev b1 r1"
      using rs(1) h(1)
      by (auto simp: read_record_from_block_def Let_def read_record_loop.simps [of big mem dev ?b0])
    then show ?thesis using h(6) by (simp add: read_record_loop.simps [of big mem dev b1])
  qed
  define n where "n = (if length bs = unat len then len else b_binbuf b1)"
  have n: "length bs = unat n" "unat n \<le> unat len" "r_data_bytes r1 \<le> r_remlen r1 \<longleftrightarrow> length bs = unat len"
    using len(3) length_rest [OF h(2)] h(3,7,8) by (auto simp: n_def u32_le)
  obtain b2 r2 where t: "take_data b1 r1 n = Inr (b2, r2)" "rinv b2" "rest b2 = left"
    "b_VolSessionId b2 = b_VolSessionId b1" "b_VolSessionTime b2 = b_VolSessionTime b1"
    "r2 = r1\<lparr>r_data := r_data r2, r_data_len := r_data_len r1 + n\<rparr>" "got r2 = got r1 @ bs"
    "length (r_data r2) = length (r_data r1)"
  proof (rule take_data_ok [OF h(2,3) n(1)])
    show "unat (r_data_len r1) + unat n \<le> length (r_data r1)" "unat (r_data_len r1) + unat n < 2 ^ 32"
      using n(2) h(11,12) by linarith+
  qed
  define bits where "bits = (if length bs = unat len then 0 else REC_PARTIAL_RECORD OR REC_BLOCK_EMPTY)"
  let ?r3 = "r2\<lparr>r_remainder := (if length bs = unat len then 0 else 1), r_state_bits := r_state_bits r2 OR bits, r_rstate := st_header\<rparr>"
  have ad: "\<not> b_adata b1" using h(2) by (simp add: rinv_def)
  have "read_record_from_block big mem dev vol b rec = Inr (True, b2, ?r3, [])"
    using t(1) n(3) ad h(7,8)
    by (cases "length bs = unat len") (simp_all add: start read_data_def n_def bits_def)
  moreover have "header_read ?r3 b fi st"
    using h(9) by (subst t(6)) (simp add: header_read_def)
  moreover have sb: "r_state_bits r2 = r_state_bits r1" by (subst t(6)) simp
  then have "is_partial_record ?r3 \<longleftrightarrow> length bs < unat len"
    using h(13) len(3) by (auto simp: is_partial_record_def bits_def rec_bits bit_simps bit.conj_disj_distrib2)
  moreover have "unat (r_data_len r2) = unat (r_data_len r1) + unat n"
    using n(2) h(12) by (subst t(6)) (simp add: unat_add_lt)
  then have "unat (r_data_len r2) \<le> length (r_data r2)"
    using t(8) n(2) h(11) by simp
  moreover from this have "length (got r2) = unat (r_data_len r2)" by (simp add: got_def)
  moreover have "got ?r3 = got r2" by (simp add: got_def)
  ultimately show ?thesis
    using that [of b2 ?r3] t(2,3,7) h(10) pre(5) by (simp add: rec_inv_def)
qed

section \<open>Reading a record split over several blocks\<close>

text \<open>
  The sequence of calls the reader makes: one call on each of the blocks that hold the
  record, as long as the calls succeed.
\<close>

fun read_fragments ::
  "bool \<Rightarrow> (nat \<Rightarrow> u8 list) \<Rightarrow> device \<Rightarrow> string \<Rightarrow> dev_block list \<Rightarrow> dev_record \<Rightarrow> fault + (bool \<times> dev_record)" where
  "read_fragments big mem dev vol [] rec = Inr (True, rec)"
| "read_fragments big mem dev vol (b # bs) rec =
     bind_res (read_record_from_block big mem dev vol b rec)
       (\<lambda>(ok, _, rec, _). if ok then read_fragments big mem dev vol bs rec else Inr (False, rec))"

text \<open>Blocks of one session whose unread bytes are the fragments; other records may follow in the last.\<close>

definition holds :: "dev_block list \<Rightarrow> u32 \<Rightarrow> u32 \<Rightarrow> u8 list list \<Rightarrow> u8 list \<Rightarrow> bool" where
  "holds blocks sid stime frs left \<longleftrightarrow>
     list_all (\<lambda>b. rinv b \<and> b_VolSessionId b = sid \<and> b_VolSessionTime b = stime) blocks \<and>
     map rest blocks = butlast frs @ [last frs @ left]"

lemma holds_single:
  "holds blocks sid stime [f] left \<longleftrightarrow>
   (\<exists>b. blocks = [b] \<and> rinv b \<and> b_VolSessionId b = sid \<and> b_VolSessionTime b = stime \<and> rest b = f @ left)"
  by (auto simp: holds_def map_eq_Cons_conv)

lemma holds_Cons:
  assumes "frs \<noteq> []"
  shows "holds blocks sid stime (f # frs) left \<longleftrightarrow>
   (\<exists>b bs. blocks = b # bs \<and> rinv b \<and> b_VolSessionId b = sid \<and> b_VolSessionTime b = stime \<and> rest b = f \<and>
           holds bs sid stime frs left)"
  using assms by (auto simp: holds_def map_eq_Cons_conv)

text \<open>The record as it was written.\<close>

definition whole :: "dev_record \<Rightarrow> u32 \<Rightarrow> u32 \<Rightarrow> i32 \<Rightarrow> i32 \<Rightarrow> u8 list \<Rightarrow> bool" where
  "whole rec sid stime fi stream ds \<longleftrightarrow>
     r_VolSessionId rec = sid \<and> r_VolSessionTime rec = stime \<and> r_FileIndex rec = fi \<and> r_Stream rec = stream \<and>
     got rec = ds \<and> r_remainder rec = 0 \<and> \<not> is_partial_record rec"

lemma stream_signs:
  assumes "0 < sint (s :: i32)"
  shows "sint (- s) < 0" "\<not> sint s < 0" "plain_stream s = s" "plain_stream (- s) = s"
  using assms by (simp_all add: sint_minus plain_stream_def)

lemma of_nat_len:
  assumes "length ds < 20000000"
  shows "(of_nat (length ds) :: u32) < MAX_BLOCK_LENGTH" "unat (of_nat (length ds) :: u32) = length ds"
  using assms by (simp_all add: u32_less unat_of_nat_u32 MAX_BLOCK_LENGTH_def)

lemma read_cont_fragments:
  assumes "12 < cap" and mem: "\<And>n. length (mem n) = n" and st: "0 < sint stream"
    and "holds blocks sid stime (cont_fragments cap fi stream ds) left"
    and "rec_inv rec" "r_remainder rec \<noteq> 0" "r_Stream rec = stream" "r_VolSessionId rec = sid" "r_VolSessionTime rec = stime"
    and "length ds < 20000000" "length (got rec) = unat (r_data_len rec)" "length (got rec) + length ds < 2 ^ 31"
  shows "\<exists>rec'. read_fragments big mem dev vol blocks rec = Inr (True, rec') \<and>
    whole rec' sid stime fi stream (got rec @ ds)"
  using assms(4-)
proof (induction "length ds" arbitrary: ds blocks rec rule: less_induct)
  case less
  note len = of_nat_len [OF less.prems(7)] and st' = stream_signs [OF st]
  have ok: "fragment_ok rec b (- stream)" if "b_VolSessionId b = sid" "b_VolSessionTime b = stime" for b
    using that less.prems by (simp add: fragment_ok_def)
  have col: "collected rec (- stream) = got rec" using less.prems(3) st'(1) by (simp add: collected_def)
  have sz: "unat (start_len rec (- stream)) + unat (of_nat (length ds) :: u32) < 2 ^ 31"
    using less.prems(8,9) len(2) by (simp add: start_len_def)
  note frag = read_record_fragment [OF _ _ less.prems(2) _ len(1) sz _ mem, unfolded len(2)]
  show ?case
  proof (cases "length ds \<le> cap - 12")
    case True
    then obtain b where b: "blocks = [b]" "rinv b" "b_VolSessionId b = sid" "b_VolSessionTime b = stime"
      "rest b = rec_header fi (- stream) (of_nat (length ds)) @ ds @ left"
      using less.prems(1) by (auto simp: cont_fragments_last holds_single)
    obtain b' rec' where r: "read_record_from_block big mem dev vol b rec = Inr (True, b', rec', [])"
      "header_read rec' b fi (- stream)" "got rec' = collected rec (- stream) @ ds" "r_remainder rec' = 0"
      "\<not> is_partial_record rec'"
      by (rule frag [OF b(2,5) ok [OF b(3,4)], where big = big and dev = dev and vol = vol]) (use that in auto)
    then show ?thesis
      using b col st' by (simp add: whole_def header_read_def)
  next
    case False
    let ?k = "cap - 12"
    have k: "0 < ?k" "?k < length ds" using assms(1) False by auto
    then obtain b bs where b: "blocks = b # bs" "rinv b" "b_VolSessionId b = sid" "b_VolSessionTime b = stime"
      "rest b = rec_header fi (- stream) (of_nat (length ds)) @ take ?k ds @ []"
      "holds bs sid stime (cont_fragments cap fi stream (drop ?k ds)) left"
      using less.prems(1) assms(1) by (auto simp: cont_fragments_more holds_Cons cont_fragments_not_Nil)
    obtain b' rec' where r: "read_record_from_block big mem dev vol b rec = Inr (True, b', rec', [])"
      "rec_inv rec'" "header_read rec' b fi (- stream)" "got rec' = collected rec (- stream) @ take ?k ds"
      "r_remainder rec' = 1" "length (got rec') = unat (r_data_len rec')"
      by (rule frag [OF b(2,5) ok [OF b(3,4)], where big = big and dev = dev and vol = vol]) (use that k in auto)
    have "\<exists>rec''. read_fragments big mem dev vol bs rec' = Inr (True, rec'') \<and>
        whole rec'' sid stime fi stream (got rec' @ drop ?k ds)"
      using k r b(3,4,6) less.prems st' col
      by (intro less.hyps) (auto simp: header_read_def)
    then show ?thesis using r(1,4) b(1) col by auto
  qed
qed

lemma read_first_fragments:
  assumes "12 \<le> rm" "12 < cap" and mem: "\<And>n. length (mem n) = n" and st: "0 < sint stream"
    and h: "holds blocks sid stime (first_fragments rm cap fi stream ds) left"
    and rec: "rec_inv rec" "r_remainder rec = 0" and ds: "length ds < 20000000"
  shows "\<exists>rec'. read_fragments big mem dev vol blocks rec = Inr (True, rec') \<and> whole rec' sid stime fi stream ds"
proof -
  note len = of_nat_len [OF ds] and st' = stream_signs [OF st]
  have ok: "fragment_ok rec b stream" for b using rec(2) by (simp add: fragment_ok_def)
  have col: "collected rec stream = []" using rec(2) by (simp add: collected_def)
  have sz: "unat (start_len rec stream) + unat (of_nat (length ds) :: u32) < 2 ^ 31" using ds len(2) rec(2) by (simp add: start_len_def)
  note frag = read_record_fragment [OF _ _ rec(1) ok len(1) sz _ mem, unfolded len(2)]
  show ?thesis
  proof (cases "length ds \<le> rm - 12")
    case True
    then obtain b where b: "blocks = [b]" "rinv b" "b_VolSessionId b = sid" "b_VolSessionTime b = stime"
      "rest b = rec_header fi stream (of_nat (length ds)) @ ds @ left"
      using h by (auto simp: first_fragments_def holds_single)
    obtain b' rec' where r: "read_record_from_block big mem dev vol b rec = Inr (True, b', rec', [])"
      "header_read rec' b fi stream" "got rec' = collected rec stream @ ds" "r_remainder rec' = 0"
      "\<not> is_partial_record rec'"
      by (rule frag [OF b(2,5), where big = big and dev = dev and vol = vol]) (use that in auto)
    then show ?thesis
      using b col st' by (simp add: whole_def header_read_def)
  next
    case False
    let ?k = "rm - 12"
    have k: "?k < length ds" using False by auto
    then obtain b bs where b: "blocks = b # bs" "rinv b" "b_VolSessionId b = sid" "b_VolSessionTime b = stime"
      "rest b = rec_header fi stream (of_nat (length ds)) @ take ?k ds @ []"
      "holds bs sid stime (cont_fragments cap fi stream (drop ?k ds)) left"
      using h by (auto simp: first_fragments_def holds_Cons cont_fragments_not_Nil)
    obtain b' rec' where r: "read_record_from_block big mem dev vol b rec = Inr (True, b', rec', [])"
      "rec_inv rec'" "header_read rec' b fi stream" "got rec' = collected rec stream @ take ?k ds"
      "r_remainder rec' = 1" "length (got rec') = unat (r_data_len rec')"
      by (rule frag [OF b(2,5), where big = big and dev = dev and vol = vol]) (use that k in auto)
    have "\<exists>rec''. read_fragments big mem dev vol bs rec' = Inr (True, rec'') \<and>
        whole rec'' sid stime fi stream (got rec' @ drop ?k ds)"
      using k r b(3,4,6) st' col ds
      by (intro read_cont_fragments [OF assms(2) mem st]) (auto simp: header_read_def)
    then show ?thesis using r(1,4) b(1) col by auto
  qed
qed

section \<open>Arbitrary contents\<close>

text \<open>Any twelve bytes are some record header.\<close>

lemma any_rec_header:
  assumes "12 \<le> length xs"
  obtains fi st len where "xs = rec_header fi st len @ drop 12 xs"
proof -
  let ?f = "from_be (take 4 xs) :: i32" and ?s = "from_be (take 4 (drop 4 xs)) :: i32"
    and ?l = "from_be (take 4 (drop 8 xs)) :: u32"
  have "rec_header ?f ?s ?l = take 4 xs @ take 4 (drop 4 xs) @ take 4 (drop 8 xs)"
    using assms by (simp add: rec_header_def be_bytes_from_be)
  also have "\<dots> = take 12 xs"
    using take_add [of 4 8 xs] take_add [of 4 4 "drop 4 xs"] by simp
  finally show ?thesis
    using that [of ?f ?s ?l] by (metis append_take_drop_id)
qed

text \<open>How a call starts: the record as it enters the state machine.\<close>

definition entry_rec :: "string \<Rightarrow> dev_block \<Rightarrow> dev_record \<Rightarrow> dev_record" where
  "entry_rec vol b rec =
     (if r_remainder rec = 0
      then rec\<lparr>r_RecNum := b_RecNum b, r_VolumeName := Some vol, r_Addr := b_BlockAddr b, r_StartAddr := b_BlockAddr b\<rparr>
      else rec)\<lparr>r_BlockVer := b_BlockVer b, r_blkh_options := b_blkh_options b, r_remlen := b_binbuf b\<rparr>"

lemma entry_rec_fields [simp]:
  "r_remainder (entry_rec vol b rec) = r_remainder rec" "r_remlen (entry_rec vol b rec) = b_binbuf b"
  "r_VolSessionId (entry_rec vol b rec) = r_VolSessionId rec" "r_VolSessionTime (entry_rec vol b rec) = r_VolSessionTime rec"
  "r_Stream (entry_rec vol b rec) = r_Stream rec" "r_data (entry_rec vol b rec) = r_data rec"
  "r_data_len (entry_rec vol b rec) = r_data_len rec" "r_FileIndex (entry_rec vol b rec) = r_FileIndex rec"
  by (simp_all add: entry_rec_def)

lemma read_record_rejected:
  assumes "rec_inv rec"
    and "read_header big mem dev (b\<lparr>b_RecNum := b_RecNum b + 1\<rparr>) (entry_rec vol b rec) = Inr (False, b', rec', ms)"
  shows "read_record_from_block big mem dev vol b rec = Inr (False, b', rec'\<lparr>r_rstate := st_none\<rparr>, ms)"
  using assms
  by (auto simp: read_record_from_block_def entry_rec_def rec_inv_def Let_def read_record_loop.simps [of big mem dev "b\<lparr>b_RecNum := b_RecNum b + 1\<rparr>"])

text \<open>Fewer than twelve bytes left: nothing is read, the block is emptied, the record keeps its data.\<close>

lemma read_header_end:
  assumes "rinv b" and "length (rest b) < 12" and "r_remlen rec = b_binbuf b"
  shows "read_header big mem dev b rec = Inr (False, empty_block b,
    rec\<lparr>r_state_bits := (if d_is_tape dev then REC_ISTAPE else 0) OR REC_NO_HEADER OR REC_BLOCK_EMPTY,
        r_Addr := d_EndAddr dev\<rparr>, [])"
proof -
  have hl: "rec_header_len (b_BlockVer b) = 12"
    by (simp add: rec_header_len_def RECHDR2_LENGTH_def RECHDR3_LENGTH_def)
  have "\<not> 12 \<le> b_binbuf b" using assms(2) length_rest [OF assms(1)] by (simp add: u32_le)
  then show ?thesis
    using assms(1,3) unfolding read_header_def hl Let_def by (simp add: rinv_def)
qed

text \<open>A header of another session or stream: rejected, the record keeps its data.\<close>

lemma accept_header_mismatch:
  assumes "\<not> fragment_ok rec b st"
  shows "\<exists>bits. accept_header rec (b_VolSessionId b) (b_VolSessionTime b) fi st =
    (False, rec\<lparr>r_state_bits := r_state_bits rec OR bits OR REC_NO_MATCH\<rparr>)"
proof (cases "r_VolSessionId rec \<noteq> b_VolSessionId b \<or> r_VolSessionTime rec \<noteq> b_VolSessionTime b")
  case True
  then show ?thesis
    using assms by (intro exI [of _ 0]) (auto simp: accept_header_def fragment_ok_def)
next
  case False
  then show ?thesis
    using assms
    by (intro exI [of _ REC_CONTINUATION]) (auto simp: accept_header_def fragment_ok_def Let_def or.assoc)
qed

lemma read_header_mismatch:
  assumes "rinv b" "rest b = rec_header fi st len @ bs" "r_remlen rec = b_binbuf b" "\<not> fragment_ok rec b st"
  shows "\<exists>bits. read_header big mem dev b rec = Inr (False, b\<lparr>b_bufp := b_bufp b + 12, b_binbuf := b_binbuf b - 12\<rparr>,
     (header_rec dev rec len)\<lparr>r_state_bits := bits OR REC_NO_MATCH\<rparr>, [])"
proof -
  have hl: "rec_header_len (b_BlockVer b) = 12"
    by (simp add: rec_header_len_def RECHDR2_LENGTH_def RECHDR3_LENGTH_def)
  have "12 \<le> r_remlen rec" using assms(3) length_rest [OF assms(1)] assms(2) by (simp add: u32_le)
  moreover have "\<not> b_adata b" using assms(1) by (simp add: rinv_def)
  moreover have "\<not> fragment_ok (header_rec dev rec len) b st"
    using assms(4) by (simp add: fragment_ok_def header_rec_def)
  from accept_header_mismatch [OF this, of fi] obtain bits where
    "accept_header (header_rec dev rec len) (b_VolSessionId b) (b_VolSessionTime b) fi st =
      (False, (header_rec dev rec len)\<lparr>r_state_bits := (r_state_bits (header_rec dev rec len) OR bits) OR REC_NO_MATCH\<rparr>)"
    by (auto simp: or.assoc)
  ultimately have "read_header big mem dev b rec = Inr (False, b\<lparr>b_bufp := b_bufp b + 12, b_binbuf := b_binbuf b - 12\<rparr>,
     (header_rec dev rec len)\<lparr>r_state_bits := (r_state_bits (header_rec dev rec len) OR bits) OR REC_NO_MATCH\<rparr>, [])"
    using unser_rec_header_rest [OF assms(1,2), of big]
    by (simp add: read_header_def hl Let_def header_rec_def)
  then show ?thesis by blast
qed

text \<open>An accepted header that announces too much data: the block is discarded with a warning.\<close>

lemma read_header_too_long:
  assumes "rinv b" "rest b = rec_header fi st len @ bs" "r_remlen rec = b_binbuf b" "fragment_ok rec b st"
    and "\<not> len < MAX_BLOCK_LENGTH"
  shows "\<exists>b' r'. read_header big mem dev b rec = Inr (False, empty_block b', r', [M_WARNING])"
proof -
  have hl: "rec_header_len (b_BlockVer b) = 12"
    by (simp add: rec_header_len_def RECHDR2_LENGTH_def RECHDR3_LENGTH_def)
  have "12 \<le> r_remlen rec" using assms(3) length_rest [OF assms(1)] assms(2) by (simp add: u32_le)
  moreover have "\<not> b_adata b" using assms(1) by (simp add: rinv_def)
  moreover have "fragment_ok (header_rec dev rec len) b st"
    using assms(4) by (simp add: fragment_ok_def header_rec_def)
  then obtain r1 where "accept_header (header_rec dev rec len) (b_VolSessionId b) (b_VolSessionTime b) fi st = (True, r1)"
    "r_data_bytes r1 = len"
    by (rule accept_header_ok [where fi = fi]) (simp add: header_rec_def)
  ultimately show ?thesis
    using unser_rec_header_rest [OF assms(1,2), of big] assms(5)
    by (auto simp: read_header_def hl Let_def header_rec_def not_less)
qed

text \<open>A call that succeeds consumes a header and the data it reads, whatever the record and its buffer are.\<close>

lemma read_header_advances:
  assumes h: "read_header big mem dev b rec = Inr (True, b', rec', ms)" and b: "rinv b" "r_remlen rec = b_binbuf b"
  shows "rinv b' \<and> length (rest b') < length (rest b) \<and> r_remlen rec' = b_binbuf b' \<and> r_rstate rec' = st_data"
proof (cases "length (rest b) < 12")
  case True
  then show ?thesis using h read_header_end [OF b(1) _ b(2)] by simp
next
  case False
  then obtain fi st len where x: "rest b = rec_header fi st len @ drop 12 (rest b)" using any_rec_header [of "rest b"] by auto
  have ok: "fragment_ok rec b st" "len < MAX_BLOCK_LENGTH"
    using h read_header_mismatch [OF b(1) x b(2), of big mem dev] read_header_too_long [OF b(1) x b(2), of big mem dev] by auto
  from ok(1) have "fragment_ok (header_rec dev rec len) b st" by (simp add: fragment_ok_def header_rec_def)
  then obtain r1 where r1: "accept_header (header_rec dev rec len) (b_VolSessionId b) (b_VolSessionTime b) fi st = (True, r1)"
    "r_data_bytes r1 = len" "r_remlen r1 = r_remlen rec - 12"
    by (rule accept_header_ok [where fi = fi]) (simp add: header_rec_def)
  let ?b1 = "b\<lparr>b_bufp := b_bufp b + 12, b_binbuf := b_binbuf b - 12\<rparr>"
  have "rest ?b1 = drop 12 (rest b)" "rinv ?b1" using rest_advance [OF b(1) x, of 12 ?b1] by simp_all
  then show ?thesis
    using h read_header_accepted [OF b(1) x b(2) r1(1), of big mem] ok(2) r1(2,3) b(2) False by auto
qed

lemma take_data_advances:
  assumes t: "take_data b rec n = Inr (b', rec')" and b: "rinv b" "n \<le> b_binbuf b"
  shows "rinv b' \<and> length (rest b') \<le> length (rest b)"
proof -
  have b': "b' = b\<lparr>b_bufp := b_bufp b + unat n, b_binbuf := b_binbuf b - n\<rparr>"
    using t by (auto simp: take_data_def or_bad_access_def bind_res_def split: option.splits sum.splits prod.splits)
  have l: "length (take (unat n) (rest b)) = unat n" using b length_rest [OF b(1)] by (simp add: u32_le)
  show ?thesis using rest_advance [OF b(1) append_take_drop_id [symmetric] l b'] by simp
qed

lemma read_record_advances:
  assumes r: "read_record_from_block big mem dev vol b rec = Inr (True, b', rec', ms)"
    and b: "rinv b" and st: "r_rstate rec = st_none \<or> r_rstate rec = st_header"
  shows "rinv b' \<and> length (rest b') < length (rest b) \<and> r_rstate rec' = st_header"
proof -
  let ?b = "b\<lparr>b_RecNum := b_RecNum b + 1\<rparr>" and ?r = "entry_rec vol b rec"
  have b0: "rinv ?b" "rest ?b = rest b" "r_remlen ?r = b_binbuf ?b"
    using b by (simp_all add: rinv_def rest_def)
  have "(case read_header big mem dev ?b ?r of Inl e \<Rightarrow> Inl e
      | Inr (ok, block, rec, ms) \<Rightarrow> if \<not> ok then Inr (False, block, rec\<lparr>r_rstate := st_none\<rparr>, ms)
          else read_record_loop big mem dev block rec) = Inr (True, b', rec', ms)"
    using r st by (auto simp: read_record_from_block_def entry_rec_def Let_def read_record_loop.simps [of big mem dev ?b])
  then obtain b1 r1 ms1 where h: "read_header big mem dev ?b ?r = Inr (True, b1, r1, ms1)"
    and l: "read_record_loop big mem dev b1 r1 = Inr (True, b', rec', ms)"
    by (auto split: sum.splits if_splits)
  note a = read_header_advances [OF h b0(1,3), unfolded b0(2)]
  obtain b2 r2 where d: "read_data b1 r1 = Inr (b2, r2)" "b' = b2" "rec' = r2\<lparr>r_rstate := st_header\<rparr>"
    using l a by (auto simp: read_record_loop.simps [of big mem dev b1] bind_res_def split: sum.splits)
  obtain n r3 where "take_data b1 r1 n = Inr (b2, r3)" "n \<le> b_binbuf b1"
    using d(1) a by (auto simp: read_data_def bind_res_def split: if_splits sum.splits)
  then show ?thesis using take_data_advances [of b1 r1 n b2 r3] a d(2,3) by auto
qed

section \<open>Properties\<close>



text \<open>
  C22 (read_record_other_session). While a record is being continued, a header of another session, or a
  continuation of another stream, is not taken: the call fails, sets the no-match bit and leaves the
  data collected so far, the stream and the file index of the record as they were.
\<close>

theorem read_record_other_session:
  assumes "rinv b" and "rest b = rec_header fi st len @ bs" and "rec_inv rec" and "r_remainder rec \<noteq> 0"
    and "r_VolSessionId rec \<noteq> b_VolSessionId b \<or> r_VolSessionTime rec \<noteq> b_VolSessionTime b \<or>
         sint st < 0 \<and> r_Stream rec \<noteq> - st"
  shows "\<exists>b' rec'. read_record_from_block big mem dev vol b rec = Inr (False, b', rec', []) \<and>
     r_state_bits rec' AND REC_NO_MATCH \<noteq> 0 \<and> got rec' = got rec \<and> r_Stream rec' = r_Stream rec \<and>
     r_FileIndex rec' = r_FileIndex rec \<and> r_remainder rec' = r_remainder rec"
proof -
  let ?b = "b\<lparr>b_RecNum := b_RecNum b + 1\<rparr>" and ?r = "entry_rec vol b rec"
  have b0: "rinv ?b" "rest ?b = rec_header fi st len @ bs" "r_remlen ?r = b_binbuf ?b" "\<not> fragment_ok ?r ?b st"
    using assms by (auto simp: rinv_def rest_def fragment_ok_def)
  obtain bits b' where "read_header big mem dev ?b ?r =
      Inr (False, b', (header_rec dev ?r len)\<lparr>r_state_bits := bits OR REC_NO_MATCH\<rparr>, [])"
    using read_header_mismatch [OF b0, of big mem dev] by blast
  from read_record_rejected [OF assms(3) this] show ?thesis
    by (simp add: got_def header_rec_def REC_NO_MATCH_def bit.conj_disj_distrib2)
qed

text \<open>
  A record header in a BB01 block has 20 bytes; the reader decodes all of them
  but moves on by 12 only, so it takes the last eight bytes of the header for data.
\<close>

theorem bb01_record_misread:
  fixes sid stime :: u32
  assumes "b_BlockVer b = 1" and "\<not> b_adata b" and "r_remlen rec = b_binbuf b" and "20 \<le> unat (b_binbuf b)"
    and "b_bufp b + unat (b_binbuf b) \<le> length (b_buf b)" and "r_remainder rec = 0" and "0 \<le> sint st"
    and "rest b = be_bytes 4 sid @ be_bytes 4 stime @ rec_header fi st len @ ds" and "len < MAX_BLOCK_LENGTH"
  shows "\<exists>b' rec'. read_header big mem dev b rec = Inr (True, b', rec', []) \<and>
     r_VolSessionId rec' = sid \<and> r_FileIndex rec' = fi \<and> r_Stream rec' = st \<and>
     rest b' = drop 4 (rec_header fi st len) @ ds"
proof -
  have hl: "rec_header_len (b_BlockVer b) = 12"
    by (simp add: rec_header_len_def RECHDR2_LENGTH_def RECHDR3_LENGTH_def)
  have sl: "buf_slice (b_buf b) (b_bufp b + k) 4 = buf_slice (rest b) k 4" if "k \<le> 16" for k
    using that assms(4) by (simp add: rest_def buf_slice_def drop_take min_def add.commute)
  have un: "unser_rec_header big b = Some ((sid, stime, fi, st, len), (b_buf b, b_bufp b + 20))"
    using assms(1,4,5,8) sl [of 0] sl [of 4] sl [of 8] sl [of 12] sl [of 16]
    by (simp add: unser_rec_header_def uint32.unser_slice int32.unser_slice rec_header_def add.assoc add.commute)
  let ?r0 = "header_rec dev rec len"
  let ?r1 = "?r0\<lparr>r_Stream := st, r_data_len := 0, r_maskedStream := st AND STREAMMASK_TYPE,
      r_VolSessionId := sid, r_VolSessionTime := stime, r_FileIndex := fi\<rparr>"
  let ?b1 = "b\<lparr>b_bufp := b_bufp b + 12, b_binbuf := b_binbuf b - 12\<rparr>"
  have acc: "accept_header ?r0 sid stime fi st = (True, ?r1)"
    using assms(6,7) by (simp add: accept_header_def header_rec_def)
  have ge: "12 \<le> r_remlen rec" using assms(3,4) by (simp add: u32_le)
  have "\<exists>rec'. read_header big mem dev b rec = Inr (True, note_file_index ?b1 ?r1, rec', []) \<and>
      r_VolSessionId rec' = sid \<and> r_FileIndex rec' = fi \<and> r_Stream rec' = st"
    using assms(2,9) un acc ge by (simp add: read_header_def hl Let_def header_rec_def not_le)
  moreover have "unat (b_binbuf b - 12) = unat (b_binbuf b) - 12"
    using assms(4) by (subst unat_sub) (auto simp: u32_le)
  then have "rest ?b1 = drop 12 (rest b)"
    by (simp add: rest_def buf_slice_def drop_take add.commute)
  then have "rest ?b1 = drop 4 (rec_header fi st len) @ ds"
    using assms(8) by simp
  ultimately show ?thesis by auto
qed

section \<open>Instances\<close>

definition read_block :: "u8 list \<Rightarrow> dev_block" where
  "read_block bytes = (new_block (\<lambda>n. replicate n 0) sample_dev 64)\<lparr>b_buf := replicate 32 0 @ bytes, b_bufp := 32,
     b_binbuf := of_nat (length bytes), b_VolSessionId := 3, b_VolSessionTime := 5\<rparr>"

lemma read_block_facts:
  assumes "length bytes < 1000"
  shows "rinv (read_block bytes)" "rest (read_block bytes) = bytes"
    "b_VolSessionId (read_block bytes) = 3" "b_VolSessionTime (read_block bytes) = 5"
  using assms
  by (simp_all add: read_block_def rinv_def rest_def new_block_def empty_block_def BLOCK_VER_def unat_of_nat_u32 Let_def)

lemma holds_read_blocks:
  assumes "frs \<noteq> []" and "list_all (\<lambda>f. length f < 1000) frs"
  shows "holds (map read_block frs) 3 5 frs []"
proof -
  have "map (rest \<circ> read_block) frs = frs"
    using assms(2) by (intro map_idI) (auto simp: list_all_iff read_block_facts)
  then show ?thesis
    using assms by (auto simp: holds_def list_all_iff read_block_facts)
qed

definition sample_empty :: dev_record where
  "sample_empty = new_record []"

lemma sample_empty_facts: "rec_inv sample_empty" "r_remainder sample_empty = 0" "r_data_len sample_empty = 0"
  by (simp_all add: sample_empty_def new_record_def rec_inv_def)



theorem read_record_other_session_witness:
  "\<exists>b' rec'. read_record_from_block False (\<lambda>n. replicate n 0) sample_dev ''Vol1''
       (read_block (rec_header 1 2 3 @ [1, 2, 3])) (sample_empty\<lparr>r_remainder := 1, r_VolSessionId := 9\<rparr>) =
     Inr (False, b', rec', []) \<and> r_state_bits rec' AND REC_NO_MATCH \<noteq> 0"
proof -
  let ?b = "read_block (rec_header 1 2 3 @ [1, 2, 3])" and ?r = "sample_empty\<lparr>r_remainder := 1, r_VolSessionId := 9\<rparr>"
  have b: "rinv ?b" "rest ?b = rec_header 1 2 3 @ [1, 2, 3]" "b_VolSessionId ?b = 3"
    by (simp_all add: read_block_facts)
  have r: "rec_inv ?r" "r_remainder ?r \<noteq> 0" "r_VolSessionId ?r \<noteq> b_VolSessionId ?b"
    using b(3) by (simp_all add: sample_empty_def new_record_def rec_inv_def)
  show ?thesis
    using read_record_other_session [OF b(1,2) r(1,2), of False "\<lambda>n. replicate n 0" sample_dev "''Vol1''"] r(3) by blast
qed

theorem bb01_record_misread_witness:
  "\<exists>b' rec'. read_header False (\<lambda>n. replicate n 0) sample_dev
       ((read_block (be_bytes 4 (7 :: u32) @ be_bytes 4 (8 :: u32) @ rec_header 1 2 3 @ [1, 2, 3]))\<lparr>b_BlockVer := 1\<rparr>)
       (sample_empty\<lparr>r_remlen := 23\<rparr>) = Inr (True, b', rec', []) \<and>
     rest b' = drop 4 (rec_header 1 2 3) @ [1, 2, 3]"
proof -
  let ?bytes = "be_bytes 4 (7 :: u32) @ be_bytes 4 (8 :: u32) @ rec_header 1 2 3 @ [1, 2, 3]"
  let ?b = "(read_block ?bytes)\<lparr>b_BlockVer := 1\<rparr>" and ?r = "sample_empty\<lparr>r_remlen := 23\<rparr>"
  have b: "b_BlockVer ?b = 1" "\<not> b_adata ?b" "b_binbuf ?b = 23" "b_bufp ?b = 32" "b_buf ?b = replicate 32 0 @ ?bytes"
    by (simp_all add: read_block_def new_block_def empty_block_def Let_def)
  have "rest ?b = ?bytes"
    unfolding rest_def b(3-5) by (simp add: buf_slice_def)
  then show ?thesis
    using bb01_record_misread [of ?b ?r 2 7 8 1 3 "[1, 2, 3]" False "\<lambda>n. replicate n 0" sample_dev] b
    by (auto simp: sample_empty_def new_record_def MAX_BLOCK_LENGTH_def)
qed

end
