(* ===== verification/Block_Read.thy ===== *)
theory Block_Read
  imports Block_IO Record_Read
begin

text \<open>
  Reading a block from the device: \<^verbatim>\<open>DCR::read_block_from_device\<close> and
  \<^verbatim>\<open>DCR::read_block_from_dev\<close> of \<^verbatim>\<open>src/bacula/src/stored/block.c\<close>, for a
  device of the base class or a tape that is not a FIFO.  The jumps to the label
  \<^verbatim>\<open>reread\<close> are calls of a loop that may run forever, \<open>None\<close>.
\<close>

section \<open>State\<close>

definition EINTR :: int where "EINTR = 4"

text \<open>
  The system: \<open>i_read\<close> gives \<^verbatim>\<open>errno\<close> or the bytes read, \<open>i_lseek_cur\<close> and
  \<open>i_lseek_set\<close> the two uses of \<^verbatim>\<open>lseek\<close>.  \<open>i_adata\<close> tells a device of
  aligned data, whose blocks have no header; \<open>i_bacula_labels\<close> says that both the
  Volume and the device have labels in Bacula's own format.
\<close>

record 'os read_ops =
  i_env :: blk_env
  i_mem :: "nat \<Rightarrow> u8 list"
  i_read :: "'os \<Rightarrow> nat \<Rightarrow> (int + u8 list) \<times> 'os"
  i_lseek_cur :: "'os \<Rightarrow> u64"
  i_lseek_set :: "u64 \<Rightarrow> 'os \<Rightarrow> 'os"
  i_tape_bsr :: "'os wdcr \<Rightarrow> bool \<times> 'os wdcr"
  i_bacula_labels :: bool
  i_adata :: bool

datatype 'os rstep = Done bool "'os wdcr" | Reread nat "'os wdcr"

section \<open>Operations\<close>

definition updateVolCatReads :: "u32 \<Rightarrow> 'os wdcr \<Rightarrow> 'os wdcr" where
  "updateVolCatReads reads d =
     setVolCatInfo False (w_vol_update (\<lambda>v. v\<lparr>v_VolCatReads := v_VolCatReads v + reads\<rparr>) d)"

definition updateVolCatReadBytes :: "u64 \<Rightarrow> 'os wdcr \<Rightarrow> 'os wdcr" where
  "updateVolCatReadBytes bytes d =
     setVolCatInfo False (w_vol_update (\<lambda>v. v\<lparr>v_VolCatRBytes := v_VolCatRBytes v + bytes\<rparr>) d)"

definition set_block_position :: "'os wdcr \<Rightarrow> 'os wdcr" where
  "set_block_position d = c_block_update (\<lambda>b. b\<lparr>b_BlockAddr := get_full_addr d, b_RecNum := 0\<rparr>) d"

definition set_read_len :: "u32 \<Rightarrow> 'os wdcr \<Rightarrow> 'os wdcr" where
  "set_read_len n d = c_block_update (\<lambda>b. b\<lparr>b_read_len := n\<rparr>) d"

definition set_ateof :: "'os wdcr \<Rightarrow> 'os wdcr" where
  "set_ateof d = w_st_update (\<lambda>s. s\<lparr>s_EOF := True, s_file_addr := 0, s_file_size := 0, s_block_num := 0\<rparr>) d"

definition eof_is_eot :: "'os wdcr \<Rightarrow> 'os wdcr" where
  "eof_is_eot d = (if s_EOF (w_st d) then w_st_update (\<lambda>s. s\<lparr>s_EOT := True\<rparr>) d else d)"

fun read_retry :: "('os \<Rightarrow> nat \<Rightarrow> (int + u8 list) \<times> 'os) \<Rightarrow> nat \<Rightarrow> 'os \<Rightarrow> nat \<Rightarrow> (int + u8 list) \<times> 'os" where
  "read_retry r 0 os n = r os n"
| "read_retry r (Suc k) os n =
     (case r os n of
        (Inl err, os') \<Rightarrow> if err = EBUSY \<or> err = EINTR \<or> err = EIO then read_retry r k os' n else (Inl err, os')
      | (Inr bs, os') \<Rightarrow> (Inr bs, os'))"

text \<open>A failed read, and the end of the file.\<close>

definition read_failed :: "int \<Rightarrow> 'os wdcr \<Rightarrow> 'os wdcr" where
  "read_failed err d = eof_is_eot (Jmsg M_ERROR (set_read_len 0 (set_dev_errno err d)))"

definition read_eof :: "'os read_ops \<Rightarrow> 'os wdcr \<Rightarrow> 'os wdcr" where
  "read_eof ops d =
     (let pos = i_lseek_cur ops (w_os d);
          d = set_ateof (eof_is_eot (set_read_len 0 d));
          d = w_dev_update (\<lambda>e. e\<lparr>d_EndAddr := pos\<rparr>) d
      in if w_EndAddr d < pos then d\<lparr>w_EndAddr := pos\<rparr> else d)"

text \<open>A block too short to be one is discarded.\<close>

definition discard_short :: "'os wdcr \<Rightarrow> 'os wdcr" where
  "discard_short d =
     c_block_update (\<lambda>b. b\<lparr>b_read_len := 0, b_binbuf := 0\<rparr>)
       (w_st_update (\<lambda>s. s\<lparr>s_SHORT := True\<rparr>) (Jmsg M_WARNING (set_dev_errno EIO d)))"

text \<open>The buffer is too small: position at the start of the block again and allocate a larger one.\<close>

definition grow_buffer :: "'os read_ops \<Rightarrow> nat \<Rightarrow> 'os wdcr \<Rightarrow> 'os rstep" where
  "grow_buffer ops looping d =
     (let d = Jmsg M_ERROR (set_dev_errno EIO d);
          len = b_block_len (c_block d);
          (ok, d) =
            (if d_is_tape (w_dev d) then i_tape_bsr ops d
             else
               (let pos = i_lseek_cur ops (w_os d) - ucast (b_read_len (c_block d))
                in (True, w_st_update (\<lambda>s. s\<lparr>s_file_addr := pos\<rparr>) (d\<lparr>w_os := i_lseek_set ops pos (w_os d)\<rparr>))))
      in if \<not> ok then Done False (set_read_len 0 (Jmsg M_ERROR d))
         else
           (let d = w_dev_update (\<lambda>e. e\<lparr>d_max_block_size := len\<rparr>) (Jmsg M_INFO d)
            in Reread (looping + 1)
                 (c_block_update (\<lambda>b. empty_block (b\<lparr>b_buf_len := len, b_buf := i_mem ops (unat len)\<rparr>)) d)))"

text \<open>A good block: counters, addresses, and on a disk the position of the next block.\<close>

definition note_read_addr :: "'os wdcr \<Rightarrow> 'os wdcr" where
  "note_read_addr d =
     (if d_is_tape (w_dev d) then
        (let ea = get_full_addr d;
             d = w_dev_update (\<lambda>e. e\<lparr>d_EndAddr := ea\<rparr>) d;
             d = (if w_EndAddr d < ea then d\<lparr>w_EndAddr := ea\<rparr> else d)
         in w_st_update (\<lambda>s. s\<lparr>s_block_num := s_block_num s + 1\<rparr>) d)
      else
        (let len = (if b_read_len (c_block d) < b_block_len (c_block d) then b_read_len (c_block d) else b_block_len (c_block d));
             addr = get_full_addr d + ucast len - 1;
             d = (if w_EndAddr d < addr then d\<lparr>w_EndAddr := addr\<rparr> else d)
         in w_dev_update (\<lambda>e. e\<lparr>d_EndAddr := addr\<rparr>) d))"

definition seek_next_block :: "'os read_ops \<Rightarrow> 'os wdcr \<Rightarrow> 'os wdcr" where
  "seek_next_block ops d =
     (if b_block_len (c_block d) < b_read_len (c_block d) \<and> \<not> d_is_tape (w_dev d) then
        (let pos = i_lseek_cur ops (w_os d) - ucast (b_read_len (c_block d) - b_block_len (c_block d))
         in w_st_update (\<lambda>s. s\<lparr>s_file_addr := pos, s_file_size := pos\<rparr>) (d\<lparr>w_os := i_lseek_set ops pos (w_os d)\<rparr>))
      else d)"

definition accept_block :: "'os read_ops \<Rightarrow> 'os wdcr \<Rightarrow> 'os wdcr" where
  "accept_block ops d =
     (let d = w_st_update (\<lambda>s. s\<lparr>s_SHORT := False, s_EOF := False\<rparr>) d;
          n = b_read_len (c_block d);
          d = updateVolCatReadBytes (ucast n) (updateVolCatReads 1 d);
          d = note_read_addr d;
          d = d\<lparr>w_VolMediaId := v_VolMediaId (w_vol d)\<rparr>;
          d = w_st_update (\<lambda>s. s\<lparr>s_file_addr := s_file_addr s + ucast n, s_file_size := s_file_size s + ucast n,
                                s_usage := s_usage s + ucast n\<rparr>) d;
          d = seek_next_block ops d
      in c_block_update (\<lambda>b. b\<lparr>b_block_read := True\<rparr>) d)"

text \<open>The tests of the length, the last ones before a block is taken.\<close>

definition check_length :: "'os read_ops \<Rightarrow> nat \<Rightarrow> 'os wdcr \<Rightarrow> 'os rstep" where
  "check_length ops looping d =
     (if b_buf_len (c_block d) < b_block_len (c_block d) then grow_buffer ops looping d
      else if b_read_len (c_block d) < b_block_len (c_block d) then Done False (discard_short d)
      else Done True (accept_block ops d))"

text \<open>What is done with the bytes read, up to the result or the next jump to \<^verbatim>\<open>reread\<close>.\<close>

definition check_block :: "'os read_ops \<Rightarrow> nat \<Rightarrow> 'os wdcr \<Rightarrow> fault + 'os rstep" where
  "check_block ops looping d =
     (if b_adata (c_block d) then
        Inr (check_length ops looping
          (c_block_update (\<lambda>b. b\<lparr>b_binbuf := b_read_len b, b_block_len := b_read_len b\<rparr>) d))
      else if b_read_len (c_block d) = 80 \<and> \<not> i_bacula_labels ops then
        Inr (Reread looping (w_st_update (\<lambda>s. s\<lparr>s_EOF := False\<rparr>) d))
      else if b_read_len (c_block d) < of_nat BLKHDR2_LENGTH then Inr (Done False (discard_short d))
      else
        (case unser_block_header (i_env ops) (w_dev d) (c_block d) of
           None \<Rightarrow> Inl BAD_ACCESS
         | Some (ok, block, dev, msgs) \<Rightarrow>
             (let status = j_canceled (w_jcr d);
                  d = fold Jmsg msgs (d\<lparr>c_block := block, w_dev := dev\<rparr>)
              in if \<not> ok then
                   (if e_forge_on (i_env ops) then
                      (let d = w_st_update (\<lambda>s. s\<lparr>s_file_addr := s_file_addr s + 1, s_file_size := s_file_size s + 1\<rparr>) d;
                           d = w_jcr_update (\<lambda>j. j\<lparr>j_canceled := status\<rparr>) d;
                           d = set_block_position d
                       in Inr (Reread looping (d\<lparr>w_os := i_lseek_set ops (b_BlockAddr (c_block d)) (w_os d)\<rparr>)))
                    else Inr (Done False d))
                 else Inr (check_length ops looping d))))"

text \<open>A device of the base class has no parts.\<close>

definition open_next_part :: "'os wdcr \<Rightarrow> bool" where
  "open_next_part d = True"

definition read_block_step :: "'os read_ops \<Rightarrow> nat \<Rightarrow> 'os wdcr \<Rightarrow> fault + 'os rstep" where
  "read_block_step ops looping d =
     (if 1 < looping then Inr (Done False (set_read_len 0 (Jmsg M_ERROR (set_dev_errno EIO d))))
      else if s_EOF (w_st d) \<and> \<not> open_next_part d then Inr (Done False (eof_is_eot d))
      else
        (let start = (if i_adata ops then i_lseek_set ops (b_BlockAddr (c_block d)) (w_os d) else w_os d)
         in case read_retry (i_read ops) 3 start (unat (b_buf_len (c_block d))) of
           (Inl err, os) \<Rightarrow> Inr (Done False (read_failed err (d\<lparr>w_os := os\<rparr>)))
         | (Inr bs, os) \<Rightarrow>
             (if bs = [] then Inr (Done False (read_eof ops (d\<lparr>w_os := os\<rparr>)))
              else
                (case put bs (b_buf (c_block d), 0) of
                   None \<Rightarrow> Inl BAD_ACCESS
                 | Some (buf, _) \<Rightarrow>
                     check_block ops looping
                       (c_block_update (\<lambda>b. b\<lparr>b_buf := buf, b_read_len := of_nat (length bs)\<rparr>) (d\<lparr>w_os := os\<rparr>))))))"

partial_function (option) read_block_loop :: "'os read_ops \<Rightarrow> nat \<Rightarrow> 'os wdcr \<Rightarrow> (fault + (bool \<times> 'os wdcr)) option" where
  "read_block_loop ops looping d =
     (case read_block_step ops looping d of
        Inl f \<Rightarrow> Some (Inl f)
      | Inr (Done ok d') \<Rightarrow> Some (Inr (ok, d'))
      | Inr (Reread l d') \<Rightarrow> read_block_loop ops l d')"

definition read_block_from_dev :: "'os read_ops \<Rightarrow> 'os wdcr \<Rightarrow> (fault + (bool \<times> 'os wdcr)) option" where
  "read_block_from_dev ops d =
     (if j_canceled (w_jcr d) then Some (Inr (False, set_read_len 0 d))
      else if \<not> s_enabled (w_st d) then Some (Inr (False, Jmsg M_FATAL d))
      else if s_EOT (w_st d) then Some (Inr (False, set_read_len 0 d))
      else if \<not> s_is_open (w_st d) then Some (Inr (False, set_read_len 0 (Jmsg M_FATAL d)))
      else read_block_loop ops 0 (set_block_position d))"

section \<open>The loop ends\<close>

lemma check_block_reread:
  assumes "check_block ops l d = Inr (Reread l' d')" and "i_bacula_labels ops" and "\<not> e_forge_on (i_env ops)"
  shows "l' = l + 1"
  using assms
  by (auto simp: check_block_def check_length_def grow_buffer_def Let_def split: if_splits option.splits prod.splits)

lemma read_block_step_reread:
  assumes "read_block_step ops l d = Inr (Reread l' d')" and "i_bacula_labels ops" and "\<not> e_forge_on (i_env ops)"
  shows "l' = l + 1 \<and> l \<le> 1"
  using assms check_block_reread [OF _ assms(2,3)]
  by (auto simp: read_block_step_def Let_def split: if_splits sum.splits option.splits prod.splits)

text \<open>The loop cut off after \<open>n\<close> passes through the label, \<open>None\<close> when it would pass once more.\<close>

fun read_passes :: "'os read_ops \<Rightarrow> nat \<Rightarrow> nat \<Rightarrow> 'os wdcr \<Rightarrow> (fault + (bool \<times> 'os wdcr)) option" where
  "read_passes ops 0 looping d = None"
| "read_passes ops (Suc n) looping d =
     (case read_block_step ops looping d of
        Inl f \<Rightarrow> Some (Inl f)
      | Inr (Done ok d') \<Rightarrow> Some (Inr (ok, d'))
      | Inr (Reread l d') \<Rightarrow> read_passes ops n l d')"

lemma read_block_loop_passes:
  assumes "i_bacula_labels ops" and "\<not> e_forge_on (i_env ops)"
  shows "3 \<le> l + n \<Longrightarrow> 0 < n \<Longrightarrow> \<exists>r. read_passes ops n l d = Some r \<and> read_block_loop ops l d = Some r"
proof (induction n arbitrary: l d)
  case 0
  then show ?case by simp
next
  case (Suc n)
  show ?case
  proof (cases "read_block_step ops l d")
    case (Inr st)
    then show ?thesis
    proof (cases st)
      case (Reread l' d')
      with read_block_step_reread [OF _ assms] Inr have "3 \<le> l' + n" "0 < n" using Suc.prems by fastforce+
      from Suc.IH [OF this, of d'] show ?thesis
        using Inr Reread by (simp add: read_block_loop.simps [of ops l d])
    qed (simp add: read_block_loop.simps [of ops l d])
  qed (simp add: read_block_loop.simps [of ops l d])
qed

text \<open>
  C29 (read_block_returns).  With Bacula's own labels and without forged reading \<^verbatim>\<open>read_block_from_dev\<close> returns,
  whatever the device delivers.  A canceled job, a disabled or closed device and the end of the tape give false without
  a read.  Otherwise the routine passes the label \<^verbatim>\<open>reread\<close> at most three times, that is it
  jumps back, with a larger buffer, at most twice: the result is that of the loop cut off after three passes.  (It may be
  a fault, where the system returns more bytes than it was asked for or the header lies beyond the buffer.)
\<close>
theorem read_block_returns:
  assumes "i_bacula_labels ops" and "\<not> e_forge_on (i_env ops)"
  shows "if j_canceled (w_jcr d) \<or> \<not> s_enabled (w_st d) \<or> s_EOT (w_st d) \<or> \<not> s_is_open (w_st d)
    then \<exists>d'. read_block_from_dev ops d = Some (Inr (False, d')) \<and> w_os d' = w_os d
    else \<exists>r. read_passes ops 3 0 (set_block_position d) = Some r \<and> read_block_from_dev ops d = Some r"
  using read_block_loop_passes [OF assms, of 0 3 "set_block_position d"]
  by (auto simp: read_block_from_dev_def set_read_len_def Jmsg_def)

section \<open>Reading from a file\<close>

text \<open>The system as one file and a position in it.\<close>

record file_os =
  f_bytes :: "u8 list"
  f_pos :: nat

definition file_read :: "file_os \<Rightarrow> nat \<Rightarrow> (int + u8 list) \<times> file_os" where
  "file_read f n = (let bs = take n (drop (f_pos f) (f_bytes f)) in (Inr bs, f\<lparr>f_pos := f_pos f + length bs\<rparr>))"

definition file_ops :: "blk_env \<Rightarrow> file_os read_ops" where
  "file_ops env =
     \<lparr>i_env = env, i_mem = (\<lambda>n. replicate n 0), i_read = file_read, i_lseek_cur = (\<lambda>f. of_nat (f_pos f)),
      i_lseek_set = (\<lambda>p f. f\<lparr>f_pos := unat p\<rparr>), i_tape_bsr = (\<lambda>d. (False, d)), i_bacula_labels = True,
      i_adata = False\<rparr>"

text \<open>A job that can read from a disk.\<close>

definition reader :: "file_os wdcr \<Rightarrow> bool" where
  "reader d \<longleftrightarrow> \<not> j_canceled (w_jcr d) \<and> s_enabled (w_st d) \<and> \<not> s_EOT (w_st d) \<and> s_is_open (w_st d) \<and>
     \<not> d_is_tape (w_dev d) \<and> \<not> b_adata (c_block d) \<and> \<not> b_no_header (c_block d) \<and>
     length (b_buf (c_block d)) = unat (b_buf_len (c_block d)) \<and> length (f_bytes (w_os d)) < 2 ^ 64"

lemma file_read_retry: "read_retry file_read k f n = file_read f n"
  by (cases k) (simp_all add: file_read_def Let_def)

text \<open>The position on a file survives the passage through the 64 bit addresses.\<close>

lemma seek_back:
  assumes "m \<le> p" and "p < 2 ^ 64" and "unat x = m"
  shows "unat ((of_nat p :: u64) - ucast (x :: u32)) = p - m"
proof -
  have x: "unat (ucast x :: u64) = m" using assms(3) unsigned_less [of x, where ?'a = nat]
    by (simp add: unsigned_ucast_eq take_bit_nat_eq_self_iff)
  have p: "unat (of_nat p :: u64) = p" using assms(2) by (simp add: unsigned_of_nat take_bit_nat_eq_self_iff)
  have "(ucast x :: u64) \<le> of_nat p" using assms(1) x p by (simp add: word_le_nat_alt)
  then show ?thesis using x p by (simp add: unat_sub)
qed


lemma seek_next_block_file:
  assumes "\<not> d_is_tape (w_dev d)" and "unat (b_block_len (c_block d)) \<le> unat (b_read_len (c_block d))"
    and "unat (b_read_len (c_block d)) \<le> f_pos (w_os d)" and "f_pos (w_os d) < 2 ^ 64"
  shows "w_os (seek_next_block (file_ops env) d) =
      (w_os d)\<lparr>f_pos := f_pos (w_os d) - (unat (b_read_len (c_block d)) - unat (b_block_len (c_block d)))\<rparr>"
    and "c_block (seek_next_block (file_ops env) d) = c_block d" "w_dev (seek_next_block (file_ops env) d) = w_dev d"
      "w_jcr (seek_next_block (file_ops env) d) = w_jcr d" "s_enabled (w_st (seek_next_block (file_ops env) d)) = s_enabled (w_st d)"
      "s_EOT (w_st (seek_next_block (file_ops env) d)) = s_EOT (w_st d)"
      "s_is_open (w_st (seek_next_block (file_ops env) d)) = s_is_open (w_st d)"
proof -
  have "unat (b_read_len (c_block d) - b_block_len (c_block d)) = unat (b_read_len (c_block d)) - unat (b_block_len (c_block d))"
    using assms(2) by (simp add: unat_sub word_le_nat_alt)
  from seek_back [OF _ assms(4) this] have "unat ((of_nat (f_pos (w_os d)) :: u64) -
      ucast (b_read_len (c_block d) - b_block_len (c_block d))) =
      f_pos (w_os d) - (unat (b_read_len (c_block d)) - unat (b_block_len (c_block d)))"
    using assms(3) by simp
  then show "w_os (seek_next_block (file_ops env) d) =
      (w_os d)\<lparr>f_pos := f_pos (w_os d) - (unat (b_read_len (c_block d)) - unat (b_block_len (c_block d)))\<rparr>"
    using assms(1,2) by (auto simp: seek_next_block_def file_ops_def Let_def word_less_nat_alt)
qed (simp_all add: seek_next_block_def Let_def)

lemma note_read_addr_frame:
  assumes "\<not> d_is_tape (w_dev d)"
  shows "w_os (note_read_addr d) = w_os d" "c_block (note_read_addr d) = c_block d" "w_st (note_read_addr d) = w_st d"
    "w_jcr (note_read_addr d) = w_jcr d" "w_dev (note_read_addr d) = (w_dev d)\<lparr>d_EndAddr := d_EndAddr (w_dev (note_read_addr d))\<rparr>"
    "d_is_tape (w_dev (note_read_addr d)) = d_is_tape (w_dev d)"
  using assms by (simp_all add: note_read_addr_def Let_def)

lemma accept_block_file:
  assumes "\<not> d_is_tape (w_dev d)" and "unat (b_block_len (c_block d)) \<le> unat (b_read_len (c_block d))"
    and "unat (b_read_len (c_block d)) \<le> f_pos (w_os d)" and "f_pos (w_os d) < 2 ^ 64"
  shows "w_os (accept_block (file_ops env) d) =
      (w_os d)\<lparr>f_pos := f_pos (w_os d) - (unat (b_read_len (c_block d)) - unat (b_block_len (c_block d)))\<rparr>"
    and "c_block (accept_block (file_ops env) d) = (c_block d)\<lparr>b_block_read := True\<rparr>"
    and "w_jcr (accept_block (file_ops env) d) = w_jcr d"
    and "w_dev (accept_block (file_ops env) d) = (w_dev d)\<lparr>d_EndAddr := d_EndAddr (w_dev (accept_block (file_ops env) d))\<rparr>"
    and "s_enabled (w_st (accept_block (file_ops env) d)) = s_enabled (w_st d)"
    and "s_EOT (w_st (accept_block (file_ops env) d)) = s_EOT (w_st d)"
    and "s_is_open (w_st (accept_block (file_ops env) d)) = s_is_open (w_st d)"
proof -
  define d1 where "d1 = updateVolCatReadBytes (ucast (b_read_len (c_block d)))
      (updateVolCatReads 1 (w_st_update (\<lambda>s. s\<lparr>s_SHORT := False, s_EOF := False\<rparr>) d))"
  define d2 where "d2 = w_st_update (\<lambda>s. s\<lparr>s_file_addr := s_file_addr s + ucast (b_read_len (c_block d)),
      s_file_size := s_file_size s + ucast (b_read_len (c_block d)), s_usage := s_usage s + ucast (b_read_len (c_block d))\<rparr>)
      ((note_read_addr d1)\<lparr>w_VolMediaId := v_VolMediaId (w_vol (note_read_addr d1))\<rparr>)"
  have eq: "accept_block (file_ops env) d = c_block_update (\<lambda>b. b\<lparr>b_block_read := True\<rparr>) (seek_next_block (file_ops env) d2)"
    by (simp add: accept_block_def Let_def d1_def d2_def)
  have d1: "w_os d1 = w_os d" "c_block d1 = c_block d" "w_jcr d1 = w_jcr d" "w_dev d1 = w_dev d"
    "s_enabled (w_st d1) = s_enabled (w_st d)" "s_EOT (w_st d1) = s_EOT (w_st d)" "s_is_open (w_st d1) = s_is_open (w_st d)"
    by (simp_all add: d1_def updateVolCatReadBytes_def updateVolCatReads_def setVolCatInfo_def)
  have t1: "\<not> d_is_tape (w_dev d1)" using assms(1) d1(4) by simp
  note nf = note_read_addr_frame [OF t1]
  have d2: "w_os d2 = w_os d" "c_block d2 = c_block d" "w_jcr d2 = w_jcr d" "w_dev d2 = (w_dev d)\<lparr>d_EndAddr := d_EndAddr (w_dev d2)\<rparr>"
    "s_enabled (w_st d2) = s_enabled (w_st d)" "s_EOT (w_st d2) = s_EOT (w_st d)" "s_is_open (w_st d2) = s_is_open (w_st d)"
    "\<not> d_is_tape (w_dev d2)"
    using nf d1 t1 by (simp_all add: d2_def)
  note sn = seek_next_block_file [of d2, unfolded d2(1,2), OF d2(8) assms(2-4), of env]
  show "w_os (accept_block (file_ops env) d) =
      (w_os d)\<lparr>f_pos := f_pos (w_os d) - (unat (b_read_len (c_block d)) - unat (b_block_len (c_block d)))\<rparr>"
    "c_block (accept_block (file_ops env) d) = (c_block d)\<lparr>b_block_read := True\<rparr>"
    "w_jcr (accept_block (file_ops env) d) = w_jcr d"
    "s_enabled (w_st (accept_block (file_ops env) d)) = s_enabled (w_st d)"
    "s_EOT (w_st (accept_block (file_ops env) d)) = s_EOT (w_st d)"
    "s_is_open (w_st (accept_block (file_ops env) d)) = s_is_open (w_st d)"
    using sn d2(3,5-7) by (simp_all add: eq)
  show "w_dev (accept_block (file_ops env) d) = (w_dev d)\<lparr>d_EndAddr := d_EndAddr (w_dev (accept_block (file_ops env) d))\<rparr>"
    using sn(3) d2(4) by (simp add: eq)
qed

text \<open>The address that the device keeps is the position in the file.\<close>

definition placed :: "file_os wdcr \<Rightarrow> bool" where
  "placed d \<longleftrightarrow> s_file_addr (w_st d) = of_nat (f_pos (w_os d))"

lemma accept_block_addr:
  assumes "\<not> d_is_tape (w_dev d)" and "unat (b_block_len (c_block d)) \<le> unat (b_read_len (c_block d))"
    and "unat (b_read_len (c_block d)) \<le> f_pos (w_os d)" and "f_pos (w_os d) < 2 ^ 64"
    and "s_file_addr (w_st d) = of_nat (f_pos (w_os d)) - ucast (b_read_len (c_block d))"
  shows "placed (accept_block (file_ops env) d)"
    and "d_EndAddr (w_dev (accept_block (file_ops env) d)) = s_file_addr (w_st d) + ucast (b_block_len (c_block d)) - 1"
    and "s_VolumeName (w_st (accept_block (file_ops env) d)) = s_VolumeName (w_st d)"
    and "\<not> s_EOF (w_st (accept_block (file_ops env) d))"
proof -
  define d1 where "d1 = updateVolCatReadBytes (ucast (b_read_len (c_block d)))
      (updateVolCatReads 1 (w_st_update (\<lambda>s. s\<lparr>s_SHORT := False, s_EOF := False\<rparr>) d))"
  define d2 where "d2 = w_st_update (\<lambda>s. s\<lparr>s_file_addr := s_file_addr s + ucast (b_read_len (c_block d)),
      s_file_size := s_file_size s + ucast (b_read_len (c_block d)), s_usage := s_usage s + ucast (b_read_len (c_block d))\<rparr>)
      ((note_read_addr d1)\<lparr>w_VolMediaId := v_VolMediaId (w_vol (note_read_addr d1))\<rparr>)"
  have eq: "accept_block (file_ops env) d = c_block_update (\<lambda>b. b\<lparr>b_block_read := True\<rparr>) (seek_next_block (file_ops env) d2)"
    by (simp add: accept_block_def Let_def d1_def d2_def)
  have d1: "w_os d1 = w_os d" "c_block d1 = c_block d" "w_dev d1 = w_dev d" "s_file_addr (w_st d1) = s_file_addr (w_st d)"
    "s_VolumeName (w_st d1) = s_VolumeName (w_st d)" "\<not> s_EOF (w_st d1)"
    by (simp_all add: d1_def updateVolCatReadBytes_def updateVolCatReads_def setVolCatInfo_def)
  have t1: "\<not> d_is_tape (w_dev d1)" using assms(1) d1(3) by simp
  have le: "\<not> b_read_len (c_block d) < b_block_len (c_block d)" using assms(2) by (simp add: word_less_nat_alt)
  have ea: "d_EndAddr (w_dev (note_read_addr d1)) = s_file_addr (w_st d) + ucast (b_block_len (c_block d)) - 1"
    using t1 le d1(2,4) by (auto simp: note_read_addr_def get_full_addr_def Let_def not_less)
  note nf = note_read_addr_frame [OF t1]
  have d2: "w_os d2 = w_os d" "c_block d2 = c_block d" "\<not> d_is_tape (w_dev d2)" "w_dev d2 = w_dev (note_read_addr d1)"
    "s_file_addr (w_st d2) = of_nat (f_pos (w_os d))" "s_VolumeName (w_st d2) = s_VolumeName (w_st d)" "\<not> s_EOF (w_st d2)"
    using nf d1 t1 assms(5) by (simp_all add: d2_def)
  note sn = seek_next_block_file [of d2, unfolded d2(1,2), OF d2(3) assms(2-4), of env]
  show "d_EndAddr (w_dev (accept_block (file_ops env) d)) = s_file_addr (w_st d) + ucast (b_block_len (c_block d)) - 1"
    using sn(3) d2(4) ea by (simp add: eq)
  show "s_VolumeName (w_st (accept_block (file_ops env) d)) = s_VolumeName (w_st d)" "\<not> s_EOF (w_st (accept_block (file_ops env) d))"
    using d2(6,7) by (simp_all add: eq seek_next_block_def Let_def)
  show "placed (accept_block (file_ops env) d)"
  proof (cases "b_block_len (c_block d) < b_read_len (c_block d)")
    case True
    let ?pos = "(of_nat (f_pos (w_os d)) :: u64) - ucast (b_read_len (c_block d) - b_block_len (c_block d))"
    have "s_file_addr (w_st (seek_next_block (file_ops env) d2)) = ?pos" "f_pos (w_os (seek_next_block (file_ops env) d2)) = unat ?pos"
      using True d2 by (simp_all add: seek_next_block_def file_ops_def Let_def)
    then show ?thesis by (simp add: eq placed_def)
  next
    case False
    then show ?thesis using d2 by (simp add: eq placed_def seek_next_block_def)
  qed
qed

lemma check_block_ok:
  assumes "i_bacula_labels ops" and "\<not> b_adata (c_block d)" and "\<not> b_read_len (c_block d) < of_nat BLKHDR2_LENGTH"
    and un: "unser_block_header (i_env ops) (w_dev d) (c_block d) = Some (True, b2, w_dev d, [])"
    and "b_block_len b2 \<le> b_buf_len b2" and "b_block_len b2 \<le> b_read_len b2"
  shows "check_block ops l d = Inr (Done True (accept_block ops (d\<lparr>c_block := b2\<rparr>)))"
proof -
  have id: "fold Jmsg [] (d\<lparr>c_block := b2, w_dev := w_dev d\<rparr>) = d\<lparr>c_block := b2\<rparr>"
    by simp
  have "\<not> b_buf_len b2 < b_block_len b2" "\<not> b_read_len b2 < b_block_len b2" using assms(5,6) by simp_all
  then show ?thesis
    unfolding check_block_def un option.case prod.case Let_def id using assms(1-3) by (simp add: check_length_def)
qed

text \<open>
  The block that a reader finds at its position is accepted; the position moves
  behind it, whatever follows.
\<close>

definition at_block :: "file_os wdcr \<Rightarrow> u32 \<Rightarrow> u32 \<Rightarrow> u32 \<Rightarrow> u32 \<Rightarrow> u32 \<Rightarrow> u64 \<Rightarrow> u8 list \<Rightarrow> bool" where
  "at_block d opts len num sid stime cs payload \<longleftrightarrow>
     (\<exists>tl. drop (f_pos (w_os d)) (f_bytes (w_os d)) = block_image opts len num sid stime cs payload @ tl) \<and>
     unat len = 32 + length payload \<and> len \<le> MAX_BLOCK_LENGTH \<and> len \<le> b_buf_len (c_block d) \<and>
     opts AND BLKHOPT_ENCRYPT_BLOCK = 0"

lemma read_image:
  assumes rd: "reader d" and at: "at_block d opts len num sid stime cs payload"
    and ck: "d_do_checksum (w_dev d) \<Longrightarrow> cs = e_xxh env (block_image opts len num sid stime 0 payload)"
  shows "\<exists>d'. read_block_from_dev (file_ops env) d = Some (Inr (True, d')) \<and> reader d' \<and>
    rinv (c_block d') \<and> rest (c_block d') = payload \<and> b_VolSessionId (c_block d') = sid \<and>
    b_VolSessionTime (c_block d') = stime \<and> b_BlockNumber (c_block d') = num \<and>
    b_buf_len (c_block d') = b_buf_len (c_block d) \<and> w_dev d' = (w_dev d)\<lparr>d_EndAddr := d_EndAddr (w_dev d')\<rparr> \<and>
    w_os d' = (w_os d)\<lparr>f_pos := f_pos (w_os d) + unat len\<rparr> \<and>
    (placed d \<longrightarrow> placed d' \<and> d_EndAddr (w_dev d') = of_nat (f_pos (w_os d)) + ucast len - 1 \<and>
       s_VolumeName (w_st d') = s_VolumeName (w_st d) \<and> \<not> s_EOF (w_st d'))"
proof -
  let ?img = "block_image opts len num sid stime"
  let ?f = "w_os d" and ?b = "c_block (set_block_position d)"
  obtain tl where tl: "drop (f_pos ?f) (f_bytes ?f) = ?img cs payload @ tl"
    and len: "unat len = 32 + length payload" "len \<le> MAX_BLOCK_LENGTH" "len \<le> b_buf_len (c_block d)"
      "opts AND BLKHOPT_ENCRYPT_BLOCK = 0"
    using at by (auto simp: at_block_def)
  have r: "\<not> j_canceled (w_jcr d)" "s_enabled (w_st d)" "\<not> s_EOT (w_st d)" "s_is_open (w_st d)"
     "\<not> d_is_tape (w_dev d)" "\<not> b_adata (c_block d)" "\<not> b_no_header (c_block d)"
     "length (b_buf (c_block d)) = unat (b_buf_len (c_block d))" "length (f_bytes ?f) < 2 ^ 64"
    using rd by (auto simp: reader_def)
  define bs where "bs = take (unat (b_buf_len (c_block d))) (drop (f_pos ?f) (f_bytes ?f))"
  define more where "more = take (unat (b_buf_len (c_block d)) - unat len) tl"
  have li: "length (?img cs payload) = unat len" by (simp add: block_image_def len(1))
  have le: "unat len \<le> unat (b_buf_len (c_block d))" using len(3) by (simp add: u32_le)
  have bs: "bs = ?img cs (payload @ more)"
    using le li by (simp add: bs_def tl more_def block_image_append [symmetric])
  have lbs: "length bs = unat len + length more" "length bs \<le> unat (b_buf_len (c_block d))"
    using li by (simp add: bs block_image_append) (simp add: bs_def)
  have rl: "unat (of_nat (length bs) :: u32) = length bs"
    using lbs(2) unsigned_less [of "b_buf_len (c_block d)", where ?'a = nat] by (simp add: unsigned_of_nat take_bit_nat_eq_self_iff)
  have pos: "f_pos ?f + length bs \<le> length (f_bytes ?f)" "f_pos ?f + length bs < 2 ^ 64"
  proof -
    have "length bs \<le> length (f_bytes ?f) - f_pos ?f" by (simp add: bs_def)
    moreover have "bs \<noteq> []" using lbs(1) len(1) by auto
    ultimately show "f_pos ?f + length bs \<le> length (f_bytes ?f)" by (cases "length (f_bytes ?f) \<le> f_pos ?f") auto
    then show "f_pos ?f + length bs < 2 ^ 64" using r(9) by linarith
  qed
  define b1 where "b1 = ?b\<lparr>b_buf := buf_write (b_buf ?b) 0 bs, b_read_len := of_nat (length bs)\<rparr>"
  have buf: "b_buf b1 = ?img cs (payload @ (more @ drop (length bs) (b_buf ?b)))"
    using lbs(2) r(8) by (simp add: b1_def buf_write_def bs block_image_append set_block_position_def)
  have b1: "\<not> b_adata b1" "\<not> b_no_header b1" "len \<le> b_read_len b1" "b_buf_len b1 = b_buf_len (c_block d)" "b_read_len b1 = of_nat (length bs)"
    using r(6,7) rl lbs(1) by (simp_all add: b1_def set_block_position_def word_le_nat_alt)
  have "if opts AND BLKHOPT_ENCRYPT_BLOCK \<noteq> 0 \<and> d_crypto_device_ctx (w_dev d)
       then e_decrypt env (num, sid, stime) payload = Some payload \<and> length payload \<le> length (b_buf_enc b1)
       else payload = payload"
    using len(4) by simp
  from unser_block_header_image [OF b1(1,2) buf len(1,2) b1(3) refl this ck] obtain enc
    where un: "unser_block_header env (w_dev d) b1 =
      Some (True, b1\<lparr>b_blkh_options := opts, b_VolSessionId := sid, b_VolSessionTime := stime,
                b_buf := ?img cs (payload @ (more @ drop (length bs) (b_buf ?b))), b_buf_enc := enc,
                b_CheckSum64 := cs, b_BlockVer := 3, b_bufp := 32, b_binbuf := len - 32, b_block_len := len,
                b_BlockNumber := num\<rparr>, w_dev d, [])"
    by blast
  define b2 where "b2 = b1\<lparr>b_blkh_options := opts, b_VolSessionId := sid, b_VolSessionTime := stime,
                b_buf := ?img cs (payload @ (more @ drop (length bs) (b_buf ?b))), b_buf_enc := enc,
                b_CheckSum64 := cs, b_BlockVer := 3, b_bufp := 32, b_binbuf := len - 32, b_block_len := len,
                b_BlockNumber := num\<rparr>"
  define d1 where "d1 = c_block_update (\<lambda>b. b\<lparr>b_buf := buf_write (b_buf ?b) 0 bs, b_read_len := of_nat (length bs)\<rparr>)
      ((set_block_position d)\<lparr>w_os := ?f\<lparr>f_pos := f_pos ?f + length bs\<rparr>\<rparr>)"
  define d2 where "d2 = d1\<lparr>c_block := b2\<rparr>"
  have d1: "w_dev d1 = w_dev d" "c_block d1 = b1" by (simp_all add: d1_def b1_def set_block_position_def)
  have big: "\<not> b_read_len b1 < of_nat BLKHDR2_LENGTH"
    using b1(5) rl lbs(1) len(1) by (simp add: media_lengths word_less_nat_alt)
  have b2: "b_block_len b2 = len" "b_buf_len b2 = b_buf_len (c_block d)" "b_read_len b2 = of_nat (length bs)"
    "b_VolSessionId b2 = sid" "b_VolSessionTime b2 = stime" "b_BlockNumber b2 = num" "\<not> b_adata b2" "\<not> b_no_header b2"
    "b_BlockVer b2 = 3" "b_bufp b2 = 32" "b_binbuf b2 = len - 32" "b_buf b2 = ?img cs (payload @ (more @ drop (length bs) (b_buf ?b)))"
    using b1 by (simp_all add: b2_def)
  have ch: "check_block (file_ops env) 0 d1 = Inr (Done True (accept_block (file_ops env) d2))"
    unfolding d2_def
    by (rule check_block_ok) (use d1 big un [folded b2_def] b2 len(3) b1(1,3,5) in \<open>simp_all add: file_ops_def\<close>)
  have step: "read_block_step (file_ops env) 0 (set_block_position d) = Inr (Done True (accept_block (file_ops env) d2))"
  proof -
    have fr: "file_read (w_os d) (unat (b_buf_len (c_block d))) = (Inr bs, ?f\<lparr>f_pos := f_pos ?f + length bs\<rparr>)"
      by (simp add: file_read_def bs_def Let_def)
    have ne: "bs \<noteq> []" using lbs(1) len(1) by auto
    have sp: "w_os (set_block_position d) = w_os d" "b_buf_len ?b = b_buf_len (c_block d)" "i_read (file_ops env) = file_read"
      "(if i_adata (file_ops env) then x else y) = y" for x y :: file_os
      by (simp_all add: set_block_position_def file_ops_def)
    have pt: "put bs (b_buf ?b, 0) = Some (buf_write (b_buf ?b) 0 bs, length bs)"
      using lbs(2) r(8) by (simp add: put_def set_block_position_def)
    show ?thesis
      using ne ch [unfolded d1_def]
      unfolding read_block_step_def Let_def open_next_part_def sp file_read_retry fr prod.case sum.case pt option.case by simp
  qed
  have t: "\<not> d_is_tape (w_dev d2)" "c_block d2 = b2" "w_os d2 = ?f\<lparr>f_pos := f_pos ?f + length bs\<rparr>" "w_dev d2 = w_dev d"
    "w_jcr d2 = w_jcr d" "w_st d2 = w_st d"
    using r(5) d1 by (simp_all add: d2_def d1_def set_block_position_def)
  have h: "unat len \<le> length bs" "length bs \<le> f_pos (?f\<lparr>f_pos := f_pos ?f + length bs\<rparr>)"
    "f_pos (?f\<lparr>f_pos := f_pos ?f + length bs\<rparr>) < 2 ^ 64"
    using lbs(1) pos(2) by simp_all
  note acc = accept_block_file [of d2, unfolded t(2-4) b2(1,3) rl, OF r(5) h, of env]
  let ?d' = "accept_block (file_ops env) d2"
  have os: "w_os ?d' = ?f\<lparr>f_pos := f_pos ?f + unat len\<rparr>"
    using acc(1) lbs(1) by simp
  have l32: "unat (len - 32) = length payload" using len(1) by (simp add: unat_sub word_le_nat_alt)
  have lb: "length (b_buf b2) = unat (b_buf_len (c_block d))"
    using lbs len(1) r(8) by (simp add: b2(12) set_block_position_def)
  have rest: "rest (c_block ?d') = payload"
    using b2 l32 acc(2) by (simp add: rest_def block_image_payload)
  have "rinv (c_block ?d')"
    using b2 acc(2) l32 lb le len(1) by (simp add: rinv_def)
  moreover have "d_is_tape (w_dev ?d') = d_is_tape (w_dev d)" using arg_cong [OF acc(4), of d_is_tape] by simp
  then have "reader ?d'"
    using acc(2,3,5-7) os t(5,6) r b2 lb by (simp add: reader_def)
  moreover have "read_block_from_dev (file_ops env) d = Some (Inr (True, ?d'))"
    using r(1-4) step by (simp add: read_block_from_dev_def read_block_loop.simps [of _ 0])
  moreover have "placed ?d' \<and> d_EndAddr (w_dev ?d') = of_nat (f_pos (w_os d)) + ucast len - 1 \<and>
       s_VolumeName (w_st ?d') = s_VolumeName (w_st d) \<and> \<not> s_EOF (w_st ?d')" if pl: "placed d"
  proof -
    let ?n = "of_nat (length bs) :: u32"
    have "unat (ucast ?n :: u64) = length bs"
      using rl unsigned_less [of ?n, where ?'a = nat] by (simp add: unsigned_ucast_eq take_bit_nat_eq_self_iff)
    then have "(of_nat (unat (ucast ?n :: u64)) :: u64) = of_nat (length bs)" by (simp only:)
    then have "(ucast ?n :: u64) = of_nat (length bs)" by simp
    then have "s_file_addr (w_st d2) = of_nat (f_pos (w_os d2)) - ucast (b_read_len (c_block d2))"
      using pl t b2(3) by (simp add: placed_def)
    from accept_block_addr [OF t(1) _ _ _ this, of env] h rl b2(1,3) t pl show ?thesis
      by (simp add: placed_def)
  qed
  ultimately show ?thesis
    using rest os acc(2) acc(4) b2 by (intro exI [of _ ?d']) simp
qed


text \<open>Reading a number of blocks one after the other, as long as the reads succeed.\<close>

fun read_blocks :: "'os read_ops \<Rightarrow> nat \<Rightarrow> 'os wdcr \<Rightarrow> dev_block list option" where
  "read_blocks ops 0 d = Some []"
| "read_blocks ops (Suc n) d =
     (case read_block_from_dev ops d of
        Some (Inr (True, d')) \<Rightarrow> map_option ((#) (c_block d')) (read_blocks ops n d')
      | _ \<Rightarrow> None)"

lemma read_blocks_images:
  assumes "reader d" and "drop (f_pos (w_os d)) (f_bytes (w_os d)) = concat imgs @ suf"
    and "\<And>img. img \<in> set imgs \<Longrightarrow> image_ok env (unat (b_buf_len (c_block d))) sid stime img"
  shows "\<exists>bs. read_blocks (file_ops env) (length imgs) d = Some bs \<and> map rest bs = map image_payload imgs \<and>
    list_all (\<lambda>b. rinv b \<and> b_VolSessionId b = sid \<and> b_VolSessionTime b = stime) bs"
  using assms
proof (induction imgs arbitrary: d)
  case Nil
  then show ?case by simp
next
  case (Cons img imgs)
  obtain opts len num cs payload where img: "img = block_image opts len num sid stime cs payload"
    and ok: "unat len = 32 + length payload" "unat len \<le> unat (b_buf_len (c_block d))" "len \<le> MAX_BLOCK_LENGTH"
      "opts AND BLKHOPT_ENCRYPT_BLOCK = 0" "cs = e_xxh env (block_image opts len num sid stime 0 payload)"
    using Cons.prems(3) [of img] by (auto simp: image_ok_def)
  have at: "at_block d opts len num sid stime cs payload"
    using Cons.prems(2) ok img by (auto simp: at_block_def word_le_nat_alt)
  obtain d' where r: "read_block_from_dev (file_ops env) d = Some (Inr (True, d'))" "reader d'"
    "rinv (c_block d')" "rest (c_block d') = payload" "b_VolSessionId (c_block d') = sid"
    "b_VolSessionTime (c_block d') = stime" "b_buf_len (c_block d') = b_buf_len (c_block d)"
    "w_os d' = (w_os d)\<lparr>f_pos := f_pos (w_os d) + unat len\<rparr>"
    using read_image [OF Cons.prems(1) at ok(5)] by blast
  have "length img = unat len" using img ok(1) by (simp add: block_image_def)
  then have "drop (f_pos (w_os d')) (f_bytes (w_os d')) = concat imgs @ suf"
    using Cons.prems(2) r(8) by (simp add: add.commute drop_drop [symmetric])
  from Cons.IH [OF r(2) this] Cons.prems(3) r(7) obtain bs where
    "read_blocks (file_ops env) (length imgs) d' = Some bs" "map rest bs = map image_payload imgs"
    "list_all (\<lambda>b. rinv b \<and> b_VolSessionId b = sid \<and> b_VolSessionTime b = stime) bs"
    by auto
  then show ?case
    using r img image_payload_image [OF ok(1)] by simp
qed

text \<open>
  C28 (read_blocks_in_order).  A file of valid blocks of one session, whatever their sizes up to the
  reader's buffer and whatever follows them, is read back block by block: every call of
  \<^verbatim>\<open>read_block_from_dev\<close> returns true and hands over exactly the data of the next block.
\<close>
theorem read_blocks_in_order:
  assumes "reader d" and "drop (f_pos (w_os d)) (f_bytes (w_os d)) = concat imgs @ suf"
    and "\<And>img. img \<in> set imgs \<Longrightarrow> image_ok env (unat (b_buf_len (c_block d))) sid stime img"
  shows "\<exists>bs. read_blocks (file_ops env) (length imgs) d = Some bs \<and> map rest bs = map image_payload imgs"
  using read_blocks_images [OF assms] by blast

section \<open>Backup and restore\<close>

lemma session_images:
  assumes "session_job env sid stime blen old tot d"
  shows "k_images (w_os d) = old @ drop (length old) (k_images (w_os d))"
  using assms unfolding session_job_def by (metis append_take_drop_id)

lemma image_ok_big [simp]: "image_ok (env\<lparr>e_big := big\<rparr>) cap sid stime img = image_ok env cap sid stime img"
  by (simp add: image_ok_def)

lemma rec_header_not_Nil [simp]: "rec_header fi stream len \<noteq> []"
  using length_rec_header [of fi stream len] by (metis length_0_conv zero_neq_numeral)

lemma cont_fragments_non_empty: "x \<in> set (cont_fragments cap fi stream ds) \<Longrightarrow> x \<noteq> []"
proof (induction cap fi stream ds rule: cont_fragments.induct)
  case (1 cap fi stream ds)
  then show ?case by (subst (asm) cont_fragments.simps) (auto simp: Let_def split: if_splits)
qed

lemma fragments_non_empty:
  "12 \<le> rm \<Longrightarrow> x \<in> set (record_fragments rm cap fi stream ds) \<Longrightarrow> x \<noteq> []"
  by (auto simp: record_fragments_def first_fragments_def Let_def
      dest: cont_fragments_non_empty split: if_splits)

text \<open>A record written to an empty block, and the block then flushed: the new images hold its fragments.\<close>

lemma record_flushed:
  assumes j: "session_job env sid stime (b_buf_len (c_block d)) (k_images (w_os d)) tot d" and b: "winv (c_block d)"
    "b_bufp (c_block d) = 32" "44 < unat (b_buf_len (c_block d))" and "\<not> c_adata_label d"
    and rec: "ready_rec rec" "r_wstate rec = st_none" "r_VolSessionId rec = sid" "r_VolSessionTime rec = stime"
    and frs: "frs = record_fragments (unat (b_buf_len (c_block d)) - 32) (unat (b_buf_len (c_block d)) - 32)
        (r_FileIndex rec) (r_Stream rec) (to_write rec)"
    and free: "length frs \<le> k_free (w_os d)"
  shows "\<exists>d1 rec1 d2 new. write_record (write_block_to_device (disk_ops env n) False) (\<lambda>d. j_canceled (w_jcr d)) big d rec =
      Some (Inr (True, d1, rec1)) \<and> write_block_to_device (disk_ops env n) False d1 = Inr (True, d2) \<and>
    k_images (w_os d2) = k_images (w_os d) @ new \<and> map image_payload new = frs \<and>
    (\<forall>img \<in> set new. image_ok env (unat (b_buf_len (c_block d))) sid stime img)"
proof -
  let ?cap = "unat (b_buf_len (c_block d)) - 32" and ?old = "k_images (w_os d)"
  have room: "room (c_block d) = ?cap" using b by (simp add: room_def winv_def block_inv_def)
  have nc: "\<not> continuing rec" using rec(2) by (simp add: continuing_def)
  have f: "frs = fragments_of (room (c_block d)) ?cap rec" using frs room nc by (simp add: fragments_of_def)
  have "payload_of (c_block d) = []" using b(2) by (simp add: payload_of_def used_def)
  then obtain d1 rec1 where w: "write_record (write_block_to_device (disk_ops env n) False) (\<lambda>d. j_canceled (w_jcr d)) big d rec =
      Some (Inr (True, d1, rec1))"
    and m: "map image_payload (k_images (w_os d1)) @ [payload_of (c_block d1)] = map image_payload ?old @ frs"
    and d1: "session_job env sid stime (b_buf_len (c_block d)) ?old tot d1" "winv (c_block d1)" "b_VolSessionId (c_block d1) = sid"
      "b_VolSessionTime (c_block d1) = stime" "b_buf_len (c_block d1) = b_buf_len (c_block d)"
    using record_written [OF j b(1) _ assms(5) b(3) _ rec f, of n big] b(2) free fragments_of_not_Nil [of "room (c_block d)" ?cap rec] f
    by auto
  let ?mid = "drop (length ?old) (k_images (w_os d1))"
  have ne: "frs \<noteq> []" using f fragments_of_not_Nil by simp
  have im: "k_images (w_os d1) = ?old @ ?mid" by (rule session_images [OF d1(1)])
  have "map image_payload ?old @ (map image_payload ?mid @ [payload_of (c_block d1)]) = map image_payload ?old @ frs"
    using m arg_cong [OF im, of "map image_payload"] by simp
  then have pay: "map image_payload ?mid @ [payload_of (c_block d1)] = frs" by (simp only: same_append_eq)
  have "payload_of (c_block d1) \<noteq> []"
  proof -
    have "payload_of (c_block d1) = last frs" using arg_cong [OF pay, of last] by simp
    moreover have "last frs \<in> set frs" using ne by simp
    moreover have "x \<noteq> []" if "x \<in> set frs" for x using fragments_non_empty [of ?cap x] that frs b(3) by simp
    ultimately show ?thesis by simp
  qed
  then have bp: "32 < b_bufp (c_block d1)" by (auto simp: payload_of_def used_def)
  have "length ?mid + 1 = length frs" using arg_cong [OF pay, of length] by simp
  moreover have "length ?old + k_free (w_os d) = tot" "length (k_images (w_os d1)) + k_free (w_os d1) = tot"
    using j d1(1) unfolding session_job_def by blast+
  moreover note arg_cong [OF im, of length, unfolded length_append]
  ultimately have fr1: "0 < k_free (w_os d1)" using free by linarith
  obtain d2 where d2: "write_block_to_device (disk_ops env n) False d1 = Inr (True, d2)"
    "session_job env sid stime (b_buf_len (c_block d)) ?old tot d2"
    "k_images (w_os d2) = k_images (w_os d1) @ [written_image (disk_ops env n) d1]"
    using session_write_block [OF d1(1) fr1 d1(2) bp d1(3-5), of n] by blast
  let ?new = "?mid @ [written_image (disk_ops env n) d1]"
  have im2: "k_images (w_os d2) = ?old @ ?new" using d2(3) im by simp
  moreover have "map image_payload ?new = frs"
    using pay written_image_payload [OF d1(2), of "disk_ops env n"] bp by simp
  moreover have "\<forall>img \<in> set ?new. image_ok env (unat (b_buf_len (c_block d))) sid stime img"
    using d2(2) im2 by (simp add: session_job_def)
  ultimately show ?thesis using w d2(1) by blast
qed




section \<open>Instances\<close>

definition sample_image :: "u32 \<Rightarrow> u8 list \<Rightarrow> u8 list" where
  "sample_image num ds =
     (let len = 32 + of_nat (length ds)
      in block_image 1 len num 3 5 (e_xxh sample_env (block_image 1 len num 3 5 0 ds)) ds)"

definition sample_reader :: "u8 list \<Rightarrow> file_os wdcr" where
  "sample_reader bytes = sample_wdcr (new_block (\<lambda>n. replicate n 0) disk_dev 64) \<lparr>f_bytes = bytes, f_pos = 0\<rparr>"

lemma sample_reader_facts:
  "length bytes < 2 ^ 64 \<Longrightarrow> reader (sample_reader bytes)" "w_os (sample_reader bytes) = \<lparr>f_bytes = bytes, f_pos = 0\<rparr>"
  "unat (b_buf_len (c_block (sample_reader bytes))) = 64" "b_buf_len (c_block (sample_reader bytes)) = 64"
  by (simp_all add: reader_def sample_reader_def sample_wdcr_def disk_dev_def disk_state_def disk_jcr_def sample_dev_def
      new_block_def empty_block_def Let_def)

lemma sample_image_ok: "length ds < 32 \<Longrightarrow> image_ok sample_env 64 3 5 (sample_image num ds)"
proof -
  assume "length ds < 32"
  then have "unat (32 + of_nat (length ds) :: u32) = 32 + length ds"
    using unat_of_nat_u32 [of "length ds"] by (simp add: unat_word_ariths)
  then show ?thesis
    using \<open>length ds < 32\<close> unfolding image_ok_def sample_image_def Let_def
    by (intro exI [of _ 1] exI [of _ "32 + of_nat (length ds)"] exI [of _ num] exI [of _ ds]
        exI [of _ "e_xxh sample_env (block_image 1 (32 + of_nat (length ds)) num 3 5 0 ds)"])
      (simp add: MAX_BLOCK_LENGTH_def word_le_nat_alt BLKHOPT_ENCRYPT_BLOCK_def)
qed

theorem read_block_returns_witness:
  "\<exists>r. read_passes (file_ops sample_env) 3 0 (set_block_position (sample_reader (sample_image 1 [7, 8]))) = Some r \<and>
     read_block_from_dev (file_ops sample_env) (sample_reader (sample_image 1 [7, 8])) = Some r"
proof -
  let ?r = "sample_reader (sample_image 1 [7, 8])"
  have "reader ?r" by (rule sample_reader_facts) (simp add: sample_image_def Let_def)
  then have "\<not> (j_canceled (w_jcr ?r) \<or> \<not> s_enabled (w_st ?r) \<or> s_EOT (w_st ?r) \<or> \<not> s_is_open (w_st ?r))"
    by (simp add: reader_def)
  moreover have "i_bacula_labels (file_ops sample_env)" "\<not> e_forge_on (i_env (file_ops sample_env))"
    by (simp_all add: file_ops_def sample_env_def)
  ultimately show ?thesis using read_block_returns [of "file_ops sample_env" ?r] by simp
qed

theorem read_blocks_in_order_witness:
  "\<exists>bs. read_blocks (file_ops sample_env) 2 (sample_reader (sample_image 1 [7, 8] @ sample_image 2 [9] @ [0, 0])) = Some bs \<and>
     map rest bs = [[7, 8], [9]]"
proof -
  let ?r = "sample_reader (sample_image 1 [7, 8] @ sample_image 2 [9] @ [0, 0])" and ?imgs = "[sample_image 1 [7, 8], sample_image 2 [9]]"
  have p: "map image_payload ?imgs = [[7, 8], [9]]"
    by (simp add: sample_image_def Let_def image_payload_image)
  have l: "length (sample_image 1 [7, 8] @ sample_image 2 [9] @ [0, 0]) < 2 ^ 64" by (simp add: sample_image_def Let_def)
  have "image_ok sample_env (unat (b_buf_len (c_block ?r))) 3 5 img" if "img \<in> set ?imgs" for img
    using that sample_image_ok by (auto simp: sample_reader_facts(3))
  moreover have "drop (f_pos (w_os ?r)) (f_bytes (w_os ?r)) = concat ?imgs @ [0, 0]" by (simp add: sample_reader_facts(2))
  ultimately have "\<exists>bs. read_blocks (file_ops sample_env) (length ?imgs) ?r = Some bs \<and> map rest bs = map image_payload ?imgs"
    by (intro read_blocks_in_order [OF sample_reader_facts(1) [OF l]])
  then show ?thesis unfolding p by (simp only: list.size numeral_2_eq_2 add_Suc add_0)
qed

definition empty_sample :: dev_block where
  "empty_sample = new_block (\<lambda>n. replicate n 0) disk_dev 64"


end
