(* ===== verification/Match_Bsr.thy ===== *)
theory Match_Bsr
  imports Media Record_Util Block_Util
begin

text \<open>
  Selection of records on restore: the bootstrap records of \<^verbatim>\<open>src/bacula/src/stored/bsr.h\<close> and
  their matching, \<^verbatim>\<open>match_bsr.c\<close>.  The chain of bootstrap records linked by
  \<^verbatim>\<open>next\<close> is a list, and so are the item lists of each; the flags
  \<^verbatim>\<open>reposition\<close> and \<^verbatim>\<open>mount_next_volume\<close> of the root are fields of the chain, and
  the pointer \<^verbatim>\<open>rec->bsr\<close> is an index into it.  The matching is that of the standard
  build, where \<^verbatim>\<open>new_match_all\<close> is \<^verbatim>\<open>match_all\<close> and nothing sets
  \<^verbatim>\<open>cur_bsr\<close>; the flag \<^verbatim>\<open>use_new_match_all\<close> is an argument where it matters.  The regular
  expression and the unpacking of the attributes record are arguments.
\<close>

section \<open>Structures\<close>

record bsr_voladdr =
  va_saddr :: u64
  va_eaddr :: u64
  va_done :: bool

record bsr_findex =
  fx_findex :: i32
  fx_findex2 :: i32

record session_label =
  sl_JobId :: u32
  sl_Job :: string
  sl_ClientName :: string
  sl_JobType :: u32
  sl_JobLevel :: u32

record bsr =
  n_done :: bool
  n_skip_file :: bool
  n_volume :: "string list"
  n_count :: u32
  n_found :: u32
  n_voladdr :: "bsr_voladdr list"
  n_sesstime :: "u32 list"
  n_sessid :: "(u32 \<times> u32) list"
  n_JobId :: "(u32 \<times> u32) list"
  n_job :: "string list"
  n_client :: "string list"
  n_FileIndex :: "bsr_findex list"
  n_JobType :: "u32 list"
  n_JobLevel :: "u32 list"
  n_stream :: "i32 list"
  n_fileregex :: "(string \<Rightarrow> bool) option"
  n_use_fast_rejection :: bool
  n_use_positioning :: bool

record bsr_chain =
  h_bsrs :: "bsr list"
  h_reposition :: bool
  h_mount_next_volume :: bool

definition STREAM_UNIX_ATTRIBUTES :: i32 where "STREAM_UNIX_ATTRIBUTES = 1"
definition STREAM_UNIX_ATTRIBUTES_EX :: i32 where "STREAM_UNIX_ATTRIBUTES_EX = 5"

section \<open>Fast rejection of blocks\<close>

fun match_block_sesstime :: "u32 list \<Rightarrow> dev_block \<Rightarrow> bool" where
  "match_block_sesstime [] block = True"
| "match_block_sesstime (t # ts) block =
     (if t = b_VolSessionTime block then True else if ts \<noteq> [] then match_block_sesstime ts block else False)"

fun match_block_sessid :: "(u32 \<times> u32) list \<Rightarrow> dev_block \<Rightarrow> bool" where
  "match_block_sessid [] block = True"
| "match_block_sessid ((lo, hi) # ids) block =
     (if lo \<le> b_VolSessionId block \<and> b_VolSessionId block \<le> hi then True
      else if ids \<noteq> [] then match_block_sessid ids block else False)"

fun match_block_chain :: "bsr list \<Rightarrow> dev_block \<Rightarrow> bool" where
  "match_block_chain [] block = False"
| "match_block_chain (b # bs) block =
     (if match_block_sesstime (n_sesstime b) block \<and> match_block_sessid (n_sessid b) block then True
      else match_block_chain bs block)"

definition match_bsr_block :: "bsr list \<Rightarrow> dev_block \<Rightarrow> bool" where
  "match_bsr_block bsrs block =
     (case bsrs of
        [] \<Rightarrow> True
      | b # _ \<Rightarrow> if \<not> n_use_fast_rejection b \<or> b_BlockVer block < 2 then True else match_block_chain bsrs block)"

section \<open>The tests of one bootstrap record\<close>

fun match_volume :: "string list \<Rightarrow> string \<Rightarrow> bool" where
  "match_volume [] vol = False"
| "match_volume (v # vs) vol = (if v = vol then True else if vs \<noteq> [] then match_volume vs vol else False)"

fun match_client :: "string list \<Rightarrow> session_label \<Rightarrow> bool" where
  "match_client [] s = True"
| "match_client (c # cs) s = (if c = sl_ClientName s then True else if cs \<noteq> [] then match_client cs s else False)"

fun match_job :: "string list \<Rightarrow> session_label \<Rightarrow> bool" where
  "match_job [] s = True"
| "match_job (j # js) s = (if j = sl_Job s then True else if js \<noteq> [] then match_job js s else False)"

fun match_job_type :: "u32 list \<Rightarrow> session_label \<Rightarrow> bool" where
  "match_job_type [] s = True"
| "match_job_type (t # ts) s = (if t = sl_JobType s then True else if ts \<noteq> [] then match_job_type ts s else False)"

fun match_job_level :: "u32 list \<Rightarrow> session_label \<Rightarrow> bool" where
  "match_job_level [] s = True"
| "match_job_level (l # ls) s = (if l = sl_JobLevel s then True else if ls \<noteq> [] then match_job_level ls s else False)"

fun match_jobid :: "(u32 \<times> u32) list \<Rightarrow> session_label \<Rightarrow> bool" where
  "match_jobid [] s = True"
| "match_jobid ((lo, hi) # ids) s =
     (if lo \<le> sl_JobId s \<and> sl_JobId s \<le> hi then True else if ids \<noteq> [] then match_jobid ids s else False)"

fun match_stream :: "i32 list \<Rightarrow> dev_record \<Rightarrow> bool" where
  "match_stream [] rec = True"
| "match_stream (s # ss) rec = (if s = r_Stream rec then True else if ss \<noteq> [] then match_stream ss rec else False)"

fun match_sesstime :: "u32 list \<Rightarrow> dev_record \<Rightarrow> bool" where
  "match_sesstime [] rec = True"
| "match_sesstime (t # ts) rec =
     (if t = r_VolSessionTime rec then True else if ts \<noteq> [] then match_sesstime ts rec else False)"

fun match_sessid :: "(u32 \<times> u32) list \<Rightarrow> dev_record \<Rightarrow> bool" where
  "match_sessid [] rec = True"
| "match_sessid ((lo, hi) # ids) rec =
     (if lo \<le> r_VolSessionId rec \<and> r_VolSessionId rec \<le> hi then True
      else if ids \<noteq> [] then match_sessid ids rec else False)"

text \<open>
  The address ranges; the result is whether the record matches, the items with their local
  marks, whether the bootstrap record is done and whether to reposition.
\<close>

fun match_voladdr :: "bsr_voladdr list \<Rightarrow> u64 \<Rightarrow> bool \<Rightarrow> bool \<times> bsr_voladdr list \<times> bool \<times> bool" where
  "match_voladdr [] addr done = (True, [], False, False)"
| "match_voladdr (v # vs) addr done =
     (if va_saddr v \<le> addr \<and> addr \<le> va_eaddr v then (True, v # vs, False, False)
      else
        (let v = (if va_eaddr v < addr then v\<lparr>va_done := True\<rparr> else v);
             bdone = (va_eaddr v < addr \<and> vs = [])
         in if vs \<noteq> [] then
              (case match_voladdr vs addr (va_done v \<and> done) of (m, vs, d, r) \<Rightarrow> (m, v # vs, d, r))
            else if va_done v \<and> done then (False, [v], True, True)
            else (False, [v], bdone, False)))"

text \<open>
  The file index ranges: those that end before the index of the record are freed.  The third
  component says that the bootstrap record is done and the tape to be repositioned.
\<close>

fun match_findex :: "bsr_findex list \<Rightarrow> i32 \<Rightarrow> bool \<times> bsr_findex list \<times> bool" where
  "match_findex [] fi = (True, [], False)"
| "match_findex (f # fs) fi =
     (if sint (fx_findex f) \<le> sint fi \<and> sint fi \<le> sint (fx_findex2 f) then (True, f # fs, False)
      else if sint (fx_findex2 f) < sint fi then
        (if fs \<noteq> [] then match_findex fs fi else (False, [f], True))
      else (False, f # fs, False))"

text \<open>The regular expression only sets or clears \<^verbatim>\<open>skip_file\<close>, on the first record of a file.\<close>

definition match_fileregex :: "(dev_record \<Rightarrow> string option) \<Rightarrow> bsr \<Rightarrow> dev_record \<Rightarrow> bsr" where
  "match_fileregex unpack b rec =
     (case n_fileregex b of
        None \<Rightarrow> b
      | Some re \<Rightarrow>
          if r_maskedStream rec = STREAM_UNIX_ATTRIBUTES \<or> r_maskedStream rec = STREAM_UNIX_ATTRIBUTES_EX then
            (case unpack rec of
               None \<Rightarrow> b\<lparr>n_skip_file := False\<rparr>
             | Some fname \<Rightarrow> b\<lparr>n_skip_file := \<not> re fname\<rparr>)
          else b)"

text \<open>
  One bootstrap record: the tests of \<^verbatim>\<open>match_all\<close> in their order.  The result says
  whether it matches, whether the record keeps a pointer to it, its new state, and whether to reposition.
\<close>

definition match_one ::
  "(dev_record \<Rightarrow> string option) \<Rightarrow> bsr \<Rightarrow> dev_record \<Rightarrow> string \<Rightarrow> session_label \<Rightarrow> bool \<times> bool \<times> bsr \<times> bool" where
  "match_one unpack b rec vol sess =
     (if n_done b then (False, False, b, False)
      else if \<not> match_volume (n_volume b) vol then (False, False, b, False)
      else
        (case match_voladdr (n_voladdr b) (get_record_address rec) True of (m, vas, d, r) \<Rightarrow>
           (let b = b\<lparr>n_voladdr := vas, n_done := n_done b \<or> d\<rparr>
            in if \<not> m then (False, False, b, r)
               else if \<not> match_sesstime (n_sesstime b) rec then (False, False, b, r)
               else if \<not> match_sessid (n_sessid b) rec then (False, False, b, r)
               else
                 (case match_findex (n_FileIndex b) (r_FileIndex rec) of (m, fis, d) \<Rightarrow>
                    (let b = b\<lparr>n_FileIndex := fis, n_done := n_done b \<or> d\<rparr>
                     in if \<not> m then (False, False, b, r \<or> d)
                        else
                          (let b = match_fileregex unpack b rec
                           in if n_skip_file b then (False, False, b, r)
                              else if n_count b \<noteq> 0 \<and> n_FileIndex b \<noteq> [] then (True, True, b, r)
                              else
                                (match_jobid (n_JobId b) sess \<and> match_job (n_job b) sess \<and>
                                 match_client (n_client b) sess \<and> match_job_type (n_JobType b) sess \<and>
                                 match_job_level (n_JobLevel b) sess \<and> match_stream (n_stream b) rec,
                                 False, b, r)))))))"

section \<open>The chain\<close>

text \<open>
  \<^verbatim>\<open>match_all\<close>: the result is \<open>1\<close>, \<open>0\<close> or \<open>-1\<close>, the index kept in
  \<^verbatim>\<open>rec->bsr\<close> if any, the chain and whether to reposition.
\<close>

fun match_all ::
  "(dev_record \<Rightarrow> string option) \<Rightarrow> nat \<Rightarrow> bsr list \<Rightarrow> dev_record \<Rightarrow> string \<Rightarrow> session_label \<Rightarrow> bool \<Rightarrow>
   int \<times> nat option \<times> bsr list \<times> bool" where
  "match_all unpack i [] rec vol sess done = (if done then - 1 else 0, None, [], False)"
| "match_all unpack i (b # bs) rec vol sess done =
     (case match_one unpack b rec vol sess of (m, keep, b, r) \<Rightarrow>
        if m then (1, if keep then Some i else None, b # bs, r)
        else
          (case match_all unpack (Suc i) bs rec vol sess (n_done b \<and> done) of (stat, k, bs, r') \<Rightarrow>
             (stat, k, b # bs, r \<or> r')))"

definition match_bsr ::
  "(dev_record \<Rightarrow> string option) \<Rightarrow> bsr_chain \<Rightarrow> dev_record \<Rightarrow> string \<Rightarrow> session_label \<Rightarrow> int \<times> nat option \<times> bsr_chain" where
  "match_bsr unpack h rec vol sess =
     (case h_bsrs h of
        [] \<Rightarrow> (1, None, h)
      | b # _ \<Rightarrow>
          (case match_all unpack 0 (h_bsrs h) rec vol sess True of (stat, k, bs, r) \<Rightarrow>
             (stat, k, h\<lparr>h_bsrs := bs, h_reposition := (r \<and> stat = 0 \<and> n_use_positioning b)\<rparr>)))"

text \<open>After the last record of a file: the count of files found for the bootstrap record.\<close>

definition is_this_bsr_done :: "bool \<Rightarrow> bsr_chain \<Rightarrow> nat option \<Rightarrow> bool \<times> bsr_chain" where
  "is_this_bsr_done use_new h k =
     (case k of
        None \<Rightarrow> (False, h)
      | Some i \<Rightarrow>
          (let b = h_bsrs h ! i;
               b = (if \<not> use_new \<or> Suc i = length (h_bsrs h) then b\<lparr>n_found := n_found b + 1\<rparr> else b)
           in if n_count b \<noteq> 0 \<and> (if use_new then n_count b < n_found b else n_count b \<le> n_found b) then
                (True, h\<lparr>h_bsrs := (h_bsrs h)[i := b\<lparr>n_done := True\<rparr>], h_reposition := True\<rparr>)
              else (False, h\<lparr>h_bsrs := (h_bsrs h)[i := b]\<rparr>)))"

section \<open>The next position\<close>

fun get_smallest_voladdr :: "bsr_voladdr list \<Rightarrow> u64 option \<Rightarrow> u64 option" where
  "get_smallest_voladdr [] acc = acc"
| "get_smallest_voladdr (v # vs) acc =
     get_smallest_voladdr vs
       (if va_done v then acc else case acc of None \<Rightarrow> Some (va_saddr v) | Some m \<Rightarrow> Some (min m (va_saddr v)))"

definition find_smallest_volfile :: "nat \<times> bsr \<Rightarrow> nat \<times> bsr \<Rightarrow> nat \<times> bsr" where
  "find_smallest_volfile found new =
     (case get_smallest_voladdr (n_voladdr (snd found)) None of
        None \<Rightarrow> found
      | Some fa \<Rightarrow>
          (case get_smallest_voladdr (n_voladdr (snd new)) None of
             None \<Rightarrow> found
           | Some a \<Rightarrow> if a < fa then new else found))"

fun find_loop :: "(nat \<times> bsr) list \<Rightarrow> string \<Rightarrow> (nat \<times> bsr) option \<Rightarrow> (nat \<times> bsr) option" where
  "find_loop [] vol found = found"
| "find_loop (x # xs) vol found =
     (if n_done (snd x) \<or> \<not> match_volume (n_volume (snd x)) vol then find_loop xs vol found
      else find_loop xs vol (case found of None \<Rightarrow> Some x | Some f \<Rightarrow> Some (find_smallest_volfile f x)))"

definition find_next_bsr :: "bool \<Rightarrow> bsr_chain \<Rightarrow> string \<Rightarrow> nat option \<times> bsr_chain" where
  "find_next_bsr cap_positionblocks h vol =
     (case h_bsrs h of
        [] \<Rightarrow> (None, h)
      | b # _ \<Rightarrow>
          if \<not> n_use_positioning b \<or> \<not> h_reposition h \<or> \<not> cap_positionblocks then (None, h)
          else
            (let found = find_loop (enumerate 0 (h_bsrs h)) vol None
             in (map_option fst found, h\<lparr>h_mount_next_volume := Option.is_none found\<rparr>)))"

definition get_bsr_start_addr :: "bsr option \<Rightarrow> u64" where
  "get_bsr_start_addr b =
     (case b of None \<Rightarrow> 0 | Some b \<Rightarrow> (case n_voladdr b of [] \<Rightarrow> 0 | v # _ \<Rightarrow> va_saddr v))"

section \<open>What a bootstrap record selects\<close>

text \<open>The lists as sets: an empty one selects everything, except for the volumes.\<close>

definition one_of :: "'a list \<Rightarrow> ('a \<Rightarrow> bool) \<Rightarrow> bool" where
  "one_of xs p \<longleftrightarrow> xs = [] \<or> (\<exists>x \<in> set xs. p x)"

definition within :: "u32 \<Rightarrow> u32 \<times> u32 \<Rightarrow> bool" where
  "within x r \<longleftrightarrow> fst r \<le> x \<and> x \<le> snd r"

definition covers_addr :: "u64 \<Rightarrow> bsr_voladdr \<Rightarrow> bool" where
  "covers_addr a v \<longleftrightarrow> va_saddr v \<le> a \<and> a \<le> va_eaddr v"

definition covers_file :: "i32 \<Rightarrow> bsr_findex \<Rightarrow> bool" where
  "covers_file fi f \<longleftrightarrow> sint (fx_findex f) \<le> sint fi \<and> sint fi \<le> sint (fx_findex2 f)"

definition wants :: "(dev_record \<Rightarrow> string option) \<Rightarrow> bsr \<Rightarrow> dev_record \<Rightarrow> string \<Rightarrow> session_label \<Rightarrow> bool" where
  "wants unpack b rec vol sess \<longleftrightarrow>
     vol \<in> set (n_volume b) \<and> one_of (n_voladdr b) (covers_addr (r_Addr rec)) \<and>
     one_of (n_sesstime b) ((=) (r_VolSessionTime rec)) \<and> one_of (n_sessid b) (within (r_VolSessionId rec)) \<and>
     one_of (n_FileIndex b) (covers_file (r_FileIndex rec)) \<and> \<not> n_skip_file (match_fileregex unpack b rec) \<and>
     (n_count b \<noteq> 0 \<and> n_FileIndex b \<noteq> [] \<or>
      one_of (n_JobId b) (within (sl_JobId sess)) \<and> one_of (n_job b) ((=) (sl_Job sess)) \<and>
      one_of (n_client b) ((=) (sl_ClientName sess)) \<and> one_of (n_JobType b) ((=) (sl_JobType sess)) \<and>
      one_of (n_JobLevel b) ((=) (sl_JobLevel sess)) \<and> one_of (n_stream b) ((=) (r_Stream rec)))"

text \<open>File index ranges in ascending order, as the Director writes them, and addresses ordered by their end.\<close>

definition files_sorted :: "bsr_findex list \<Rightarrow> bool" where
  "files_sorted fs \<longleftrightarrow> sorted_wrt (\<lambda>f g. sint (fx_findex2 f) < sint (fx_findex g)) fs"

definition addrs_sorted :: "bsr_voladdr list \<Rightarrow> bool" where
  "addrs_sorted vs \<longleftrightarrow> sorted (map va_eaddr vs)"

lemma match_volume_iff: "match_volume vs vol \<longleftrightarrow> vol \<in> set vs"
  by (induction vs vol rule: match_volume.induct) auto

lemma match_items_iff:
  "match_client cs s \<longleftrightarrow> one_of cs ((=) (sl_ClientName s))" "match_job js s \<longleftrightarrow> one_of js ((=) (sl_Job s))"
  "match_job_type ts s \<longleftrightarrow> one_of ts ((=) (sl_JobType s))" "match_job_level ls s \<longleftrightarrow> one_of ls ((=) (sl_JobLevel s))"
  "match_jobid ids s \<longleftrightarrow> one_of ids (within (sl_JobId s))" "match_stream ss rec \<longleftrightarrow> one_of ss ((=) (r_Stream rec))"
  "match_sesstime sts rec \<longleftrightarrow> one_of sts ((=) (r_VolSessionTime rec))"
  "match_sessid sids rec \<longleftrightarrow> one_of sids (within (r_VolSessionId rec))"
  "match_block_sesstime sts blk \<longleftrightarrow> one_of sts ((=) (b_VolSessionTime blk))"
  "match_block_sessid sids blk \<longleftrightarrow> one_of sids (within (b_VolSessionId blk))"
proof -
  show "match_client cs s \<longleftrightarrow> one_of cs ((=) (sl_ClientName s))"
    by (induction cs s rule: match_client.induct) (auto simp: one_of_def)
  show "match_job js s \<longleftrightarrow> one_of js ((=) (sl_Job s))"
    by (induction js s rule: match_job.induct) (auto simp: one_of_def)
  show "match_job_type ts s \<longleftrightarrow> one_of ts ((=) (sl_JobType s))"
    by (induction ts s rule: match_job_type.induct) (auto simp: one_of_def)
  show "match_job_level ls s \<longleftrightarrow> one_of ls ((=) (sl_JobLevel s))"
    by (induction ls s rule: match_job_level.induct) (auto simp: one_of_def)
  show "match_jobid ids s \<longleftrightarrow> one_of ids (within (sl_JobId s))"
    by (induction ids s rule: match_jobid.induct) (auto simp: one_of_def within_def)
  show "match_stream ss rec \<longleftrightarrow> one_of ss ((=) (r_Stream rec))"
    by (induction ss rec rule: match_stream.induct) (auto simp: one_of_def)
  show "match_sesstime sts rec \<longleftrightarrow> one_of sts ((=) (r_VolSessionTime rec))"
    by (induction sts rec rule: match_sesstime.induct) (auto simp: one_of_def)
  show "match_sessid sids rec \<longleftrightarrow> one_of sids (within (r_VolSessionId rec))"
    by (induction sids rec rule: match_sessid.induct) (auto simp: one_of_def within_def)
  show "match_block_sesstime sts blk \<longleftrightarrow> one_of sts ((=) (b_VolSessionTime blk))"
    by (induction sts blk rule: match_block_sesstime.induct) (auto simp: one_of_def)
  show "match_block_sessid sids blk \<longleftrightarrow> one_of sids (within (b_VolSessionId blk))"
    by (induction sids blk rule: match_block_sessid.induct) (auto simp: one_of_def within_def)
qed

section \<open>Address and file index ranges\<close>

lemma match_voladdr_iff: "fst (match_voladdr vs a dn) \<longleftrightarrow> one_of vs (covers_addr a)"
proof (induction vs arbitrary: dn)
  case (Cons v vs)
  then show ?case by (auto simp: one_of_def covers_addr_def Let_def case_prod_beta)
qed (simp add: one_of_def)

definition addr_items :: "bsr_voladdr list \<Rightarrow> (u64 \<times> u64) list" where
  "addr_items vs = map (\<lambda>v. (va_saddr v, va_eaddr v)) vs"

lemma addr_items_Nil [simp]: "addr_items vs = [] \<longleftrightarrow> vs = []"
  by (simp add: addr_items_def)

lemma addr_items_ends: "addr_items vs = addr_items ws \<Longrightarrow> va_eaddr ` set vs = va_eaddr ` set ws"
  by (drule arg_cong [of _ _ "\<lambda>xs. snd ` set xs"]) (simp add: addr_items_def image_image)

lemma match_voladdr_items:
  "addr_items (fst (snd (match_voladdr vs a dn))) = addr_items vs"
  by (induction vs arbitrary: dn) (auto simp: addr_items_def Let_def case_prod_beta)

text \<open>The local marks are set only on ranges that lie before the address.\<close>

lemma match_voladdr_marks:
  assumes "v \<in> set (fst (snd (match_voladdr vs a dn)))" and "va_done v"
    and "\<forall>v \<in> set vs. va_done v \<longrightarrow> va_eaddr v < a"
  shows "va_eaddr v < a"
  using assms
proof (induction vs arbitrary: dn)
  case (Cons u vs)
  show ?case
  proof (cases "va_saddr u \<le> a \<and> a \<le> va_eaddr u \<or> vs = []")
    case True
    then show ?thesis using Cons.prems by (auto simp: Let_def split: if_splits)
  next
    case False
    let ?u = "if va_eaddr u < a then u\<lparr>va_done := True\<rparr> else u"
    have "v = ?u \<or> v \<in> set (fst (snd (match_voladdr vs a (va_done ?u \<and> dn))))"
      using Cons.prems(1) False by (auto simp: Let_def case_prod_beta split: if_splits)
    then show ?thesis
      using Cons.IH Cons.prems(2,3) by (auto split: if_splits)
  qed
qed simp

text \<open>A bootstrap record is done by its addresses when all ranges, ordered by their end, lie before.\<close>

lemma match_voladdr_done:
  assumes "fst (snd (snd (match_voladdr vs a dn)))" and "addrs_sorted vs"
    and "\<forall>v \<in> set vs. va_done v \<longrightarrow> va_eaddr v < a"
  shows "\<forall>v \<in> set vs. va_eaddr v < a"
  using assms
proof (induction vs arbitrary: dn)
  case (Cons u vs)
  let ?u = "if va_eaddr u < a then u\<lparr>va_done := True\<rparr> else u"
  have nc: "\<not> (va_saddr u \<le> a \<and> a \<le> va_eaddr u)" using Cons.prems(1) by auto
  show ?case
  proof (cases "vs = []")
    case True
    then show ?thesis using nc Cons.prems by (auto simp: Let_def split: if_splits)
  next
    case False
    have "fst (snd (snd (match_voladdr vs a (va_done ?u \<and> dn))))"
      using Cons.prems(1) nc False by (simp add: Let_def case_prod_beta)
    moreover have s: "addrs_sorted vs" "\<forall>v \<in> set vs. va_eaddr u \<le> va_eaddr v"
      using Cons.prems(2) by (auto simp: addrs_sorted_def)
    ultimately have all: "\<forall>v \<in> set vs. va_eaddr v < a" using Cons.IH Cons.prems(3) by simp
    moreover obtain w where "w \<in> set vs" using False by (cases vs) auto
    ultimately have "va_eaddr u < a" using s(2) by (meson le_less_trans)
    then show ?thesis using all by simp
  qed
qed simp

lemma files_sorted_Cons:
  "files_sorted (f # fs) \<longleftrightarrow> files_sorted fs \<and> (\<forall>g \<in> set fs. sint (fx_findex2 f) < sint (fx_findex g))"
  by (auto simp: files_sorted_def)

lemma match_findex_iff:
  assumes "files_sorted fs" and "\<forall>f \<in> set fs. sint (fx_findex f) \<le> sint (fx_findex2 f)"
  shows "fst (match_findex fs fi) \<longleftrightarrow> one_of fs (covers_file fi)"
  using assms
proof (induction fs)
  case (Cons f fs)
  have later: "\<not> covers_file fi g" if "sint fi < sint (fx_findex f)" "g \<in> set fs" for g
    using Cons.prems that unfolding files_sorted_Cons covers_file_def
    by (meson leD le_less_trans less_trans list.set_intros(1))
  show ?case
  proof (cases "sint (fx_findex2 f) < sint fi")
    case True
    then show ?thesis using Cons by (cases "fs = []") (auto simp: one_of_def covers_file_def files_sorted_Cons)
  next
    case False
    then show ?thesis using later by (auto simp: one_of_def covers_file_def)
  qed
qed (simp add: one_of_def)

text \<open>What is freed lies before the record; when the bootstrap record is done everything does.\<close>

lemma match_findex_rest:
  assumes "match_findex fs fi = (m, fs', d)" and "fs \<noteq> []"
  shows "\<exists>pre. fs = pre @ fs' \<and> fs' \<noteq> [] \<and> (\<forall>f \<in> set pre. sint (fx_findex2 f) < sint fi) \<and>
    (d \<longrightarrow> (\<forall>f \<in> set fs. sint (fx_findex2 f) < sint fi))"
  using assms
proof (induction fs fi rule: match_findex.induct)
  case (2 f fs fi)
  show ?case
  proof (cases "\<not> covers_file fi f \<and> sint (fx_findex2 f) < sint fi \<and> fs \<noteq> []")
    case True
    then have "match_findex fs fi = (m, fs', d)" using "2.prems"(1) by (auto simp: covers_file_def)
    with True "2.IH" obtain pre where "fs = pre @ fs'" "fs' \<noteq> []" "\<forall>f \<in> set pre. sint (fx_findex2 f) < sint fi"
      "d \<longrightarrow> (\<forall>f \<in> set fs. sint (fx_findex2 f) < sint fi)"
      by (auto simp: covers_file_def)
    then show ?thesis using True by (intro exI [of _ "f # pre"]) auto
  next
    case False
    then show ?thesis using "2.prems" by (intro exI [of _ "[]"]) (auto simp: covers_file_def split: if_splits)
  qed
qed simp

section \<open>One bootstrap record against its specification\<close>

definition ranges_ok :: "bsr \<Rightarrow> bool" where
  "ranges_ok b \<longleftrightarrow> addrs_sorted (n_voladdr b) \<and> files_sorted (n_FileIndex b) \<and>
     (\<forall>f \<in> set (n_FileIndex b). sint (fx_findex f) \<le> sint (fx_findex2 f))"

definition of_session :: "bsr \<Rightarrow> dev_record \<Rightarrow> bool" where
  "of_session b rec \<longleftrightarrow> one_of (n_sesstime b) ((=) (r_VolSessionTime rec)) \<and>
     one_of (n_sessid b) (within (r_VolSessionId rec))"

lemma match_findex_nonempty: "fst (snd (match_findex fs fi)) = [] \<longleftrightarrow> fs = []"
  by (induction fs fi rule: match_findex.induct) auto

lemma match_fileregex_frame [simp]:
  "n_count (match_fileregex unpack b rec) = n_count b" "n_FileIndex (match_fileregex unpack b rec) = n_FileIndex b"
  "n_JobId (match_fileregex unpack b rec) = n_JobId b" "n_job (match_fileregex unpack b rec) = n_job b"
  "n_client (match_fileregex unpack b rec) = n_client b" "n_JobType (match_fileregex unpack b rec) = n_JobType b"
  "n_JobLevel (match_fileregex unpack b rec) = n_JobLevel b" "n_stream (match_fileregex unpack b rec) = n_stream b"
  "n_done (match_fileregex unpack b rec) = n_done b"
  by (auto simp: match_fileregex_def split: option.splits)

lemma match_fileregex_skip:
  "n_skip_file (match_fileregex unpack (b\<lparr>n_voladdr := vas, n_FileIndex := fis, n_done := e\<rparr>) rec) =
   n_skip_file (match_fileregex unpack b rec)"
  by (auto simp: match_fileregex_def split: option.splits)

lemma match_one_iff:
  assumes "files_sorted (n_FileIndex b)" and "\<forall>f \<in> set (n_FileIndex b). sint (fx_findex f) \<le> sint (fx_findex2 f)"
  shows "fst (match_one unpack b rec vol sess) \<longleftrightarrow> \<not> n_done b \<and> wants unpack b rec vol sess"
proof -
  obtain m vas d r where va: "match_voladdr (n_voladdr b) (r_Addr rec) True = (m, vas, d, r)"
    by (metis prod_cases4)
  obtain n fis e where fx: "match_findex (n_FileIndex b) (r_FileIndex rec) = (n, fis, e)"
    by (metis prod_cases3)
  have m: "m \<longleftrightarrow> one_of (n_voladdr b) (covers_addr (r_Addr rec))"
    using match_voladdr_iff [of "n_voladdr b" "r_Addr rec" True] va by simp
  have n: "n \<longleftrightarrow> one_of (n_FileIndex b) (covers_file (r_FileIndex rec))"
    using match_findex_iff [OF assms, of "r_FileIndex rec"] fx by simp
  have ne: "fis = [] \<longleftrightarrow> n_FileIndex b = []"
    using match_findex_nonempty [of "n_FileIndex b" "r_FileIndex rec"] fx by simp
  show ?thesis
    by (simp add: match_one_def wants_def get_record_address_def va fx m n ne match_volume_iff match_items_iff
        match_fileregex_skip Let_def)
qed

section \<open>The marks never change what is selected\<close>

text \<open>
  \<open>b'\<close> is what became of \<open>b\<close> after the records \<open>past\<close>: only ranges that lie before one
  of them are marked or freed.
\<close>

definition before_addr :: "bsr_voladdr \<Rightarrow> dev_record \<Rightarrow> bool" where
  "before_addr v rec \<longleftrightarrow> va_eaddr v < r_Addr rec"

definition before_file :: "bsr \<Rightarrow> bsr_findex \<Rightarrow> dev_record \<Rightarrow> bool" where
  "before_file b f rec \<longleftrightarrow> of_session b rec \<and> sint (fx_findex2 f) < sint (r_FileIndex rec)"

definition fixed_part :: "bsr \<Rightarrow> bsr" where
  "fixed_part b = b\<lparr>n_done := False, n_voladdr := [], n_FileIndex := []\<rparr>"

definition marked_past :: "bsr_voladdr list \<Rightarrow> dev_record set \<Rightarrow> bool" where
  "marked_past vs past \<longleftrightarrow> (\<forall>v \<in> set vs. va_done v \<longrightarrow> (\<exists>p \<in> past. before_addr v p))"

definition freed_past :: "bsr \<Rightarrow> bsr_findex list \<Rightarrow> dev_record set \<Rightarrow> bool" where
  "freed_past b fs past \<longleftrightarrow>
     (\<exists>pre. n_FileIndex b = pre @ fs \<and> (fs = [] \<longrightarrow> pre = []) \<and> (\<forall>f \<in> set pre. \<exists>p \<in> past. before_file b f p))"

definition done_past :: "bsr \<Rightarrow> dev_record set \<Rightarrow> bool" where
  "done_past b past \<longleftrightarrow>
     n_voladdr b \<noteq> [] \<and> (\<forall>v \<in> set (n_voladdr b). \<exists>p \<in> past. before_addr v p) \<or>
     n_FileIndex b \<noteq> [] \<and> (\<forall>f \<in> set (n_FileIndex b). \<exists>p \<in> past. before_file b f p)"

definition tracks :: "bsr \<Rightarrow> bsr \<Rightarrow> dev_record set \<Rightarrow> bool" where
  "tracks b b' past \<longleftrightarrow>
     fixed_part b' = fixed_part b \<and>
     addr_items (n_voladdr b') = addr_items (n_voladdr b) \<and>
     marked_past (n_voladdr b') past \<and> freed_past b (n_FileIndex b') past \<and> (n_done b' \<longrightarrow> done_past b past)"

text \<open>The order of the records on the volume: addresses ascend, file indexes ascend within a session.\<close>

definition follows :: "bsr \<Rightarrow> dev_record \<Rightarrow> dev_record \<Rightarrow> bool" where
  "follows b p rec \<longleftrightarrow> r_Addr p \<le> r_Addr rec \<and>
     (of_session b p \<and> of_session b rec \<longrightarrow> sint (r_FileIndex p) \<le> sint (r_FileIndex rec))"

lemma before_not_covers:
  assumes "follows b p rec"
  shows "before_addr v p \<Longrightarrow> \<not> covers_addr (r_Addr rec) v"
    and "before_file b f p \<Longrightarrow> of_session b rec \<Longrightarrow> \<not> covers_file (r_FileIndex rec) f"
  using assms by (auto simp: follows_def before_addr_def before_file_def covers_addr_def covers_file_def)

lemma past_mono:
  assumes "past \<subseteq> past'"
  shows "marked_past vs past \<Longrightarrow> marked_past vs past'" and "freed_past b fs past \<Longrightarrow> freed_past b fs past'"
    and "done_past b past \<Longrightarrow> done_past b past'"
proof -
  show "marked_past vs past \<Longrightarrow> marked_past vs past'" using assms unfolding marked_past_def by blast
  show "done_past b past \<Longrightarrow> done_past b past'" using assms unfolding done_past_def by blast
  assume "freed_past b fs past"
  then obtain pre where pre: "n_FileIndex b = pre @ fs" "fs = [] \<longrightarrow> pre = []"
    "\<forall>f \<in> set pre. \<exists>p \<in> past. before_file b f p"
    unfolding freed_past_def by blast
  then have "\<forall>f \<in> set pre. \<exists>p \<in> past'. before_file b f p" using assms by blast
  then show "freed_past b fs past'" using pre(1,2) unfolding freed_past_def by blast
qed

lemma tracks_refl:
  assumes "\<not> n_done b" and "\<forall>v \<in> set (n_voladdr b). \<not> va_done v"
  shows "tracks b b past"
  using assms by (simp add: tracks_def marked_past_def freed_past_def)

lemma tracks_mono: "tracks b b' past \<Longrightarrow> past \<subseteq> past' \<Longrightarrow> tracks b b' past'"
  unfolding tracks_def by (elim conjE, intro conjI impI) (assumption | erule past_mono, assumption | drule mp, assumption, erule past_mono(3), assumption)+

lemma one_of_addr_items:
  assumes "addr_items vs = addr_items ws"
  shows "one_of vs (covers_addr a) \<longleftrightarrow> one_of ws (covers_addr a)"
proof -
  have c: "(\<exists>v \<in> set us. covers_addr a v) \<longleftrightarrow>
      (\<exists>x \<in> set (addr_items us). fst x \<le> a \<and> a \<le> snd x)" for us
    by (auto simp: covers_addr_def addr_items_def)
  have "vs = [] \<longleftrightarrow> ws = []" using arg_cong [OF assms, of "\<lambda>x. x = []"] by simp
  then show ?thesis unfolding one_of_def c assms by simp
qed

lemma fixed_part_fields:
  assumes "fixed_part b' = fixed_part b"
  shows "n_volume b' = n_volume b" "n_sesstime b' = n_sesstime b" "n_sessid b' = n_sessid b" "n_count b' = n_count b"
    "n_JobId b' = n_JobId b" "n_job b' = n_job b" "n_client b' = n_client b" "n_JobType b' = n_JobType b"
    "n_JobLevel b' = n_JobLevel b" "n_stream b' = n_stream b" "n_fileregex b' = n_fileregex b" "n_skip_file b' = n_skip_file b"
  using assms by (cases b, cases b', simp add: fixed_part_def)+

text \<open>For a later record the state selects what the bootstrap record does.\<close>

lemma tracks_wants:
  assumes "tracks b b' past" and "\<forall>p \<in> past. follows b p rec"
  shows "\<not> n_done b' \<and> wants unpack b' rec vol sess \<longleftrightarrow> wants unpack b rec vol sess"
proof -
  have eq: "fixed_part b' = fixed_part b" using assms(1) by (simp add: tracks_def)
  have fld: "n_volume b' = n_volume b" "n_sesstime b' = n_sesstime b" "n_sessid b' = n_sessid b" "n_count b' = n_count b"
    "n_JobId b' = n_JobId b" "n_job b' = n_job b" "n_client b' = n_client b" "n_JobType b' = n_JobType b"
    "n_JobLevel b' = n_JobLevel b" "n_stream b' = n_stream b" "n_fileregex b' = n_fileregex b" "n_skip_file b' = n_skip_file b"
    using fixed_part_fields [OF eq] .
  have skip: "n_skip_file (match_fileregex unpack b' rec) = n_skip_file (match_fileregex unpack b rec)"
    by (auto simp: match_fileregex_def fld split: option.splits)
  have addr: "one_of (n_voladdr b') (covers_addr (r_Addr rec)) \<longleftrightarrow> one_of (n_voladdr b) (covers_addr (r_Addr rec))"
    using assms(1) by (intro one_of_addr_items) (simp add: tracks_def)
  obtain pre where pre: "n_FileIndex b = pre @ n_FileIndex b'" "n_FileIndex b' = [] \<longrightarrow> pre = []"
    "\<forall>f \<in> set pre. \<exists>p \<in> past. before_file b f p"
    using assms(1) unfolding tracks_def freed_past_def by blast
  have fls: "one_of (n_FileIndex b') (covers_file (r_FileIndex rec)) \<longleftrightarrow>
      one_of (n_FileIndex b) (covers_file (r_FileIndex rec))" if "of_session b rec"
    using pre before_not_covers(2) [OF _ _ that] assms(2) unfolding one_of_def by fastforce
  have fd: "\<not> wants unpack b rec vol sess" if "n_done b'"
  proof
    assume w: "wants unpack b rec vol sess"
    then have "of_session b rec" by (simp add: wants_def of_session_def)
    then have nc: "\<forall>p \<in> past. before_addr v p \<longrightarrow> \<not> covers_addr (r_Addr rec) v"
      "\<forall>p \<in> past. before_file b f p \<longrightarrow> \<not> covers_file (r_FileIndex rec) f" for v f
      using assms(2) before_not_covers by blast+
    have "done_past b past" using that assms(1) by (simp add: tracks_def)
    then show False
    proof (unfold done_past_def, elim disjE conjE)
      assume "n_voladdr b \<noteq> []" "\<forall>v \<in> set (n_voladdr b). \<exists>p \<in> past. before_addr v p"
      then show False using w nc(1) unfolding wants_def one_of_def by blast
    next
      assume "n_FileIndex b \<noteq> []" "\<forall>f \<in> set (n_FileIndex b). \<exists>p \<in> past. before_file b f p"
      then show False using w nc(2) unfolding wants_def one_of_def by blast
    qed
  qed
  have ne: "n_FileIndex b' = [] \<longleftrightarrow> n_FileIndex b = []" using pre by auto
  show ?thesis
    using fd fls unfolding wants_def fld skip addr ne of_session_def by blast
qed

lemma tracks_ranges:
  assumes "tracks b b' past" and "ranges_ok b"
  shows "ranges_ok b'"
proof -
  have ea: "map va_eaddr vs = map snd (addr_items vs)" for vs by (simp add: addr_items_def)
  have "map va_eaddr (n_voladdr b') = map va_eaddr (n_voladdr b)"
    unfolding ea using assms(1) by (simp add: tracks_def)
  moreover obtain pre where "n_FileIndex b = pre @ n_FileIndex b'"
    using assms(1) unfolding tracks_def freed_past_def by blast
  ultimately show ?thesis
    using assms(2) by (auto simp: ranges_ok_def addrs_sorted_def files_sorted_def sorted_wrt_append)
qed

text \<open>One test keeps the relation; the address ranges and the file index ranges one after the other.\<close>

lemma tracks_voladdr:
  assumes "tracks b b' past" and "\<forall>p \<in> past. follows b p rec" and "ranges_ok b"
    and "match_voladdr (n_voladdr b') (r_Addr rec) True = (m, vas, d, r)"
  shows "tracks b (b'\<lparr>n_voladdr := vas, n_done := n_done b' \<or> d\<rparr>) (insert rec past)"
proof -
  note res = match_voladdr_items [of "n_voladdr b'" "r_Addr rec" True, unfolded assms(4) fst_conv snd_conv]
  have ok: "ranges_ok b'" using tracks_ranges assms(1,3) .
  have eq: "addr_items (n_voladdr b') = addr_items (n_voladdr b)"
    using assms(1) unfolding tracks_def by blast
  have old: "\<forall>v \<in> set (n_voladdr b'). va_done v \<longrightarrow> va_eaddr v < r_Addr rec"
    using assms(1,2) unfolding tracks_def marked_past_def before_addr_def follows_def by (meson less_le_trans)
  have "marked_past vas (insert rec past)"
    using match_voladdr_marks [of _ "n_voladdr b'" "r_Addr rec" True, unfolded assms(4) fst_conv snd_conv, OF _ _ old]
    unfolding marked_past_def before_addr_def by blast
  moreover have "done_past b (insert rec past)" if "d"
  proof -
    have all: "\<forall>v \<in> set (n_voladdr b'). va_eaddr v < r_Addr rec"
      using match_voladdr_done [of "n_voladdr b'" "r_Addr rec" True, unfolded assms(4) fst_conv snd_conv, OF that _ old] ok
      by (simp add: ranges_ok_def)
    have "n_voladdr b' \<noteq> []" using assms(4) that by auto
    then have "n_voladdr b \<noteq> []" using arg_cong [OF eq, of "\<lambda>x. x = []"] by simp
    moreover have "\<forall>v \<in> set (n_voladdr b). va_eaddr v < r_Addr rec"
      using all addr_items_ends [OF eq] by (metis (no_types, lifting) imageE imageI)
    ultimately show ?thesis by (auto simp: done_past_def before_addr_def)
  qed
  ultimately show ?thesis
    using tracks_mono [OF assms(1), of "insert rec past"] res eq by (auto simp: tracks_def fixed_part_def)
qed

lemma tracks_findex:
  assumes "tracks b b' past" and "of_session b rec" and "rec \<in> past"
    and "match_findex (n_FileIndex b') (r_FileIndex rec) = (m, fis, d)"
  shows "tracks b (b'\<lparr>n_FileIndex := fis, n_done := n_done b' \<or> d\<rparr>) past"
proof (cases "n_FileIndex b' = []")
  case True
  then have "fis = []" "\<not> d" using assms(4) by auto
  then show ?thesis using assms(1) True by (simp add: tracks_def fixed_part_def)
next
  case False
  obtain mid where mid: "n_FileIndex b' = mid @ fis" "fis \<noteq> []"
    "\<forall>f \<in> set mid. sint (fx_findex2 f) < sint (r_FileIndex rec)"
    "d \<longrightarrow> (\<forall>f \<in> set (n_FileIndex b'). sint (fx_findex2 f) < sint (r_FileIndex rec))"
    using match_findex_rest [OF assms(4) False] by blast
  obtain pre where pre: "n_FileIndex b = pre @ n_FileIndex b'" "\<forall>f \<in> set pre. \<exists>p \<in> past. before_file b f p"
    using assms(1) unfolding tracks_def freed_past_def by blast
  have "\<forall>f \<in> set mid. \<exists>p \<in> past. before_file b f p" using mid(3) assms(2,3) unfolding before_file_def by blast
  then have "freed_past b fis past"
    unfolding freed_past_def using pre mid(1,2) by (intro exI [of _ "pre @ mid"]) auto
  moreover have "done_past b past" if "d"
  proof -
    have "\<forall>f \<in> set (n_FileIndex b'). \<exists>p \<in> past. before_file b f p"
      using that mid(4) assms(2,3) unfolding before_file_def by blast
    then show ?thesis using pre False unfolding done_past_def by auto
  qed
  ultimately show ?thesis using assms(1) by (auto simp: tracks_def fixed_part_def)
qed

lemma match_fileregex_None: "n_fileregex b = None \<Longrightarrow> match_fileregex unpack b rec = b"
  by (simp add: match_fileregex_def)

lemma match_one_tracks:
  assumes "tracks b b' past" and "\<forall>p \<in> past. follows b p rec" and "ranges_ok b" and "n_fileregex b = None"
  shows "tracks b (fst (snd (snd (match_one unpack b' rec vol sess)))) (insert rec past)"
proof -
  obtain m vas d r where va: "match_voladdr (n_voladdr b') (r_Addr rec) True = (m, vas, d, r)"
    by (metis prod_cases4)
  obtain n fis e where fx: "match_findex (n_FileIndex b') (r_FileIndex rec) = (n, fis, e)"
    by (metis prod_cases3)
  let ?v = "b'\<lparr>n_voladdr := vas, n_done := n_done b' \<or> d\<rparr>"
  let ?f = "?v\<lparr>n_FileIndex := fis, n_done := n_done ?v \<or> e\<rparr>"
  have v: "tracks b ?v (insert rec past)" using tracks_voladdr [OF assms(1-3) va] .
  have same: "n_sesstime b' = n_sesstime b" "n_sessid b' = n_sessid b" "n_fileregex b' = None"
    using fixed_part_fields [of b' b] assms(1,4) by (simp_all add: tracks_def)
  have f: "tracks b ?f (insert rec past)" if "of_session b rec"
    using tracks_findex [OF v that] fx by simp
  have "fst (snd (snd (match_one unpack b' rec vol sess))) \<in> {b', ?v} \<or>
      of_session b rec \<and> fst (snd (snd (match_one unpack b' rec vol sess))) = ?f"
    by (simp add: match_one_def get_record_address_def va fx match_items_iff of_session_def same match_fileregex_None Let_def)
  then show ?thesis
    using tracks_mono [OF assms(1) subset_insertI] v f by auto
qed

section \<open>The chain against its specification\<close>

definition chain_tracks :: "bsr list \<Rightarrow> bsr list \<Rightarrow> dev_record set \<Rightarrow> bool" where
  "chain_tracks bs bs' past \<longleftrightarrow> list_all2 (\<lambda>b b'. tracks b b' past) bs bs'"

definition bsr_ok :: "bsr \<Rightarrow> bool" where
  "bsr_ok b \<longleftrightarrow> ranges_ok b \<and> n_fileregex b = None"

lemma match_all_step:
  assumes "chain_tracks bs bs' past" and "\<forall>b \<in> set bs. bsr_ok b \<and> (\<forall>p \<in> past. follows b p rec)"
    and "match_all unpack i bs' rec vol sess dn = (stat, k, bs'', r)"
  shows "(stat = 1 \<longleftrightarrow> (\<exists>b \<in> set bs. wants unpack b rec vol sess)) \<and> stat \<in> {1, 0, - 1} \<and>
    chain_tracks bs bs'' (insert rec past) \<and> (stat = - 1 \<longrightarrow> dn \<and> (\<forall>b \<in> set bs''. n_done b))"
  using assms
proof (induction bs arbitrary: bs' i dn stat k bs'' r)
  case Nil
  then show ?case by (auto simp: chain_tracks_def split: if_splits)
next
  case (Cons b bs)
  obtain b' cs where bs': "bs' = b' # cs" and t: "tracks b b' past" and ts: "chain_tracks bs cs past"
    using Cons.prems(1) by (auto simp: chain_tracks_def list_all2_Cons1)
  obtain m kp c q where one: "match_one unpack b' rec vol sess = (m, kp, c, q)"
    by (metis prod_cases4)
  have ok: "ranges_ok b" "n_fileregex b = None" "\<forall>p \<in> past. follows b p rec"
    using Cons.prems(2) by (auto simp: bsr_ok_def)
  have c: "tracks b c (insert rec past)" using match_one_tracks [OF t ok(3,1,2), of unpack vol sess] one by simp
  have m: "m \<longleftrightarrow> wants unpack b rec vol sess"
    using match_one_iff [of b' unpack rec vol sess] tracks_ranges [OF t ok(1)] tracks_wants [OF t ok(3), of unpack vol sess] one
    by (simp add: ranges_ok_def)
  obtain st k' ds r' where rec: "match_all unpack (Suc i) cs rec vol sess (n_done c \<and> dn) = (st, k', ds, r')"
    by (metis prod_cases4)
  note IH = Cons.IH [OF ts _ rec]
  show ?case
  proof (cases m)
    case True
    have "chain_tracks bs cs (insert rec past)"
      using ts unfolding chain_tracks_def by (rule list_all2_mono) (rule tracks_mono, auto)
    then show ?thesis using True Cons.prems(3) m c by (auto simp: bs' one chain_tracks_def)
  next
    case False
    then show ?thesis using Cons.prems(2,3) IH m c by (auto simp: bs' one rec chain_tracks_def)
  qed
qed

text \<open>The records of a volume as they are read, each with the session label in force.\<close>

fun match_run ::
  "(dev_record \<Rightarrow> string option) \<Rightarrow> bsr_chain \<Rightarrow> string \<Rightarrow> (dev_record \<times> session_label) list \<Rightarrow> int list \<times> bsr_chain" where
  "match_run unpack h vol [] = ([], h)"
| "match_run unpack h vol ((rec, sess) # xs) =
     (case match_bsr unpack h rec vol sess of (stat, k, h) \<Rightarrow>
        (case match_run unpack h vol xs of (stats, h) \<Rightarrow> (stat # stats, h)))"

definition in_order :: "bsr \<Rightarrow> dev_record list \<Rightarrow> bool" where
  "in_order b recs \<longleftrightarrow> sorted_wrt (follows b) recs"

definition fresh_chain :: "bsr_chain \<Rightarrow> bool" where
  "fresh_chain h \<longleftrightarrow> h_bsrs h \<noteq> [] \<and>
     (\<forall>b \<in> set (h_bsrs h). bsr_ok b \<and> \<not> n_done b \<and> (\<forall>v \<in> set (n_voladdr b). \<not> va_done v))"

lemma match_bsr_step:
  assumes "chain_tracks bs (h_bsrs h) past" and "bs \<noteq> []"
    and "\<forall>b \<in> set bs. bsr_ok b \<and> (\<forall>p \<in> past. follows b p rec)"
    and "match_bsr unpack h rec vol sess = (stat, k, h')"
  shows "(stat = 1 \<longleftrightarrow> (\<exists>b \<in> set bs. wants unpack b rec vol sess)) \<and> chain_tracks bs (h_bsrs h') (insert rec past) \<and>
    (stat = - 1 \<longrightarrow> (\<forall>b \<in> set (h_bsrs h'). n_done b))"
proof -
  obtain st k' ds r' where all: "match_all unpack 0 (h_bsrs h) rec vol sess True = (st, k', ds, r')"
    by (metis prod_cases4)
  obtain c cs where h: "h_bsrs h = c # cs"
    using assms(1,2) by (cases "h_bsrs h") (auto simp: chain_tracks_def)
  have "stat = st" "h_bsrs h' = ds"
    using assms(4) all unfolding match_bsr_def h by auto
  then show ?thesis using match_all_step [OF assms(1,3) all] by simp
qed

lemma match_run_step:
  assumes "chain_tracks bs (h_bsrs h) past" and "bs \<noteq> []"
    and "\<forall>b \<in> set bs. bsr_ok b \<and> in_order b (map fst xs) \<and> (\<forall>p \<in> past. \<forall>x \<in> set xs. follows b p (fst x))"
    and "match_run unpack h vol xs = (stats, h')"
  shows "map (\<lambda>s. s = 1) stats = map (\<lambda>(rec, sess). \<exists>b \<in> set bs. wants unpack b rec vol sess) xs \<and>
    chain_tracks bs (h_bsrs h') (past \<union> fst ` set xs)"
  using assms
proof (induction xs arbitrary: h past stats h')
  case (Cons x xs)
  obtain rec sess where x: "x = (rec, sess)" by (cases x)
  obtain st k g where one: "match_bsr unpack h rec vol sess = (st, k, g)" by (metis prod_cases3)
  obtain sts g' where run: "match_run unpack g vol xs = (sts, g')" by (metis prod.exhaust)
  have step: "st = 1 \<longleftrightarrow> (\<exists>b \<in> set bs. wants unpack b rec vol sess)" "chain_tracks bs (h_bsrs g) (insert rec past)"
    using match_bsr_step [OF Cons.prems(1,2) _ one] Cons.prems(3) by (auto simp: x)
  have "map (\<lambda>s. s = 1) sts = map (\<lambda>(rec, sess). \<exists>b \<in> set bs. wants unpack b rec vol sess) xs \<and>
      chain_tracks bs (h_bsrs g') (insert rec past \<union> fst ` set xs)"
    using Cons.IH [OF step(2) Cons.prems(2) _ run] Cons.prems(3) by (auto simp: x in_order_def)
  then show ?case using Cons.prems(4) step(1) by (auto simp: x one run)
qed simp

lemma fresh_chain_tracks: "fresh_chain h \<Longrightarrow> chain_tracks (h_bsrs h) (h_bsrs h) {}"
  by (auto simp: fresh_chain_def chain_tracks_def list.rel_refl_strong tracks_refl)

lemma list_all2_partner: "list_all2 P xs ys \<Longrightarrow> x \<in> set xs \<Longrightarrow> \<exists>y \<in> set ys. P x y"
  by (induction rule: list_all2_induct) auto

lemma match_run_append:
  "match_run unpack h vol (xs @ ys) =
     (case match_run unpack h vol xs of (s1, h1) \<Rightarrow> (case match_run unpack h1 vol ys of (s2, h2) \<Rightarrow> (s1 @ s2, h2)))"
  by (induction unpack h vol xs rule: match_run.induct) (auto split: prod.splits)

lemma match_run_length: "length (fst (match_run unpack h vol xs)) = length xs"
  by (induction unpack h vol xs rule: match_run.induct) (auto split: prod.splits)



section \<open>Fast rejection\<close>

lemma match_block_chain_iff:
  "match_block_chain bs block \<longleftrightarrow>
   (\<exists>b \<in> set bs. match_block_sesstime (n_sesstime b) block \<and> match_block_sessid (n_sessid b) block)"
  by (induction bs) auto

lemma match_one_session: "fst (match_one unpack b rec vol sess) \<Longrightarrow> of_session b rec"
  by (auto simp: match_one_def of_session_def match_items_iff Let_def case_prod_beta split: if_splits)

lemma match_all_session:
  assumes "fst (match_all unpack i bs rec vol sess dn) = 1"
  shows "\<exists>b \<in> set bs. of_session b rec"
  using assms
proof (induction bs arbitrary: i dn)
  case (Cons b bs)
  then show ?case
    using match_one_session [of unpack b rec vol sess] by (auto simp: case_prod_beta split: if_splits)
qed (simp split: if_splits)

text \<open>
  C30 (fast_rejection_sound).  A block that \<^verbatim>\<open>match_bsr_block\<close> rejects holds no record that
  the bootstrap records select: records carry the session of their block.
\<close>

theorem fast_rejection_sound:
  assumes "\<not> match_bsr_block (h_bsrs h) block"
    and "r_VolSessionId rec = b_VolSessionId block" and "r_VolSessionTime rec = b_VolSessionTime block"
  shows "fst (match_bsr unpack h rec vol sess) \<noteq> 1"
proof
  assume one: "fst (match_bsr unpack h rec vol sess) = 1"
  obtain b bs where bs: "h_bsrs h = b # bs" "\<not> match_block_chain (b # bs) block"
    using assms(1) by (auto simp: match_bsr_block_def split: list.splits if_splits)
  then have "fst (match_all unpack 0 (b # bs) rec vol sess True) = 1"
    using one unfolding match_bsr_def bs(1) by (simp only: list.case case_prod_beta fst_conv)
  then obtain c where "c \<in> set (b # bs)" "of_session c rec" using match_all_session by blast
  then have "match_block_chain (b # bs) block"
    using assms(2,3) unfolding match_block_chain_iff of_session_def match_items_iff by metis
  then show False using bs(2) by simp
qed

section \<open>The next position\<close>

definition open_ranges :: "bsr \<Rightarrow> bsr_voladdr set" where
  "open_ranges b = {v \<in> set (n_voladdr b). \<not> va_done v}"

definition on_volume :: "string \<Rightarrow> bsr \<Rightarrow> bool" where
  "on_volume vol b \<longleftrightarrow> \<not> n_done b \<and> vol \<in> set (n_volume b)"

lemma get_smallest_voladdr_spec:
  "get_smallest_voladdr vs acc = Some m \<longleftrightarrow>
   (m \<in> set_option acc \<or> (\<exists>v \<in> set vs. \<not> va_done v \<and> va_saddr v = m)) \<and>
   (\<forall>x \<in> set_option acc. m \<le> x) \<and> (\<forall>v \<in> set vs. \<not> va_done v \<longrightarrow> m \<le> va_saddr v)"
proof (induction vs arbitrary: acc)
  case Nil
  show ?case by (cases acc) auto
next
  case (Cons v vs)
  show ?case
  proof (cases "va_done v")
    case False
    then show ?thesis by (cases acc) (auto simp: Cons.IH min_def)
  qed (auto simp: Cons.IH)
qed

lemma get_smallest_voladdr_some:
  "acc \<noteq> None \<or> (\<exists>v \<in> set vs. \<not> va_done v) \<Longrightarrow> \<exists>m. get_smallest_voladdr vs acc = Some m"
  by (induction vs arbitrary: acc) (auto split: option.splits)

definition lowest :: "bsr \<Rightarrow> u64 \<Rightarrow> bool" where
  "lowest b m \<longleftrightarrow> get_smallest_voladdr (n_voladdr b) None = Some m"

lemma lowest_iff: "lowest b m \<longleftrightarrow> (\<exists>v \<in> open_ranges b. va_saddr v = m) \<and> (\<forall>v \<in> open_ranges b. m \<le> va_saddr v)"
  by (auto simp: lowest_def get_smallest_voladdr_spec open_ranges_def)

lemma find_smallest_volfile_spec:
  assumes "lowest (snd f) m" and "lowest (snd x) n"
  shows "find_smallest_volfile f x = (if n < m then x else f)"
  using assms by (simp add: find_smallest_volfile_def lowest_def)

text \<open>The search keeps a candidate whose lowest open address is that of all it has seen.\<close>

lemma find_loop_lowest:
  assumes "\<forall>x \<in> set xs. on_volume vol (snd x) \<longrightarrow> (\<exists>n. lowest (snd x) n)"
    and "find_loop xs vol found = Some r" and "\<forall>f \<in> set_option found. \<exists>n. lowest (snd f) n"
  shows "(r \<in> set_option found \<or> r \<in> set xs \<and> on_volume vol (snd r)) \<and>
    (\<exists>m. lowest (snd r) m \<and> (\<forall>x \<in> set_option found \<union> {x \<in> set xs. on_volume vol (snd x)}. \<forall>n. lowest (snd x) n \<longrightarrow> m \<le> n))"
  using assms
proof (induction xs arbitrary: found)
  case Nil
  then show ?case by (auto simp: lowest_def)
next
  case (Cons x xs)
  show ?case
  proof (cases "on_volume vol (snd x)")
    case False
    then have "find_loop xs vol found = Some r" using Cons.prems(2) by (auto simp: on_volume_def match_volume_iff)
    moreover have "{y \<in> set (x # xs). on_volume vol (snd y)} = {y \<in> set xs. on_volume vol (snd y)}" using False by auto
    ultimately show ?thesis using Cons.IH [of found] Cons.prems(1,3) by auto
  next
    case True
    let ?g = "case found of None \<Rightarrow> x | Some f \<Rightarrow> find_smallest_volfile f x"
    have run: "find_loop xs vol (Some ?g) = Some r"
      using Cons.prems(2) True by (cases found) (auto simp: on_volume_def match_volume_iff)
    obtain n where n: "lowest (snd x) n" using Cons.prems(1) True by auto
    obtain k where k: "lowest (snd ?g) k" "k \<le> n" "?g = x \<or> ?g \<in> set_option found"
      "\<forall>f \<in> set_option found. \<forall>m. lowest (snd f) m \<longrightarrow> k \<le> m"
    proof (cases found)
      case None
      then show ?thesis using that n by simp
    next
      case (Some f)
      then obtain m where "lowest (snd f) m" using Cons.prems(3) by auto
      then show ?thesis
        using that [of "if n < m then n else m"] n Some
        by (cases "n < m") (auto simp: find_smallest_volfile_spec lowest_def)
    qed
    have "(r \<in> set_option (Some ?g) \<or> r \<in> set xs \<and> on_volume vol (snd r)) \<and>
      (\<exists>m. lowest (snd r) m \<and> (\<forall>x \<in> set_option (Some ?g) \<union> {x \<in> set xs. on_volume vol (snd x)}. \<forall>n. lowest (snd x) n \<longrightarrow> m \<le> n))"
      using Cons.prems(1) k(1) by (intro Cons.IH [OF _ run]) auto
    then obtain m where m: "lowest (snd r) m" "m \<le> k"
        "\<forall>x \<in> {x \<in> set xs. on_volume vol (snd x)}. \<forall>n. lowest (snd x) n \<longrightarrow> m \<le> n"
        "r = ?g \<or> r \<in> set xs \<and> on_volume vol (snd r)" using k(1) by auto
    have "m \<le> n'" if "lowest (snd x) n'" for n' using that n m(2) k(2) by (simp add: lowest_def)
    moreover have "\<forall>f \<in> set_option found. \<forall>j. lowest (snd f) j \<longrightarrow> m \<le> j"
      using m(2) k(4) by (meson order.trans)
    moreover have "r \<in> set_option found \<or> r \<in> set (x # xs) \<and> on_volume vol (snd r)"
      using m(4) k(3) True by auto
    ultimately show ?thesis using m(1,3) by auto
  qed
qed


section \<open>Examples\<close>

definition sample_read :: "u64 \<Rightarrow> i32 \<Rightarrow> dev_record" where
  "sample_read addr fi =
     (new_record [])\<lparr>r_Addr := addr, r_VolSessionId := 1, r_VolSessionTime := 9, r_FileIndex := fi, r_Stream := 2\<rparr>"

definition sample_sess :: session_label where
  "sample_sess = \<lparr>sl_JobId = 7, sl_Job = ''Backup.1'', sl_ClientName = ''fd'', sl_JobType = 66, sl_JobLevel = 70\<rparr>"

definition sample_bsr :: "bsr_voladdr list \<Rightarrow> bsr" where
  "sample_bsr vas =
     \<lparr>n_done = False, n_skip_file = False, n_volume = [''Vol1''], n_count = 0, n_found = 0, n_voladdr = vas,
      n_sesstime = [9], n_sessid = [(1, 1)], n_JobId = [], n_job = [], n_client = [],
      n_FileIndex = [\<lparr>fx_findex = 1, fx_findex2 = 2\<rparr>, \<lparr>fx_findex = 5, fx_findex2 = 5\<rparr>], n_JobType = [], n_JobLevel = [],
      n_stream = [], n_fileregex = None, n_use_fast_rejection = True, n_use_positioning = True\<rparr>"

definition sample_range :: "u64 \<Rightarrow> u64 \<Rightarrow> bsr_voladdr" where
  "sample_range a b = \<lparr>va_saddr = a, va_eaddr = b, va_done = False\<rparr>"

definition sample_chain :: "bsr_voladdr list \<Rightarrow> bsr_chain" where
  "sample_chain vas = \<lparr>h_bsrs = [sample_bsr vas], h_reposition = True, h_mount_next_volume = False\<rparr>"

abbreviation two_ranges :: "bsr_voladdr list" where
  "two_ranges \<equiv> [sample_range 10 20, sample_range 30 40]"

abbreviation sample_reads :: "(dev_record \<times> session_label) list" where
  "sample_reads \<equiv> [(sample_read 10 1, sample_sess), (sample_read 15 3, sample_sess), (sample_read 35 5, sample_sess)]"

lemmas sample_bsr_defs = sample_read_def sample_sess_def sample_bsr_def sample_range_def sample_chain_def new_record_def

lemma sample_chain_fresh: "fresh_chain (sample_chain two_ranges)"
  by (simp add: fresh_chain_def bsr_ok_def ranges_ok_def addrs_sorted_def files_sorted_def sample_bsr_defs)

lemma sample_reads_in_order:
  "\<forall>b \<in> set (h_bsrs (sample_chain two_ranges)).
     in_order b (map fst (sample_reads @ [(sample_read 50 6, sample_sess)] @ [(sample_read 60 7, sample_sess)]))"
  by (simp add: in_order_def follows_def sample_bsr_defs)

lemma sample_run:
  "fst (match_run (\<lambda>_. None) (sample_chain two_ranges) ''Vol1'' sample_reads) = [1, 0, 1]"
  "fst (match_run (\<lambda>_. None) (sample_chain two_ranges) ''Vol1'' (sample_reads @ [(sample_read 50 6, sample_sess)])) =
   [1, 0, 1, - 1]"
  by code_simp+



definition foreign_block :: dev_block where
  "foreign_block = sample_block\<lparr>b_BlockVer := 2, b_VolSessionId := 5, b_VolSessionTime := 9\<rparr>"

theorem fast_rejection_sound_witness:
  "\<not> match_bsr_block (h_bsrs (sample_chain two_ranges)) foreign_block \<and>
   fst (match_bsr (\<lambda>_. None) (sample_chain two_ranges) ((sample_read 10 1)\<lparr>r_VolSessionId := 5\<rparr>) ''Vol1'' sample_sess) \<noteq> 1"
proof -
  have "\<not> match_bsr_block (h_bsrs (sample_chain two_ranges)) foreign_block"
    by (simp add: match_bsr_block_def foreign_block_def sample_bsr_defs word_le_nat_alt)
  then show ?thesis
    using fast_rejection_sound [of "sample_chain two_ranges" foreign_block "(sample_read 10 1)\<lparr>r_VolSessionId := 5\<rparr>"]
    by (simp add: foreign_block_def sample_read_def)
qed

definition sample_pair :: bsr_chain where
  "sample_pair = (sample_chain two_ranges)\<lparr>h_bsrs := [sample_bsr two_ranges, sample_bsr [sample_range 5 8]]\<rparr>"


text \<open>
  A bootstrap record without address ranges, behind one with ranges, is not looked at: the reader positions to the
  first range, at 10, although the second record describes a record at 5.
\<close>

lemma find_next_bsr_skips:
  "fst (find_next_bsr True ((sample_chain two_ranges)\<lparr>h_bsrs := [sample_bsr two_ranges, sample_bsr []]\<rparr>) ''Vol1'') = Some 0 \<and>
   get_bsr_start_addr (Some (sample_bsr two_ranges)) = 10 \<and> on_volume ''Vol1'' (sample_bsr []) \<and>
   wants (\<lambda>_. None) (sample_bsr []) (sample_read 5 1) ''Vol1'' sample_sess"
  by (simp add: find_next_bsr_def get_bsr_start_addr_def find_smallest_volfile_def on_volume_def wants_def one_of_def
      covers_addr_def covers_file_def within_def match_fileregex_def sample_bsr_defs)

text \<open>
  With ranges that are not in ascending order a record past the last range ends the bootstrap
  record although an earlier range is still to come: the record at 150 is described and not selected.
\<close>

lemma unsorted_ranges_lose_records:
  "fst (match_run (\<lambda>_. None) (sample_chain [sample_range 100 200, sample_range 10 20]) ''Vol1''
     [(sample_read 50 1, sample_sess), (sample_read 150 1, sample_sess)]) = [- 1, - 1] \<and>
   wants (\<lambda>_. None) (sample_bsr [sample_range 100 200, sample_range 10 20]) (sample_read 150 1) ''Vol1'' sample_sess"
proof -
  have "fst (match_run (\<lambda>_. None) (sample_chain [sample_range 100 200, sample_range 10 20]) ''Vol1''
     [(sample_read 50 1, sample_sess), (sample_read 150 1, sample_sess)]) = [- 1, - 1]"
    by code_simp
  then show ?thesis
    by (simp add: wants_def one_of_def covers_addr_def covers_file_def within_def match_fileregex_def sample_bsr_defs)
qed

text \<open>
  File ranges are shared by all sessions of a bootstrap record: the second record of the first session is past the range of
  file 1, which ends the bootstrap record, and the file 1 of the second session is not selected although it is described.
\<close>

definition two_sessions :: bsr_chain where
  "two_sessions =
     (sample_chain [])\<lparr>h_bsrs := [(sample_bsr [])\<lparr>n_sessid := [(1, 2)], n_FileIndex := [\<lparr>fx_findex = 1, fx_findex2 = 1\<rparr>]\<rparr>]\<rparr>"

lemma shared_ranges_lose_records:
  "fst (match_run (\<lambda>_. None) two_sessions ''Vol1''
     [(sample_read 10 1, sample_sess), (sample_read 20 2, sample_sess), ((sample_read 30 1)\<lparr>r_VolSessionId := 2\<rparr>, sample_sess)]) =
     [1, - 1, - 1] \<and>
   (\<exists>b \<in> set (h_bsrs two_sessions). wants (\<lambda>_. None) b ((sample_read 30 1)\<lparr>r_VolSessionId := 2\<rparr>) ''Vol1'' sample_sess)"
proof -
  have "fst (match_run (\<lambda>_. None) two_sessions ''Vol1''
     [(sample_read 10 1, sample_sess), (sample_read 20 2, sample_sess), ((sample_read 30 1)\<lparr>r_VolSessionId := 2\<rparr>, sample_sess)]) =
     [1, - 1, - 1]"
    by code_simp
  then show ?thesis
    by (simp add: two_sessions_def wants_def one_of_def covers_addr_def covers_file_def within_def match_fileregex_def sample_bsr_defs)
qed

end
