(* ===== verification/Label.thy ===== *)
theory Label
  imports Record_Read Match_Bsr
begin

text \<open>
  Volume and session labels: the structures of \<^verbatim>\<open>src/bacula/src/stored/record.h\<close> and the routines of
  \<^verbatim>\<open>label.c\<close> that build them, write them into a record and read them back.
  A \<^verbatim>\<open>char\<close> array of a structure is a list of bytes of its size, read up to the first
  zero; strings handed to the routines are given without their zero.  A result \<open>None\<close> is an access outside
  a buffer or an array.  The clock, the host name and the program's version strings are arguments, and
  \<open>mem\<close> gives the contents of memory that the pool allocator adds.
\<close>

section \<open>Constants\<close>

definition bytes :: "string \<Rightarrow> u8 list" where
  "bytes s = map of_char s"

definition BaculaId :: "u8 list" where "BaculaId = bytes (''Bacula 1.0 immortal'' @ [CHR 0x0A])"
definition OldBaculaId :: "u8 list" where "OldBaculaId = bytes (''Bacula 0.9 mortal'' @ [CHR 0x0A])"
definition BaculaMetaDataId :: "u8 list" where "BaculaMetaDataId = bytes (''Bacula 1.0 Metadata'' @ [CHR 0x0A])"
definition BaculaAlignedDataId :: "u8 list" where "BaculaAlignedDataId = bytes (''Bacula 1.0 Aligned Data'' @ [CHR 0x0A])"
definition BaculaDedupMetaDataId :: "u8 list" where
  "BaculaDedupMetaDataId = bytes (''Bacula 1.0 Dedup Metadata'' @ [CHR 0x0A])"
definition BaculaS3CloudId :: "u8 list" where "BaculaS3CloudId = bytes (''Bacula 1.0 S3 Cloud Data'' @ [CHR 0x0A])"

definition BaculaTapeVersion :: u32 where "BaculaTapeVersion = 11"
definition OldCompatibleBaculaTapeVersion1 :: u32 where "OldCompatibleBaculaTapeVersion1 = 10"
definition OldCompatibleBaculaTapeVersion2 :: u32 where "OldCompatibleBaculaTapeVersion2 = 9"
definition BaculaMetaDataVersion :: u32 where "BaculaMetaDataVersion = 10000"
definition BaculaAlignedDataVersion :: u32 where "BaculaAlignedDataVersion = 20000"
definition BaculaDedupMetaDataVersion :: u32 where "BaculaDedupMetaDataVersion = 30000"
definition BaculaS3CloudVersion :: u32 where "BaculaS3CloudVersion = 40000"

definition SER_LENGTH_Volume_Label :: nat where "SER_LENGTH_Volume_Label = 2048"
definition SER_LENGTH_Session_Label :: nat where "SER_LENGTH_Session_Label = 1024"
definition MAX_NAME_LENGTH :: nat where "MAX_NAME_LENGTH = 128"
definition JS_Terminated :: u32 where "JS_Terminated = of_char (CHR ''T'')"

section \<open>Structures\<close>

record volume_label =
  vl_LabelType :: i32
  vl_LabelSize :: u32
  vl_Id :: "u8 list"
  vl_VerNum :: u32
  vl_BlockVer :: int
  vl_blkh_options :: u32
  vl_label_date :: u64
  vl_label_time :: u64
  vl_label_btime :: i64
  vl_write_btime :: i64
  vl_write_date :: u64
  vl_write_time :: u64
  vl_VolumeName :: "u8 list"
  vl_PrevVolumeName :: "u8 list"
  vl_PoolName :: "u8 list"
  vl_PoolType :: "u8 list"
  vl_MediaType :: "u8 list"
  vl_HostName :: "u8 list"
  vl_LabelProg :: "u8 list"
  vl_ProgVersion :: "u8 list"
  vl_ProgDate :: "u8 list"
  vl_AlignedVolumeName :: "u8 list"
  vl_FirstData :: u64
  vl_FileAlignment :: u32
  vl_PaddingSize :: u32
  vl_BlockSize :: u32
  vl_MaxPartSize :: u64
  vl_MaxVolPartsNum :: u32
  vl_EncCypherKeySize :: u32
  vl_MasterKeyIdSize :: u32
  vl_EncCypherKey :: "u8 list"
  vl_MasterKeyId :: "u8 list"

record session_rec =
  sr_Id :: "u8 list"
  sr_VerNum :: u32
  sr_JobId :: u32
  sr_VolumeIndex :: u32
  sr_write_btime :: i64
  sr_write_date :: u64
  sr_write_time :: u64
  sr_PoolName :: "u8 list"
  sr_PoolType :: "u8 list"
  sr_JobName :: "u8 list"
  sr_ClientName :: "u8 list"
  sr_Job :: "u8 list"
  sr_FileSetName :: "u8 list"
  sr_FileSetMD5 :: "u8 list"
  sr_JobType :: u32
  sr_JobLevel :: u32
  sr_JobFiles :: u32
  sr_JobBytes :: u64
  sr_StartBlock :: u32
  sr_EndBlock :: u32
  sr_StartFile :: u32
  sr_EndFile :: u32
  sr_JobErrors :: u32
  sr_JobStatus :: u32

text \<open>What the labels take from the \<^verbatim>\<open>JCR\<close> and the \<^verbatim>\<open>DCR\<close> of the job.\<close>

record label_job =
  lj_VolSessionId :: u32
  lj_VolSessionTime :: u32
  lj_NumWriteVolumes :: i32
  lj_JobId :: u32
  lj_pool_name :: "u8 list"
  lj_pool_type :: "u8 list"
  lj_job_name :: "u8 list"
  lj_client_name :: "u8 list"
  lj_Job :: "u8 list"
  lj_fileset_name :: "u8 list"
  lj_JobType :: u32
  lj_JobLevel :: u32
  lj_fileset_md5 :: "u8 list"
  lj_JobFiles :: u32
  lj_JobBytes :: u64
  lj_StartAddr :: u64
  lj_EndAddr :: u64
  lj_JobErrors :: u32
  lj_JobStatus :: u32

text \<open>The string in a \<^verbatim>\<open>char\<close> array, and \<^verbatim>\<open>bstrncpy\<close> into an array: at most one byte less than its size
  is copied, and like \<^verbatim>\<open>strncpy\<close> it fills the rest with zeros.\<close>

definition cstr :: "u8 list \<Rightarrow> u8 list" where
  "cstr a = takeWhile (\<lambda>b. b \<noteq> 0) a"

definition bstrncpy :: "u8 list \<Rightarrow> u8 list \<Rightarrow> u8 list" where
  "bstrncpy dest s = (let t = take (length dest - 1) (cstr s) in t @ replicate (length dest - length t) 0)"

text \<open>\<^verbatim>\<open>ser_bytes\<close>, \<^verbatim>\<open>unser_bytes\<close> and \<^verbatim>\<open>unser_string\<close> of \<^verbatim>\<open>serial.h\<close>.\<close>

definition ser_bytes :: "u8 list \<Rightarrow> nat \<Rightarrow> cursor \<Rightarrow> cursor option" where
  "ser_bytes x len c = (if len \<le> length x then put (take len x) c else None)"

definition unser_bytes :: "nat \<Rightarrow> cursor \<Rightarrow> u8 list \<Rightarrow> (u8 list \<times> cursor) option" where
  "unser_bytes len c x =
     (if len \<le> length x then do { (bs, c) \<leftarrow> fetch len c; Some (buf_write x 0 bs, c) } else None)"

definition unser_string :: "cursor \<Rightarrow> u8 list \<Rightarrow> (u8 list \<times> cursor) option" where
  "unser_string c x = unserial_string (length x) c x"

abbreviation ser_string :: "u8 list \<Rightarrow> cursor \<Rightarrow> cursor option" where
  "ser_string s c \<equiv> serial_string (s @ [0]) c"

section \<open>Session labels\<close>

definition ser_session :: "bool \<Rightarrow> i64 \<Rightarrow> label_job \<Rightarrow> i32 \<Rightarrow> cursor \<Rightarrow> cursor option" where
  "ser_session big now j label c =
     do { c \<leftarrow> ser_string BaculaId c;
          c \<leftarrow> serial_uint32 big BaculaTapeVersion c;
          c \<leftarrow> serial_uint32 big (lj_JobId j) c;
          c \<leftarrow> serial_btime big now c;
          c \<leftarrow> serial_float64 big 0 c;
          c \<leftarrow> ser_string (lj_pool_name j) c;
          c \<leftarrow> ser_string (lj_pool_type j) c;
          c \<leftarrow> ser_string (lj_job_name j) c;
          c \<leftarrow> ser_string (lj_client_name j) c;
          c \<leftarrow> ser_string (lj_Job j) c;
          c \<leftarrow> ser_string (lj_fileset_name j) c;
          c \<leftarrow> serial_uint32 big (lj_JobType j) c;
          c \<leftarrow> serial_uint32 big (lj_JobLevel j) c;
          c \<leftarrow> ser_string (lj_fileset_md5 j) c;
          if label = EOS_LABEL then
            do { c \<leftarrow> serial_uint32 big (lj_JobFiles j) c;
                 c \<leftarrow> serial_uint64 big (lj_JobBytes j) c;
                 c \<leftarrow> serial_uint32 big (ucast (lj_StartAddr j)) c;
                 c \<leftarrow> serial_uint32 big (ucast (lj_EndAddr j)) c;
                 c \<leftarrow> serial_uint32 big (ucast (drop_bit 32 (lj_StartAddr j))) c;
                 c \<leftarrow> serial_uint32 big (ucast (drop_bit 32 (lj_EndAddr j))) c;
                 c \<leftarrow> serial_uint32 big (lj_JobErrors j) c;
                 serial_uint32 big (lj_JobStatus j) c }
          else Some c }"

definition create_session_label ::
  "(nat \<Rightarrow> u8 list) \<Rightarrow> bool \<Rightarrow> i64 \<Rightarrow> label_job \<Rightarrow> dev_record \<Rightarrow> i32 \<Rightarrow> dev_record option" where
  "create_session_label mem big now j rec label =
     (let rec = rec\<lparr>r_VolSessionId := lj_VolSessionId j, r_VolSessionTime := lj_VolSessionTime j,
                    r_Stream := lj_JobId j, r_maskedStream := lj_JobId j,
                    r_data := check_pool_memory_size mem (r_data rec) SER_LENGTH_Session_Label\<rparr>
      in do { (buf, p) \<leftarrow> ser_session big now j label (r_data rec, 0);
              if p \<le> SER_LENGTH_Session_Label then Some (rec\<lparr>r_data := buf, r_data_len := of_nat p\<rparr>) else None })"

definition unser_session ::
  "bool \<Rightarrow> i32 \<Rightarrow> session_rec \<Rightarrow> cursor \<Rightarrow> session_rec option" where
  "unser_session big fi l c =
     do { (a, c) \<leftarrow> unser_string c (sr_Id l); let l = l\<lparr>sr_Id := a\<rparr>;
          (v, c) \<leftarrow> unserial_uint32 big c; let l = l\<lparr>sr_VerNum := v\<rparr>;
          (v, c) \<leftarrow> unserial_uint32 big c; let l = l\<lparr>sr_JobId := v\<rparr>;
          (l, c) \<leftarrow> (if 11 \<le> sr_VerNum l
             then do { (v, c) \<leftarrow> unserial_btime big c; Some (l\<lparr>sr_write_btime := v\<rparr>, c) }
             else do { (v, c) \<leftarrow> unserial_float64 big c; Some (l\<lparr>sr_write_date := v\<rparr>, c) });
          (v, c) \<leftarrow> unserial_float64 big c; let l = l\<lparr>sr_write_time := v\<rparr>;
          (a, c) \<leftarrow> unser_string c (sr_PoolName l); let l = l\<lparr>sr_PoolName := a\<rparr>;
          (a, c) \<leftarrow> unser_string c (sr_PoolType l); let l = l\<lparr>sr_PoolType := a\<rparr>;
          (a, c) \<leftarrow> unser_string c (sr_JobName l); let l = l\<lparr>sr_JobName := a\<rparr>;
          (a, c) \<leftarrow> unser_string c (sr_ClientName l); let l = l\<lparr>sr_ClientName := a\<rparr>;
          (l, c) \<leftarrow> (if 10 \<le> sr_VerNum l
             then do { (a, c) \<leftarrow> unser_string c (sr_Job l); let l = l\<lparr>sr_Job := a\<rparr>;
                       (a, c) \<leftarrow> unser_string c (sr_FileSetName l); let l = l\<lparr>sr_FileSetName := a\<rparr>;
                       (v, c) \<leftarrow> unserial_uint32 big c; let l = l\<lparr>sr_JobType := v\<rparr>;
                       (v, c) \<leftarrow> unserial_uint32 big c; Some (l\<lparr>sr_JobLevel := v\<rparr>, c) }
             else Some (l, c));
          (l, c) \<leftarrow> (if 11 \<le> sr_VerNum l
             then do { (a, c) \<leftarrow> unser_string c (sr_FileSetMD5 l); Some (l\<lparr>sr_FileSetMD5 := a\<rparr>, c) }
             else Some (l\<lparr>sr_FileSetMD5 := (sr_FileSetMD5 l)[0 := 0]\<rparr>, c));
          if fi = EOS_LABEL then
            do { (v, c) \<leftarrow> unserial_uint32 big c; let l = l\<lparr>sr_JobFiles := v\<rparr>;
                 (w, c) \<leftarrow> unserial_uint64 big c; let l = l\<lparr>sr_JobBytes := w\<rparr>;
                 (v, c) \<leftarrow> unserial_uint32 big c; let l = l\<lparr>sr_StartBlock := v\<rparr>;
                 (v, c) \<leftarrow> unserial_uint32 big c; let l = l\<lparr>sr_EndBlock := v\<rparr>;
                 (v, c) \<leftarrow> unserial_uint32 big c; let l = l\<lparr>sr_StartFile := v\<rparr>;
                 (v, c) \<leftarrow> unserial_uint32 big c; let l = l\<lparr>sr_EndFile := v\<rparr>;
                 (v, c) \<leftarrow> unserial_uint32 big c; let l = l\<lparr>sr_JobErrors := v\<rparr>;
                 if 11 \<le> sr_VerNum l
                 then do { (v, c) \<leftarrow> unserial_uint32 big c; Some (l\<lparr>sr_JobStatus := v\<rparr>) }
                 else Some (l\<lparr>sr_JobStatus := JS_Terminated\<rparr>) }
          else Some l }"

definition unser_session_label ::
  "(nat \<Rightarrow> u8 list) \<Rightarrow> bool \<Rightarrow> session_rec \<Rightarrow> dev_record \<Rightarrow> (session_rec \<times> dev_record) option" where
  "unser_session_label mem big label rec =
     (let rec = rec\<lparr>r_data := check_pool_memory_size mem (r_data rec) SER_LENGTH_Session_Label\<rparr>
      in map_option (\<lambda>l. (l, rec)) (unser_session big (r_FileIndex rec) label (r_data rec, 0)))"

text \<open>The label as the bootstrap selection uses it.\<close>

definition selection_label :: "session_rec \<Rightarrow> session_label" where
  "selection_label l =
     \<lparr>sl_JobId = sr_JobId l, sl_Job = map (\<lambda>b. char_of (unat b)) (cstr (sr_Job l)),
      sl_ClientName = map (\<lambda>b. char_of (unat b)) (cstr (sr_ClientName l)), sl_JobType = sr_JobType l, sl_JobLevel = sr_JobLevel l\<rparr>"

section \<open>Volume labels\<close>

text \<open>
  What \<^verbatim>\<open>create_volume_header\<close> takes from the device, the system and the program;
  \<open>he_gethostname\<close> is the system call, on the array it fills, with \<open>None\<close> for an error.
\<close>

record header_env =
  he_is_aligned :: bool
  he_is_adata :: bool
  he_is_dedup :: bool
  he_is_cloud :: bool
  he_file_alignment :: u32
  he_padding_size :: u32
  he_adata_size :: u32
  he_max_block_size :: u32
  he_max_part_size :: u64
  he_max_vol_parts_num :: u32
  he_cap_stream :: bool
  he_worm :: bool
  he_media_type :: "u8 list"
  he_now :: i64
  he_gethostname :: "u8 list \<Rightarrow> u8 list option"
  he_my_name :: "u8 list"
  he_prog_version :: "u8 list"
  he_prog_date :: "u8 list"

text \<open>
  The part of the device and of the job's device context that the labels change: the header of the
  mounted Volume, the flag \<^verbatim>\<open>ST_LABEL\<close>, the Volume name and the block of the job.
\<close>

record label_dcr =
  lc_VolHdr :: volume_label
  lc_labeled :: bool
  lc_VolumeName :: "u8 list"
  lc_block :: dev_block

definition header_kind :: "header_env \<Rightarrow> volume_label \<Rightarrow> volume_label" where
  "header_kind e h =
     (if he_is_aligned e then
        h\<lparr>vl_Id := bstrncpy (vl_Id h) BaculaMetaDataId, vl_VerNum := BaculaMetaDataVersion,
          vl_FirstData := ucast (he_file_alignment e), vl_FileAlignment := he_file_alignment e,
          vl_PaddingSize := he_padding_size e, vl_BlockSize := he_adata_size e\<rparr>
      else if he_is_adata e then
        h\<lparr>vl_Id := bstrncpy (vl_Id h) BaculaAlignedDataId, vl_VerNum := BaculaAlignedDataVersion,
          vl_FirstData := ucast (he_file_alignment e), vl_FileAlignment := he_file_alignment e,
          vl_PaddingSize := he_padding_size e, vl_BlockSize := he_adata_size e\<rparr>
      else if he_is_dedup e then
        h\<lparr>vl_Id := bstrncpy (vl_Id h) BaculaDedupMetaDataId, vl_VerNum := BaculaDedupMetaDataVersion,
          vl_BlockSize := he_max_block_size e\<rparr>
      else if he_is_cloud e then
        h\<lparr>vl_Id := bstrncpy (vl_Id h) BaculaS3CloudId, vl_VerNum := BaculaS3CloudVersion,
          vl_BlockSize := he_max_block_size e, vl_MaxPartSize := he_max_part_size e,
          vl_MaxVolPartsNum := he_max_vol_parts_num e\<rparr>
      else
        h\<lparr>vl_Id := bstrncpy (vl_Id h) BaculaId, vl_VerNum := BaculaTapeVersion, vl_BlockSize := he_max_block_size e\<rparr>)"

text \<open>\<^verbatim>\<open>sprintf\<close> into an array: \<open>None\<close> when the text and its zero do not fit.\<close>

definition sprintf_into :: "u8 list \<Rightarrow> u8 list \<Rightarrow> u8 list option" where
  "sprintf_into dest s = (if length s < length dest then Some (buf_write dest 0 (s @ [0])) else None)"

definition create_volume_header ::
  "header_env \<Rightarrow> u8 list \<Rightarrow> u8 list \<Rightarrow> bool \<Rightarrow> label_dcr \<Rightarrow> label_dcr option" where
  "create_volume_header e VolName PoolName no_prelabel d =
     (let h = header_kind e ((lc_VolHdr d)\<lparr>vl_BlockVer := BLOCK_VER\<rparr>);
          h = h\<lparr>vl_LabelType := (if he_cap_stream e \<and> no_prelabel \<or> he_worm e then VOL_LABEL else PRE_LABEL),
                vl_VolumeName := bstrncpy (vl_VolumeName h) VolName, vl_PoolName := bstrncpy (vl_PoolName h) PoolName,
                vl_MediaType := bstrncpy (vl_MediaType h) (he_media_type e),
                vl_PoolType := bstrncpy (vl_PoolType h) (bytes ''Backup''),
                vl_label_btime := he_now e, vl_label_date := 0, vl_label_time := 0,
                vl_HostName := (case he_gethostname e (vl_HostName h) of Some a \<Rightarrow> a | None \<Rightarrow> (vl_HostName h)[0 := 0]),
                vl_LabelProg := bstrncpy (vl_LabelProg h) (he_my_name e)\<rparr>
      in do { v \<leftarrow> sprintf_into (vl_ProgVersion h) (he_prog_version e);
              w \<leftarrow> sprintf_into (vl_ProgDate h) (he_prog_date e);
              Some (d\<lparr>lc_VolHdr := h\<lparr>vl_ProgVersion := v, vl_ProgDate := w\<rparr>, lc_labeled := True\<rparr>) })"

text \<open>
  Serialisation of the header; the version before 11 is the deprecated form with dates, for which
  \<open>today\<close> gives the current day and fraction.
\<close>

definition stamp_header :: "i64 \<Rightarrow> u64 \<times> u64 \<Rightarrow> volume_label \<Rightarrow> volume_label" where
  "stamp_header now today h =
     (let h = (if 11 \<le> vl_VerNum h then h\<lparr>vl_write_btime := now, vl_write_date := 0, vl_write_time := 0\<rparr>
               else h\<lparr>vl_write_date := fst today, vl_write_time := snd today\<rparr>)
      in h\<lparr>vl_AlignedVolumeName := (vl_AlignedVolumeName h)[0 := 0]\<rparr>)"

definition ser_volume :: "bool \<Rightarrow> bool \<Rightarrow> volume_label \<Rightarrow> cursor \<Rightarrow> cursor option" where
  "ser_volume big strong h c =
     do { c \<leftarrow> serial_string (vl_Id h) c;
          c \<leftarrow> serial_uint32 big (vl_VerNum h) c;
          c \<leftarrow> (if 11 \<le> vl_VerNum h
             then do { c \<leftarrow> serial_btime big (vl_label_btime h) c; serial_btime big (vl_write_btime h) c }
             else do { c \<leftarrow> serial_float64 big (vl_label_date h) c; serial_float64 big (vl_label_time h) c });
          c \<leftarrow> serial_float64 big (vl_write_date h) c;
          c \<leftarrow> serial_float64 big (vl_write_time h) c;
          c \<leftarrow> serial_string (vl_VolumeName h) c;
          c \<leftarrow> serial_string (vl_PrevVolumeName h) c;
          c \<leftarrow> serial_string (vl_PoolName h) c;
          c \<leftarrow> serial_string (vl_PoolType h) c;
          c \<leftarrow> serial_string (vl_MediaType h) c;
          c \<leftarrow> (if strong then ser_string (bytes ''OBFUSCATED'') c else serial_string (vl_HostName h) c);
          c \<leftarrow> serial_string (vl_LabelProg h) c;
          c \<leftarrow> serial_string (vl_ProgVersion h) c;
          c \<leftarrow> serial_string (vl_ProgDate h) c;
          c \<leftarrow> serial_string (vl_AlignedVolumeName h) c;
          c \<leftarrow> serial_uint64 big (vl_FirstData h) c;
          c \<leftarrow> serial_uint32 big (vl_FileAlignment h) c;
          c \<leftarrow> serial_uint32 big (vl_PaddingSize h) c;
          c \<leftarrow> serial_uint32 big (vl_BlockSize h) c;
          c \<leftarrow> serial_uint32 big (vl_EncCypherKeySize h) c;
          c \<leftarrow> ser_bytes (vl_EncCypherKey h) (unat (vl_EncCypherKeySize h)) c;
          c \<leftarrow> serial_uint32 big (vl_MasterKeyIdSize h) c;
          c \<leftarrow> ser_bytes (vl_MasterKeyId h) (unat (vl_MasterKeyIdSize h)) c;
          serial_uint32 big 0 c }"

definition create_volume_label_record ::
  "bool \<Rightarrow> bool \<Rightarrow> i64 \<Rightarrow> u64 \<times> u64 \<Rightarrow> label_job \<Rightarrow> bool \<Rightarrow> label_dcr \<Rightarrow> dev_record \<Rightarrow> (label_dcr \<times> dev_record) option" where
  "create_volume_label_record big strong now today j adata d rec =
     (let h = stamp_header now today (lc_VolHdr d);
          name = (if adata then lc_VolumeName d else bstrncpy (lc_VolumeName d) (vl_VolumeName h));
          data = replicate SER_LENGTH_Volume_Label 0 @ drop SER_LENGTH_Volume_Label (r_data rec)
      in do { (buf, p) \<leftarrow> ser_volume big strong h (data, 0);
              if p \<le> SER_LENGTH_Volume_Label \<and> cstr name \<noteq> [] then
                Some (d\<lparr>lc_VolHdr := h, lc_VolumeName := name, lc_block := (lc_block d)\<lparr>b_first_block := True\<rparr>\<rparr>, rec\<lparr>r_data := buf, r_data_len := of_nat p, r_FileIndex := vl_LabelType h,
                             r_VolSessionId := lj_VolSessionId j, r_VolSessionTime := lj_VolSessionTime j,
                             r_Stream := lj_NumWriteVolumes j, r_maskedStream := lj_NumWriteVolumes j\<rparr>)
              else None })"

definition unser_volume :: "bool \<Rightarrow> int \<Rightarrow> volume_label \<Rightarrow> cursor \<Rightarrow> volume_label option" where
  "unser_volume big blockver h c =
     do { (a, c) \<leftarrow> unser_string c (vl_Id h); let h = h\<lparr>vl_Id := a\<rparr>;
          (v, c) \<leftarrow> unserial_uint32 big c; let h = h\<lparr>vl_VerNum := v\<rparr>;
          (h, c) \<leftarrow> (if 11 \<le> vl_VerNum h
             then do { (v, c) \<leftarrow> unserial_btime big c; let h = h\<lparr>vl_label_btime := v\<rparr>;
                       (v, c) \<leftarrow> unserial_btime big c; Some (h\<lparr>vl_write_btime := v\<rparr>, c) }
             else do { (v, c) \<leftarrow> unserial_float64 big c; let h = h\<lparr>vl_label_date := v\<rparr>;
                       (v, c) \<leftarrow> unserial_float64 big c; Some (h\<lparr>vl_label_time := v\<rparr>, c) });
          (v, c) \<leftarrow> unserial_float64 big c; let h = h\<lparr>vl_write_date := v\<rparr>;
          (v, c) \<leftarrow> unserial_float64 big c; let h = h\<lparr>vl_write_time := v\<rparr>;
          (a, c) \<leftarrow> unser_string c (vl_VolumeName h); let h = h\<lparr>vl_VolumeName := a\<rparr>;
          (a, c) \<leftarrow> unser_string c (vl_PrevVolumeName h); let h = h\<lparr>vl_PrevVolumeName := a\<rparr>;
          (a, c) \<leftarrow> unser_string c (vl_PoolName h); let h = h\<lparr>vl_PoolName := a\<rparr>;
          (a, c) \<leftarrow> unser_string c (vl_PoolType h); let h = h\<lparr>vl_PoolType := a\<rparr>;
          (a, c) \<leftarrow> unser_string c (vl_MediaType h); let h = h\<lparr>vl_MediaType := a\<rparr>;
          (a, c) \<leftarrow> unser_string c (vl_HostName h); let h = h\<lparr>vl_HostName := a\<rparr>;
          (a, c) \<leftarrow> unser_string c (vl_LabelProg h); let h = h\<lparr>vl_LabelProg := a\<rparr>;
          (a, c) \<leftarrow> unser_string c (vl_ProgVersion h); let h = h\<lparr>vl_ProgVersion := a\<rparr>;
          (a, c) \<leftarrow> unser_string c (vl_ProgDate h); let h = h\<lparr>vl_ProgDate := a\<rparr>;
          (a, c) \<leftarrow> unser_string c (vl_AlignedVolumeName h); let h = h\<lparr>vl_AlignedVolumeName := a[0 := 0]\<rparr>;
          (w, c) \<leftarrow> unserial_uint64 big c; let h = h\<lparr>vl_FirstData := w\<rparr>;
          (v, c) \<leftarrow> unserial_uint32 big c; let h = h\<lparr>vl_FileAlignment := v\<rparr>;
          (v, c) \<leftarrow> unserial_uint32 big c; let h = h\<lparr>vl_PaddingSize := v\<rparr>;
          (v, c) \<leftarrow> unserial_uint32 big c; let h = h\<lparr>vl_BlockSize := v\<rparr>;
          if blockver = 3 then
            do { (v, c) \<leftarrow> unserial_uint32 big c; let h = h\<lparr>vl_EncCypherKeySize := v\<rparr>;
                 (a, c) \<leftarrow> unser_bytes (unat (vl_EncCypherKeySize h)) c (vl_EncCypherKey h); let h = h\<lparr>vl_EncCypherKey := a\<rparr>;
                 (v, c) \<leftarrow> unserial_uint32 big c; let h = h\<lparr>vl_MasterKeyIdSize := v\<rparr>;
                 (a, c) \<leftarrow> unser_bytes (unat (vl_MasterKeyIdSize h)) c (vl_MasterKeyId h); let h = h\<lparr>vl_MasterKeyId := a\<rparr>;
                 (v, c) \<leftarrow> unserial_uint32 big c;
                 if snd c \<le> SER_LENGTH_Volume_Label then Some h else None }
          else
            (let h = h\<lparr>vl_EncCypherKeySize := 0, vl_MasterKeyIdSize := 0\<rparr>
             in if snd c \<le> SER_LENGTH_Volume_Label then Some h else None) }"

text \<open>The result is false, with nothing changed, for a record that is not a Volume label.\<close>

definition unser_volume_label ::
  "(nat \<Rightarrow> u8 list) \<Rightarrow> bool \<Rightarrow> bool \<Rightarrow> volume_label \<Rightarrow> dev_record \<Rightarrow> (bool \<times> volume_label \<times> dev_record) option" where
  "unser_volume_label mem big forge_on h rec =
     (if r_FileIndex rec \<noteq> VOL_LABEL \<and> r_FileIndex rec \<noteq> PRE_LABEL \<and> \<not> forge_on then Some (False, h, rec)
      else
        (let h = h\<lparr>vl_LabelType := r_FileIndex rec, vl_LabelSize := r_data_len rec, vl_BlockVer := r_BlockVer rec,
                   vl_blkh_options := r_blkh_options rec\<rparr>;
             rec = rec\<lparr>r_data := check_pool_memory_size mem (r_data rec) SER_LENGTH_Volume_Label\<rparr>
         in map_option (\<lambda>h. (True, h, rec)) (unser_volume big (r_BlockVer rec) h (r_data rec, 0))))"

section \<open>Fields in a row\<close>

text \<open>A cursor between what is already read and what is still to come.\<close>

definition at_cursor :: "u8 list \<Rightarrow> u8 list \<Rightarrow> cursor" where
  "at_cursor pre post = (pre @ post, length pre)"

named_theorems read_field \<open>reading the next field at a cursor\<close>

lemma at_word:
  assumes "length bs = n"
  shows "fetch n (at_cursor pre (bs @ post)) = Some (bs, at_cursor (pre @ bs) post)"
  using assms by (auto simp: at_cursor_def fetch_def buf_slice_def)

lemma unserial_at [read_field]:
  "unserial_uint32 big (at_cursor pre (be_bytes 4 v @ post)) = Some (v, at_cursor (pre @ be_bytes 4 v) post)"
  "unserial_uint64 big (at_cursor pre (be_bytes 8 w @ post)) = Some (w, at_cursor (pre @ be_bytes 8 w) post)"
  "unserial_btime big (at_cursor pre (be_bytes 8 w @ post)) = Some (w, at_cursor (pre @ be_bytes 8 w) post)"
  "unserial_float64 big (at_cursor pre (be_bytes 8 w @ post)) = Some (w, at_cursor (pre @ be_bytes 8 w) post)"
  by (simp_all add: uint32.unser_be uint64.unser_be btime.unser_be float64.unser_be at_word from_be_be_bytes)

definition fill :: "u8 list \<Rightarrow> u8 list \<Rightarrow> u8 list" where
  "fill dest s = s @ 0 # drop (length s + 1) dest"

lemma unser_string_at [read_field]:
  assumes "0 \<notin> set s" and "length s < length dest"
  shows "unser_string (at_cursor pre (s @ 0 # post)) dest = Some (fill dest s, at_cursor (pre @ s @ [0]) post)"
proof -
  have "unserial_string_loop (length dest) 0 (pre @ s @ 0 # post, length pre) dest =
      Some (buf_write dest 0 (s @ [0]), (pre @ s @ 0 # post, length pre + 0 + length s + 1))"
    by (rule unserial_string_loop_copies) (use assms in \<open>auto simp: buf_slice_def nth_append\<close>)
  then show ?thesis
    by (simp add: unser_string_def unserial_string_def at_cursor_def fill_def buf_write_def)
qed

lemma unser_bytes_at [read_field]:
  assumes "length bs = n" and "n \<le> length x"
  shows "unser_bytes n (at_cursor pre (bs @ post)) x = Some (bs @ drop n x, at_cursor (pre @ bs) post)"
  using assms at_word [of bs n pre post] by (simp add: unser_bytes_def buf_write_def)

lemma cstr_fill [simp]: "0 \<notin> set s \<Longrightarrow> cstr (fill dest s) = s"
  by (auto simp: cstr_def fill_def takeWhile_append)

lemma length_fill [simp]: "length s < length dest \<Longrightarrow> length (fill dest s) = length dest"
  by (simp add: fill_def)

lemma zero_notin_cstr [simp]: "0 \<notin> set (cstr a)"
  by (auto simp: cstr_def dest: set_takeWhileD)

lemma cstr_split: "0 \<in> set a \<Longrightarrow> \<exists>junk. a = cstr a @ 0 # junk"
  by (induction a) (auto simp: cstr_def)

lemma serial_string_array: "0 \<in> set a \<Longrightarrow> serial_string a c = put (cstr a @ [0]) c"
  using cstr_split [of a] serial_string_put [OF zero_notin_cstr, of a _ c] by metis

lemma length_cstr: "0 \<in> set a \<Longrightarrow> length (cstr a) < length a"
  using cstr_split [of a] by (metis add_Suc_right le_add1 le_imp_less_Suc length_Cons length_append)

lemma put_bind: "put xs c \<bind> (\<lambda>c. put ys c \<bind> f) = put (xs @ ys) c \<bind> f"
  by (simp flip: put_put)

lemma put_bind_last: "put xs c \<bind> (\<lambda>c. put ys c) = put (xs @ ys) c"
  using put_put by simp

lemma serial_fun:
  "serial_uint32 big v = put (be_bytes 4 v)" "serial_uint64 big w = put (be_bytes 8 w)"
  "serial_btime big w = put (be_bytes 8 w)" "serial_float64 big w = put (be_bytes 8 w)"
  by (simp_all add: fun_eq_iff uint32.ser_be uint64.ser_be btime.ser_be float64.ser_be)

section \<open>Session labels\<close>

definition session_image :: "i64 \<Rightarrow> label_job \<Rightarrow> i32 \<Rightarrow> u8 list" where
  "session_image now j label =
     BaculaId @ 0 # be_bytes 4 BaculaTapeVersion @ be_bytes 4 (lj_JobId j) @ be_bytes 8 now @ be_bytes 8 (0 :: u64) @
     lj_pool_name j @ 0 # lj_pool_type j @ 0 # lj_job_name j @ 0 # lj_client_name j @ 0 # lj_Job j @ 0 #
     lj_fileset_name j @ 0 # be_bytes 4 (lj_JobType j) @ be_bytes 4 (lj_JobLevel j) @ lj_fileset_md5 j @ 0 #
     (if label = EOS_LABEL then
        be_bytes 4 (lj_JobFiles j) @ be_bytes 8 (lj_JobBytes j) @ be_bytes 4 (ucast (lj_StartAddr j) :: u32) @
        be_bytes 4 (ucast (lj_EndAddr j) :: u32) @ be_bytes 4 (ucast (drop_bit 32 (lj_StartAddr j)) :: u32) @
        be_bytes 4 (ucast (drop_bit 32 (lj_EndAddr j)) :: u32) @ be_bytes 4 (lj_JobErrors j) @ be_bytes 4 (lj_JobStatus j)
      else [])"

text \<open>Names as the catalog has them: no zero byte, and shorter than the arrays of the label.\<close>

definition name_ok :: "u8 list \<Rightarrow> bool" where
  "name_ok s \<longleftrightarrow> 0 \<notin> set s \<and> length s < MAX_NAME_LENGTH"

definition job_names_ok :: "label_job \<Rightarrow> bool" where
  "job_names_ok j \<longleftrightarrow> name_ok (lj_pool_name j) \<and> name_ok (lj_pool_type j) \<and> name_ok (lj_job_name j) \<and>
     name_ok (lj_client_name j) \<and> name_ok (lj_Job j) \<and> name_ok (lj_fileset_name j) \<and> name_ok (lj_fileset_md5 j)"

lemma BaculaId_ok: "0 \<notin> set BaculaId" "length BaculaId = 20"
  by (code_simp)+

lemma ser_session_put:
  assumes "job_names_ok j"
  shows "ser_session big now j label c = put (session_image now j label) c"
proof -
  have z: "0 \<notin> set (lj_pool_name j)" "0 \<notin> set (lj_pool_type j)" "0 \<notin> set (lj_job_name j)" "0 \<notin> set (lj_client_name j)"
    "0 \<notin> set (lj_Job j)" "0 \<notin> set (lj_fileset_name j)" "0 \<notin> set (lj_fileset_md5 j)"
    using assms by (auto simp: job_names_ok_def name_ok_def)
  note s = serial_string_put [of _ "[]"]
  show ?thesis
    by (simp add: ser_session_def session_image_def s [OF BaculaId_ok(1)] s [OF z(1)] s [OF z(2)] s [OF z(3)] s [OF z(4)]
        s [OF z(5)] s [OF z(6)] s [OF z(7)] serial_fun put_bind put_put)
qed

lemma length_session_image:
  assumes "job_names_ok j"
  shows "length (session_image now j label) \<le> SER_LENGTH_Session_Label"
  using assms BaculaId_ok(2)
  by (simp add: session_image_def job_names_ok_def name_ok_def MAX_NAME_LENGTH_def SER_LENGTH_Session_Label_def)

text \<open>What is read from a label with the current version.\<close>

definition session_arrays :: "session_rec \<Rightarrow> bool" where
  "session_arrays l \<longleftrightarrow> length (sr_Id l) = 32 \<and> length (sr_PoolName l) = MAX_NAME_LENGTH \<and>
     length (sr_PoolType l) = MAX_NAME_LENGTH \<and> length (sr_JobName l) = MAX_NAME_LENGTH \<and>
     length (sr_ClientName l) = MAX_NAME_LENGTH \<and> length (sr_Job l) = MAX_NAME_LENGTH \<and>
     length (sr_FileSetName l) = MAX_NAME_LENGTH \<and> length (sr_FileSetMD5 l) = MAX_NAME_LENGTH"

definition read_session :: "i64 \<Rightarrow> label_job \<Rightarrow> i32 \<Rightarrow> session_rec \<Rightarrow> session_rec" where
  "read_session now j label l =
     (let l = l\<lparr>sr_Id := fill (sr_Id l) BaculaId, sr_VerNum := BaculaTapeVersion, sr_JobId := lj_JobId j,
                sr_write_btime := now, sr_write_time := 0, sr_PoolName := fill (sr_PoolName l) (lj_pool_name j),
                sr_PoolType := fill (sr_PoolType l) (lj_pool_type j), sr_JobName := fill (sr_JobName l) (lj_job_name j),
                sr_ClientName := fill (sr_ClientName l) (lj_client_name j), sr_Job := fill (sr_Job l) (lj_Job j),
                sr_FileSetName := fill (sr_FileSetName l) (lj_fileset_name j), sr_JobType := lj_JobType j,
                sr_JobLevel := lj_JobLevel j, sr_FileSetMD5 := fill (sr_FileSetMD5 l) (lj_fileset_md5 j)\<rparr>
      in if label = EOS_LABEL then
           l\<lparr>sr_JobFiles := lj_JobFiles j, sr_JobBytes := lj_JobBytes j, sr_StartBlock := ucast (lj_StartAddr j),
             sr_EndBlock := ucast (lj_EndAddr j), sr_StartFile := ucast (drop_bit 32 (lj_StartAddr j)),
             sr_EndFile := ucast (drop_bit 32 (lj_EndAddr j)), sr_JobErrors := lj_JobErrors j, sr_JobStatus := lj_JobStatus j\<rparr>
         else l)"

lemma unser_session_image:
  assumes "job_names_ok j" and "session_arrays l"
  shows "unser_session big label l (at_cursor pre (session_image now j label @ post)) = Some (read_session now j label l)"
proof -
  have z: "0 \<notin> set (lj_pool_name j)" "0 \<notin> set (lj_pool_type j)" "0 \<notin> set (lj_job_name j)" "0 \<notin> set (lj_client_name j)"
    "0 \<notin> set (lj_Job j)" "0 \<notin> set (lj_fileset_name j)" "0 \<notin> set (lj_fileset_md5 j)"
    and n: "length (lj_pool_name j) < MAX_NAME_LENGTH" "length (lj_pool_type j) < MAX_NAME_LENGTH"
    "length (lj_job_name j) < MAX_NAME_LENGTH" "length (lj_client_name j) < MAX_NAME_LENGTH" "length (lj_Job j) < MAX_NAME_LENGTH"
    "length (lj_fileset_name j) < MAX_NAME_LENGTH" "length (lj_fileset_md5 j) < MAX_NAME_LENGTH"
    using assms(1) by (auto simp: job_names_ok_def name_ok_def)
  have a: "length (sr_Id l) = 32" "length (sr_PoolName l) = MAX_NAME_LENGTH"
     "length (sr_PoolType l) = MAX_NAME_LENGTH" "length (sr_JobName l) = MAX_NAME_LENGTH"
     "length (sr_ClientName l) = MAX_NAME_LENGTH" "length (sr_Job l) = MAX_NAME_LENGTH"
     "length (sr_FileSetName l) = MAX_NAME_LENGTH" "length (sr_FileSetMD5 l) = MAX_NAME_LENGTH"
    using assms(2) by (auto simp: session_arrays_def)
  have v: "(11 :: u32) \<le> BaculaTapeVersion" "(10 :: u32) \<le> BaculaTapeVersion" by (simp_all add: BaculaTapeVersion_def)
  show ?thesis
    by (simp add: unser_session_def session_image_def read_session_def read_field z n a v BaculaId_ok Let_def)
qed

section \<open>Volume labels\<close>

definition volume_front :: "bool \<Rightarrow> volume_label \<Rightarrow> u8 list" where
  "volume_front strong h =
     cstr (vl_Id h) @ 0 # be_bytes 4 (vl_VerNum h) @
     (if 11 \<le> vl_VerNum h then be_bytes 8 (vl_label_btime h) else be_bytes 8 (vl_label_date h)) @
     (if 11 \<le> vl_VerNum h then be_bytes 8 (vl_write_btime h) else be_bytes 8 (vl_label_time h)) @
     be_bytes 8 (vl_write_date h) @ be_bytes 8 (vl_write_time h) @
     cstr (vl_VolumeName h) @ 0 # cstr (vl_PrevVolumeName h) @ 0 # cstr (vl_PoolName h) @ 0 # cstr (vl_PoolType h) @ 0 #
     cstr (vl_MediaType h) @ 0 # (if strong then bytes ''OBFUSCATED'' else cstr (vl_HostName h)) @ 0 #
     cstr (vl_LabelProg h) @ 0 # cstr (vl_ProgVersion h) @ 0 # cstr (vl_ProgDate h) @ 0 # cstr (vl_AlignedVolumeName h) @ 0 #
     be_bytes 8 (vl_FirstData h) @ be_bytes 4 (vl_FileAlignment h) @ be_bytes 4 (vl_PaddingSize h) @
     be_bytes 4 (vl_BlockSize h)"

definition volume_image :: "bool \<Rightarrow> volume_label \<Rightarrow> u8 list" where
  "volume_image strong h =
     volume_front strong h @ be_bytes 4 (vl_EncCypherKeySize h) @
     take (unat (vl_EncCypherKeySize h)) (vl_EncCypherKey h) @ be_bytes 4 (vl_MasterKeyIdSize h) @
     take (unat (vl_MasterKeyIdSize h)) (vl_MasterKeyId h) @ be_bytes 4 (0 :: u32)"

text \<open>Arrays of the sizes of the structure, each with a terminated string, and key sizes within their arrays.\<close>

definition volume_arrays :: "volume_label \<Rightarrow> bool" where
  "volume_arrays h \<longleftrightarrow> length (vl_Id h) = 32 \<and>
     (\<forall>a \<in> {vl_VolumeName h, vl_PrevVolumeName h, vl_PoolName h, vl_PoolType h, vl_MediaType h, vl_HostName h}.
        length a = MAX_NAME_LENGTH) \<and>
     (\<forall>a \<in> {vl_LabelProg h, vl_ProgVersion h, vl_ProgDate h}. length a = 50) \<and>
     length (vl_AlignedVolumeName h) = MAX_NAME_LENGTH + 4 \<and> length (vl_EncCypherKey h) = 2048 \<and> length (vl_MasterKeyId h) = 80"

definition volume_strings :: "volume_label \<Rightarrow> bool" where
  "volume_strings h \<longleftrightarrow>
     (\<forall>a \<in> {vl_Id h, vl_VolumeName h, vl_PrevVolumeName h, vl_PoolName h, vl_PoolType h, vl_MediaType h, vl_HostName h,
        vl_LabelProg h, vl_ProgVersion h, vl_ProgDate h, vl_AlignedVolumeName h}. 0 \<in> set a) \<and>
     unat (vl_EncCypherKeySize h) \<le> length (vl_EncCypherKey h) \<and> unat (vl_MasterKeyIdSize h) \<le> length (vl_MasterKeyId h)"

lemma obfuscated_ok: "0 \<notin> set (bytes ''OBFUSCATED'')" "length (bytes ''OBFUSCATED'') = 10"
  by code_simp+

lemma ser_volume_put:
  assumes "volume_strings h"
  shows "ser_volume big strong h c = put (volume_image strong h) c"
proof -
  have z: "0 \<in> set (vl_Id h)" "0 \<in> set (vl_VolumeName h)" "0 \<in> set (vl_PrevVolumeName h)" "0 \<in> set (vl_PoolName h)"
    "0 \<in> set (vl_PoolType h)" "0 \<in> set (vl_MediaType h)" "0 \<in> set (vl_HostName h)" "0 \<in> set (vl_LabelProg h)"
    "0 \<in> set (vl_ProgVersion h)" "0 \<in> set (vl_ProgDate h)" "0 \<in> set (vl_AlignedVolumeName h)"
    and k: "unat (vl_EncCypherKeySize h) \<le> length (vl_EncCypherKey h)" "unat (vl_MasterKeyIdSize h) \<le> length (vl_MasterKeyId h)"
    using assms by (auto simp: volume_strings_def)
  note arr = z [THEN serial_string_array]
  have host: "(if strong then ser_string (bytes ''OBFUSCATED'') c else serial_string (vl_HostName h) c) =
      put ((if strong then bytes ''OBFUSCATED'' else cstr (vl_HostName h)) @ [0]) c" for c
    using serial_string_put [OF obfuscated_ok(1), of "[]" c] z by (simp add: serial_string_array)
  have times: "(if 11 \<le> vl_VerNum h
       then serial_btime big (vl_label_btime h) c \<bind> serial_btime big (vl_write_btime h)
       else serial_float64 big (vl_label_date h) c \<bind> serial_float64 big (vl_label_time h)) =
     put ((if 11 \<le> vl_VerNum h then be_bytes 8 (vl_label_btime h) else be_bytes 8 (vl_label_date h)) @
          (if 11 \<le> vl_VerNum h then be_bytes 8 (vl_write_btime h) else be_bytes 8 (vl_label_time h))) c" for c
    by (simp add: serial_fun put_put)
  show ?thesis
    unfolding ser_volume_def host times
    by (simp add: arr serial_fun ser_bytes_def k put_bind put_put volume_image_def volume_front_def del: if_split)
qed

text \<open>What is read from the label of a block with version 3.\<close>

definition read_volume :: "bool \<Rightarrow> volume_label \<Rightarrow> volume_label \<Rightarrow> volume_label" where
  "read_volume strong h l =
     (let l = l\<lparr>vl_Id := fill (vl_Id l) (cstr (vl_Id h)), vl_VerNum := vl_VerNum h\<rparr>;
          l = (if 11 \<le> vl_VerNum h then l\<lparr>vl_label_btime := vl_label_btime h, vl_write_btime := vl_write_btime h\<rparr>
               else l\<lparr>vl_label_date := vl_label_date h, vl_label_time := vl_label_time h\<rparr>)
      in l\<lparr>vl_write_date := vl_write_date h, vl_write_time := vl_write_time h,
           vl_VolumeName := fill (vl_VolumeName l) (cstr (vl_VolumeName h)),
           vl_PrevVolumeName := fill (vl_PrevVolumeName l) (cstr (vl_PrevVolumeName h)),
           vl_PoolName := fill (vl_PoolName l) (cstr (vl_PoolName h)), vl_PoolType := fill (vl_PoolType l) (cstr (vl_PoolType h)),
           vl_MediaType := fill (vl_MediaType l) (cstr (vl_MediaType h)),
           vl_HostName := fill (vl_HostName l) (if strong then bytes ''OBFUSCATED'' else cstr (vl_HostName h)),
           vl_LabelProg := fill (vl_LabelProg l) (cstr (vl_LabelProg h)),
           vl_ProgVersion := fill (vl_ProgVersion l) (cstr (vl_ProgVersion h)),
           vl_ProgDate := fill (vl_ProgDate l) (cstr (vl_ProgDate h)),
           vl_AlignedVolumeName := (fill (vl_AlignedVolumeName l) (cstr (vl_AlignedVolumeName h)))[0 := 0],
           vl_FirstData := vl_FirstData h, vl_FileAlignment := vl_FileAlignment h, vl_PaddingSize := vl_PaddingSize h,
           vl_BlockSize := vl_BlockSize h, vl_EncCypherKeySize := vl_EncCypherKeySize h,
           vl_EncCypherKey := take (unat (vl_EncCypherKeySize h)) (vl_EncCypherKey h) @
             drop (unat (vl_EncCypherKeySize h)) (vl_EncCypherKey l),
           vl_MasterKeyIdSize := vl_MasterKeyIdSize h,
           vl_MasterKeyId := take (unat (vl_MasterKeyIdSize h)) (vl_MasterKeyId h) @
             drop (unat (vl_MasterKeyIdSize h)) (vl_MasterKeyId l)\<rparr>)"

lemma volume_lengths:
  assumes "volume_strings h" and "volume_arrays h" and "volume_arrays l"
  shows "length (cstr (vl_Id h)) < length (vl_Id l)" "length (cstr (vl_VolumeName h)) < length (vl_VolumeName l)"
    "length (cstr (vl_PrevVolumeName h)) < length (vl_PrevVolumeName l)" "length (cstr (vl_PoolName h)) < length (vl_PoolName l)"
    "length (cstr (vl_PoolType h)) < length (vl_PoolType l)" "length (cstr (vl_MediaType h)) < length (vl_MediaType l)"
    "length (cstr (vl_HostName h)) < length (vl_HostName l)" "length (cstr (vl_LabelProg h)) < length (vl_LabelProg l)"
    "length (cstr (vl_ProgVersion h)) < length (vl_ProgVersion l)" "length (cstr (vl_ProgDate h)) < length (vl_ProgDate l)"
    "length (cstr (vl_AlignedVolumeName h)) < length (vl_AlignedVolumeName l)" "10 < length (vl_HostName l)"
    "unat (vl_EncCypherKeySize h) \<le> length (vl_EncCypherKey h)" "unat (vl_EncCypherKeySize h) \<le> length (vl_EncCypherKey l)"
    "unat (vl_MasterKeyIdSize h) \<le> length (vl_MasterKeyId h)" "unat (vl_MasterKeyIdSize h) \<le> length (vl_MasterKeyId l)"
  using assms length_cstr [of "vl_Id h"] length_cstr [of "vl_VolumeName h"] length_cstr [of "vl_PrevVolumeName h"]
    length_cstr [of "vl_PoolName h"] length_cstr [of "vl_PoolType h"] length_cstr [of "vl_MediaType h"]
    length_cstr [of "vl_HostName h"] length_cstr [of "vl_LabelProg h"] length_cstr [of "vl_ProgVersion h"]
    length_cstr [of "vl_ProgDate h"] length_cstr [of "vl_AlignedVolumeName h"]
  by (simp_all add: volume_strings_def volume_arrays_def MAX_NAME_LENGTH_def)

lemma unser_volume_image:
  assumes "volume_strings h" and "volume_arrays h" and "volume_arrays l"
    and "length pre + length (volume_image strong h) \<le> SER_LENGTH_Volume_Label"
  shows "unser_volume big 3 l (at_cursor pre (volume_image strong h @ post)) = Some (read_volume strong h l)"
proof -
  note len = volume_lengths [OF assms(1-3)]
  have host: "0 \<notin> set (if strong then bytes ''OBFUSCATED'' else cstr (vl_HostName h))"
    "length (if strong then bytes ''OBFUSCATED'' else cstr (vl_HostName h)) < length (vl_HostName l)"
    using obfuscated_ok len by auto
  have fit: "snd (at_cursor (pre @ volume_image strong h) post) \<le> SER_LENGTH_Volume_Label"
    using assms(4) by (simp add: at_cursor_def)
  show ?thesis
  proof (cases "11 \<le> vl_VerNum h")
    case True
    show ?thesis
      using fit host
      by (simp add: unser_volume_def volume_image_def volume_front_def read_volume_def True read_field len Let_def del: if_split)
  next
    case False
    show ?thesis
      using fit host
      by (simp add: unser_volume_def volume_image_def volume_front_def read_volume_def False read_field len Let_def del: if_split)
  qed
qed

lemma unser_volume_big_key:
  assumes "volume_strings h" and "volume_arrays h" and "volume_arrays l" and "2048 < unat (v :: u32)"
  shows "unser_volume big 3 l (at_cursor pre (volume_front strong h @ be_bytes 4 v @ post)) = None"
proof -
  note len = volume_lengths [OF assms(1-3)]
  have host: "0 \<notin> set (if strong then bytes ''OBFUSCATED'' else cstr (vl_HostName h))"
    "length (if strong then bytes ''OBFUSCATED'' else cstr (vl_HostName h)) < length (vl_HostName l)"
    using obfuscated_ok len by auto
  have none: "unser_bytes (unat v) c (vl_EncCypherKey l) = None" for c
    using assms(3,4) by (simp add: unser_bytes_def volume_arrays_def)
  show ?thesis
  proof (cases "11 \<le> vl_VerNum h")
    case True
    show ?thesis
      using host by (simp add: unser_volume_def volume_front_def True read_field len none Let_def del: if_split)
  next
    case False
    show ?thesis
      using host by (simp add: unser_volume_def volume_front_def False read_field len none Let_def del: if_split)
  qed
qed

section \<open>Properties\<close>

lemma at_start: "(xs, 0) = at_cursor [] xs"
  by (simp add: at_cursor_def)

lemma put_at_start: "length xs \<le> length buf \<Longrightarrow> put xs (buf, 0) = Some (xs @ drop (length xs) buf, length xs)"
  by (simp add: put_def buf_write_def)

lemma cstr_padded: "0 \<notin> set t \<Longrightarrow> cstr (t @ replicate (Suc n) 0) = t"
  unfolding cstr_def by (induction t) auto

lemma bstrncpy_padded:
  assumes "dest \<noteq> []"
  obtains n where "bstrncpy dest s = take (length dest - 1) (cstr s) @ replicate (Suc n) 0"
    "length (take (length dest - 1) (cstr s)) + Suc n = length dest"
proof -
  let ?t = "take (length dest - 1) (cstr s)"
  have less: "length ?t < length dest" using assms by (cases dest) simp_all
  then obtain n where n: "length dest - length ?t = Suc n" by (metis Suc_diff_Suc)
  have "bstrncpy dest s = ?t @ replicate (Suc n) 0" unfolding bstrncpy_def Let_def n ..
  moreover have "length ?t + Suc n = length dest" using n less by linarith
  ultimately show thesis using that by blast
qed

lemma cstr_bstrncpy_take:
  assumes "dest \<noteq> []"
  shows "cstr (bstrncpy dest s) = take (length dest - 1) (cstr s)"
  using bstrncpy_padded [OF assms, of s] cstr_padded zero_notin_cstr by (metis in_set_takeD)

lemma cstr_bstrncpy: "length (cstr s) < length dest \<Longrightarrow> cstr (bstrncpy dest s) = cstr s"
  using cstr_bstrncpy_take [of dest s] by (cases dest) simp_all

lemma zero_in_bstrncpy [simp]:
  assumes "dest \<noteq> []"
  shows "0 \<in> set (bstrncpy dest s)" "length (bstrncpy dest s) = length dest"
  using bstrncpy_padded [OF assms, of s] by (fastforce, metis length_append length_replicate)

lemma sprintf_into_ok:
  assumes "length s < length dest"
  shows "\<exists>a. sprintf_into dest s = Some a \<and> length a = length dest \<and> 0 \<in> set a"
  using assms by (auto simp: sprintf_into_def buf_write_def)

lemma header_kept [simp]:
  "vl_VolumeName (header_kind e h) = vl_VolumeName h" "vl_PrevVolumeName (header_kind e h) = vl_PrevVolumeName h"
  "vl_PoolName (header_kind e h) = vl_PoolName h" "vl_PoolType (header_kind e h) = vl_PoolType h"
  "vl_MediaType (header_kind e h) = vl_MediaType h" "vl_HostName (header_kind e h) = vl_HostName h"
  "vl_LabelProg (header_kind e h) = vl_LabelProg h" "vl_ProgVersion (header_kind e h) = vl_ProgVersion h"
  "vl_ProgDate (header_kind e h) = vl_ProgDate h" "vl_AlignedVolumeName (header_kind e h) = vl_AlignedVolumeName h"
  "vl_EncCypherKeySize (header_kind e h) = vl_EncCypherKeySize h" "vl_EncCypherKey (header_kind e h) = vl_EncCypherKey h"
  "vl_MasterKeyIdSize (header_kind e h) = vl_MasterKeyIdSize h" "vl_MasterKeyId (header_kind e h) = vl_MasterKeyId h"
  by (simp_all add: header_kind_def)

lemma header_id:
  "vl_Id h \<noteq> [] \<Longrightarrow> length (vl_Id (header_kind e h)) = length (vl_Id h) \<and> 0 \<in> set (vl_Id (header_kind e h))"
  by (simp add: header_kind_def)

lemma length_cstr_less: "0 \<in> set a \<Longrightarrow> length (cstr a) < length a"
  unfolding cstr_def by (induction a) auto

lemma session_grown:
  "(\<And>n. length (mem n) = n) \<Longrightarrow> SER_LENGTH_Session_Label \<le> length (check_pool_memory_size mem buf SER_LENGTH_Session_Label)"
  by (rule length_check_pool_memory_size) (simp_all add: SER_LENGTH_Session_Label_def)

lemma grown_prefix: "\<exists>t. check_pool_memory_size mem (xs @ ys) n = xs @ t"
  by (auto simp: check_pool_memory_size_def)

text \<open>
  C10 (session_label_roundtrip).  A session label always fits into its buffer, and what is written is what is read:
  for names shorter than the arrays of the label, \<^verbatim>\<open>create_session_label\<close> succeeds, and
  \<^verbatim>\<open>unser_session_label\<close>, on any host and whatever follows the data of the record in memory, gives
  back every field, those of an end label included.
\<close>

theorem session_label_roundtrip:
  assumes "job_names_ok j" and "session_arrays l" and "\<And>n. length (mem n) = n"
  shows "\<exists>rec'. create_session_label mem big now j rec label = Some rec' \<and>
    unat (r_data_len rec') \<le> SER_LENGTH_Session_Label \<and>
    (\<forall>junk. map_option fst (unser_session_label mem' big' l
       (rec'\<lparr>r_FileIndex := label, r_data := take (unat (r_data_len rec')) (r_data rec') @ junk\<rparr>)) =
     Some (read_session now j label l))"
proof -
  let ?im = "session_image now j label" and ?buf = "check_pool_memory_size mem (r_data rec) SER_LENGTH_Session_Label"
  have len: "length ?im \<le> SER_LENGTH_Session_Label" using length_session_image [OF assms(1)] .
  then have fits: "length ?im \<le> length ?buf" using session_grown [OF assms(3), of "r_data rec"] by simp
  have n: "unat (of_nat (length ?im) :: u32) = length ?im"
    using len by (simp add: unat_of_nat_u32 SER_LENGTH_Session_Label_def)
  have read: "map_option fst (unser_session_label mem' big' l (r\<lparr>r_FileIndex := label, r_data := ?im @ junk\<rparr>)) =
      Some (read_session now j label l)" for r junk
  proof -
    obtain t where "check_pool_memory_size mem' (?im @ junk) SER_LENGTH_Session_Label = ?im @ t"
      using grown_prefix by blast
    then show ?thesis
      using unser_session_image [OF assms(1,2), of big' label "[]" now t]
      by (simp add: unser_session_label_def at_start option.map_comp Let_def comp_def)
  qed
  let ?r = "rec\<lparr>r_VolSessionId := lj_VolSessionId j, r_VolSessionTime := lj_VolSessionTime j, r_Stream := lj_JobId j,
    r_maskedStream := lj_JobId j, r_data := ?im @ drop (length ?im) ?buf, r_data_len := of_nat (length ?im)\<rparr>"
  have "create_session_label mem big now j rec label = Some ?r"
    using len by (simp add: create_session_label_def ser_session_put [OF assms(1)] put_at_start [OF fits] Let_def)
  moreover have "unat (r_data_len ?r) \<le> SER_LENGTH_Session_Label" using n len by simp
  moreover have "take (unat (r_data_len ?r)) (r_data ?r) = ?im" using n by simp
  ultimately show ?thesis using read [where r = ?r] by (intro exI [of _ ?r]) simp
qed

text \<open>
  \<^verbatim>\<open>create_volume_header\<close> makes a well-formed header out of any: when the
  program's version and build date fit into their fields, and the host name the system stores is terminated, then
  the call succeeds, every array keeps the size of the structure and holds a terminated string, the names are those
  given (cut to 127 bytes), and the label type is one of the two that \<^verbatim>\<open>unser_volume_label\<close> accepts.
\<close>

theorem create_volume_header_wf:
  assumes "volume_arrays (lc_VolHdr d)" and "0 \<in> set (vl_PrevVolumeName (lc_VolHdr d))"
    and "0 \<in> set (vl_AlignedVolumeName (lc_VolHdr d))"
    and "unat (vl_EncCypherKeySize (lc_VolHdr d)) \<le> 2048" and "unat (vl_MasterKeyIdSize (lc_VolHdr d)) \<le> 80"
    and "length (he_prog_version e) < 50" and "length (he_prog_date e) < 50"
    and "\<And>a b. he_gethostname e a = Some b \<Longrightarrow> length b = length a \<and> 0 \<in> set b"
  shows "\<exists>d'. create_volume_header e VolName PoolName no_prelabel d = Some d' \<and> lc_labeled d' \<and>
    volume_arrays (lc_VolHdr d') \<and> volume_strings (lc_VolHdr d') \<and>
    cstr (vl_VolumeName (lc_VolHdr d')) = take 127 (cstr VolName) \<and> cstr (vl_PoolName (lc_VolHdr d')) = take 127 (cstr PoolName) \<and>
    (vl_LabelType (lc_VolHdr d') = VOL_LABEL \<or> vl_LabelType (lc_VolHdr d') = PRE_LABEL)"
proof -
  have arr: "length (vl_Id (lc_VolHdr d)) = 32" "length (vl_VolumeName (lc_VolHdr d)) = 128"
    "length (vl_PrevVolumeName (lc_VolHdr d)) = 128" "length (vl_PoolName (lc_VolHdr d)) = 128"
    "length (vl_PoolType (lc_VolHdr d)) = 128" "length (vl_MediaType (lc_VolHdr d)) = 128"
    "length (vl_HostName (lc_VolHdr d)) = 128" "length (vl_LabelProg (lc_VolHdr d)) = 50"
    "length (vl_ProgVersion (lc_VolHdr d)) = 50" "length (vl_ProgDate (lc_VolHdr d)) = 50"
    "length (vl_AlignedVolumeName (lc_VolHdr d)) = 132" "length (vl_EncCypherKey (lc_VolHdr d)) = 2048"
    "length (vl_MasterKeyId (lc_VolHdr d)) = 80"
    using assms(1) by (simp_all add: volume_arrays_def MAX_NAME_LENGTH_def)
  let ?host = "case he_gethostname e (vl_HostName (lc_VolHdr d)) of Some a \<Rightarrow> a | None \<Rightarrow> (vl_HostName (lc_VolHdr d))[0 := 0]"
  have host: "length ?host = 128" "0 \<in> set ?host"
    using assms(8) [of "vl_HostName (lc_VolHdr d)"] arr(7)
    by (auto split: option.splits intro!: set_update_memI)
  obtain v w where v: "sprintf_into (vl_ProgVersion (lc_VolHdr d)) (he_prog_version e) = Some v" "length v = 50" "0 \<in> set v"
    and w: "sprintf_into (vl_ProgDate (lc_VolHdr d)) (he_prog_date e) = Some w" "length w = 50" "0 \<in> set w"
    using sprintf_into_ok [of "he_prog_version e" "vl_ProgVersion (lc_VolHdr d)"]
      sprintf_into_ok [of "he_prog_date e" "vl_ProgDate (lc_VolHdr d)"] assms(6,7) arr(9,10) by auto
  have ne: "vl_VolumeName (lc_VolHdr d) \<noteq> []" "vl_PoolName (lc_VolHdr d) \<noteq> []" "vl_PoolType (lc_VolHdr d) \<noteq> []"
    "vl_MediaType (lc_VolHdr d) \<noteq> []" "vl_LabelProg (lc_VolHdr d) \<noteq> []"
    using arr by auto
  have id: "length (vl_Id (header_kind e (lc_VolHdr d\<lparr>vl_BlockVer := BLOCK_VER\<rparr>))) = 32"
    "0 \<in> set (vl_Id (header_kind e (lc_VolHdr d\<lparr>vl_BlockVer := BLOCK_VER\<rparr>)))"
    using header_id [of "lc_VolHdr d\<lparr>vl_BlockVer := BLOCK_VER\<rparr>" e] arr(1) by (cases "vl_Id (lc_VolHdr d)"; simp)+
  show ?thesis
    using assms(2-5) host v w ne id
    by (simp add: create_volume_header_def arr volume_arrays_def volume_strings_def cstr_bstrncpy_take MAX_NAME_LENGTH_def Let_def
        cong: option.case_cong)
qed

text \<open>
  C11 (volume_label_roundtrip).  The same for the label of a Volume: when its serialised form fits into the buffer,
  \<^verbatim>\<open>create_volume_label_record\<close> writes it, and \<^verbatim>\<open>unser_volume_label\<close> reads the stamped
  header back from a block of the current version, names, times, sizes and encryption keys.
\<close>

theorem volume_label_roundtrip:
  assumes "volume_strings h" and "volume_arrays h" and "volume_arrays l" and "cstr (vl_VolumeName h) \<noteq> []"
    and "length (volume_image strong (stamp_header now today h)) \<le> SER_LENGTH_Volume_Label"
    and "vl_LabelType h = VOL_LABEL \<or> vl_LabelType h = PRE_LABEL"
    and "lc_VolHdr d = h" and "length (lc_VolumeName d) = MAX_NAME_LENGTH"
  shows "\<exists>d' rec'. create_volume_label_record big strong now today j False d rec = Some (d', rec') \<and>
    lc_VolHdr d' = stamp_header now today h \<and> cstr (lc_VolumeName d') = cstr (vl_VolumeName h) \<and> b_first_block (lc_block d') \<and>
    (\<forall>junk l'. l' = l\<lparr>vl_LabelType := vl_LabelType h, vl_LabelSize := r_data_len rec', vl_BlockVer := 3, vl_blkh_options := opts\<rparr> \<longrightarrow>
       map_option (\<lambda>x. (fst x, fst (snd x))) (unser_volume_label mem big' forge l
         (rec'\<lparr>r_BlockVer := 3, r_blkh_options := opts, r_data := take (unat (r_data_len rec')) (r_data rec') @ junk\<rparr>)) =
       Some (True, read_volume strong (stamp_header now today h) l'))"
proof -
  let ?h = "stamp_header now today h"
  let ?im = "volume_image strong ?h" and ?data = "replicate SER_LENGTH_Volume_Label 0 @ drop SER_LENGTH_Volume_Label (r_data rec)"
  have kept: "vl_Id ?h = vl_Id h" "vl_VolumeName ?h = vl_VolumeName h" "vl_PrevVolumeName ?h = vl_PrevVolumeName h"
    "vl_PoolName ?h = vl_PoolName h" "vl_PoolType ?h = vl_PoolType h" "vl_MediaType ?h = vl_MediaType h"
    "vl_HostName ?h = vl_HostName h" "vl_LabelProg ?h = vl_LabelProg h" "vl_ProgVersion ?h = vl_ProgVersion h"
    "vl_ProgDate ?h = vl_ProgDate h" "vl_EncCypherKeySize ?h = vl_EncCypherKeySize h" "vl_EncCypherKey ?h = vl_EncCypherKey h"
    "vl_MasterKeyIdSize ?h = vl_MasterKeyIdSize h" "vl_MasterKeyId ?h = vl_MasterKeyId h" "vl_LabelType ?h = vl_LabelType h"
    "vl_AlignedVolumeName ?h = (vl_AlignedVolumeName h)[0 := 0]"
    by (simp_all add: stamp_header_def Let_def)
  have "0 \<in> set ((vl_AlignedVolumeName h)[0 := 0])"
    using assms(2) by (cases "vl_AlignedVolumeName h") (auto simp: volume_arrays_def)
  then have str: "volume_strings ?h" using assms(1) by (simp add: volume_strings_def kept)
  have arr: "volume_arrays ?h" using assms(2) by (simp add: volume_arrays_def kept)
  have n: "unat (of_nat (length ?im) :: u32) = length ?im"
    using assms(5) by (simp add: unat_of_nat_u32 SER_LENGTH_Volume_Label_def)
  let ?r = "rec\<lparr>r_data := ?im @ drop (length ?im) ?data, r_data_len := of_nat (length ?im), r_FileIndex := vl_LabelType h,
    r_VolSessionId := lj_VolSessionId j, r_VolSessionTime := lj_VolSessionTime j,
    r_Stream := lj_NumWriteVolumes j, r_maskedStream := lj_NumWriteVolumes j\<rparr>"
  have fits: "length ?im \<le> length ?data" using assms(5) by simp
  let ?name = "bstrncpy (lc_VolumeName d) (vl_VolumeName h)"
  let ?d = "d\<lparr>lc_VolHdr := ?h, lc_VolumeName := ?name, lc_block := (lc_block d)\<lparr>b_first_block := True\<rparr>\<rparr>"
  have "length (cstr (vl_VolumeName h)) < MAX_NAME_LENGTH"
    using assms(1,2) by (auto simp: volume_strings_def volume_arrays_def dest: length_cstr_less)
  then have name: "cstr ?name = cstr (vl_VolumeName h)"
    using assms(8) by (simp add: cstr_bstrncpy)
  have made: "create_volume_label_record big strong now today j False d rec = Some (?d, ?r)"
    using assms(4,5,7) name
    by (simp add: create_volume_label_record_def ser_volume_put [OF str] put_at_start [OF fits] kept Let_def)
  have read: "map_option (\<lambda>x. (fst x, fst (snd x))) (unser_volume_label mem big' forge l
         (?r\<lparr>r_BlockVer := 3, r_blkh_options := opts, r_data := ?im @ junk\<rparr>)) =
       Some (True, read_volume strong ?h (l\<lparr>vl_LabelType := vl_LabelType h, vl_LabelSize := r_data_len ?r, vl_BlockVer := 3,
         vl_blkh_options := opts\<rparr>))" for junk
  proof -
    obtain t where t: "check_pool_memory_size mem (?im @ junk) SER_LENGTH_Volume_Label = ?im @ t"
      using grown_prefix by blast
    let ?l = "l\<lparr>vl_LabelType := vl_LabelType h, vl_LabelSize := r_data_len ?r, vl_BlockVer := 3, vl_blkh_options := opts\<rparr>"
    have "volume_arrays ?l" using assms(3) by (simp add: volume_arrays_def)
    from unser_volume_image [OF str arr this, of "[]" strong big' t] assms(5,6) t
    show ?thesis by (auto simp: unser_volume_label_def at_start option.map_comp Let_def comp_def)
  qed
  have "take (unat (r_data_len ?r)) (r_data ?r) = ?im" using n by simp
  then show ?thesis using made read name by (intro exI [of _ ?d] exI [of _ ?r]) simp
qed

text \<open>
  The size of the encryption key is used as it stands on the Volume: a label that announces a
  key of more than 2048 bytes makes \<^verbatim>\<open>unser_volume_label\<close> write outside the array of the header.
\<close>

theorem volume_label_key_overflow:
  assumes "volume_strings h" and "volume_arrays h" and "volume_arrays l" and "2048 < unat (v :: u32)"
    and "r_BlockVer rec = 3" and "r_FileIndex rec = VOL_LABEL"
    and "r_data rec = volume_front strong h @ be_bytes 4 v @ post"
  shows "unser_volume_label mem big forge l rec = None"
proof -
  obtain t where t: "check_pool_memory_size mem (r_data rec) SER_LENGTH_Volume_Label = volume_front strong h @ be_bytes 4 v @ t"
    using grown_prefix [of mem "volume_front strong h @ be_bytes 4 v" post] assms(7) by auto
  let ?l = "l\<lparr>vl_LabelType := r_FileIndex rec, vl_LabelSize := r_data_len rec, vl_BlockVer := 3, vl_blkh_options := r_blkh_options rec\<rparr>"
  have "volume_arrays ?l" using assms(3) by (simp add: volume_arrays_def)
  from unser_volume_big_key [OF assms(1,2) this assms(4), of big "[]" strong t] show ?thesis
    using assms(5,6) t by (simp add: unser_volume_label_def at_start Let_def)
qed

text \<open>The buffer is smaller than the largest key: a label that does not fit is written past its end.\<close>

lemma big_label_overflows:
  assumes "volume_strings h" and "volume_arrays h" and "length (r_data rec) \<le> SER_LENGTH_Volume_Label"
    and "SER_LENGTH_Volume_Label < length (volume_image strong (stamp_header now today h))" and "lc_VolHdr d = h"
  shows "create_volume_label_record big strong now today j adata d rec = None"
proof -
  let ?h = "stamp_header now today h"
  have "0 \<in> set ((vl_AlignedVolumeName h)[0 := 0])"
    using assms(2) by (cases "vl_AlignedVolumeName h") (auto simp: volume_arrays_def)
  then have "volume_strings ?h" using assms(1) by (simp add: volume_strings_def stamp_header_def Let_def)
  then show ?thesis
    using assms(3-5) by (simp add: create_volume_label_record_def ser_volume_put put_def Let_def)
qed

section \<open>Examples\<close>

definition sample_label_job :: label_job where
  "sample_label_job =
     \<lparr>lj_VolSessionId = 3, lj_VolSessionTime = 1600000000, lj_NumWriteVolumes = 1, lj_JobId = 7,
      lj_pool_name = bytes ''Default'', lj_pool_type = bytes ''Backup'', lj_job_name = bytes ''Nightly'',
      lj_client_name = bytes ''fd'', lj_Job = bytes ''Nightly.1'', lj_fileset_name = bytes ''Full'', lj_JobType = 66,
      lj_JobLevel = 70, lj_fileset_md5 = bytes ''x'', lj_JobFiles = 12, lj_JobBytes = 4096, lj_StartAddr = 0x100000002,
      lj_EndAddr = 0x100000500, lj_JobErrors = 0, lj_JobStatus = 84\<rparr>"

definition blank_session :: session_rec where
  "blank_session =
     \<lparr>sr_Id = replicate 32 0, sr_VerNum = 0, sr_JobId = 0, sr_VolumeIndex = 0, sr_write_btime = 0, sr_write_date = 0,
      sr_write_time = 0, sr_PoolName = replicate MAX_NAME_LENGTH 0, sr_PoolType = replicate MAX_NAME_LENGTH 0,
      sr_JobName = replicate MAX_NAME_LENGTH 0, sr_ClientName = replicate MAX_NAME_LENGTH 0, sr_Job = replicate MAX_NAME_LENGTH 0,
      sr_FileSetName = replicate MAX_NAME_LENGTH 0, sr_FileSetMD5 = replicate MAX_NAME_LENGTH 0, sr_JobType = 0, sr_JobLevel = 0,
      sr_JobFiles = 0, sr_JobBytes = 0, sr_StartBlock = 0, sr_EndBlock = 0, sr_StartFile = 0, sr_EndFile = 0,
      sr_JobErrors = 0, sr_JobStatus = 0\<rparr>"

lemma sample_label_job_ok: "job_names_ok sample_label_job" "session_arrays blank_session"
proof -
  show "job_names_ok sample_label_job" by code_simp
  show "session_arrays blank_session" by (simp add: session_arrays_def blank_session_def)
qed

theorem session_label_roundtrip_witness:
  "\<exists>rec'. create_session_label (\<lambda>n. replicate n 9) False 5 sample_label_job (new_record []) EOS_LABEL = Some rec' \<and>
    map_option fst (unser_session_label (\<lambda>n. []) True blank_session
       (rec'\<lparr>r_FileIndex := EOS_LABEL, r_data := take (unat (r_data_len rec')) (r_data rec') @ [1, 2]\<rparr>)) =
     Some (read_session 5 sample_label_job EOS_LABEL blank_session)"
proof -
  have "length (replicate n 9) = n" for n by simp
  from session_label_roundtrip [OF sample_label_job_ok this, of False 5 "new_record []" EOS_LABEL "\<lambda>n. []" True]
  show ?thesis by blast
qed

definition blank_volume :: volume_label where
  "blank_volume =
     \<lparr>vl_LabelType = 0, vl_LabelSize = 0, vl_Id = replicate 32 0, vl_VerNum = 0, vl_BlockVer = 0, vl_blkh_options = 0,
      vl_label_date = 0, vl_label_time = 0, vl_label_btime = 0, vl_write_btime = 0, vl_write_date = 0, vl_write_time = 0,
      vl_VolumeName = replicate MAX_NAME_LENGTH 0, vl_PrevVolumeName = replicate MAX_NAME_LENGTH 0,
      vl_PoolName = replicate MAX_NAME_LENGTH 0, vl_PoolType = replicate MAX_NAME_LENGTH 0,
      vl_MediaType = replicate MAX_NAME_LENGTH 0, vl_HostName = replicate MAX_NAME_LENGTH 0, vl_LabelProg = replicate 50 0,
      vl_ProgVersion = replicate 50 0, vl_ProgDate = replicate 50 0, vl_AlignedVolumeName = replicate (MAX_NAME_LENGTH + 4) 0,
      vl_FirstData = 0, vl_FileAlignment = 0, vl_PaddingSize = 0, vl_BlockSize = 0, vl_MaxPartSize = 0, vl_MaxVolPartsNum = 0,
      vl_EncCypherKeySize = 0, vl_MasterKeyIdSize = 0, vl_EncCypherKey = replicate 2048 0, vl_MasterKeyId = replicate 80 0\<rparr>"

definition sample_volume :: volume_label where
  "sample_volume = blank_volume\<lparr>vl_LabelType := PRE_LABEL, vl_Id := fill (vl_Id blank_volume) BaculaId, vl_VerNum := BaculaTapeVersion,
     vl_VolumeName := fill (vl_VolumeName blank_volume) (bytes ''Vol1'')\<rparr>"

lemma blank_volume_ok: "volume_strings blank_volume" "volume_arrays blank_volume"
  by (simp_all add: volume_strings_def volume_arrays_def blank_volume_def MAX_NAME_LENGTH_def)

lemma vol1_ok: "0 \<notin> set (bytes ''Vol1'')" "length (bytes ''Vol1'') = 4"
  by code_simp+

lemma zero_in_fill: "0 \<in> set (fill dest s)"
  by (simp add: fill_def)

lemma sample_volume_ok: "volume_strings sample_volume" "volume_arrays sample_volume" "cstr (vl_VolumeName sample_volume) \<noteq> []"
proof -
  show "volume_strings sample_volume" using blank_volume_ok(1) by (simp add: volume_strings_def sample_volume_def zero_in_fill)
  show "volume_arrays sample_volume"
    using blank_volume_ok(2) by (simp add: volume_arrays_def sample_volume_def BaculaId_ok vol1_ok MAX_NAME_LENGTH_def)
  show "cstr (vl_VolumeName sample_volume) \<noteq> []" using vol1_ok by (auto simp: sample_volume_def)
qed

lemma cstr_zeros: "cstr (replicate n 0) = []"
  by (cases n) (simp_all add: cstr_def)

lemma sample_volume_image:
  "length (volume_image False (stamp_header 5 (0, 0) sample_volume)) \<le> SER_LENGTH_Volume_Label"
proof -
  have z: "(replicate (MAX_NAME_LENGTH + 4) 0)[0 := 0 :: u8] = replicate (MAX_NAME_LENGTH + 4) 0"
    by (rule list_update_same_conv [THEN iffD2]) (simp_all add: MAX_NAME_LENGTH_def)
  have v: "(11 :: u32) \<le> BaculaTapeVersion" by (simp add: BaculaTapeVersion_def)
  show ?thesis
    by (simp add: volume_image_def volume_front_def stamp_header_def sample_volume_def blank_volume_def BaculaId_ok vol1_ok
        cstr_zeros z v SER_LENGTH_Volume_Label_def Let_def del: replicate_add)
qed

definition sample_label_dcr :: label_dcr where
  "sample_label_dcr = \<lparr>lc_VolHdr = sample_volume, lc_labeled = True, lc_VolumeName = replicate MAX_NAME_LENGTH 0,
     lc_block = new_block (\<lambda>n. replicate n 0) sample_dev 64\<rparr>"

definition sample_header_env :: header_env where
  "sample_header_env =
     \<lparr>he_is_aligned = False, he_is_adata = False, he_is_dedup = False, he_is_cloud = False, he_file_alignment = 0,
      he_padding_size = 0, he_adata_size = 0, he_max_block_size = 64512, he_max_part_size = 0, he_max_vol_parts_num = 0,
      he_cap_stream = False, he_worm = False, he_media_type = bytes ''File'', he_now = 5,
      he_gethostname = (\<lambda>a. if a = [] then None else Some (bstrncpy a (bytes ''sd''))), he_my_name = bytes ''bacula-sd'',
      he_prog_version = bytes ''Ver. 15'', he_prog_date = bytes ''Build''\<rparr>"

theorem create_volume_header_wf_witness:
  "\<exists>d'. create_volume_header sample_header_env (bytes ''Vol2'') (bytes ''Default'') False sample_label_dcr =
      Some d' \<and> volume_arrays (lc_VolHdr d') \<and> volume_strings (lc_VolHdr d') \<and>
      cstr (vl_VolumeName (lc_VolHdr d')) = take 127 (cstr (bytes ''Vol2''))"
proof -
  have h: "volume_arrays (lc_VolHdr sample_label_dcr)" using sample_volume_ok(2) by (simp add: sample_label_dcr_def)
  have z: "0 \<in> set (vl_PrevVolumeName (lc_VolHdr sample_label_dcr))" "0 \<in> set (vl_AlignedVolumeName (lc_VolHdr sample_label_dcr))"
    "unat (vl_EncCypherKeySize (lc_VolHdr sample_label_dcr)) \<le> 2048" "unat (vl_MasterKeyIdSize (lc_VolHdr sample_label_dcr)) \<le> 80"
    by (simp_all add: sample_label_dcr_def sample_volume_def blank_volume_def MAX_NAME_LENGTH_def)
  have p: "length (he_prog_version sample_header_env) < 50"
    "length (he_prog_date sample_header_env) < 50"
    by (simp_all add: sample_header_env_def bytes_def)
  have "he_gethostname sample_header_env a = Some b \<Longrightarrow> length b = length a \<and> 0 \<in> set b" for a b
    by (auto simp: sample_header_env_def split: if_splits)
  from create_volume_header_wf [OF h z p this] show ?thesis by blast
qed

theorem volume_label_roundtrip_witness:
  "\<exists>d' rec'. create_volume_label_record False False 5 (0, 0) sample_label_job False sample_label_dcr (new_record []) =
      Some (d', rec') \<and> lc_VolHdr d' = stamp_header 5 (0, 0) sample_volume \<and>
    map_option (\<lambda>x. (fst x, fst (snd x))) (unser_volume_label (\<lambda>n. []) True False blank_volume
       (rec'\<lparr>r_BlockVer := 3, r_blkh_options := 0, r_data := take (unat (r_data_len rec')) (r_data rec') @ [1]\<rparr>)) =
     Some (True, read_volume False (stamp_header 5 (0, 0) sample_volume)
       (blank_volume\<lparr>vl_LabelType := PRE_LABEL, vl_LabelSize := r_data_len rec', vl_BlockVer := 3, vl_blkh_options := 0\<rparr>))"
proof -
  have t: "vl_LabelType sample_volume = VOL_LABEL \<or> vl_LabelType sample_volume = PRE_LABEL" by (simp add: sample_volume_def)
  have d: "lc_VolHdr sample_label_dcr = sample_volume" "length (lc_VolumeName sample_label_dcr) = MAX_NAME_LENGTH"
    by (simp_all add: sample_label_dcr_def)
  from volume_label_roundtrip [OF sample_volume_ok(1,2) blank_volume_ok(2) sample_volume_ok(3) sample_volume_image t d,
      of False sample_label_job "new_record []" 0 "\<lambda>n. []" True False]
  obtain d' rec' where made: "create_volume_label_record False False 5 (0, 0) sample_label_job False sample_label_dcr (new_record []) =
      Some (d', rec')" "lc_VolHdr d' = stamp_header 5 (0, 0) sample_volume"
    and read: "\<forall>junk l'. l' = blank_volume\<lparr>vl_LabelType := vl_LabelType sample_volume, vl_LabelSize := r_data_len rec',
        vl_BlockVer := 3, vl_blkh_options := 0\<rparr> \<longrightarrow>
      map_option (\<lambda>x. (fst x, fst (snd x))) (unser_volume_label (\<lambda>n. []) True False blank_volume
       (rec'\<lparr>r_BlockVer := 3, r_blkh_options := 0, r_data := take (unat (r_data_len rec')) (r_data rec') @ junk\<rparr>)) =
      Some (True, read_volume False (stamp_header 5 (0, 0) sample_volume) l')" by blast
  have "vl_LabelType sample_volume = PRE_LABEL" by (simp add: sample_volume_def)
  with made read show ?thesis by auto
qed

theorem volume_label_key_overflow_witness:
  "unser_volume_label (\<lambda>n. replicate n 0) False False blank_volume
     ((new_record (volume_front False sample_volume @ be_bytes 4 (0xFFFF :: u32) @ []))\<lparr>r_BlockVer := 3, r_FileIndex := VOL_LABEL\<rparr>) = None"
  by (rule volume_label_key_overflow [OF sample_volume_ok(1,2) blank_volume_ok(2), where strong = False and v = "0xFFFF" and post = "[]"])
    (simp_all add: new_record_def)

end
