(* ===== verification/Read_Records.thy ===== *)
theory Read_Records
  imports Block_Read Match_Bsr Label
begin

text \<open>
  Reading the records of a job for a restore: \<^verbatim>\<open>src/bacula/src/stored/read_records.c\<close>, which reads
  blocks, keeps one open record for each session, puts records together, asks the bootstrap
  records and hands what they select to a callback; and \<^verbatim>\<open>DEVICE::reposition\<close> of
  \<^verbatim>\<open>file_dev.c\<close>.  The device is not a FIFO.  The interactive restore
  (\<^verbatim>\<open>sir_init\<close>, \<^verbatim>\<open>sir_init_loop\<close>, \<^verbatim>\<open>need_to_reposition\<close>) is switched off in
  the stubs of \<^verbatim>\<open>org_libsd_sir.c\<close>.  The callbacks are arguments: the one for records does not touch the
  device, and a mount that fails leaves the job its device.  The loop over the records of a block and the loop over
  blocks are partial functions.
\<close>

section \<open>State\<close>

definition no_FileIndex :: i32 where "no_FileIndex = - 999999"

text \<open>
  A record with the fields that only this code uses; \<open>o_bsr\<close> is the pointer \<^verbatim>\<open>rec->bsr\<close>
  as an index into the chain.
\<close>

record open_rec =
  o_rec :: dev_record
  o_BlockNumber :: u32
  o_invalid :: bool
  o_match_stat :: int
  o_bsr :: "nat option"

text \<open>
  The job: its device with the label of the mounted Volume (whose name is also \<open>s_VolumeName\<close> of the
  device) and the name in the job's list of Volumes, the open records, the bootstrap records, the
  last session label, the request for the next Volume and the state behind the callback.
\<close>

record ('os, 'cb) rr =
  rr_d :: "'os wdcr"
  rr_VolHdr :: volume_label
  rr_CurrentVol :: string
  rr_recs :: "open_rec list"
  rr_bsr :: "bsr_chain option"
  rr_sess :: session_rec
  rr_mount_next_volume :: bool
  rr_cb :: 'cb

text \<open>
  The arguments: reading from the device, the callbacks, \<^verbatim>\<open>volume_unused\<close>, the system call
  \<^verbatim>\<open>lseek\<close> (an error number if it fails), the tape drive, the unpacking of an attributes
  record, fresh pool memory, and switches of the job and the device.
\<close>

record ('os, 'cb) rr_ops =
  q_read :: "'os read_ops"
  q_record_cb :: "'cb \<Rightarrow> open_rec \<Rightarrow> bool \<times> 'cb"
  q_mount_cb :: "('os, 'cb) rr \<Rightarrow> bool \<times> ('os, 'cb) rr"
  q_volume_unused :: "'os wdcr \<Rightarrow> 'os wdcr"
  q_lseek_set :: "u64 \<Rightarrow> 'os \<Rightarrow> int option \<times> 'os"
  q_tape_reposition :: "u64 \<Rightarrow> 'os wdcr \<Rightarrow> 'os wdcr"
  q_fsr :: "'os wdcr \<Rightarrow> 'os wdcr"
  q_unpack :: "dev_record \<Rightarrow> string option"
  q_new_data :: "u8 list"
  q_use_new_match_all :: bool
  q_positionblocks :: bool
  q_ignore_label_errors :: bool
  q_discard_invalid_records :: bool

abbreviation set_d :: "('os wdcr \<Rightarrow> 'os wdcr) \<Rightarrow> ('os, 'cb) rr \<Rightarrow> ('os, 'cb) rr" where
  "set_d f s \<equiv> s\<lparr>rr_d := f (rr_d s)\<rparr>"

definition new_open :: "u8 list \<Rightarrow> open_rec" where
  "new_open data =
     \<lparr>o_rec = new_record data, o_BlockNumber = 0, o_invalid = False, o_match_stat = 0, o_bsr = None\<rparr>"

definition volume_string :: "volume_label \<Rightarrow> string" where
  "volume_string h = map (\<lambda>b. char_of (unat b)) (cstr (vl_VolumeName h))"

section \<open>Labels\<close>

definition handle_session_record ::
  "('os, 'cb) rr_ops \<Rightarrow> ('os, 'cb) rr \<Rightarrow> dev_record \<Rightarrow> (('os, 'cb) rr \<times> dev_record) option" where
  "handle_session_record ops s rec =
     (let s = s\<lparr>rr_sess := blank_session\<rparr>;
          env = i_env (q_read ops);
          mem = i_mem (q_read ops)
      in if r_FileIndex rec = VOL_LABEL then
           map_option
             (\<lambda>(_, h, rec). (set_d (w_st_update (\<lambda>t. t\<lparr>s_VolumeName := volume_string h\<rparr>)) (s\<lparr>rr_VolHdr := h\<rparr>), rec))
             (unser_volume_label mem (e_big env) (e_forge_on env) (rr_VolHdr s) rec)
         else if r_FileIndex rec = SOS_LABEL then
           map_option (\<lambda>(l, rec). (s\<lparr>rr_sess := l\<rparr>, rec)) (unser_session_label mem (e_big env) (rr_sess s) rec)
         else Some (s, rec))"

section \<open>Positioning\<close>

definition set_eot :: "'os wdcr \<Rightarrow> 'os wdcr" where
  "set_eot d = w_st_update (\<lambda>s. s\<lparr>s_EOT := True\<rparr>) d"

definition clear_eot :: "'os wdcr \<Rightarrow> 'os wdcr" where
  "clear_eot d = w_st_update (\<lambda>s. s\<lparr>s_EOT := False\<rparr>) d"

text \<open>All callers ignore whether it worked.\<close>

definition reposition :: "('os, 'cb) rr_ops \<Rightarrow> u64 \<Rightarrow> 'os wdcr \<Rightarrow> 'os wdcr" where
  "reposition ops raddr d =
     (if d_is_tape (w_dev d) then q_tape_reposition ops raddr d
      else if \<not> s_is_open (w_st d) then set_dev_errno EBADF d
      else
        (case q_lseek_set ops raddr (w_os d) of
           (Some err, os) \<Rightarrow> set_dev_errno err (d\<lparr>w_os := os\<rparr>)
         | (None, os) \<Rightarrow> w_st_update (\<lambda>s. s\<lparr>s_file_addr := raddr\<rparr>) (d\<lparr>w_os := os\<rparr>)))"

text \<open>The result is true when the block in hand is to be left.\<close>

definition try_repositioning ::
  "('os, 'cb) rr_ops \<Rightarrow> bsr_chain \<Rightarrow> ('os, 'cb) rr \<Rightarrow> open_rec \<Rightarrow> bool \<times> ('os, 'cb) rr \<times> open_rec" where
  "try_repositioning ops h s orec =
     (case find_next_bsr (q_positionblocks ops) h (s_VolumeName (w_st (rr_d s))) of
        (k, h) \<Rightarrow>
          (let addr0 = o_rec_update (\<lambda>r. r\<lparr>r_Addr := 0\<rparr>) orec
           in if k = None \<and> h_mount_next_volume h then
                (let s = s\<lparr>rr_bsr := Some (h\<lparr>h_mount_next_volume := False\<rparr>)\<rparr>;
                     s = (if \<not> s_EOT (w_st (rr_d s)) then set_d set_eot (s\<lparr>rr_mount_next_volume := True\<rparr>) else s)
                 in (True, s, addr0))
              else
                (let s = s\<lparr>rr_bsr := Some h\<rparr>
                 in case k of
                      None \<Rightarrow> (False, s, orec)
                    | Some i \<Rightarrow>
                        (let bsr_addr = get_bsr_start_addr (Some (h_bsrs h ! i))
                         in if bsr_addr < get_full_addr (rr_d s) then (False, s, orec)
                            else (True, set_d (reposition ops bsr_addr) s, addr0)))))"

definition position_to_first_file :: "('os, 'cb) rr_ops \<Rightarrow> ('os, 'cb) rr \<Rightarrow> ('os, 'cb) rr" where
  "position_to_first_file ops s =
     (case rr_bsr s of
        None \<Rightarrow> s
      | Some h \<Rightarrow>
          (case find_next_bsr (q_positionblocks ops) (h\<lparr>h_reposition := True\<rparr>) (s_VolumeName (w_st (rr_d s))) of
             (k, h) \<Rightarrow>
               (let s = s\<lparr>rr_bsr := Some h\<rparr>;
                    bsr_addr = get_bsr_start_addr (map_option ((!) (h_bsrs h)) k)
                in if 0 < bsr_addr then set_d (reposition ops bsr_addr \<circ> clear_eot \<circ> Jmsg M_INFO) s else s)))"

section \<open>The records of a block\<close>

text \<open>How the loop over the records goes on: with the next record if the callback is content, with the next block, or not at all.\<close>

datatype rr_next = Again bool | Break | Finish

type_synonym ('os, 'cb) rr_result = "rr_next \<times> ('os, 'cb) rr \<times> open_rec \<times> i32"

definition call_record_cb ::
  "('os, 'cb) rr_ops \<Rightarrow> ('os, 'cb) rr \<Rightarrow> open_rec \<Rightarrow> bool \<times> ('os, 'cb) rr \<times> open_rec" where
  "call_record_cb ops s orec =
     (case q_record_cb ops (rr_cb s) orec of (ok, cb) \<Rightarrow> (ok, s\<lparr>rr_cb := cb\<rparr>, orec\<lparr>o_invalid := False\<rparr>))"

definition label_record ::
  "('os, 'cb) rr_ops \<Rightarrow> ('os, 'cb) rr \<Rightarrow> open_rec \<Rightarrow> i32 \<Rightarrow> fault + ('os, 'cb) rr_result" where
  "label_record ops s orec lastFileIndex =
     (case handle_session_record ops s (o_rec orec) of
        None \<Rightarrow> Inl BAD_ACCESS
      | Some (s, rec) \<Rightarrow>
          (let orec = orec\<lparr>o_rec := rec, o_match_stat :=
                 (case rr_bsr s of
                    None \<Rightarrow> 0
                  | Some h \<Rightarrow> if match_bsr_block (h_bsrs h) (c_block (rr_d s)) then 1 else 0)\<rparr>;
               (ok, s, orec) = call_record_cb ops s orec
           in Inr (Again ok, s, orec, lastFileIndex)))"

text \<open>The first record of another file: is the bootstrap record of the last one done?\<close>

definition bsr_done_reposition ::
  "('os, 'cb) rr_ops \<Rightarrow> ('os, 'cb) rr \<Rightarrow> open_rec \<Rightarrow> bool \<times> ('os, 'cb) rr \<times> open_rec" where
  "bsr_done_reposition ops s orec =
     (case rr_bsr s of
        None \<Rightarrow> (False, s, orec)
      | Some h \<Rightarrow>
          (case is_this_bsr_done (q_use_new_match_all ops) h (o_bsr orec) of
             (done, h) \<Rightarrow>
               (let s = s\<lparr>rr_bsr := Some h\<rparr>; orec = orec\<lparr>o_bsr := None\<rparr>
                in if done then try_repositioning ops h s orec else (False, s, orec))))"

definition deliver_record ::
  "('os, 'cb) rr_ops \<Rightarrow> ('os, 'cb) rr \<Rightarrow> open_rec \<Rightarrow> i32 \<Rightarrow> ('os, 'cb) rr_result" where
  "deliver_record ops s orec lastFileIndex =
     (let FileIndex = r_FileIndex (o_rec orec);
          s = set_d (\<lambda>d. d\<lparr>w_VolLastIndex := ucast FileIndex\<rparr>) s
      in if is_partial_record (o_rec orec) then (Break, s, orec, lastFileIndex)
         else
           (let (moved, s, orec) =
                  (if lastFileIndex \<noteq> no_FileIndex \<and> lastFileIndex \<noteq> FileIndex
                   then bsr_done_reposition ops s orec else (False, s, orec))
            in if moved then (Break, s, orec, lastFileIndex)
               else
                 (case call_record_cb ops s orec of (ok, s, orec) \<Rightarrow> (Again ok, s, orec, FileIndex))))"

definition data_record ::
  "('os, 'cb) rr_ops \<Rightarrow> ('os, 'cb) rr \<Rightarrow> open_rec \<Rightarrow> i32 \<Rightarrow> ('os, 'cb) rr_result" where
  "data_record ops s orec lastFileIndex =
     (case rr_bsr s of
        None \<Rightarrow> deliver_record ops s orec lastFileIndex
      | Some h \<Rightarrow>
          (case match_bsr (q_unpack ops) h (o_rec orec) (s_VolumeName (w_st (rr_d s))) (selection_label (rr_sess s)) of
             (stat, k, h) \<Rightarrow>
               (let s = s\<lparr>rr_bsr := Some h\<rparr>;
                    orec = orec\<lparr>o_match_stat := stat, o_bsr := (if k = None then o_bsr orec else k)\<rparr>
                in if stat = - 1 then (Finish, s, orec, lastFileIndex)
                   else if stat = 0 then
                     (let orec = o_rec_update (\<lambda>r. r\<lparr>r_remainder := 0,
                                   r_state_bits := r_state_bits r AND NOT REC_PARTIAL_RECORD\<rparr>) orec
                      in case try_repositioning ops h s orec of
                           (moved, s, orec) \<Rightarrow> (if moved then Break else Again True, s, orec, lastFileIndex))
                   else deliver_record ops s orec lastFileIndex)))"

definition record_step ::
  "('os, 'cb) rr_ops \<Rightarrow> ('os, 'cb) rr \<Rightarrow> open_rec \<Rightarrow> i32 \<Rightarrow> fault + ('os, 'cb) rr_result" where
  "record_step ops s orec lastFileIndex =
     bind_res (read_record_from_block (e_big (i_env (q_read ops))) (i_mem (q_read ops)) (w_dev (rr_d s)) (rr_CurrentVol s)
                 (c_block (rr_d s)) (o_rec orec))
       (\<lambda>(ok, block, rec, ms).
          let s = set_d (\<lambda>d. w_jcr_update (\<lambda>j. j\<lparr>j_msgs := j_msgs j @ ms\<rparr>) (d\<lparr>c_block := block\<rparr>)) s;
              orec = orec\<lparr>o_rec := rec\<rparr>
          in if \<not> ok \<or> r_FileIndex rec = EOM_LABEL then Inr (Break, s, orec, lastFileIndex)
             else if sint (r_FileIndex rec) < 0 then label_record ops s orec lastFileIndex
             else Inr (data_record ops s orec lastFileIndex))"

text \<open>The result: whether the callback was content, whether all is found, and the state.\<close>

partial_function (option) record_loop ::
  "('os, 'cb) rr_ops \<Rightarrow> bool \<Rightarrow> ('os, 'cb) rr \<Rightarrow> open_rec \<Rightarrow> i32 \<Rightarrow>
   (fault + (bool \<times> bool \<times> ('os, 'cb) rr \<times> open_rec)) option" where
  "record_loop ops ok s orec lastFileIndex =
     (if \<not> ok \<or> is_block_marked_empty (o_rec orec) then Some (Inr (ok, False, s, orec))
      else
        (case record_step ops s orec lastFileIndex of
           Inl f \<Rightarrow> Some (Inl f)
         | Inr (nxt, s, orec, lastFileIndex) \<Rightarrow>
             (case nxt of
                Again ok \<Rightarrow> record_loop ops ok s orec lastFileIndex
              | Break \<Rightarrow> Some (Inr (True, False, s, orec))
              | Finish \<Rightarrow> Some (Inr (True, True, s, orec)))))"

section \<open>Blocks\<close>

definition of_block_session :: "dev_block \<Rightarrow> open_rec \<Rightarrow> bool" where
  "of_block_session block orec \<longleftrightarrow>
     r_VolSessionId (o_rec orec) = b_VolSessionId block \<and> r_VolSessionTime (o_rec orec) = b_VolSessionTime block"

fun find_open :: "dev_block \<Rightarrow> open_rec list \<Rightarrow> nat option" where
  "find_open block [] = None"
| "find_open block (orec # recs) =
     (if of_block_session block orec then Some 0 else map_option Suc (find_open block recs))"

text \<open>A record to be continued in a block that does not follow the one it is from.\<close>

definition check_order :: "('os, 'cb) rr_ops \<Rightarrow> dev_block \<Rightarrow> open_rec \<Rightarrow> open_rec" where
  "check_order ops block orec =
     (if r_remainder (o_rec orec) \<noteq> 0 \<and> o_BlockNumber orec \<noteq> b_BlockNumber block - 1 \<and>
         o_BlockNumber orec \<noteq> b_BlockNumber block then
        (let orec = orec\<lparr>o_invalid := True\<rparr>
         in if q_discard_invalid_records ops then o_rec_update empty_record orec else orec)
      else orec)"

definition process_block ::
  "('os, 'cb) rr_ops \<Rightarrow> ('os, 'cb) rr \<Rightarrow> (fault + (bool \<times> bool \<times> ('os, 'cb) rr)) option" where
  "process_block ops s =
     (let block = c_block (rr_d s);
          (i, recs) =
            (case find_open block (rr_recs s) of
               Some i \<Rightarrow> (i, (rr_recs s)[i := check_order ops block (rr_recs s ! i)])
             | None \<Rightarrow> (0, new_open (q_new_data ops) # rr_recs s));
          orec = (recs ! i)\<lparr>o_rec := (o_rec (recs ! i))\<lparr>r_state_bits := 0\<rparr>, o_BlockNumber := b_BlockNumber block\<rparr>
      in case record_loop ops True s orec no_FileIndex of
           None \<Rightarrow> None
         | Some (Inl f) \<Rightarrow> Some (Inl f)
         | Some (Inr (ok, done, s, orec)) \<Rightarrow> Some (Inr (ok, done, s\<lparr>rr_recs := recs[i := orec]\<rparr>)))"

section \<open>Volumes\<close>

text \<open>The result: the callback's answer, whether there is no further Volume, and the state.\<close>

definition mount_next_vol ::
  "('os, 'cb) rr_ops \<Rightarrow> ('os, 'cb) rr \<Rightarrow> (fault + (bool \<times> bool \<times> ('os, 'cb) rr)) option" where
  "mount_next_vol ops s =
     (case q_mount_cb ops (set_d (q_volume_unused ops) s) of
        (False, s) \<Rightarrow>
          (let trec = o_rec_update (\<lambda>r. r\<lparr>r_FileIndex := EOT_LABEL, r_Addr := get_full_addr (rr_d s)\<rparr>) (new_open (q_new_data ops));
               (ok, s, _) = call_record_cb ops s trec;
               s = (if rr_mount_next_volume s then set_d clear_eot (s\<lparr>rr_mount_next_volume := False\<rparr>) else s)
           in Some (Inr (ok, True, s)))
      | (True, s) \<Rightarrow>
          (let s = s\<lparr>rr_mount_next_volume := False\<rparr>
           in Option.bind (read_block_from_dev (q_read ops) (rr_d s))
                (\<lambda>res. Some (bind_res res (\<lambda>(_, d).
                   bind_res (read_record_from_block (e_big (i_env (q_read ops))) (i_mem (q_read ops)) (w_dev d) (rr_CurrentVol s)
                               (c_block d) (new_record (q_new_data ops)))
                     (\<lambda>(_, block, rec, ms).
                        let s = s\<lparr>rr_d := w_jcr_update (\<lambda>j. j\<lparr>j_msgs := j_msgs j @ ms\<rparr>) (d\<lparr>c_block := block\<rparr>)\<rparr>
                        in case handle_session_record ops s rec of
                             None \<Rightarrow> Inl BAD_ACCESS
                           | Some (s, rec) \<Rightarrow>
                               (case call_record_cb ops s ((new_open [])\<lparr>o_rec := rec\<rparr>) of
                                  (ok, s, _) \<Rightarrow> Inr (ok, False, position_to_first_file ops s))))))))"

text \<open>One round of the loop: a block, or a change of Volume; the second flag of the result ends the loop.\<close>

definition next_block ::
  "('os, 'cb) rr_ops \<Rightarrow> ('os, 'cb) rr \<Rightarrow> (fault + (bool \<times> bool \<times> ('os, 'cb) rr)) option" where
  "next_block ops s =
     (let next_volume = (\<lambda>s. mount_next_vol ops (set_d (Jmsg M_INFO) s))
      in if s_EOT (w_st (rr_d s)) then next_volume s
         else
           (case read_block_from_dev (q_read ops) (rr_d s) of
              None \<Rightarrow> None
            | Some (Inl f) \<Rightarrow> Some (Inl f)
            | Some (Inr (good, d)) \<Rightarrow>
                (let s = s\<lparr>rr_d := d\<rparr>
                 in if good then process_block ops s
                    else if s_EOT (w_st d) then next_volume s
                    else if s_EOF (w_st d) then Some (Inr (True, False, s))
                    else if s_SHORT (w_st d) then Some (Inr (True, False, set_d (Jmsg M_ERROR) s))
                    else if e_forge_on (i_env (q_read ops)) \<or> q_ignore_label_errors ops
                    then Some (Inr (True, False, set_d (q_fsr ops) s))
                    else Some (Inr (False, True, s)))))"

partial_function (option) read_loop ::
  "('os, 'cb) rr_ops \<Rightarrow> bool \<Rightarrow> bool \<Rightarrow> ('os, 'cb) rr \<Rightarrow> (fault + (bool \<times> ('os, 'cb) rr)) option" where
  "read_loop ops ok done s =
     (if \<not> ok \<or> done then Some (Inr (ok, s))
      else if j_canceled (w_jcr (rr_d s)) then Some (Inr (False, s))
      else
        (case next_block ops s of
           None \<Rightarrow> None
         | Some (Inl f) \<Rightarrow> Some (Inl f)
         | Some (Inr (ok, done, s)) \<Rightarrow> read_loop ops ok done s))"

definition read_records :: "('os, 'cb) rr_ops \<Rightarrow> ('os, 'cb) rr \<Rightarrow> (fault + (bool \<times> ('os, 'cb) rr)) option" where
  "read_records ops s =
     (let s = (position_to_first_file ops (s\<lparr>rr_recs := []\<rparr>))\<lparr>rr_mount_next_volume := False\<rparr>
      in case read_loop ops True False s of
           None \<Rightarrow> None
         | Some (Inl f) \<Rightarrow> Some (Inl f)
         | Some (Inr (ok, s)) \<Rightarrow> Some (Inr (ok, s\<lparr>rr_recs := []\<rparr>)))"

end
