(* ===== verification/Read_Restore.thy ===== *)
theory Read_Restore
  imports Read_Records
begin

text \<open>
  What \<^verbatim>\<open>read_records\<close> delivers.  A block is seen as the fragments of records it holds; an abstract reader joins the
  fragments of each session, asks the bootstrap records which to keep and marks what was continued out of order.  The loop over
  the records of a block, with its open records, the record reader and the stateful matching, refines the
  abstract reader for every session, and so does the loop over the blocks of a file, however the
  sessions are interleaved.
\<close>

section \<open>What reading a record leaves alone\<close>

text \<open>The parts of a block that the record reader never changes.\<close>

definition block_frame :: "dev_block \<Rightarrow> u8 list \<times> u32 \<times> u32 \<times> u32 \<times> u32 \<times> bool \<times> bool" where
  "block_frame b = (b_buf b, b_buf_len b, b_VolSessionId b, b_VolSessionTime b, b_BlockNumber b, b_adata b, b_no_header b)"

lemma block_frame_steps [simp]:
  "block_frame (empty_block b) = block_frame b" "block_frame (note_file_index b rec) = block_frame b"
  "block_frame (b\<lparr>b_bufp := p, b_binbuf := n\<rparr>) = block_frame b" "block_frame (b\<lparr>b_RecNum := k\<rparr>) = block_frame b"
  by (simp_all add: block_frame_def empty_block_def note_file_index_def Let_def)

lemma read_header_frame:
  assumes "read_header big mem dev b rec = Inr (ok, b', rec', ms)"
  shows "block_frame b' = block_frame b" and "r_Addr rec' = d_EndAddr dev"
    and "ok \<Longrightarrow> \<not> is_block_marked_empty rec' \<and> \<not> is_partial_record rec'"
proof -
  have acc: "r_Addr r' = r_Addr r \<and> (ok \<longrightarrow> (\<exists>bits \<in> {0, REC_CONTINUATION}. r_state_bits r' = r_state_bits r OR bits))"
    if "accept_header r sid stime fi st = (ok, r')" for r sid stime fi st ok r'
    using that by (auto simp: accept_header_def Let_def split: if_splits)
  show "block_frame b' = block_frame b"
    using assms by (auto simp: read_header_def Let_def bind_res_def or_bad_access_def split: if_splits sum.splits option.splits prod.splits)
  show "r_Addr rec' = d_EndAddr dev"
    using assms by (auto simp: read_header_def Let_def bind_res_def or_bad_access_def
        split: if_splits sum.splits option.splits prod.splits dest!: acc)
  show "\<not> is_block_marked_empty rec' \<and> \<not> is_partial_record rec'" if ok
    using assms that by (auto simp: read_header_def Let_def bind_res_def or_bad_access_def is_block_marked_empty_def is_partial_record_def rec_bits
        split: if_splits sum.splits option.splits prod.splits dest!: acc)
qed

lemma read_data_frame:
  assumes "read_data b rec = Inr (b', rec')"
  shows "block_frame b' = block_frame b" and "r_Addr rec' = r_Addr rec"
    and "\<not> is_block_marked_empty rec \<and> \<not> is_partial_record rec \<Longrightarrow> is_block_marked_empty rec' \<longleftrightarrow> is_partial_record rec'"
proof -
  have t: "block_frame c' = block_frame c \<and> r_Addr r' = r_Addr r \<and> r_state_bits r' = r_state_bits r"
    if "take_data c r n = Inr (c', r')" for c r n c' r'
    using that by (auto simp: take_data_def bind_res_def or_bad_access_def split: sum.splits option.splits prod.splits)
  show "block_frame b' = block_frame b" "r_Addr rec' = r_Addr rec"
    using assms by (auto simp: read_data_def bind_res_def split: if_splits sum.splits dest!: t)
  show "is_block_marked_empty rec' \<longleftrightarrow> is_partial_record rec'" if "\<not> is_block_marked_empty rec \<and> \<not> is_partial_record rec"
    using assms that by (auto simp: read_data_def bind_res_def is_block_marked_empty_def is_partial_record_def rec_bits
        bit.conj_disj_distrib2 split: if_splits sum.splits dest!: t)
qed

lemma read_record_frame:
  assumes "read_record_from_block big mem dev vol b rec = Inr (ok, b', rec', ms)" and "rec_inv rec"
  shows "block_frame b' = block_frame b" and "r_Addr rec' = d_EndAddr dev"
    and "ok \<Longrightarrow> is_block_marked_empty rec' \<longleftrightarrow> is_partial_record rec'"
proof -
  let ?b = "b\<lparr>b_RecNum := b_RecNum b + 1\<rparr>" and ?r = "entry_rec vol b rec"
  have rs: "r_rstate ?r = st_none \<or> r_rstate ?r = st_header" using assms(2) by (simp add: rec_inv_def entry_rec_def)
  have st: "read_record_from_block big mem dev vol b rec =
      (case read_header big mem dev ?b ?r of
         Inl e \<Rightarrow> Inl e
       | Inr (ok, c, r, ms) \<Rightarrow> if \<not> ok then Inr (False, c, r\<lparr>r_rstate := st_none\<rparr>, ms) else read_record_loop big mem dev c r)"
    using assms(2)
    by (auto simp: read_record_from_block_def entry_rec_def rec_inv_def Let_def read_record_loop.simps [of big mem dev ?b])
  obtain ok0 c r ms0 where h: "read_header big mem dev ?b ?r = Inr (ok0, c, r, ms0)"
    using assms(1) st by (cases "read_header big mem dev ?b ?r") auto
  note hf = read_header_frame [OF h]
  have "block_frame b' = block_frame b \<and> r_Addr rec' = d_EndAddr dev \<and> (ok \<longrightarrow> (is_block_marked_empty rec' \<longleftrightarrow> is_partial_record rec'))"
  proof (cases ok0)
    case False
    then show ?thesis using assms(1) hf st h by auto
  next
    case True
    then have "r_rstate r = st_data" using read_header_True_state [of big mem dev ?b ?r c r ms0] h by simp
    then obtain rec2 where d: "read_data c r = Inr (b', rec2)" "rec' = rec2\<lparr>r_rstate := st_header\<rparr>"
      using assms(1) st h True
      by (cases "read_data c r") (auto simp: read_record_loop.simps [of big mem dev c])
    from read_data_frame [OF d(1)] hf True show ?thesis
      by (auto simp: d(2) is_block_marked_empty_def is_partial_record_def)
  qed
  then show "block_frame b' = block_frame b" "r_Addr rec' = d_EndAddr dev"
    "ok \<Longrightarrow> is_block_marked_empty rec' \<longleftrightarrow> is_partial_record rec'" by auto
qed


section \<open>Fragments\<close>

text \<open>
  A block of a session is a sequence of fragments: file index, stream (negative for a continuation), the number of
  bytes that are left of the record, and the bytes in this block; only the last may be cut.
\<close>

type_synonym frag = "i32 \<times> i32 \<times> u32 \<times> u8 list"

fun frag_bytes :: "frag \<Rightarrow> u8 list" where
  "frag_bytes (fi, st, len, bs) = rec_header fi st len @ bs"

fun frag_cut :: "frag \<Rightarrow> bool" where
  "frag_cut (fi, st, len, bs) \<longleftrightarrow> length bs < unat len"

fun frag_wf :: "frag \<Rightarrow> bool" where
  "frag_wf (fi, st, len, bs) \<longleftrightarrow> length bs \<le> unat len \<and> unat len < 20000000"

definition frags_wf :: "frag list \<Rightarrow> bool" where
  "frags_wf frs \<longleftrightarrow> list_all frag_wf frs \<and> list_all (Not \<circ> frag_cut) (butlast frs)"

text \<open>
  The part of a record that a session has open: file index, stream and bytes.  A continuation must be of its stream;
  \<open>join\<close> is the part after a fragment.
\<close>

type_synonym part = "i32 \<times> i32 \<times> u8 list"

fun join :: "part option \<Rightarrow> frag \<Rightarrow> part" where
  "join p (fi, st, len, bs) =
     (fi, plain_stream st, (if sint st < 0 then (case p of None \<Rightarrow> [] | Some (_, _, ds) \<Rightarrow> ds) else []) @ bs)"

fun continues :: "part option \<Rightarrow> frag \<Rightarrow> bool" where
  "continues None f \<longleftrightarrow> True"
| "continues (Some (_, stm, ds)) (fi, st, len, bs) \<longleftrightarrow> (sint st < 0 \<longrightarrow> stm = - st) \<and> length ds + unat len < 2 ^ 31"

text \<open>What the open record of a session is when its part is \<open>p\<close>.\<close>

definition part_of :: "u32 \<times> u32 \<Rightarrow> part option \<Rightarrow> dev_record \<Rightarrow> bool" where
  "part_of \<sigma> p rec \<longleftrightarrow> rec_inv rec \<and> unat (r_data_len rec) < 2 ^ 31 \<and> length (got rec) = unat (r_data_len rec) \<and>
     (case p of
        None \<Rightarrow> r_remainder rec = 0
      | Some (fi, stm, ds) \<Rightarrow> r_remainder rec \<noteq> 0 \<and> r_Stream rec = stm \<and> r_FileIndex rec = fi \<and> got rec = ds \<and>
          (r_VolSessionId rec, r_VolSessionTime rec) = \<sigma>)"

abbreviation block_session :: "dev_block \<Rightarrow> u32 \<times> u32" where
  "block_session b \<equiv> (b_VolSessionId b, b_VolSessionTime b)"

abbreviation rec_session :: "dev_record \<Rightarrow> u32 \<times> u32" where
  "rec_session r \<equiv> (r_VolSessionId r, r_VolSessionTime r)"

lemma read_frag:
  assumes b: "rinv b" "rest b = frag_bytes f @ left" and wf: "frag_wf f" "frag_cut f \<Longrightarrow> left = []"
    and p: "part_of (block_session b) p rec" "continues p f" and mem: "\<And>n. length (mem n) = n"
  obtains b' rec' where "read_record_from_block big mem dev vol b rec = Inr (True, b', rec', [])"
    "rinv b'" "rest b' = left" "block_frame b' = block_frame b" "rec_session rec' = block_session b"
    "(r_FileIndex rec', r_Stream rec', got rec') = join p f" "is_partial_record rec' \<longleftrightarrow> frag_cut f"
    "is_block_marked_empty rec' \<longleftrightarrow> frag_cut f" "r_Addr rec' = d_EndAddr dev"
    "part_of (block_session b) (if frag_cut f then Some (join p f) else None) rec'"
proof -
  obtain fi st len bs where f: "f = (fi, st, len, bs)" by (metis prod_cases4)
  have ri: "rec_inv rec" "unat (r_data_len rec) < 2 ^ 31" "length (got rec) = unat (r_data_len rec)"
    using p(1) by (auto simp: part_of_def)
  have ok: "fragment_ok rec b st"
    using p by (auto simp: part_of_def fragment_ok_def f split: option.splits)
  have ml: "len < MAX_BLOCK_LENGTH" using wf(1) by (simp add: f u32_less MAX_BLOCK_LENGTH_def)
  have sz: "unat (start_len rec st) + unat len < 2 ^ 31"
    using p wf(1) by (auto simp: start_len_def part_of_def f split: option.splits)
  have cut: "length bs = unat len \<or> length bs < unat len \<and> left = []" using wf by (auto simp: f)
  have col: "collected rec st = (if sint st < 0 then (case p of None \<Rightarrow> [] | Some (_, _, ds) \<Rightarrow> ds) else [])"
    using p(1) by (auto simp: collected_def part_of_def split: option.splits)
  obtain b' rec' where r: "read_record_from_block big mem dev vol b rec = Inr (True, b', rec', [])"
    "rinv b'" "rest b' = left" "rec_inv rec'" "header_read rec' b fi st" "got rec' = collected rec st @ bs"
    "r_remainder rec' = (if length bs = unat len then 0 else 1)"
    "is_partial_record rec' \<longleftrightarrow> length bs < unat len" "length (got rec') = unat (r_data_len rec')"
    by (rule read_record_fragment [OF b(1) _ ri(1) ok ml sz cut mem]) (use b(2) f in auto)
  note fr = read_record_frame [OF r(1) ri(1)]
  have j: "(r_FileIndex rec', r_Stream rec', got rec') = join p f"
    using r(5,6) col by (simp add: header_read_def f)
  have "length (got rec') < 2 ^ 31"
  proof (cases p)
    case None
    then show ?thesis using r(6) col wf(1) by (simp add: f split: if_splits)
  next
    case (Some q)
    obtain gi stm ds where q: "q = (gi, stm, ds)" by (cases q)
    have "length ds + unat len < 2 ^ 31" using p(2) by (simp add: Some q f)
    then show ?thesis using r(6) col wf(1) by (simp add: f Some q split: if_splits)
  qed
  then have "part_of (block_session b) (if frag_cut f then Some (join p f) else None) rec'"
    using r(4,5,7,9) j cut by (auto simp: part_of_def f header_read_def split: if_splits)
  then show ?thesis
    using that [of b' rec'] r fr j by (auto simp: f header_read_def)
qed

text \<open>No fragment left: the record keeps its part.\<close>

lemma read_end:
  assumes "rinv b" "length (rest b) < 12" and "part_of \<sigma> p rec"
  obtains b' rec' where "read_record_from_block big mem dev vol b rec = Inr (False, b', rec', [])"
    "block_frame b' = block_frame b" "part_of \<sigma> p rec'" "rec_session rec' = rec_session rec"
proof -
  let ?b = "b\<lparr>b_RecNum := b_RecNum b + 1\<rparr>" and ?r = "entry_rec vol b rec"
  have b0: "rinv ?b" "length (rest ?b) < 12" "r_remlen ?r = b_binbuf ?b"
    using assms(1,2) by (simp_all add: rinv_def rest_def)
  have ri: "rec_inv rec" using assms(3) by (simp add: part_of_def)
  note r = read_record_rejected [OF ri read_header_end [OF b0]]
  show ?thesis
    by (rule that [OF r]) (use assms(3) in \<open>auto simp: part_of_def rec_inv_def got_def split: option.splits\<close>)
qed

section \<open>Selection without positioning\<close>

text \<open>
  Bootstrap records that select by Volume, address, session, file index and stream; the session labels, the count of
  files and regular expressions are not used.
\<close>

definition plain_bsr :: "bsr \<Rightarrow> bool" where
  "plain_bsr b \<longleftrightarrow> n_fileregex b = None \<and> n_count b = 0 \<and> n_JobId b = [] \<and> n_job b = [] \<and> n_client b = [] \<and>
     n_JobType b = [] \<and> n_JobLevel b = []"

definition plain_chain :: "bsr_chain option \<Rightarrow> bool" where
  "plain_chain B \<longleftrightarrow> (\<forall>h. B = Some h \<longrightarrow> fresh_chain h \<and> list_all plain_bsr (h_bsrs h) \<and> \<not> h_mount_next_volume h)"

definition selects :: "bsr_chain option \<Rightarrow> string \<Rightarrow> dev_record \<Rightarrow> bool" where
  "selects B vol rec \<longleftrightarrow>
     (case B of None \<Rightarrow> True
      | Some h \<Rightarrow> \<exists>b \<in> set (h_bsrs h). wants (\<lambda>_. None) b rec vol (selection_label blank_session))"

text \<open>The bootstrap records in force after the records in \<open>past\<close>.\<close>

definition sel_state :: "bsr_chain option \<Rightarrow> bsr_chain option \<Rightarrow> dev_record set \<Rightarrow> bool" where
  "sel_state B B' past \<longleftrightarrow>
     (case B of None \<Rightarrow> B' = None
      | Some h \<Rightarrow> \<exists>h'. B' = Some h' \<and> chain_tracks (h_bsrs h) (h_bsrs h') past \<and> \<not> h_mount_next_volume h')"

definition in_sequence :: "bsr_chain option \<Rightarrow> dev_record list \<Rightarrow> bool" where
  "in_sequence B recs \<longleftrightarrow> (\<forall>h. B = Some h \<longrightarrow> (\<forall>b \<in> set (h_bsrs h). in_order b recs))"

text \<open>The fields of a record that selection looks at.\<close>

definition probe :: "u64 \<Rightarrow> u32 \<times> u32 \<Rightarrow> i32 \<Rightarrow> i32 \<Rightarrow> dev_record" where
  "probe a \<sigma> fi st = (new_record [])\<lparr>r_Addr := a, r_VolSessionId := fst \<sigma>, r_VolSessionTime := snd \<sigma>,
     r_FileIndex := fi, r_Stream := st\<rparr>"

definition alike :: "dev_record \<Rightarrow> dev_record \<Rightarrow> bool" where
  "alike r q \<longleftrightarrow> r_Addr r = r_Addr q \<and> rec_session r = rec_session q \<and> r_FileIndex r = r_FileIndex q \<and> r_Stream r = r_Stream q"

lemma alike_facts:
  assumes "alike r q"
  shows "of_session b r = of_session b q" "follows b r x = follows b q x" "follows b x r = follows b x q"
    "before_addr v r = before_addr v q" "before_file b f r = before_file b f q"
  using assms by (auto simp: alike_def of_session_def follows_def before_addr_def before_file_def)

lemma plain_wants:
  assumes "plain_bsr b" and "alike r q"
  shows "wants u b r vol s = wants u' b q vol s'"
  using assms by (auto simp: plain_bsr_def alike_def wants_def match_fileregex_def one_of_def)

lemma selects_alike: "plain_chain B \<Longrightarrow> alike r q \<Longrightarrow> selects B vol r = selects B vol q"
proof (cases B)
  case (Some h)
  assume "plain_chain B" "alike r q"
  then have "wants u b r vol l = wants u b q vol l" if "b \<in> set (h_bsrs h)" for b u l
    using that by (intro plain_wants) (auto simp: Some plain_chain_def list_all_iff)
  then show ?thesis by (simp add: selects_def Some)
qed (simp add: selects_def)

lemma tracks_alike:
  assumes "tracks b b' (insert r past)" and "alike r q"
  shows "tracks b b' (insert q past)"
  using assms alike_facts [OF assms(2)]
  unfolding tracks_def marked_past_def freed_past_def done_past_def by simp

lemma sel_state_alike:
  assumes "sel_state B B' (insert r past)" and "alike r q"
  shows "sel_state B B' (insert q past)"
  using assms(1) tracks_alike [OF _ assms(2)]
  by (auto simp: sel_state_def chain_tracks_def elim!: list_all2_mono split: option.splits)

lemma sel_state_start: "plain_chain B \<Longrightarrow> sel_state B B {}"
  by (auto simp: sel_state_def plain_chain_def fresh_chain_tracks split: option.splits)

text \<open>Without a count of files the record keeps no pointer.\<close>

lemma match_all_no_pointer:
  "\<forall>b \<in> set bs. n_count b = 0 \<Longrightarrow> fst (snd (match_all unpack i bs rec vol sess dn)) = None"
proof (induction bs arbitrary: i dn)
  case (Cons b bs)
  have "\<not> fst (snd (match_one unpack b rec vol sess))"
    using Cons.prems by (auto simp: match_one_def Let_def case_prod_beta split: if_splits)
  then show ?case using Cons by (auto simp: case_prod_beta)
qed simp

lemma chain_tracks_count:
  assumes "chain_tracks bs bs' past" and "list_all plain_bsr bs"
  shows "\<forall>b \<in> set bs'. n_count b = 0"
proof
  fix b' assume "b' \<in> set bs'"
  then obtain b where "b \<in> set bs" "tracks b b' past"
    using assms(1) unfolding chain_tracks_def by (metis in_set_conv_nth list_all2_conv_all_nth)
  then show "n_count b' = 0"
    using assms(2) fixed_part_fields(4) [of b' b] by (auto simp: tracks_def plain_bsr_def list_all_iff)
qed

lemma match_bsr_plain:
  assumes "plain_chain (Some h)" and "sel_state (Some h) (Some h') (set past)" and "in_sequence (Some h) (past @ [rec])"
    and "match_bsr unpack h' rec vol sess = (stat, k, h'')"
  shows "(stat = 1 \<longleftrightarrow> selects (Some h) vol rec) \<and> stat \<in> {1, 0, - 1} \<and> k = None \<and>
    sel_state (Some h) (Some h'') (insert rec (set past)) \<and> (stat = - 1 \<longrightarrow> (\<forall>b \<in> set (h_bsrs h''). n_done b))"
proof -
  have fresh: "h_bsrs h \<noteq> []" "\<forall>b \<in> set (h_bsrs h). bsr_ok b" "list_all plain_bsr (h_bsrs h)" "\<not> h_mount_next_volume h'"
    and ct: "chain_tracks (h_bsrs h) (h_bsrs h') (set past)"
    using assms(1,2) by (auto simp: plain_chain_def fresh_chain_def sel_state_def)
  have fol: "\<forall>b \<in> set (h_bsrs h). bsr_ok b \<and> (\<forall>p \<in> set past. follows b p rec)"
    using assms(3) fresh(2) by (auto simp: in_sequence_def in_order_def sorted_wrt_append)
  obtain st k' ds r' where all: "match_all unpack 0 (h_bsrs h') rec vol sess True = (st, k', ds, r')"
    by (metis prod_cases4)
  obtain c cs where h': "h_bsrs h' = c # cs"
    using ct fresh(1) by (cases "h_bsrs h'") (auto simp: chain_tracks_def)
  have res: "stat = st" "k = k'" "h_bsrs h'' = ds" "h_mount_next_volume h'' = h_mount_next_volume h'"
    using assms(4) all unfolding match_bsr_def h' by auto
  have "k' = None"
    using match_all_no_pointer [OF chain_tracks_count [OF ct fresh(3)], of unpack 0 rec vol sess True] all by simp
  moreover have "(\<exists>b \<in> set (h_bsrs h). wants unpack b rec vol sess) \<longleftrightarrow> selects (Some h) vol rec"
  proof -
    have "wants unpack b rec vol sess = wants (\<lambda>_. None) b rec vol (selection_label blank_session)" if "b \<in> set (h_bsrs h)" for b
      by (rule plain_wants) (use that fresh(3) in \<open>auto simp: list_all_iff alike_def\<close>)
    then show ?thesis by (simp add: selects_def)
  qed
  ultimately show ?thesis
    using match_all_step [OF ct fol all] res fresh(4) by (auto simp: sel_state_def)
qed

text \<open>Once all bootstrap records are done nothing that follows is selected.\<close>

lemma all_done_selects_nothing:
  assumes "plain_chain (Some h)" and "sel_state (Some h) (Some h') (set past)" and "\<forall>b \<in> set (h_bsrs h'). n_done b"
    and "in_sequence (Some h) (past @ [rec])"
  shows "\<not> selects (Some h) vol rec"
proof
  assume "selects (Some h) vol rec"
  then obtain b where b: "b \<in> set (h_bsrs h)" "wants (\<lambda>_. None) b rec vol (selection_label blank_session)"
    by (auto simp: selects_def)
  have "list_all2 (\<lambda>b b'. tracks b b' (set past)) (h_bsrs h) (h_bsrs h')"
    using assms(2) by (simp add: sel_state_def chain_tracks_def)
  from list_all2_partner [OF this b(1)] obtain b' where b': "b' \<in> set (h_bsrs h')" "tracks b b' (set past)" by blast
  have "\<forall>p \<in> set past. follows b p rec"
    using assms(4) b(1) by (auto simp: in_sequence_def in_order_def sorted_wrt_append)
  from tracks_wants [OF b'(2) this] b(2) b'(1) assms(3) show False by blast
qed

section \<open>One fragment\<close>

text \<open>A callback that keeps what it gets, and what we look at of it: the mark, the session and the record.\<close>

definition collects :: "('os, open_rec list) rr_ops \<Rightarrow> bool" where
  "collects ops \<longleftrightarrow> (\<forall>l r. q_record_cb ops l r = (True, l @ [r]))"

definition view :: "open_rec \<Rightarrow> bool \<times> (u32 \<times> u32) \<times> part" where
  "view orec = (o_invalid orec, rec_session (o_rec orec), r_FileIndex (o_rec orec), r_Stream (o_rec orec), got (o_rec orec))"

fun is_data :: "frag \<Rightarrow> bool" where
  "is_data (fi, st, len, bs) \<longleftrightarrow> 0 \<le> sint fi"

fun frag_probe :: "u64 \<Rightarrow> u32 \<times> u32 \<Rightarrow> frag \<Rightarrow> dev_record" where
  "frag_probe a \<sigma> (fi, st, len, bs) = probe a \<sigma> fi (plain_stream st)"

text \<open>A session label that can be read, whatever follows it in the buffer.\<close>

definition readable :: "bool \<Rightarrow> u8 list \<Rightarrow> bool" where
  "readable big bs \<longleftrightarrow>
     (\<forall>tl. SER_LENGTH_Session_Label \<le> length (bs @ tl) \<longrightarrow> unser_session big SOS_LABEL blank_session (bs @ tl, 0) \<noteq> None)"

fun label_ok :: "bool \<Rightarrow> frag \<Rightarrow> bool" where
  "label_ok big (fi, st, len, bs) \<longleftrightarrow> (sint fi < 0 \<longrightarrow>
     length bs = unat len \<and> 0 \<le> sint st \<and> fi \<noteq> EOM_LABEL \<and> fi \<noteq> VOL_LABEL \<and> (fi = SOS_LABEL \<longrightarrow> readable big bs))"

lemma label_fields: "sint (EOM_LABEL) < 0" "sint SOS_LABEL < 0" "sint VOL_LABEL < 0"
  by (simp_all add: EOM_LABEL_def SOS_LABEL_def VOL_LABEL_def)

lemma handle_label:
  assumes rec: "part_of \<sigma> None rec" and fi: "r_FileIndex rec \<noteq> VOL_LABEL"
    "r_FileIndex rec = SOS_LABEL \<Longrightarrow> readable (e_big (i_env (q_read ops))) (got rec)"
    and mem: "\<And>n. length (i_mem (q_read ops) n) = n"
  obtains l rec' where "handle_session_record ops s rec = Some (s\<lparr>rr_sess := l\<rparr>, rec')" "rec' = rec\<lparr>r_data := r_data rec'\<rparr>"
    "got rec' = got rec" "part_of \<sigma> None rec'"
proof (cases "r_FileIndex rec = SOS_LABEL")
  case False
  show ?thesis
    by (rule that [of blank_session rec]) (use False rec fi(1) in \<open>simp_all add: handle_session_record_def Let_def\<close>)
next
  case True
  let ?mem = "i_mem (q_read ops)" and ?big = "e_big (i_env (q_read ops))"
  define data where "data = check_pool_memory_size ?mem (r_data rec) SER_LENGTH_Session_Label"
  have len: "unat (r_data_len rec) \<le> length (r_data rec)" using rec by (simp add: part_of_def rec_inv_def)
  have big: "SER_LENGTH_Session_Label \<le> length data" "length (r_data rec) \<le> length data"
    using length_check_pool_memory_size [of SER_LENGTH_Session_Label ?mem, OF _ mem]
    by (simp_all add: data_def check_pool_memory_size_def SER_LENGTH_Session_Label_def)
  have t: "take (unat (r_data_len rec)) data = got rec"
    using take_check_pool_memory_size [OF len] by (simp add: data_def got_def)
  define tl where "tl = drop (unat (r_data_len rec)) data"
  have d: "data = got rec @ tl" using t unfolding tl_def by (metis append_take_drop_id)
  have "unser_session ?big SOS_LABEL blank_session (got rec @ tl, 0) \<noteq> None"
    using fi(2) [OF True] big(1) unfolding readable_def d by blast
  then obtain l where l: "unser_session ?big SOS_LABEL blank_session (data, 0) = Some l" unfolding d by blast
  show ?thesis
  proof (rule that [of l "rec\<lparr>r_data := data\<rparr>"])
    show "handle_session_record ops s rec = Some (s\<lparr>rr_sess := l\<rparr>, rec\<lparr>r_data := data\<rparr>)"
      using True l by (simp add: handle_session_record_def Let_def unser_session_label_def data_def SOS_LABEL_def VOL_LABEL_def)
    show "part_of \<sigma> None (rec\<lparr>r_data := data\<rparr>)" "got (rec\<lparr>r_data := data\<rparr>) = got rec"
      using rec big(2) t len by (simp_all add: part_of_def rec_inv_def got_def)
  qed simp
qed

lemma bsr_done_no_pointer: "o_bsr orec = None \<Longrightarrow> bsr_done_reposition ops s orec = (False, s, orec)"
  by (cases orec, cases s) (auto simp: bsr_done_reposition_def is_this_bsr_done_def Let_def split: option.splits)

lemma deliver_record_plain:
  assumes "collects ops" and "o_bsr orec = None"
  shows "deliver_record ops s orec lfi =
    (let s' = set_d (\<lambda>d. d\<lparr>w_VolLastIndex := ucast (r_FileIndex (o_rec orec))\<rparr>) s
     in if is_partial_record (o_rec orec) then (Break, s', orec, lfi)
        else (Again True, s'\<lparr>rr_cb := rr_cb s @ [orec]\<rparr>, orec\<lparr>o_invalid := False\<rparr>, r_FileIndex (o_rec orec)))"
  using assms by (simp add: deliver_record_def call_record_cb_def collects_def bsr_done_no_pointer Let_def)

lemma try_repositioning_off:
  assumes "\<not> q_positionblocks ops" and "\<not> h_mount_next_volume h"
  shows "try_repositioning ops h s orec = (False, s\<lparr>rr_bsr := Some h\<rparr>, orec)"
proof -
  have "find_next_bsr False h vol = (None, h)" for vol by (auto simp: find_next_bsr_def split: list.splits)
  then show ?thesis using assms by (simp add: try_repositioning_def Let_def)
qed

definition drop_rec :: "dev_record \<Rightarrow> dev_record" where
  "drop_rec r = r\<lparr>r_remainder := 0, r_state_bits := r_state_bits r AND NOT REC_PARTIAL_RECORD\<rparr>"

lemma data_record_plain:
  assumes cfg: "\<not> q_positionblocks ops" "plain_chain B"
    and st: "sel_state B (rr_bsr s) (set past)" "in_sequence B (past @ [o_rec orec])" "s_VolumeName (w_st (rr_d s)) = vol"
    and o: "o_bsr orec = None"
  obtains B' m where "sel_state B B' (insert (o_rec orec) (set past))"
    "selects B vol (o_rec orec) \<Longrightarrow>
       data_record ops s orec lfi = deliver_record ops (s\<lparr>rr_bsr := B'\<rparr>) (orec\<lparr>o_match_stat := m\<rparr>) lfi"
    "\<not> selects B vol (o_rec orec) \<Longrightarrow> m = 0 \<or> m = - 1 \<and> (\<exists>h h'. B = Some h \<and> B' = Some h' \<and> (\<forall>b \<in> set (h_bsrs h'). n_done b))"
    "\<not> selects B vol (o_rec orec) \<Longrightarrow>
       data_record ops s orec lfi = (if m = 0 then Again True else Finish, s\<lparr>rr_bsr := B'\<rparr>,
         (if m = 0 then o_rec_update drop_rec orec else orec)\<lparr>o_match_stat := m\<rparr>, lfi)"
proof (cases B)
  case None
  then have n: "rr_bsr s = None" using st(1) by (simp add: sel_state_def)
  show ?thesis
  proof (rule that [of None "o_match_stat orec"])
    have e: "s\<lparr>rr_bsr := None\<rparr> = s" "orec\<lparr>o_match_stat := o_match_stat orec\<rparr> = orec"
      using n by (cases s, simp) (cases orec, simp)
    show "data_record ops s orec lfi = deliver_record ops (s\<lparr>rr_bsr := None\<rparr>) (orec\<lparr>o_match_stat := o_match_stat orec\<rparr>) lfi"
      unfolding e by (simp only: data_record_def n option.case)
  qed (simp_all add: None sel_state_def selects_def)
next
  case (Some h)
  obtain h' where h': "rr_bsr s = Some h'" using st(1) by (auto simp: Some sel_state_def)
  obtain stat k h'' where m: "match_bsr (q_unpack ops) h' (o_rec orec) vol (selection_label (rr_sess s)) = (stat, k, h'')"
    by (metis prod_cases3)
  have pl: "(stat = 1 \<longleftrightarrow> selects B vol (o_rec orec)) \<and> stat \<in> {1, 0, - 1} \<and> k = None \<and>
    sel_state B (Some h'') (insert (o_rec orec) (set past)) \<and> (stat = - 1 \<longrightarrow> (\<forall>b \<in> set (h_bsrs h''). n_done b))"
    unfolding Some by (rule match_bsr_plain [OF cfg(2) [unfolded Some] st(1) [unfolded Some h'] st(2) [unfolded Some] m])
  then have tr: "try_repositioning ops h'' s1 o1 = (False, s1\<lparr>rr_bsr := Some h''\<rparr>, o1)" for s1 o1
    by (intro try_repositioning_off cfg(1)) (simp add: sel_state_def Some)
  show ?thesis
  proof (rule that [of "Some h''" stat])
    show "data_record ops s orec lfi = deliver_record ops (s\<lparr>rr_bsr := Some h''\<rparr>) (orec\<lparr>o_match_stat := stat\<rparr>) lfi"
      if "selects B vol (o_rec orec)"
      using that pl o m by (cases orec) (simp add: data_record_def h' st(3) Let_def)
    show "stat = 0 \<or> stat = - 1 \<and> (\<exists>h h'. B = Some h \<and> Some h'' = Some h' \<and> (\<forall>b \<in> set (h_bsrs h'). n_done b))"
      if "\<not> selects B vol (o_rec orec)"
      using that pl Some by auto
    show "data_record ops s orec lfi = (if stat = 0 then Again True else Finish, s\<lparr>rr_bsr := Some h''\<rparr>,
         (if stat = 0 then o_rec_update drop_rec orec else orec)\<lparr>o_match_stat := stat\<rparr>, lfi)"
      if "\<not> selects B vol (o_rec orec)"
      using that pl o m by (cases orec) (auto simp: data_record_def h' st(3) Let_def tr drop_rec_def)
  qed (use pl in simp)
qed

text \<open>Reading on in the same block: the device stays where it is.\<close>

definition same_place :: "('os, 'cb) rr \<Rightarrow> ('os, 'cb) rr \<Rightarrow> bool" where
  "same_place s s' \<longleftrightarrow> w_os (rr_d s') = w_os (rr_d s) \<and> w_dev (rr_d s') = w_dev (rr_d s) \<and> w_st (rr_d s') = w_st (rr_d s) \<and>
     j_canceled (w_jcr (rr_d s')) = j_canceled (w_jcr (rr_d s)) \<and> block_frame (c_block (rr_d s')) = block_frame (c_block (rr_d s)) \<and>
     rr_recs s' = rr_recs s \<and> rr_CurrentVol s' = rr_CurrentVol s"

lemma same_place_trans: "same_place s t \<Longrightarrow> same_place t u \<Longrightarrow> same_place s u"
  by (simp add: same_place_def)

lemma same_place_session: "same_place s t \<Longrightarrow> block_session (c_block (rr_d t)) = block_session (c_block (rr_d s))"
  by (simp add: same_place_def block_frame_def)

lemma drop_rec_facts:
  "is_block_marked_empty (drop_rec r) = is_block_marked_empty r" "rec_session (drop_rec r) = rec_session r"
  "part_of \<sigma> p r \<Longrightarrow> part_of \<sigma> None (drop_rec r)"
proof -
  have "(x AND NOT REC_PARTIAL_RECORD) AND (REC_BLOCK_EMPTY OR REC_ADATA_EMPTY) = x AND (REC_BLOCK_EMPTY OR REC_ADATA_EMPTY)" for x :: u32
    by (simp add: and.assoc rec_bits)
  then show "is_block_marked_empty (drop_rec r) = is_block_marked_empty r"
    by (simp add: is_block_marked_empty_def drop_rec_def)
qed (auto simp: drop_rec_def part_of_def rec_inv_def got_def)

definition chosen :: "bsr_chain option \<Rightarrow> string \<Rightarrow> u64 \<Rightarrow> u32 \<times> u32 \<Rightarrow> frag \<Rightarrow> bool" where
  "chosen B vol a \<sigma> f \<longleftrightarrow> is_data f \<longrightarrow> selects B vol (frag_probe a \<sigma> f)"

text \<open>The state of the loop: block, open record and bootstrap records.\<close>

definition at_frags ::
  "('os, open_rec list) rr_ops \<Rightarrow> bsr_chain option \<Rightarrow> string \<Rightarrow> dev_record list \<Rightarrow> ('os, open_rec list) rr \<Rightarrow> u8 list \<Rightarrow> bool" where
  "at_frags ops B vol past s bs \<longleftrightarrow>
     rinv (c_block (rr_d s)) \<and> rest (c_block (rr_d s)) = bs \<and> sel_state B (rr_bsr s) (set past) \<and> s_VolumeName (w_st (rr_d s)) = vol"

definition quiet_ops :: "('os, open_rec list) rr_ops \<Rightarrow> bool" where
  "quiet_ops ops \<longleftrightarrow> collects ops \<and> \<not> q_positionblocks ops \<and> (\<forall>n. length (i_mem (q_read ops) n) = n)"

lemma record_step_read:
  assumes "read_record_from_block (e_big (i_env (q_read ops))) (i_mem (q_read ops)) (w_dev (rr_d s)) (rr_CurrentVol s)
             (c_block (rr_d s)) (o_rec orec) = Inr (ok, b', rec', [])"
  shows "record_step ops (s :: ('a, 'b) rr) orec lfi =
    (let s1 = set_d (\<lambda>d. d\<lparr>c_block := b'\<rparr>) s
     in if \<not> ok \<or> r_FileIndex rec' = EOM_LABEL then Inr (Break, s1, orec\<lparr>o_rec := rec'\<rparr>, lfi)
        else if sint (r_FileIndex rec') < 0 then label_record ops s1 (orec\<lparr>o_rec := rec'\<rparr>) lfi
        else Inr (data_record ops s1 (orec\<lparr>o_rec := rec'\<rparr>) lfi))"
proof -
  have id: "w_jcr_update (\<lambda>j. j) d = d" for d :: "'a wdcr" by simp
  show ?thesis using assms by (simp add: record_step_def Let_def id)
qed

lemma record_step_label:
  assumes ops: "quiet_ops ops" and at: "at_frags ops B vol past s (frag_bytes f @ left)"
    and f: "frag_wf f" "\<not> is_data f" "label_ok (e_big (i_env (q_read ops))) f"
    and o: "part_of (block_session (c_block (rr_d s))) p (o_rec orec)" "continues p f"
  shows "\<exists>s' orec'. record_step ops s orec lfi = Inr (Again True, s', orec', lfi) \<and> same_place s s' \<and>
    at_frags ops B vol past s' left \<and> part_of (block_session (c_block (rr_d s))) None (o_rec orec') \<and>
    rec_session (o_rec orec') = block_session (c_block (rr_d s)) \<and> \<not> is_block_marked_empty (o_rec orec') \<and>
    orec' = orec\<lparr>o_rec := o_rec orec', o_invalid := False, o_match_stat := o_match_stat orec'\<rparr> \<and>
    map view (rr_cb s') = map view (rr_cb s) @ [(o_invalid orec, block_session (c_block (rr_d s)), join p f)]"
proof -
  let ?b = "c_block (rr_d s)" and ?big = "e_big (i_env (q_read ops))" and ?mem = "i_mem (q_read ops)"
  obtain fi st len bs where ff: "f = (fi, st, len, bs)" by (metis prod_cases4)
  have mem: "\<And>n. length (?mem n) = n" "collects ops" using ops by (auto simp: quiet_ops_def)
  have b: "rinv ?b" "rest ?b = frag_bytes f @ left" using at by (auto simp: at_frags_def)
  have lab: "sint fi < 0" "length bs = unat len" "0 \<le> sint st" "fi \<noteq> EOM_LABEL" "fi \<noteq> VOL_LABEL" "fi = SOS_LABEL \<Longrightarrow> readable ?big bs"
    using f(2,3) by (auto simp: ff)
  have nc: "\<not> frag_cut f" using lab(2) by (simp add: ff)
  obtain b' rec' where r: "read_record_from_block ?big ?mem (w_dev (rr_d s)) (rr_CurrentVol s) ?b (o_rec orec) = Inr (True, b', rec', [])"
    "rinv b'" "rest b' = left" "block_frame b' = block_frame ?b" "rec_session rec' = block_session ?b"
    "(r_FileIndex rec', r_Stream rec', got rec') = join p f" "is_block_marked_empty rec' \<longleftrightarrow> frag_cut f"
    "part_of (block_session ?b) (if frag_cut f then Some (join p f) else None) rec'"
    by (rule read_frag [OF b f(1) _ o mem(1)]) (use nc in auto)
  let ?s1 = "set_d (\<lambda>d. d\<lparr>c_block := b'\<rparr>) s"
  have fi: "r_FileIndex rec' = fi" "got rec' = bs" using r(6) lab(3) by (simp_all add: ff)
  have p0: "part_of (block_session ?b) None rec'" using r(8) nc by simp
  obtain l rec'' where h: "handle_session_record ops ?s1 rec' = Some (?s1\<lparr>rr_sess := l\<rparr>, rec'')" "rec'' = rec'\<lparr>r_data := r_data rec''\<rparr>"
    "got rec'' = got rec'" "part_of (block_session ?b) None rec''"
    by (rule handle_label [OF p0 _ _ mem(1)]) (use fi lab in auto)
  have keep: "r_FileIndex rec'' = r_FileIndex rec'" "r_Stream rec'' = r_Stream rec'" "rec_session rec'' = rec_session rec'"
    "is_block_marked_empty rec'' = is_block_marked_empty rec'"
    by (subst h(2), simp add: is_block_marked_empty_def)+
  obtain m where lr: "record_step ops s orec lfi =
      Inr (Again True, ?s1\<lparr>rr_sess := l, rr_cb := rr_cb s @ [orec\<lparr>o_rec := rec'', o_match_stat := m\<rparr>]\<rparr>,
           orec\<lparr>o_rec := rec'', o_match_stat := m, o_invalid := False\<rparr>, lfi)"
    using lab(1,4) fi(1) h(1) mem(2)
    by (auto simp: record_step_read [OF r(1)] label_record_def call_record_cb_def collects_def Let_def)
  show ?thesis
    unfolding lr
  proof (intro exI conjI)
    show "same_place s (?s1\<lparr>rr_sess := l, rr_cb := rr_cb s @ [orec\<lparr>o_rec := rec'', o_match_stat := m\<rparr>]\<rparr>)"
      using r(4) by (simp add: same_place_def)
    show "map view (rr_cb (?s1\<lparr>rr_sess := l, rr_cb := rr_cb s @ [orec\<lparr>o_rec := rec'', o_match_stat := m\<rparr>]\<rparr>)) =
      map view (rr_cb s) @ [(o_invalid orec, block_session ?b, join p f)]"
      using keep r(5) r(6) [symmetric] h(3) by (simp add: view_def)
  qed (use at r h(4) keep nc in \<open>auto simp: at_frags_def\<close>)
qed

lemma in_sequence_alike:
  assumes "in_sequence B (past @ q # future)" and "alike r q"
  shows "in_sequence B (past @ [r])"
  using assms(1) alike_facts(3) [OF assms(2)] by (auto simp: in_sequence_def in_order_def sorted_wrt_append)

lemma in_sequence_later:
  assumes "in_sequence B (past @ q # future)" and "x \<in> set future"
  shows "in_sequence B ((past @ [q]) @ [x])"
  using assms by (auto simp: in_sequence_def in_order_def sorted_wrt_append)

lemma probe_fields [simp]:
  "r_Addr (probe a \<sigma> fi st) = a" "rec_session (probe a \<sigma> fi st) = \<sigma>" "r_FileIndex (probe a \<sigma> fi st) = fi" "r_Stream (probe a \<sigma> fi st) = st"
  by (simp_all add: probe_def)

lemma record_step_data:
  assumes ops: "quiet_ops ops" "plain_chain B" and at: "at_frags ops B vol past s (frag_bytes f @ left)"
    and f: "frag_wf f" "is_data f" "frag_cut f \<Longrightarrow> left = []"
    and o: "part_of (block_session (c_block (rr_d s))) p (o_rec orec)" "continues p f" "o_bsr orec = None"
    and q: "q = frag_probe (d_EndAddr (w_dev (rr_d s))) (block_session (c_block (rr_d s))) f" "in_sequence B (past @ q # future)"
  shows "\<exists>nxt s' orec' lfi'. record_step ops s orec lfi = Inr (nxt, s', orec', lfi') \<and> same_place s s' \<and>
    at_frags ops B vol (past @ [q]) s' left \<and> rec_session (o_rec orec') = block_session (c_block (rr_d s)) \<and>
    o_bsr orec' = None \<and> o_BlockNumber orec' = o_BlockNumber orec \<and> (is_block_marked_empty (o_rec orec') \<longleftrightarrow> frag_cut f) \<and>
    (if selects B vol q then
       part_of (block_session (c_block (rr_d s))) (if frag_cut f then Some (join p f) else None) (o_rec orec') \<and>
       nxt = (if frag_cut f then Break else Again True) \<and> o_invalid orec' = (frag_cut f \<and> o_invalid orec) \<and>
       map view (rr_cb s') = map view (rr_cb s) @ (if frag_cut f then [] else [(o_invalid orec, block_session (c_block (rr_d s)), join p f)])
     else rr_cb s' = rr_cb s \<and> o_invalid orec' = o_invalid orec \<and> part_of (block_session (c_block (rr_d s))) None (drop_rec (o_rec orec')) \<and>
       (nxt = Again True \<and> part_of (block_session (c_block (rr_d s))) None (o_rec orec') \<or>
        nxt = Finish \<and> (\<forall>x \<in> set future. \<not> selects B vol x)))"
proof -
  let ?b = "c_block (rr_d s)" and ?big = "e_big (i_env (q_read ops))" and ?mem = "i_mem (q_read ops)"
  obtain fi st len bs where ff: "f = (fi, st, len, bs)" by (metis prod_cases4)
  have mem: "\<And>n. length (?mem n) = n" "collects ops" "\<not> q_positionblocks ops" using ops by (auto simp: quiet_ops_def)
  have b: "rinv ?b" "rest ?b = frag_bytes f @ left" and sel: "sel_state B (rr_bsr s) (set past)" "s_VolumeName (w_st (rr_d s)) = vol"
    using at by (auto simp: at_frags_def)
  obtain b' rec' where r: "read_record_from_block ?big ?mem (w_dev (rr_d s)) (rr_CurrentVol s) ?b (o_rec orec) = Inr (True, b', rec', [])"
    "rinv b'" "rest b' = left" "block_frame b' = block_frame ?b" "rec_session rec' = block_session ?b"
    "(r_FileIndex rec', r_Stream rec', got rec') = join p f" "is_partial_record rec' \<longleftrightarrow> frag_cut f"
    "is_block_marked_empty rec' \<longleftrightarrow> frag_cut f" "r_Addr rec' = d_EndAddr (w_dev (rr_d s))"
    "part_of (block_session ?b) (if frag_cut f then Some (join p f) else None) rec'"
    by (rule read_frag [OF b f(1,3) o(1,2) mem(1)]) (use that in auto)
  have al: "alike rec' q" using r(5,6,9) by (auto simp: alike_def q(1) ff)
  let ?s1 = "set_d (\<lambda>d. d\<lparr>c_block := b'\<rparr>) s" and ?o1 = "orec\<lparr>o_rec := rec'\<rparr>"
  have step: "record_step ops s orec lfi = Inr (data_record ops ?s1 ?o1 lfi)"
  proof -
    have "0 \<le> sint (r_FileIndex rec')" using r(6) f(2) by (simp add: ff)
    then show ?thesis using label_fields(1) by (auto simp: record_step_read [OF r(1)] Let_def)
  qed
  have s1: "sel_state B (rr_bsr ?s1) (set past)" "in_sequence B (past @ [o_rec ?o1])" "s_VolumeName (w_st (rr_d ?s1)) = vol" "o_bsr ?o1 = None"
    using sel o(3) in_sequence_alike [OF q(2) al] by simp_all
  obtain B' m where d: "sel_state B B' (insert rec' (set past))"
    "selects B vol rec' \<Longrightarrow> data_record ops ?s1 ?o1 lfi = deliver_record ops (?s1\<lparr>rr_bsr := B'\<rparr>) (?o1\<lparr>o_match_stat := m\<rparr>) lfi"
    "\<not> selects B vol rec' \<Longrightarrow> m = 0 \<or> m = - 1 \<and> (\<exists>h h'. B = Some h \<and> B' = Some h' \<and> (\<forall>b \<in> set (h_bsrs h'). n_done b))"
    "\<not> selects B vol rec' \<Longrightarrow> data_record ops ?s1 ?o1 lfi =
       (if m = 0 then Again True else Finish, ?s1\<lparr>rr_bsr := B'\<rparr>,
         (if m = 0 then o_rec_update drop_rec ?o1 else ?o1)\<lparr>o_match_stat := m\<rparr>, lfi)"
    by (rule data_record_plain [OF mem(3) ops(2) s1, of lfi]) (use that in auto)
  have B': "sel_state B B' (set (past @ [q]))" using sel_state_alike [OF d(1) al] by simp
  have eq: "selects B vol rec' = selects B vol q" using selects_alike [OF ops(2) al] .
  show ?thesis
  proof (cases "selects B vol q")
    case True
    let ?o2 = "?o1\<lparr>o_match_stat := m\<rparr>" and ?s2 = "set_d (\<lambda>d. d\<lparr>w_VolLastIndex := ucast (r_FileIndex rec')\<rparr>) (?s1\<lparr>rr_bsr := B'\<rparr>)"
    have res: "record_step ops s orec lfi = Inr (if frag_cut f then (Break, ?s2, ?o2, lfi)
        else (Again True, ?s2\<lparr>rr_cb := rr_cb s @ [?o2]\<rparr>, ?o2\<lparr>o_invalid := False\<rparr>, r_FileIndex rec'))"
      unfolding step using d(2) True eq deliver_record_plain [OF mem(2), of ?o2 "?s1\<lparr>rr_bsr := B'\<rparr>" lfi] o(3) r(7) by (simp add: Let_def)
    have v: "view ?o2 = (o_invalid orec, block_session ?b, join p f)" using r(5) r(6) [symmetric] by (simp add: view_def)
    have "same_place s ?s2" "same_place s (?s2\<lparr>rr_cb := rr_cb s @ [?o2]\<rparr>)" using r(4) by (simp_all add: same_place_def)
    then show ?thesis
      unfolding res using True r v B' o(3) sel(2) by (cases "frag_cut f") (simp_all add: at_frags_def)
  next
    case False
    then have ns: "\<not> selects B vol rec'" using eq by simp
    have p0: "part_of (block_session ?b) None (drop_rec rec')" using drop_rec_facts(3) [OF r(10)] .
    have p1: "part_of (block_session ?b) None (drop_rec (drop_rec rec'))" using drop_rec_facts(3) [OF p0] .
    have sp: "same_place s (?s1\<lparr>rr_bsr := B'\<rparr>)" using r(4) by (simp add: same_place_def)
    have later: "\<forall>x \<in> set future. \<not> selects B vol x" if m: "m \<noteq> 0"
    proof
      fix x assume x: "x \<in> set future"
      obtain h h' where h: "B = Some h" "B' = Some h'" "\<forall>b \<in> set (h_bsrs h'). n_done b" using d(3) [OF ns] m by blast
      show "\<not> selects B vol x"
        using all_done_selects_nothing [of h h' "past @ [q]" x vol] ops(2) B' in_sequence_later [OF q(2) x] h by simp
    qed
    show ?thesis
      unfolding step d(4) [OF ns] using False sp r B' o(3) sel(2) p0 p1 later drop_rec_facts(1,2)
      by (cases "m = 0") (simp_all add: at_frags_def)
  qed
qed

section \<open>The records of a block\<close>

text \<open>
  The abstract reader: from the open part and its mark, the records that are delivered, the part that stays open
  and its mark.  The mark goes to the next record that is delivered.
\<close>

fun run_frags :: "(frag \<Rightarrow> bool) \<Rightarrow> part option \<Rightarrow> bool \<Rightarrow> frag list \<Rightarrow> (bool \<times> part) list \<times> part option \<times> bool" where
  "run_frags ch p bad [] = ([], p, bad)"
| "run_frags ch p bad (f # fs) =
     (if \<not> ch f then run_frags ch None bad fs
      else if frag_cut f then ([], Some (join p f), bad)
      else (case run_frags ch None False fs of (out, p', bad') \<Rightarrow> ((bad, join p f) # out, p', bad')))"

definition probes :: "u64 \<Rightarrow> u32 \<times> u32 \<Rightarrow> frag list \<Rightarrow> dev_record list" where
  "probes a \<sigma> frs = map (frag_probe a \<sigma>) (filter is_data frs)"

type_synonym delivered = "bool \<times> (u32 \<times> u32) \<times> part"

fun file_record :: "delivered \<Rightarrow> bool" where
  "file_record (bad, \<sigma>, fi, stm, ds) \<longleftrightarrow> 0 \<le> sint fi"

definition tagged :: "u32 \<times> u32 \<Rightarrow> (bool \<times> part) list \<Rightarrow> delivered list" where
  "tagged \<sigma> out = map (\<lambda>(bad, pt). (bad, \<sigma>, pt)) out"

lemma tagged_simps [simp]: "tagged \<sigma> [] = []" "tagged \<sigma> ((bad, pt) # out) = (bad, \<sigma>, pt) # tagged \<sigma> out"
  by (simp_all add: tagged_def)

lemma file_record_join [simp]: "file_record (bad, \<sigma>, join p f) \<longleftrightarrow> is_data f"
  by (cases f) simp

lemma run_frags_labels:
  assumes "\<forall>f \<in> set frs. is_data f \<longrightarrow> \<not> ch f"
  shows "filter file_record (tagged \<sigma> (fst (run_frags ch p bad frs))) = []"
  using assms
proof (induction frs arbitrary: p bad)
  case (Cons f fs)
  then show ?case by (cases "run_frags ch None False fs") (auto, metis fst_conv)
qed simp

lemma frags_wf_Cons:
  "frags_wf (f # fs) \<Longrightarrow> frag_wf f \<and> frags_wf fs \<and> (frag_cut f \<longrightarrow> fs = [])"
  by (cases fs) (auto simp: frags_wf_def)

text \<open>What the loop over the fragments of a block achieves.\<close>

definition block_done ::
  "bsr_chain option \<Rightarrow> string \<Rightarrow> u64 \<Rightarrow> u32 \<times> u32 \<Rightarrow> dev_record list \<Rightarrow> dev_record list \<Rightarrow> ('os, open_rec list) rr \<Rightarrow> open_rec \<Rightarrow>
   part option \<Rightarrow> bool \<Rightarrow> frag list \<Rightarrow> bool \<Rightarrow> ('os, open_rec list) rr \<Rightarrow> open_rec \<Rightarrow> bool" where
  "block_done B vol a \<sigma> past future s orec p bad frs fin s' orec' \<longleftrightarrow>
     same_place s s' \<and> o_BlockNumber orec' = o_BlockNumber orec \<and>
     (case run_frags (chosen B vol a \<sigma>) p bad frs of (out, p', bad') \<Rightarrow>
        if fin then
          filter file_record (map view (rr_cb s')) = filter file_record (map view (rr_cb s) @ tagged \<sigma> out) \<and>
          (\<forall>x \<in> set future. \<not> selects B vol x)
        else map view (rr_cb s') = map view (rr_cb s) @ tagged \<sigma> out \<and> part_of \<sigma> p' (o_rec orec') \<and> o_invalid orec' = bad' \<and>
          o_bsr orec' = None \<and> sel_state B (rr_bsr s') (set (past @ probes a \<sigma> frs)) \<and>
          (frs \<noteq> [] \<or> rec_session (o_rec orec) = \<sigma> \<longrightarrow> rec_session (o_rec orec') = \<sigma>))"

lemma record_loop_end:
  assumes ops: "quiet_ops ops" and at: "at_frags ops B vol past s junk" "length junk < 12"
    and o: "part_of \<sigma> p (o_rec orec)" "o_bsr orec = None"
  shows "\<exists>s' orec'. record_loop ops True s orec lfi = Some (Inr (True, False, s', orec')) \<and>
    block_done B vol a \<sigma> past future s orec p (o_invalid orec) [] False s' orec'"
proof (cases "is_block_marked_empty (o_rec orec)")
  case True
  then show ?thesis
    using o at by (simp add: record_loop.simps [of _ _ s] block_done_def same_place_def at_frags_def probes_def)
next
  case False
  let ?b = "c_block (rr_d s)"
  have b: "rinv ?b" "length (rest ?b) < 12" using at by (simp_all add: at_frags_def)
  obtain b' rec' where r: "read_record_from_block (e_big (i_env (q_read ops))) (i_mem (q_read ops)) (w_dev (rr_d s)) (rr_CurrentVol s)
      ?b (o_rec orec) = Inr (False, b', rec', [])"
    "block_frame b' = block_frame ?b" "part_of \<sigma> p rec'" "rec_session rec' = rec_session (o_rec orec)"
    by (rule read_end [OF b o(1)]) (use that in auto)
  show ?thesis
    using False o at r by (simp add: record_loop.simps [of _ _ s] record_step_read [OF r(1)] Let_def block_done_def same_place_def at_frags_def probes_def)
qed

lemma record_loop_step:
  assumes "\<not> is_block_marked_empty (o_rec orec)" and "record_step ops s orec lfi = Inr (nxt, s', orec', lfi')"
  shows "record_loop ops True s orec lfi =
    (case nxt of Again ok \<Rightarrow> record_loop ops ok s' orec' lfi' | Break \<Rightarrow> Some (Inr (True, False, s', orec'))
     | Finish \<Rightarrow> Some (Inr (True, True, s', orec')))"
  using assms by (simp add: record_loop.simps [of _ _ s])

lemma chosen_label: "\<not> is_data f \<Longrightarrow> chosen B vol a \<sigma> f"
  by (simp add: chosen_def)

lemma probes_Cons: "probes a \<sigma> (f # fs) = (if is_data f then [frag_probe a \<sigma> f] else []) @ probes a \<sigma> fs"
  by (simp add: probes_def)

text \<open>A first fragment that is delivered, and the rest of the block.\<close>

lemma block_done_Cons:
  assumes "same_place s s1" and "o_BlockNumber o1 = o_BlockNumber orec" and "\<not> frag_cut f" and "rec_session (o_rec o1) = \<sigma>"
    and "chosen B vol a \<sigma> f \<Longrightarrow> map view (rr_cb s1) = map view (rr_cb s) @ [(bad, \<sigma>, join p f)] \<and> bad1 = False"
    and "\<not> chosen B vol a \<sigma> f \<Longrightarrow> map view (rr_cb s1) = map view (rr_cb s) \<and> bad1 = bad"
    and "block_done B vol a \<sigma> (past @ probes a \<sigma> [f]) future s1 o1 None bad1 fs fin s' orec'"
  shows "block_done B vol a \<sigma> past future s orec p bad (f # fs) fin s' orec'"
  using assms same_place_trans [OF assms(1), of s']
  by (cases "chosen B vol a \<sigma> f")
    (auto simp: block_done_def probes_def case_prod_beta split: if_splits)

lemma run_frags_no_more:
  assumes "\<forall>x \<in> set (probes a \<sigma> fs). \<not> selects B vol x"
  shows "filter file_record (tagged \<sigma> (fst (run_frags (chosen B vol a \<sigma>) p bad fs))) = []"
proof (intro run_frags_labels ballI impI)
  fix f assume f: "f \<in> set fs" "is_data f"
  then have "frag_probe a \<sigma> f \<in> set (probes a \<sigma> fs)" unfolding probes_def set_map set_filter by blast
  then show "\<not> chosen B vol a \<sigma> f" using assms f(2) unfolding chosen_def by blast
qed

lemma record_loop_frags:
  assumes ops: "quiet_ops ops" "plain_chain B" and junk: "length junk < 12"
    and at: "at_frags ops B vol past s (concat (map frag_bytes frs) @ junk)" "frs \<noteq> [] \<Longrightarrow> frag_cut (last frs) \<Longrightarrow> junk = []"
    and f: "frags_wf frs" "list_all (label_ok (e_big (i_env (q_read ops)))) frs"
    and o: "part_of \<sigma> p (o_rec orec)" "frs \<noteq> [] \<Longrightarrow> continues p (hd frs)" "o_bsr orec = None"
      "frs \<noteq> [] \<Longrightarrow> \<not> is_block_marked_empty (o_rec orec)"
    and \<sigma>: "block_session (c_block (rr_d s)) = \<sigma>" "d_EndAddr (w_dev (rr_d s)) = a"
    and q: "in_sequence B (past @ probes a \<sigma> frs @ future)"
  shows "\<exists>fin s' orec'. record_loop ops True s orec lfi = Some (Inr (True, fin, s', orec')) \<and>
    block_done B vol a \<sigma> past future s orec p (o_invalid orec) frs fin s' orec'"
  using at f o \<sigma> q
proof (induction frs arbitrary: past s orec p lfi)
  case Nil
  then show ?case using record_loop_end [OF ops(1) _ junk, of B vol past s \<sigma> p orec lfi a future] by auto
next
  case (Cons f fs)
  let ?left = "concat (map frag_bytes fs) @ junk"
  have at: "at_frags ops B vol past s (frag_bytes f @ ?left)" using Cons.prems(1) by simp
  have wf: "frag_wf f" "frags_wf fs" "frag_cut f \<Longrightarrow> fs = []" using frags_wf_Cons [OF Cons.prems(3)] by auto
  have cut: "frag_cut f \<Longrightarrow> ?left = []" using wf(3) Cons.prems(2) by auto
  have rest: "fs \<noteq> [] \<Longrightarrow> frag_cut (last fs) \<Longrightarrow> junk = []" using Cons.prems(2) by auto
  have o: "part_of (block_session (c_block (rr_d s))) p (o_rec orec)" "continues p f" "o_bsr orec = None"
    "\<not> is_block_marked_empty (o_rec orec)"
    using Cons.prems by simp_all
  have lab: "label_ok (e_big (i_env (q_read ops))) f" "list_all (label_ok (e_big (i_env (q_read ops)))) fs" using Cons.prems(4) by simp_all
  have go: "\<exists>fin s' orec'. record_loop ops True s1 o1 lfi1 = Some (Inr (True, fin, s', orec')) \<and>
      block_done B vol a \<sigma> (past @ probes a \<sigma> [f]) future s1 o1 None (o_invalid o1) fs fin s' orec'"
    if "same_place s s1" "at_frags ops B vol (past @ probes a \<sigma> [f]) s1 ?left" "part_of \<sigma> None (o_rec o1)" "o_bsr o1 = None"
      "fs \<noteq> [] \<Longrightarrow> \<not> is_block_marked_empty (o_rec o1)" for s1 o1 lfi1
  proof (rule Cons.IH [OF that(2) rest wf(2) lab(2) that(3) _ that(4,5)])
    show "block_session (c_block (rr_d s1)) = \<sigma>" using same_place_session [OF that(1)] Cons.prems(9) by simp
    show "d_EndAddr (w_dev (rr_d s1)) = a" using that(1) Cons.prems(10) by (simp add: same_place_def)
    show "in_sequence B ((past @ probes a \<sigma> [f]) @ probes a \<sigma> fs @ future)"
      using Cons.prems(11) by (cases "is_data f") (simp_all add: probes_def)
  qed simp_all
  show ?case
  proof (cases "is_data f")
    case False
    obtain s1 o1 where st: "record_step ops s orec lfi = Inr (Again True, s1, o1, lfi)" "same_place s s1"
      "at_frags ops B vol past s1 ?left" "part_of \<sigma> None (o_rec o1)" "rec_session (o_rec o1) = \<sigma>" "\<not> is_block_marked_empty (o_rec o1)"
      "o1 = orec\<lparr>o_rec := o_rec o1, o_invalid := False, o_match_stat := o_match_stat o1\<rparr>"
      "map view (rr_cb s1) = map view (rr_cb s) @ [(o_invalid orec, \<sigma>, join p f)]"
      using record_step_label [OF ops(1) at wf(1) False lab(1) o(1,2), of lfi] Cons.prems(9) by auto
    have o1: "o_bsr o1 = None" "o_invalid o1 = False" "o_BlockNumber o1 = o_BlockNumber orec"
      using arg_cong [OF st(7), of o_bsr] arg_cong [OF st(7), of o_invalid] arg_cong [OF st(7), of o_BlockNumber] o(3) by simp_all
    have nc: "\<not> frag_cut f" using False lab(1) by (cases f) auto
    obtain fin s' orec' where g: "record_loop ops True s1 o1 lfi = Some (Inr (True, fin, s', orec'))"
      "block_done B vol a \<sigma> (past @ probes a \<sigma> [f]) future s1 o1 None (o_invalid o1) fs fin s' orec'"
      using go [OF st(2) _ st(4) o1(1) st(6), of lfi] st(3) False by (auto simp: probes_def)
    have "block_done B vol a \<sigma> past future s orec p (o_invalid orec) (f # fs) fin s' orec'"
      by (rule block_done_Cons [OF st(2) o1(3) nc st(5) _ _ g(2)]) (use st(8) o1(2) chosen_label [OF False] in auto)
    then show ?thesis using g(1) record_loop_step [OF o(4) st(1)] by auto
  next
    case True
    let ?q = "frag_probe (d_EndAddr (w_dev (rr_d s))) (block_session (c_block (rr_d s))) f"
    have q: "?q = frag_probe a \<sigma> f" "probes a \<sigma> [f] = [?q]" using Cons.prems(9,10) True by (simp_all add: probes_def)
    have seq: "in_sequence B (past @ ?q # probes a \<sigma> fs @ future)" using Cons.prems(11) q True by (simp add: probes_def)
    have ch: "chosen B vol a \<sigma> f = selects B vol ?q" using True q(1) by (simp add: chosen_def)
    obtain nxt s1 o1 lfi1 where st: "record_step ops s orec lfi = Inr (nxt, s1, o1, lfi1)" "same_place s s1"
      "at_frags ops B vol (past @ probes a \<sigma> [f]) s1 ?left" "rec_session (o_rec o1) = \<sigma>" "o_bsr o1 = None"
      "o_BlockNumber o1 = o_BlockNumber orec" "is_block_marked_empty (o_rec o1) \<longleftrightarrow> frag_cut f"
      and res: "if chosen B vol a \<sigma> f then
         part_of \<sigma> (if frag_cut f then Some (join p f) else None) (o_rec o1) \<and>
         nxt = (if frag_cut f then Break else Again True) \<and> o_invalid o1 = (frag_cut f \<and> o_invalid orec) \<and>
         map view (rr_cb s1) = map view (rr_cb s) @ (if frag_cut f then [] else [(o_invalid orec, \<sigma>, join p f)])
       else rr_cb s1 = rr_cb s \<and> o_invalid o1 = o_invalid orec \<and> part_of \<sigma> None (drop_rec (o_rec o1)) \<and>
         (nxt = Again True \<and> part_of \<sigma> None (o_rec o1) \<or>
          nxt = Finish \<and> (\<forall>x \<in> set (probes a \<sigma> fs @ future). \<not> selects B vol x))"
      using record_step_data [OF ops at wf(1) True cut o(1-3) refl seq, of lfi] Cons.prems(9) ch q(2) by auto
    note loop = record_loop_step [OF o(4) st(1)]
    consider (fin) "nxt = Finish" "\<not> chosen B vol a \<sigma> f" | (cut) "frag_cut f" "nxt = Break" "chosen B vol a \<sigma> f"
      | (skip) "frag_cut f" "nxt = Again True" "\<not> chosen B vol a \<sigma> f" | (on) "\<not> frag_cut f" "nxt = Again True"
      using res by (auto split: if_splits)
    then show ?thesis
    proof cases
      case fin
      then have none: "\<forall>x \<in> set (probes a \<sigma> fs). \<not> selects B vol x" "\<forall>x \<in> set future. \<not> selects B vol x" "rr_cb s1 = rr_cb s"
        using res by (auto split: if_splits)
      have "block_done B vol a \<sigma> past future s orec p (o_invalid orec) (f # fs) True s1 o1"
        using st(2,6) fin(2) none run_frags_no_more [OF none(1), of None "o_invalid orec"] by (simp add: block_done_def case_prod_beta)
      then show ?thesis using loop fin(1) by auto
    next
      case cut
      then have "block_done B vol a \<sigma> past future s orec p (o_invalid orec) (f # fs) False s1 o1"
        using st res wf(3) by (simp add: block_done_def at_frags_def)
      then show ?thesis using loop cut(2) by auto
    next
      case skip
      have "record_loop ops True s1 o1 lfi1 = Some (Inr (True, False, s1, o1))"
        using st(7) skip(1) by (simp add: record_loop.simps [of _ _ s1])
      moreover have "block_done B vol a \<sigma> past future s orec p (o_invalid orec) (f # fs) False s1 o1"
        using st res skip wf(3) by (simp add: block_done_def at_frags_def)
      ultimately show ?thesis using loop skip(2) by auto
    next
      case on
      have p0: "part_of \<sigma> None (o_rec o1)" using res on by (auto split: if_splits)
      obtain fin s' orec' where g: "record_loop ops True s1 o1 lfi1 = Some (Inr (True, fin, s', orec'))"
        "block_done B vol a \<sigma> (past @ probes a \<sigma> [f]) future s1 o1 None (o_invalid o1) fs fin s' orec'"
        using go [OF st(2,3) p0 st(5), of lfi1] st(7) on(1) by auto
      have "block_done B vol a \<sigma> past future s orec p (o_invalid orec) (f # fs) fin s' orec'"
        by (rule block_done_Cons [OF st(2,6) on(1) st(4) _ _ g(2)]) (use res on in \<open>auto split: if_splits\<close>)
      then show ?thesis using loop on(2) g(1) by auto
    qed
  qed
qed

section \<open>Sessions\<close>

text \<open>
  What is open of a session: the part of a record, the number of its last block and the mark.  Going on with a block that
  does not follow sets the mark, and drops the part if such records are to be discarded.
\<close>

type_synonym session = "u32 \<times> u32"
type_synonym open_state = "part option \<times> u32 \<times> bool"

fun enter_block :: "bool \<Rightarrow> open_state option \<Rightarrow> u32 \<Rightarrow> part option \<times> bool" where
  "enter_block discard None num = (None, False)"
| "enter_block discard (Some (p, num0, bad)) num =
     (let gap = (p \<noteq> None \<and> num0 \<noteq> num - 1 \<and> num0 \<noteq> num) in (if gap \<and> discard then None else p, bad \<or> gap))"

definition session_block ::
  "(frag \<Rightarrow> bool) \<Rightarrow> bool \<Rightarrow> open_state option \<Rightarrow> u32 \<Rightarrow> frag list \<Rightarrow> (bool \<times> part) list \<times> open_state" where
  "session_block ch discard st num frs =
     (case enter_block discard st num of (p, bad) \<Rightarrow>
        (case run_frags ch p bad frs of (out, p', bad') \<Rightarrow> (out, p', num, bad')))"

abbreviation open_session :: "open_rec \<Rightarrow> session" where
  "open_session orec \<equiv> rec_session (o_rec orec)"

definition open_as :: "open_state \<Rightarrow> open_rec \<Rightarrow> bool" where
  "open_as st orec \<longleftrightarrow>
     (case st of (p, num, bad) \<Rightarrow> part_of (open_session orec) p (o_rec orec) \<and> o_BlockNumber orec = num \<and> o_invalid orec = bad \<and> o_bsr orec = None)"

definition recs_hold :: "(session \<Rightarrow> open_state option) \<Rightarrow> open_rec list \<Rightarrow> bool" where
  "recs_hold S recs \<longleftrightarrow> distinct (map open_session recs) \<and> dom S = open_session ` set recs \<and>
     (\<forall>orec \<in> set recs. \<exists>st. S (open_session orec) = Some st \<and> open_as st orec)"

lemma of_block_session_iff: "of_block_session b orec \<longleftrightarrow> open_session orec = block_session b"
  by (simp add: of_block_session_def)

lemma find_open_None: "find_open b recs = None \<longleftrightarrow> block_session b \<notin> open_session ` set recs"
  by (induction recs) (auto simp: of_block_session_iff)

lemma find_open_Some: "find_open b recs = Some i \<Longrightarrow> i < length recs \<and> open_session (recs ! i) = block_session b"
  by (induction recs arbitrary: i) (auto simp: of_block_session_iff split: if_splits)

lemma recs_hold_update:
  assumes "recs_hold S recs" and "i < length recs" and "open_session (recs ! i) = \<sigma>" and "open_session orec = \<sigma>" and "open_as st orec"
  shows "recs_hold (S(\<sigma> \<mapsto> st)) (recs[i := orec])"
proof -
  have m: "map open_session (recs[i := orec]) = map open_session recs"
  proof -
    have "open_session orec = map open_session recs ! i" using assms(2-4) by simp
    then show ?thesis unfolding map_update by (simp only: list_update_id)
  qed
  have in': "r \<in> set recs \<and> open_session r \<noteq> \<sigma> \<or> r = orec" if r: "r \<in> set (recs[i := orec])" for r
  proof -
    obtain j where j: "j < length recs" "r = (recs[i := orec]) ! j" using r by (auto simp: in_set_conv_nth)
    show ?thesis
    proof (cases "j = i")
      case False
      then have "open_session (recs ! j) \<noteq> open_session (recs ! i)"
        using assms(1,2) j(1) by (auto simp: recs_hold_def distinct_conv_nth)
      then show ?thesis using False j assms(3) by auto
    qed (use j in auto)
  qed
  have "distinct (map open_session (recs[i := orec]))" using assms(1) m by (simp add: recs_hold_def)
  moreover have "dom (S(\<sigma> \<mapsto> st)) = open_session ` set (recs[i := orec])"
  proof -
    have "open_session ` set (recs[i := orec]) = open_session ` set recs"
      using arg_cong [OF m, of set] by (simp only: set_map)
    moreover have "\<sigma> \<in> open_session ` set recs" using assms(2,3) 
      by (intro image_eqI [where x = "recs ! i"]) simp_all
    ultimately show ?thesis using assms(1) unfolding recs_hold_def dom_fun_upd by (simp only: option.distinct if_False insert_absorb)
  qed
  moreover have "\<exists>x. (S(\<sigma> \<mapsto> st)) (open_session r) = Some x \<and> open_as x r" if "r \<in> set (recs[i := orec])" for r
    using in' [OF that] assms(1,4,5) by (cases st) (auto simp: recs_hold_def)
  ultimately show ?thesis unfolding recs_hold_def by blast
qed

lemma recs_hold_new:
  assumes "recs_hold S recs" and "\<sigma> \<notin> open_session ` set recs" and "open_session orec = \<sigma>" and "open_as st orec"
  shows "recs_hold (S(\<sigma> \<mapsto> st)) (orec # recs)"
  using assms by (cases st) (auto simp: recs_hold_def image_iff)

lemma part_of_start:
  "part_of \<sigma> None (new_record data)" "part_of \<sigma> None (empty_record r)" "part_of \<sigma> p (r\<lparr>r_state_bits := x\<rparr>) = part_of \<sigma> p r"
  by (simp_all add: part_of_def new_record_def empty_record_def rec_inv_def got_def split: option.splits)

text \<open>The open record with which a block is entered.\<close>

lemma check_order_enters:
  assumes "open_as st orec" and "enter_block (q_discard_invalid_records ops) (Some st) (b_BlockNumber b) = (p, bad)"
  shows "part_of (open_session orec) p (o_rec (check_order ops b orec))" "o_invalid (check_order ops b orec) = bad"
    "o_bsr (check_order ops b orec) = None" "p \<noteq> None \<or> \<not> q_discard_invalid_records ops \<Longrightarrow> open_session (check_order ops b orec) = open_session orec"
proof -
  obtain p0 num0 bad0 where st: "st = (p0, num0, bad0)" by (cases st)
  have o: "part_of (open_session orec) p0 (o_rec orec)" "o_BlockNumber orec = num0" "o_invalid orec = bad0" "o_bsr orec = None"
    using assms(1) by (auto simp: open_as_def st)
  have rem: "r_remainder (o_rec orec) \<noteq> 0 \<longleftrightarrow> p0 \<noteq> None" using o(1) by (auto simp: part_of_def split: option.splits)
  show "part_of (open_session orec) p (o_rec (check_order ops b orec))" "o_invalid (check_order ops b orec) = bad"
    "o_bsr (check_order ops b orec) = None"
    using assms(2) o rem part_of_start(2) by (auto simp: check_order_def st Let_def split: if_splits)
  show "open_session (check_order ops b orec) = open_session orec" if "p \<noteq> None \<or> \<not> q_discard_invalid_records ops"
    using that assms(2) rem o(2) by (auto simp: check_order_def st Let_def split: if_splits)
qed

definition holds_frags :: "dev_block \<Rightarrow> session \<Rightarrow> u32 \<Rightarrow> frag list \<Rightarrow> bool" where
  "holds_frags b \<sigma> num frs \<longleftrightarrow> rinv b \<and> block_session b = \<sigma> \<and> b_BlockNumber b = num \<and> frs \<noteq> [] \<and> frags_wf frs \<and>
     (\<exists>junk. rest b = concat (map frag_bytes frs) @ junk \<and> length junk < 12 \<and> (frag_cut (last frs) \<longrightarrow> junk = []))"

text \<open>The open record that \<^verbatim>\<open>process_block\<close> uses, and the list it is in.\<close>

lemma process_block_entry:
  assumes "recs_hold S recs" and "enter_block (q_discard_invalid_records ops) (S (block_session b)) (b_BlockNumber b) = (p, bad)"
  obtains i recs1 where
    "(case find_open b recs of
        Some i \<Rightarrow> (i, recs[i := check_order ops b (recs ! i)])
      | None \<Rightarrow> (0, new_open (q_new_data ops) # recs)) = (i, recs1)"
    "part_of (block_session b) p (o_rec (recs1 ! i))" "o_invalid (recs1 ! i) = bad" "o_bsr (recs1 ! i) = None"
    "\<And>st orec. open_session orec = block_session b \<Longrightarrow> open_as st orec \<Longrightarrow>
       recs_hold (S(block_session b \<mapsto> st)) (recs1[i := orec])"
proof (cases "find_open b recs")
  case None
  then have new: "block_session b \<notin> open_session ` set recs" using find_open_None by blast
  then have "S (block_session b) = None" using assms(1) by (auto simp: recs_hold_def)
  then have p: "p = None" "bad = False" using assms(2) by simp_all
  show ?thesis
    by (rule that [of 0 "new_open (q_new_data ops) # recs"])
      (use None p recs_hold_new [OF assms(1) new] part_of_start(1) in \<open>simp_all add: new_open_def\<close>)
next
  case (Some i)
  note f = find_open_Some [OF Some]
  let ?o = "check_order ops b (recs ! i)"
  obtain st0 where st0: "S (block_session b) = Some st0" "open_as st0 (recs ! i)"
  proof -
    have "recs ! i \<in> set recs" using f by simp
    then obtain st0 where "S (open_session (recs ! i)) = Some st0" "open_as st0 (recs ! i)"
      using assms(1) unfolding recs_hold_def by blast
    then show ?thesis using that f by (simp only:)
  qed
  note en = check_order_enters [OF st0(2) assms(2) [unfolded st0(1)]]
  show ?thesis
  proof (rule that [of i "recs[i := ?o]"])
    show "recs_hold (S(block_session b \<mapsto> st)) ((recs[i := ?o])[i := orec])"
      if "open_session orec = block_session b" "open_as st orec" for st orec
      using recs_hold_update [OF assms(1) _ _ that] f by simp
  qed (use Some f en in simp_all)
qed

lemma process_block_refines:
  assumes ops: "quiet_ops ops" "plain_chain B" and b: "holds_frags (c_block (rr_d s)) \<sigma> num frs"
    and lab: "list_all (label_ok (e_big (i_env (q_read ops)))) frs" and S: "recs_hold S (rr_recs s)"
    and en: "continues (fst (enter_block (q_discard_invalid_records ops) (S \<sigma>) num)) (hd frs)"
    and sel: "sel_state B (rr_bsr s) (set past)" "s_VolumeName (w_st (rr_d s)) = vol" "d_EndAddr (w_dev (rr_d s)) = a"
    and q: "in_sequence B (past @ probes a \<sigma> frs @ future)"
  shows "\<exists>fin s'. process_block ops s = Some (Inr (True, fin, s')) \<and> same_place s (s'\<lparr>rr_recs := rr_recs s\<rparr>) \<and>
    (case session_block (chosen B vol a \<sigma>) (q_discard_invalid_records ops) (S \<sigma>) num frs of (out, st) \<Rightarrow>
       if fin then
         filter file_record (map view (rr_cb s')) = filter file_record (map view (rr_cb s) @ tagged \<sigma> out) \<and>
         (\<forall>x \<in> set future. \<not> selects B vol x)
       else map view (rr_cb s') = map view (rr_cb s) @ tagged \<sigma> out \<and> recs_hold (S(\<sigma> \<mapsto> st)) (rr_recs s') \<and>
         sel_state B (rr_bsr s') (set (past @ probes a \<sigma> frs)))"
proof -
  let ?b = "c_block (rr_d s)" and ?disc = "q_discard_invalid_records ops"
  obtain junk where h: "rinv ?b" "block_session ?b = \<sigma>" "b_BlockNumber ?b = num" "frs \<noteq> []" "frags_wf frs"
    "rest ?b = concat (map frag_bytes frs) @ junk" "length junk < 12" "frag_cut (last frs) \<longrightarrow> junk = []"
    using b by (auto simp: holds_frags_def)
  obtain p bad where pb: "enter_block ?disc (S \<sigma>) num = (p, bad)" by (metis prod.exhaust)
  obtain i recs1 where e: "(case find_open ?b (rr_recs s) of
        Some i \<Rightarrow> (i, (rr_recs s)[i := check_order ops ?b (rr_recs s ! i)])
      | None \<Rightarrow> (0, new_open (q_new_data ops) # rr_recs s)) = (i, recs1)"
    "part_of \<sigma> p (o_rec (recs1 ! i))" "o_invalid (recs1 ! i) = bad" "o_bsr (recs1 ! i) = None"
    "\<And>st orec. open_session orec = \<sigma> \<Longrightarrow> open_as st orec \<Longrightarrow> recs_hold (S(\<sigma> \<mapsto> st)) (recs1[i := orec])"
    by (rule process_block_entry [OF S, of ops ?b p bad]) (use pb h(2,3) that in auto)
  let ?o = "(recs1 ! i)\<lparr>o_rec := (o_rec (recs1 ! i))\<lparr>r_state_bits := 0\<rparr>, o_BlockNumber := num\<rparr>"
  have at: "at_frags ops B vol past s (concat (map frag_bytes frs) @ junk)" using h sel by (simp add: at_frags_def)
  have o: "part_of \<sigma> p (o_rec ?o)" "o_bsr ?o = None" "\<not> is_block_marked_empty (o_rec ?o)" "o_invalid ?o = bad" "o_BlockNumber ?o = num"
    using e(2-4) part_of_start(3) by (simp_all add: is_block_marked_empty_def)
  have "\<exists>fin s' orec'. record_loop ops True s ?o no_FileIndex = Some (Inr (True, fin, s', orec')) \<and>
      block_done B vol a \<sigma> past future s ?o p (o_invalid ?o) frs fin s' orec'"
    by (rule record_loop_frags [OF ops h(7) at _ h(5) lab o(1) _ o(2) _ h(2) sel(3) q]) (use h(8) en pb o(3) in simp_all)
  then obtain fin s' orec' where l: "record_loop ops True s ?o no_FileIndex = Some (Inr (True, fin, s', orec'))"
    and d: "block_done B vol a \<sigma> past future s ?o p bad frs fin s' orec'" unfolding o(4) by blast
  have pr: "process_block ops s = Some (Inr (True, fin, s'\<lparr>rr_recs := recs1[i := orec']\<rparr>))"
    unfolding process_block_def Let_def e(1) h(3) prod.case l by simp
  obtain out p' bad' where run: "run_frags (chosen B vol a \<sigma>) p bad frs = (out, p', bad')" by (metis prod_cases3)
  have sb: "session_block (chosen B vol a \<sigma>) ?disc (S \<sigma>) num frs = (out, p', num, bad')"
    by (simp add: session_block_def pb run)
  have place: "same_place s s'" "o_BlockNumber orec' = num" using d o(5) by (auto simp: block_done_def)
  then have sp: "same_place s (s'\<lparr>rr_recs := recs1[i := orec'], rr_recs := rr_recs s\<rparr>)" by (simp add: same_place_def)
  show ?thesis
  proof (cases fin)
    case True
    then show ?thesis
      using pr sp d by (intro exI [of _ True] exI [of _ "s'\<lparr>rr_recs := recs1[i := orec']\<rparr>"]) (simp add: sb block_done_def run)
  next
    case False
    then have g: "map view (rr_cb s') = map view (rr_cb s) @ tagged \<sigma> out" "part_of \<sigma> p' (o_rec orec')" "o_invalid orec' = bad'"
      "o_bsr orec' = None" "sel_state B (rr_bsr s') (set (past @ probes a \<sigma> frs))" "open_session orec' = \<sigma>"
      using d h(4) by (auto simp: block_done_def run)
    have "recs_hold (S(\<sigma> \<mapsto> (p', num, bad'))) (recs1[i := orec'])"
      by (rule e(5)) (use g place(2) in \<open>auto simp: open_as_def\<close>)
    then show ?thesis
      using pr sp g False by (intro exI [of _ False] exI [of _ "s'\<lparr>rr_recs := recs1[i := orec']\<rparr>"]) (simp add: sb)
  qed
qed

end
