(* ===== verification/Read_Volume.thy ===== *)
theory Read_Volume
  imports Read_Restore
begin

text \<open>
  \<^verbatim>\<open>read_records\<close> on a file of blocks: with the block reader underneath, the whole of
  \<^verbatim>\<open>src/bacula/src/stored/read_records.c\<close> refines the abstract reader of the sessions, to the end of the last
  Volume or until the bootstrap records are exhausted.
\<close>

section \<open>The blocks of a Volume\<close>

text \<open>A block: its session, its number in the session, the address of its last byte and its fragments.\<close>

type_synonym vblock = "session \<times> u32 \<times> u64 \<times> frag list"

fun volume_out ::
  "(u64 \<Rightarrow> session \<Rightarrow> frag \<Rightarrow> bool) \<Rightarrow> bool \<Rightarrow> (session \<Rightarrow> open_state option) \<Rightarrow> vblock list \<Rightarrow> delivered list" where
  "volume_out ch discard S [] = []"
| "volume_out ch discard S ((\<sigma>, num, a, frs) # vbs) =
     (case session_block (ch a \<sigma>) discard (S \<sigma>) num frs of
        (out, st) \<Rightarrow> tagged \<sigma> out @ volume_out ch discard (S(\<sigma> \<mapsto> st)) vbs)"

text \<open>Every block has fragments, a continuation is of the stream that is open, and labels are readable.\<close>

fun acceptable ::
  "(u64 \<Rightarrow> session \<Rightarrow> frag \<Rightarrow> bool) \<Rightarrow> bool \<Rightarrow> (session \<Rightarrow> open_state option) \<Rightarrow> vblock list \<Rightarrow> bool" where
  "acceptable ch discard S [] \<longleftrightarrow> True"
| "acceptable ch discard S ((\<sigma>, num, a, frs) # vbs) \<longleftrightarrow>
     frs \<noteq> [] \<and> frags_wf frs \<and> continues (fst (enter_block discard (S \<sigma>) num)) (hd frs) \<and>
     acceptable ch discard (S(\<sigma> \<mapsto> snd (session_block (ch a \<sigma>) discard (S \<sigma>) num frs))) vbs"

definition labels_ok :: "bool \<Rightarrow> vblock list \<Rightarrow> bool" where
  "labels_ok big vbs \<longleftrightarrow> list_all (\<lambda>(\<sigma>, num, a, frs). list_all (label_ok big) frs) vbs"

definition all_probes :: "vblock list \<Rightarrow> dev_record list" where
  "all_probes vbs = concat (map (\<lambda>(\<sigma>, num, a, frs). probes a \<sigma> frs) vbs)"

lemma all_probes_Cons [simp]: "all_probes [] = []" "all_probes ((\<sigma>, num, a, frs) # vbs) = probes a \<sigma> frs @ all_probes vbs"
  by (simp_all add: all_probes_def)

text \<open>Valid images of the blocks, one after the other from a position.\<close>

definition image_for :: "blk_env \<Rightarrow> nat \<Rightarrow> session \<Rightarrow> u32 \<Rightarrow> frag list \<Rightarrow> u8 list \<Rightarrow> bool" where
  "image_for env cap \<sigma> num frs img \<longleftrightarrow>
     (\<exists>opts len cs. img = block_image opts len num (fst \<sigma>) (snd \<sigma>) cs (concat (map frag_bytes frs)) \<and>
        unat len = 32 + length (concat (map frag_bytes frs)) \<and> unat len \<le> cap \<and> len \<le> MAX_BLOCK_LENGTH \<and>
        opts AND BLKHOPT_ENCRYPT_BLOCK = 0 \<and>
        cs = e_xxh env (block_image opts len num (fst \<sigma>) (snd \<sigma>) 0 (concat (map frag_bytes frs))))"

fun images_at :: "blk_env \<Rightarrow> nat \<Rightarrow> nat \<Rightarrow> u8 list list \<Rightarrow> vblock list \<Rightarrow> bool" where
  "images_at env cap pos [] [] \<longleftrightarrow> True"
| "images_at env cap pos (img # imgs) ((\<sigma>, num, a, frs) # vbs) \<longleftrightarrow>
     image_for env cap \<sigma> num frs img \<and> a = of_nat pos + of_nat (length img) - 1 \<and> images_at env cap (pos + length img) imgs vbs"
| "images_at env cap pos imgs vbs \<longleftrightarrow> False"

lemma volume_out_no_more:
  assumes "\<forall>x \<in> set (all_probes vbs). \<not> selects B vol x"
  shows "filter file_record (volume_out (chosen B vol) discard S vbs) = []"
  using assms
proof (induction vbs arbitrary: S)
  case (Cons vb vbs)
  obtain \<sigma> num a frs where vb: "vb = (\<sigma>, num, a, frs)" by (metis prod_cases4)
  have n: "\<forall>x \<in> set (probes a \<sigma> frs). \<not> selects B vol x" "\<forall>x \<in> set (all_probes vbs). \<not> selects B vol x"
    using Cons.prems by (auto simp: vb)
  show ?case
    using run_frags_no_more [OF n(1), of "fst (enter_block discard (S \<sigma>) num)" "snd (enter_block discard (S \<sigma>) num)"] Cons.IH [OF n(2)]
    by (simp add: vb session_block_def case_prod_beta)
qed simp

text \<open>The end of the file: the first read there sees the end of the file, the second the end of the Volume.\<close>

lemma read_at_end:
  assumes "reader d" and "length (f_bytes (w_os d)) \<le> f_pos (w_os d)"
  shows "\<exists>d'. read_block_from_dev (file_ops env) d = Some (Inr (False, d')) \<and> s_EOF (w_st d') \<and>
    (s_EOT (w_st d') \<longleftrightarrow> s_EOF (w_st d)) \<and> w_os d' = w_os d \<and> (\<not> s_EOF (w_st d) \<longrightarrow> reader d')"
proof -
  let ?d = "set_block_position d"
  have r: "\<not> j_canceled (w_jcr d)" "s_enabled (w_st d)" "\<not> s_EOT (w_st d)" "s_is_open (w_st d)"
    using assms(1) by (auto simp: reader_def)
  have st: "read_block_step (file_ops env) 0 ?d = Inr (Done False (read_eof (file_ops env) ?d))"
    using assms(2) by (simp add: read_block_step_def open_next_part_def file_read_retry file_ops_def file_read_def set_block_position_def Let_def)
  let ?e = "read_eof (file_ops env) ?d"
  have "read_block_from_dev (file_ops env) d = Some (Inr (False, ?e))"
    using r st unfolding read_block_from_dev_def read_block_loop.simps [of _ 0 ?d] st by simp
  moreover have "s_EOF (w_st ?e)" "s_EOT (w_st ?e) \<longleftrightarrow> s_EOF (w_st d)" "w_os ?e = w_os d"
    using r(3) by (simp_all add: read_eof_def set_ateof_def eof_is_eot_def set_read_len_def set_block_position_def Let_def)
  moreover have "reader ?e" if "\<not> s_EOF (w_st d)"
    using assms(1) that by (simp add: reader_def read_eof_def set_ateof_def eof_is_eot_def set_read_len_def set_block_position_def Let_def)
  ultimately show ?thesis by blast
qed

text \<open>There is no further Volume.\<close>

definition last_volume :: "('os, 'cb) rr_ops \<Rightarrow> bool" where
  "last_volume ops \<longleftrightarrow> (\<forall>s. fst (q_mount_cb ops s) = False \<and> rr_cb (snd (q_mount_cb ops s)) = rr_cb s)"

lemma mount_next_vol_last:
  assumes "collects ops" and "last_volume ops"
  shows "\<exists>s'. mount_next_vol ops s = Some (Inr (True, True, s')) \<and>
    map view (rr_cb s') = map view (rr_cb s) @ [(False, (0, 0), EOT_LABEL, 0, [])]"
proof -
  obtain s1 where s1: "q_mount_cb ops (set_d (q_volume_unused ops) s) = (False, s1)" "rr_cb s1 = rr_cb s"
    using assms(2) [unfolded last_volume_def, rule_format, of "set_d (q_volume_unused ops) s"]
    by (cases "q_mount_cb ops (set_d (q_volume_unused ops) s)") simp
  then show ?thesis
    using assms(1) by (auto simp: mount_next_vol_def call_record_cb_def collects_def Let_def view_def got_def new_open_def new_record_def)
qed

lemma read_loop_step:
  assumes "\<not> j_canceled (w_jcr (rr_d s))" and "next_block ops s = Some (Inr (ok, fin, s'))"
  shows "read_loop ops True False s = read_loop ops ok fin s'"
  using assms by (simp add: read_loop.simps [of ops True False s])

lemma read_loop_stop: "read_loop ops ok True s = Some (Inr (ok, s))"
  by (simp add: read_loop.simps)

lemma read_loop_eot:
  assumes "collects ops" "last_volume ops" "q_read ops = file_ops env" "reader (rr_d s)" "s_EOF (w_st (rr_d s))"
    and "length (f_bytes (w_os (rr_d s))) \<le> f_pos (w_os (rr_d s))"
  shows "\<exists>s'. read_loop ops True False s = Some (Inr (True, s')) \<and>
    map view (rr_cb s') = map view (rr_cb s) @ [(False, (0, 0), EOT_LABEL, 0, [])]"
proof -
  obtain d' where d: "read_block_from_dev (file_ops env) (rr_d s) = Some (Inr (False, d'))" "s_EOT (w_st d')"
    using read_at_end [OF assms(4,6), of env] assms(5) by blast
  obtain s' where m: "mount_next_vol ops (set_d (Jmsg M_INFO) (s\<lparr>rr_d := d'\<rparr>)) = Some (Inr (True, True, s'))"
    "map view (rr_cb s') = map view (rr_cb s) @ [(False, (0, 0), EOT_LABEL, 0, [])]"
    using mount_next_vol_last [OF assms(1,2), of "set_d (Jmsg M_INFO) (s\<lparr>rr_d := d'\<rparr>)"] by auto
  have r: "\<not> j_canceled (w_jcr (rr_d s))" "\<not> s_EOT (w_st (rr_d s))" using assms(4) by (auto simp: reader_def)
  have "next_block ops s = Some (Inr (True, True, s'))"
    unfolding next_block_def Let_def assms(3) d(1) using r(2) d(2) m(1) by simp
  from read_loop_step [OF r(1) this] show ?thesis using m(2) by (simp add: read_loop_stop)
qed

lemma read_loop_end:
  assumes "collects ops" "last_volume ops" "q_read ops = file_ops env" "reader (rr_d s)"
    and "length (f_bytes (w_os (rr_d s))) \<le> f_pos (w_os (rr_d s))"
  shows "\<exists>s'. read_loop ops True False s = Some (Inr (True, s')) \<and>
    map view (rr_cb s') = map view (rr_cb s) @ [(False, (0, 0), EOT_LABEL, 0, [])]"
proof (cases "s_EOF (w_st (rr_d s))")
  case False
  obtain d' where d: "read_block_from_dev (file_ops env) (rr_d s) = Some (Inr (False, d'))" "s_EOF (w_st d')" "\<not> s_EOT (w_st d')"
    "w_os d' = w_os (rr_d s)" "reader d'"
    using read_at_end [OF assms(4,5), of env] False by blast
  have r: "\<not> j_canceled (w_jcr (rr_d s))" "\<not> s_EOT (w_st (rr_d s))" using assms(4) by (auto simp: reader_def)
  have "next_block ops s = Some (Inr (True, False, s\<lparr>rr_d := d'\<rparr>))"
    unfolding next_block_def Let_def assms(3) d(1) using r(2) d(2,3) by simp
  from read_loop_step [OF r(1) this] read_loop_eot [OF assms(1-3), of "s\<lparr>rr_d := d'\<rparr>"] show ?thesis
    using d assms(5) by simp
qed (use read_loop_eot assms in blast)

lemma reader_same_place:
  assumes "same_place s s'" and "reader (rr_d s)"
  shows "reader (rr_d s')"
  using assms by (simp add: same_place_def reader_def block_frame_def)

text \<open>One block of the file.\<close>

lemma read_image_block:
  assumes "reader d" "placed d" and "drop (f_pos (w_os d)) (f_bytes (w_os d)) = img @ suf"
    and "image_for env (unat (b_buf_len (c_block d))) \<sigma> num frs img" "frs \<noteq> []" "frags_wf frs"
  shows "\<exists>d'. read_block_from_dev (file_ops env) d = Some (Inr (True, d')) \<and> reader d' \<and> placed d' \<and> holds_frags (c_block d') \<sigma> num frs \<and>
    b_buf_len (c_block d') = b_buf_len (c_block d) \<and> w_os d' = (w_os d)\<lparr>f_pos := f_pos (w_os d) + length img\<rparr> \<and>
    d_EndAddr (w_dev d') = of_nat (f_pos (w_os d)) + of_nat (length img) - 1 \<and> s_VolumeName (w_st d') = s_VolumeName (w_st d)"
proof -
  let ?pl = "concat (map frag_bytes frs)"
  obtain opts len cs where i: "img = block_image opts len num (fst \<sigma>) (snd \<sigma>) cs ?pl" "unat len = 32 + length ?pl"
    "unat len \<le> unat (b_buf_len (c_block d))" "len \<le> MAX_BLOCK_LENGTH" "opts AND BLKHOPT_ENCRYPT_BLOCK = 0"
    "cs = e_xxh env (block_image opts len num (fst \<sigma>) (snd \<sigma>) 0 ?pl)"
    using assms(4) by (auto simp: image_for_def)
  have at: "at_block d opts len num (fst \<sigma>) (snd \<sigma>) cs ?pl"
    using assms(3) i by (auto simp: at_block_def word_le_nat_alt)
  obtain d' where r: "read_block_from_dev (file_ops env) d = Some (Inr (True, d'))" "reader d'"
    "rinv (c_block d')" "rest (c_block d') = ?pl" "b_VolSessionId (c_block d') = fst \<sigma>" "b_VolSessionTime (c_block d') = snd \<sigma>"
    "b_BlockNumber (c_block d') = num" "b_buf_len (c_block d') = b_buf_len (c_block d)"
    "w_os d' = (w_os d)\<lparr>f_pos := f_pos (w_os d) + unat len\<rparr>" "placed d'"
    "d_EndAddr (w_dev d') = of_nat (f_pos (w_os d)) + ucast len - 1" "s_VolumeName (w_st d') = s_VolumeName (w_st d)"
    using read_image [OF assms(1) at i(6)] assms(2) by blast
  have l: "length img = unat len" using i(1,2) by (simp add: block_image_def)
  have "(ucast len :: u64) = of_nat (length img)" unfolding l by (simp add: unsigned_of_nat)
  moreover have "holds_frags (c_block d') \<sigma> num frs"
    using r assms(5,6) by (auto simp: holds_frags_def intro: exI [of _ "[]"])
  ultimately show ?thesis using r l by auto
qed

lemma next_block_read:
  assumes "q_read ops = file_ops env" "reader (rr_d s)" "read_block_from_dev (file_ops env) (rr_d s) = Some (Inr (True, d'))"
  shows "next_block ops s = process_block ops (s\<lparr>rr_d := d'\<rparr>)"
proof -
  have "\<not> s_EOT (w_st (rr_d s))" using assms(2) by (simp add: reader_def)
  then show ?thesis unfolding next_block_def Let_def assms(1,3) by simp
qed

lemma read_loop_volume:
  assumes ops: "quiet_ops ops" "plain_chain B" "last_volume ops" "q_read ops = file_ops env"
    and rd: "reader (rr_d s)" "placed (rr_d s)" "drop (f_pos (w_os (rr_d s))) (f_bytes (w_os (rr_d s))) = concat imgs"
      "images_at env (unat (b_buf_len (c_block (rr_d s)))) (f_pos (w_os (rr_d s))) imgs vbs"
    and acc: "acceptable (chosen B vol) (q_discard_invalid_records ops) S vbs" "labels_ok (e_big env) vbs"
    and st: "recs_hold S (rr_recs s)" "sel_state B (rr_bsr s) (set past)" "s_VolumeName (w_st (rr_d s)) = vol"
      "in_sequence B (past @ all_probes vbs)"
  shows "\<exists>s'. read_loop ops True False s = Some (Inr (True, s')) \<and>
    filter file_record (map view (rr_cb s')) =
    filter file_record (map view (rr_cb s) @ volume_out (chosen B vol) (q_discard_invalid_records ops) S vbs)"
  using rd acc st
proof (induction vbs arbitrary: imgs s S past)
  case Nil
  have "imgs = []" using Nil.prems(4) by (cases imgs) auto
  then have "length (f_bytes (w_os (rr_d s))) \<le> f_pos (w_os (rr_d s))" using Nil.prems(3) by simp
  from read_loop_end [OF _ ops(3,4) Nil.prems(1) this] ops(1) obtain s' where
    "read_loop ops True False s = Some (Inr (True, s'))" "map view (rr_cb s') = map view (rr_cb s) @ [(False, (0, 0), EOT_LABEL, 0, [])]"
    by (auto simp: quiet_ops_def)
  then show ?case by (auto simp: EOT_LABEL_def)
next
  case (Cons vb vbs)
  let ?disc = "q_discard_invalid_records ops" and ?d = "rr_d s"
  obtain \<sigma> num a frs where vb: "vb = (\<sigma>, num, a, frs)" by (metis prod_cases4)
  obtain img imgs' where imgs: "imgs = img # imgs'" using Cons.prems(4) by (cases imgs) auto
  have im: "image_for env (unat (b_buf_len (c_block ?d))) \<sigma> num frs img" "a = of_nat (f_pos (w_os ?d)) + of_nat (length img) - 1"
    "images_at env (unat (b_buf_len (c_block ?d))) (f_pos (w_os ?d) + length img) imgs' vbs"
    using Cons.prems(4) by (auto simp: vb imgs)
  have ac: "frs \<noteq> []" "frags_wf frs" "list_all (label_ok (e_big env)) frs" "continues (fst (enter_block ?disc (S \<sigma>) num)) (hd frs)"
    using Cons.prems(5,6) by (auto simp: vb labels_ok_def)
  have "drop (f_pos (w_os ?d)) (f_bytes (w_os ?d)) = img @ concat imgs'" using Cons.prems(3) by (simp add: imgs)
  from read_image_block [OF Cons.prems(1,2) this im(1) ac(1,2)] obtain d1 where d1:
    "read_block_from_dev (file_ops env) ?d = Some (Inr (True, d1))" "reader d1" "placed d1" "holds_frags (c_block d1) \<sigma> num frs"
    "b_buf_len (c_block d1) = b_buf_len (c_block ?d)" "w_os d1 = (w_os ?d)\<lparr>f_pos := f_pos (w_os ?d) + length img\<rparr>"
    "d_EndAddr (w_dev d1) = a" "s_VolumeName (w_st d1) = vol"
    using im(2) Cons.prems(9) by auto
  let ?s1 = "s\<lparr>rr_d := d1\<rparr>"
  have seq: "in_sequence B (past @ probes a \<sigma> frs @ all_probes vbs)" using Cons.prems(10) by (simp add: vb)
  obtain out st where sb: "session_block (chosen B vol a \<sigma>) ?disc (S \<sigma>) num frs = (out, st)" by (metis prod.exhaust)
  have big: "e_big (i_env (q_read ops)) = e_big env" by (simp add: ops(4) file_ops_def)
  have s1: "holds_frags (c_block (rr_d ?s1)) \<sigma> num frs" "recs_hold S (rr_recs ?s1)" "sel_state B (rr_bsr ?s1) (set past)"
    "s_VolumeName (w_st (rr_d ?s1)) = vol" "d_EndAddr (w_dev (rr_d ?s1)) = a" "rr_cb ?s1 = rr_cb s"
    using d1(4,7,8) Cons.prems(7,8) by simp_all
  obtain fin s2 where p: "process_block ops ?s1 = Some (Inr (True, fin, s2))" "same_place ?s1 (s2\<lparr>rr_recs := rr_recs ?s1\<rparr>)"
    and res: "if fin then filter file_record (map view (rr_cb s2)) = filter file_record (map view (rr_cb s) @ tagged \<sigma> out) \<and>
         (\<forall>x \<in> set (all_probes vbs). \<not> selects B vol x)
       else map view (rr_cb s2) = map view (rr_cb s) @ tagged \<sigma> out \<and> recs_hold (S(\<sigma> \<mapsto> st)) (rr_recs s2) \<and>
         sel_state B (rr_bsr s2) (set (past @ probes a \<sigma> frs))"
    using process_block_refines [OF ops(1,2) s1(1) ac(3) [folded big] s1(2) ac(4) s1(3-5) seq] unfolding sb s1(6) prod.case by blast
  have nb: "next_block ops s = Some (Inr (True, fin, s2))" using next_block_read [OF ops(4) Cons.prems(1) d1(1)] p(1) by simp
  have loop: "read_loop ops True False s = read_loop ops True fin s2"
    using read_loop_step [OF _ nb] Cons.prems(1) by (simp add: reader_def)
  have vo: "volume_out (chosen B vol) ?disc S (vb # vbs) = tagged \<sigma> out @ volume_out (chosen B vol) ?disc (S(\<sigma> \<mapsto> st)) vbs"
    by (simp add: vb sb)
  show ?case
  proof (cases fin)
    case True
    then show ?thesis
      using loop res volume_out_no_more [of vbs B vol ?disc "S(\<sigma> \<mapsto> st)"] unfolding vo by (simp add: read_loop_stop)
  next
    case False
    have fr: "w_os (rr_d s2) = w_os d1" "w_st (rr_d s2) = w_st d1" "b_buf_len (c_block (rr_d s2)) = b_buf_len (c_block d1)" "reader (rr_d s2)"
      using p(2) reader_same_place [OF p(2)] d1(2) by (simp_all add: same_place_def block_frame_def)
    have dr: "drop (f_pos (w_os (rr_d s2))) (f_bytes (w_os (rr_d s2))) = concat imgs'"
      using Cons.prems(3) by (simp add: fr d1(6) imgs add.commute drop_drop [symmetric])
    have "\<exists>s'. read_loop ops True False s2 = Some (Inr (True, s')) \<and>
        filter file_record (map view (rr_cb s')) =
        filter file_record (map view (rr_cb s2) @ volume_out (chosen B vol) ?disc (S(\<sigma> \<mapsto> st)) vbs)"
    proof (rule Cons.IH [OF fr(4) _ dr])
      show "placed (rr_d s2)" using d1(3) fr(1,2) by (simp add: placed_def)
      show "images_at env (unat (b_buf_len (c_block (rr_d s2)))) (f_pos (w_os (rr_d s2))) imgs' vbs" using im(3) fr d1(5,6) by simp
      show "acceptable (chosen B vol) ?disc (S(\<sigma> \<mapsto> st)) vbs" "labels_ok (e_big env) vbs"
        using Cons.prems(5,6) sb by (simp_all add: vb labels_ok_def)
      show "recs_hold (S(\<sigma> \<mapsto> st)) (rr_recs s2)" "sel_state B (rr_bsr s2) (set (past @ probes a \<sigma> frs))" using res False by simp_all
      show "s_VolumeName (w_st (rr_d s2)) = vol" using fr(2) d1(8) by simp
      show "in_sequence B ((past @ probes a \<sigma> frs) @ all_probes vbs)" using seq by simp
    qed
    then show ?thesis using loop res False unfolding vo by simp
  qed
qed

lemma position_to_first_file_off:
  assumes "\<not> q_positionblocks ops" and "sel_state B (rr_bsr s) past"
  shows "rr_d (position_to_first_file ops s) = rr_d s" "rr_cb (position_to_first_file ops s) = rr_cb s"
    "rr_recs (position_to_first_file ops s) = rr_recs s" "sel_state B (rr_bsr (position_to_first_file ops s)) past"
proof -
  have f: "find_next_bsr False h vol = (None, h)" for h vol by (auto simp: find_next_bsr_def split: list.splits)
  show "rr_d (position_to_first_file ops s) = rr_d s" "rr_cb (position_to_first_file ops s) = rr_cb s"
    "rr_recs (position_to_first_file ops s) = rr_recs s"
    using assms(1) f by (simp_all add: position_to_first_file_def Let_def get_bsr_start_addr_def split: option.splits)
  show "sel_state B (rr_bsr (position_to_first_file ops s)) past"
    using assms f by (auto simp: position_to_first_file_def Let_def get_bsr_start_addr_def sel_state_def split: option.splits)
qed


lemma read_records_volume:
  assumes ops: "quiet_ops ops" "plain_chain (rr_bsr s)" "last_volume ops" "q_read ops = file_ops env"
    and rd: "reader (rr_d s)" "placed (rr_d s)" "drop (f_pos (w_os (rr_d s))) (f_bytes (w_os (rr_d s))) = concat imgs"
      "images_at env (unat (b_buf_len (c_block (rr_d s)))) (f_pos (w_os (rr_d s))) imgs vbs"
    and acc: "s_VolumeName (w_st (rr_d s)) = vol"
      "acceptable (chosen (rr_bsr s) vol) (q_discard_invalid_records ops) Map.empty vbs" "labels_ok (e_big env) vbs"
      "in_sequence (rr_bsr s) (all_probes vbs)"
  shows "\<exists>s'. read_records ops s = Some (Inr (True, s')) \<and>
    filter file_record (map view (rr_cb s')) =
    filter file_record (map view (rr_cb s) @ volume_out (chosen (rr_bsr s) vol) (q_discard_invalid_records ops) Map.empty vbs)"
proof -
  let ?s0 = "s\<lparr>rr_recs := []\<rparr>" and ?B = "rr_bsr s"
  let ?s1 = "(position_to_first_file ops ?s0)\<lparr>rr_mount_next_volume := False\<rparr>"
  have np: "\<not> q_positionblocks ops" using ops(1) by (simp add: quiet_ops_def)
  have "sel_state ?B (rr_bsr ?s0) {}" using sel_state_start [OF ops(2)] by simp
  note pf = position_to_first_file_off [OF np this]
  have s1: "rr_d ?s1 = rr_d s" "rr_cb ?s1 = rr_cb s" "rr_recs ?s1 = []" "sel_state ?B (rr_bsr ?s1) (set [])"
    using pf by simp_all
  have "recs_hold Map.empty (rr_recs ?s1)" using s1(3) by (simp add: recs_hold_def)
  from read_loop_volume [OF ops(1-4), of ?s1 imgs vbs vol Map.empty "[]"] rd acc s1 this obtain s' where
    "read_loop ops True False ?s1 = Some (Inr (True, s'))"
    "filter file_record (map view (rr_cb s')) =
     filter file_record (map view (rr_cb s) @ volume_out (chosen ?B vol) (q_discard_invalid_records ops) Map.empty vbs)"
    by auto
  then show ?thesis by (simp add: read_records_def Let_def)
qed

text \<open>A session does not see the blocks of the others.\<close>

lemma volume_out_cong:
  assumes "\<forall>vb \<in> set vbs. fst vb = \<sigma>" and "S \<sigma> = T \<sigma>"
  shows "volume_out ch discard S vbs = volume_out ch discard T vbs"
  using assms
proof (induction vbs arbitrary: S T)
  case (Cons vb vbs)
  obtain num a frs where vb: "vb = (\<sigma>, num, a, frs)" using Cons.prems(1) by (cases vb) auto
  have "volume_out ch discard (S(\<sigma> \<mapsto> st)) vbs = volume_out ch discard (T(\<sigma> \<mapsto> st)) vbs" for st
    using Cons.prems(1) by (intro Cons.IH) simp_all
  then show ?case unfolding vb volume_out.simps Cons.prems(2) by (simp only: case_prod_beta)
qed simp

lemma volume_out_session:
  "filter (\<lambda>x. fst (snd x) = \<sigma>) (volume_out ch discard S vbs) = volume_out ch discard S (filter (\<lambda>vb. fst vb = \<sigma>) vbs)"
proof (induction vbs arbitrary: S)
  case (Cons vb vbs)
  obtain \<tau> num a frs where vb: "vb = (\<tau>, num, a, frs)" by (metis prod_cases4)
  have t: "filter (\<lambda>x. fst (snd x) = \<sigma>) (tagged \<rho> out) = (if \<rho> = \<sigma> then tagged \<rho> out else [])" for \<rho> out
    by (induction out) (auto simp: tagged_def)
  show ?case
  proof (cases "\<tau> = \<sigma>")
    case True
    then show ?thesis by (simp add: vb case_prod_beta t Cons.IH fun_upd_def)
  next
    case False
    have "volume_out ch discard (S(\<tau> \<mapsto> st)) (filter (\<lambda>vb. fst vb = \<sigma>) vbs) = volume_out ch discard S (filter (\<lambda>vb. fst vb = \<sigma>) vbs)" for st
      using False by (intro volume_out_cong [where \<sigma> = \<sigma>]) auto
    then show ?thesis using False by (simp add: vb case_prod_beta t Cons.IH fun_upd_def)
  qed
qed simp

section \<open>The loop over a block ends\<close>

definition loop_ok :: "('os, 'cb) rr \<Rightarrow> open_rec \<Rightarrow> bool" where
  "loop_ok s orec \<longleftrightarrow>
     rinv (c_block (rr_d s)) \<and> (r_rstate (o_rec orec) = st_none \<or> r_rstate (o_rec orec) = st_header)"

text \<open>What happens to a record that was read leaves the block and the length and state of the record as they are.\<close>

definition same_data_rec :: "dev_record \<Rightarrow> dev_record \<Rightarrow> bool" where
  "same_data_rec r r' \<longleftrightarrow> r_data_len r' = r_data_len r \<and> r_rstate r' = r_rstate r"

lemma unser_keeps:
  "unser_volume_label mem big forge h rec = Some (ok, h', rec') \<Longrightarrow> same_data_rec rec rec'"
  "unser_session_label mem big l rec = Some (l', rec') \<Longrightarrow> same_data_rec rec rec'"
  by (auto simp: unser_volume_label_def unser_session_label_def same_data_rec_def Let_def split: if_splits)

lemma label_record_keeps:
  assumes "label_record ops s orec lfi = Inr (nxt, s', orec', lfi')"
  shows "c_block (rr_d s') = c_block (rr_d s) \<and> same_data_rec (o_rec orec) (o_rec orec')"
  using assms unser_keeps
  by (fastforce simp: label_record_def handle_session_record_def call_record_cb_def Let_def same_data_rec_def
      split: option.splits prod.splits if_splits)

lemma try_repositioning_keeps:
  assumes "try_repositioning ops h s orec = (False, s', orec')"
  shows "rr_d s' = rr_d s \<and> orec' = orec"
  using assms by (auto simp: try_repositioning_def Let_def split: prod.splits if_splits option.splits)

lemma bsr_done_keeps:
  assumes "bsr_done_reposition ops s orec = (False, s', orec')"
  shows "rr_d s' = rr_d s \<and> o_rec orec' = o_rec orec"
  using assms by (auto simp: bsr_done_reposition_def Let_def split: prod.splits if_splits option.splits dest!: try_repositioning_keeps)

lemma data_record_keeps:
  assumes "data_record ops s orec lfi = (Again ok, s', orec', lfi')"
  shows "c_block (rr_d s') = c_block (rr_d s) \<and> same_data_rec (o_rec orec) (o_rec orec')"
proof -
  have dv: "c_block (rr_d s') = c_block (rr_d s) \<and> same_data_rec (o_rec orec) (o_rec orec')"
    if "deliver_record ops s orec lfi = (Again ok, s', orec', lfi')" for s orec
  proof -
    have "\<not> is_partial_record (o_rec orec)" using that by (auto simp: deliver_record_def Let_def)
    then show ?thesis
      using that by (auto simp: deliver_record_def call_record_cb_def Let_def same_data_rec_def
          split: prod.splits if_splits dest!: bsr_done_keeps)
  qed
  show ?thesis
  proof (cases "rr_bsr s")
    case None
    then show ?thesis using assms dv by (simp add: data_record_def)
  next
    case (Some h)
    obtain stat k h' where m: "match_bsr (q_unpack ops) h (o_rec orec) (s_VolumeName (w_st (rr_d s))) (selection_label (rr_sess s)) = (stat, k, h')"
      by (metis prod_cases3)
    show ?thesis
    proof (cases "stat = 0")
      case True
      then show ?thesis
        using assms m by (auto simp: data_record_def Some Let_def same_data_rec_def split: prod.splits if_splits dest!: try_repositioning_keeps)
    next
      case False
      then show ?thesis
        using assms m by (auto simp: data_record_def Some Let_def split: if_splits dest!: dv)
    qed
  qed
qed

lemma record_step_keeps:
  assumes ok: "loop_ok s orec" and st: "record_step ops s orec lfi = Inr (Again ok, s', orec', lfi')"
  shows "loop_ok s' orec' \<and> length (rest (c_block (rr_d s'))) < length (rest (c_block (rr_d s)))"
proof -
  let ?b = "c_block (rr_d s)"
  let ?rd = "read_record_from_block (e_big (i_env (q_read ops))) (i_mem (q_read ops)) (w_dev (rr_d s)) (rr_CurrentVol s) ?b (o_rec orec)"
  let ?s1 = "\<lambda>b' ms. set_d (\<lambda>d. w_jcr_update (\<lambda>j. j\<lparr>j_msgs := j_msgs j @ ms\<rparr>) (d\<lparr>c_block := b'\<rparr>)) s"
  obtain b' rec' ms where r: "?rd = Inr (True, b', rec', ms)"
    and h: "label_record ops (?s1 b' ms) (orec\<lparr>o_rec := rec'\<rparr>) lfi = Inr (Again ok, s', orec', lfi') \<or>
      data_record ops (?s1 b' ms) (orec\<lparr>o_rec := rec'\<rparr>) lfi = (Again ok, s', orec', lfi')"
    using st by (cases ?rd) (auto simp: record_step_def Let_def split: if_splits prod.splits)
  have adv: "rinv b' \<and> length (rest b') < length (rest ?b) \<and> r_rstate rec' = st_header"
    using ok by (intro read_record_advances [OF r]) (simp_all add: loop_ok_def)
  have "c_block (rr_d s') = b'" "same_data_rec rec' (o_rec orec')"
    using h label_record_keeps [of ops "?s1 b' ms" "orec\<lparr>o_rec := rec'\<rparr>"] data_record_keeps [of ops "?s1 b' ms" "orec\<lparr>o_rec := rec'\<rparr>"] by auto
  then show ?thesis using adv by (simp add: loop_ok_def same_data_rec_def)
qed

lemma record_loop_returns:
  assumes "loop_ok s orec"
  shows "\<exists>r. record_loop ops ok s orec lfi = Some r"
  using assms
proof (induction "length (rest (c_block (rr_d s)))" arbitrary: ok s orec lfi rule: less_induct)
  case less
  show ?case
  proof (cases "\<not> ok \<or> is_block_marked_empty (o_rec orec)")
    case False
    then show ?thesis
    proof (cases "record_step ops s orec lfi")
      case (Inr res)
      obtain nxt s' orec' lfi' where res: "res = (nxt, s', orec', lfi')" by (metis prod_cases4)
      show ?thesis
      proof (cases nxt)
        case (Again ok')
        note k = record_step_keeps [OF less.prems, of ops lfi ok' s' orec' lfi']
        have "\<exists>r. record_loop ops ok' s' orec' lfi' = Some r"
          using k Inr res Again by (intro less.hyps) simp_all
        then show ?thesis using False Inr res Again by (simp add: record_loop.simps [of ops _ s])
      qed (use False Inr res in \<open>simp_all add: record_loop.simps [of ops _ s]\<close>)
    qed (simp add: record_loop.simps [of ops _ s])
  qed (auto simp: record_loop.simps [of ops _ s])
qed

text \<open>
  The label of a session holds until the next label of any session: a record that follows is matched against the
  wrong label, or against an empty one.
\<close>

lemma label_clears_session:
  "r_FileIndex rec = EOS_LABEL \<Longrightarrow> handle_session_record ops s rec = Some (s\<lparr>rr_sess := blank_session\<rparr>, rec)"
  by (simp add: handle_session_record_def EOS_LABEL_def VOL_LABEL_def SOS_LABEL_def Let_def)

section \<open>Properties\<close>



text \<open>
  C7 (process_block_returns).  Whatever bytes a block of the formats BB02 and BB03 holds after its header, whatever the
  bootstrap records are and whatever the callback answers, the loop over its records ends: every record that is read
  takes at least its header from the block, and one that is not is the last.
\<close>

theorem process_block_returns:
  assumes "rinv (c_block (rr_d s))"
    and "\<forall>orec \<in> set (rr_recs s). r_rstate (o_rec orec) = st_none \<or> r_rstate (o_rec orec) = st_header"
  shows "\<exists>r. process_block ops s = Some r"
proof -
  let ?b = "c_block (rr_d s)"
  have new: "loop_ok s (new_open data)" for data
    using assms(1) by (simp add: loop_ok_def new_open_def new_record_def)
  have old: "loop_ok s (check_order ops ?b orec)" if "orec \<in> set (rr_recs s)" for orec
    using that assms by (auto simp: loop_ok_def check_order_def empty_record_def Let_def)
  have upd: "loop_ok s (orec\<lparr>o_rec := (o_rec orec)\<lparr>r_state_bits := 0\<rparr>, o_BlockNumber := n\<rparr>) = loop_ok s orec" for orec n
    by (simp add: loop_ok_def)
  obtain i recs where e: "(case find_open ?b (rr_recs s) of
        Some i \<Rightarrow> (i, (rr_recs s)[i := check_order ops ?b (rr_recs s ! i)])
      | None \<Rightarrow> (0, new_open (q_new_data ops) # rr_recs s)) = (i, recs)" by (metis prod.exhaust)
  have "loop_ok s (recs ! i)"
  proof (cases "find_open ?b (rr_recs s)")
    case None
    then show ?thesis using e new by auto
  next
    case (Some j)
    then show ?thesis using e old find_open_Some [OF Some] by auto
  qed
  then obtain r where r: "record_loop ops True s ((recs ! i)\<lparr>o_rec := (o_rec (recs ! i))\<lparr>r_state_bits := 0\<rparr>, o_BlockNumber := b_BlockNumber ?b\<rparr>)
      no_FileIndex = Some r"
    using record_loop_returns upd by blast
  show ?thesis
    unfolding process_block_def Let_def e prod.case r by (cases r) auto
qed

section \<open>Instances\<close>

definition sample_rr_ops :: "(file_os, open_rec list) rr_ops" where
  "sample_rr_ops =
     \<lparr>q_read = file_ops sample_env, q_record_cb = (\<lambda>l r. (True, l @ [r])), q_mount_cb = (\<lambda>s. (False, s)), q_volume_unused = id,
      q_lseek_set = (\<lambda>p f. (None, f\<lparr>f_pos := unat p\<rparr>)), q_tape_reposition = (\<lambda>_ d. d), q_fsr = id, q_unpack = (\<lambda>_. None),
      q_new_data = [], q_use_new_match_all = False, q_positionblocks = False, q_ignore_label_errors = False,
      q_discard_invalid_records = False\<rparr>"

definition sample_rr :: "bsr_chain option \<Rightarrow> u8 list \<Rightarrow> (file_os, open_rec list) rr" where
  "sample_rr B bs =
     \<lparr>rr_d = sample_reader bs, rr_VolHdr = blank_volume, rr_CurrentVol = ''Vol1'', rr_recs = [], rr_bsr = B,
      rr_sess = blank_session, rr_mount_next_volume = False, rr_cb = []\<rparr>"

definition sample_img :: "session \<Rightarrow> u32 \<Rightarrow> frag list \<Rightarrow> u8 list" where
  "sample_img \<sigma> num frs =
     (let ds = concat (map frag_bytes frs); len = 32 + of_nat (length ds)
      in block_image 1 len num (fst \<sigma>) (snd \<sigma>) (e_xxh sample_env (block_image 1 len num (fst \<sigma>) (snd \<sigma>) 0 ds)) ds)"

text \<open>Two sessions: a record of the first is continued behind a block of the second.\<close>

definition sample_vbs :: "vblock list" where
  "sample_vbs =
     [((3, 5), 1, 59, [(1, 2, 3, [1, 2, 3]), (1, 3, 5, [7])]), ((4, 5), 1, 105, [(9, 2, 2, [8, 8])]),
      ((3, 5), 2, 153, [(1, - 3, 4, [6, 5, 4, 3])])]"

definition sample_imgs :: "u8 list list" where
  "sample_imgs = map (\<lambda>(\<sigma>, num, a, frs). sample_img \<sigma> num frs) sample_vbs"

text \<open>A bootstrap record for file 9 of the second session.\<close>

definition sample_plain :: bsr_chain where
  "sample_plain =
     \<lparr>h_bsrs = [(sample_bsr [])\<lparr>n_sesstime := [5], n_sessid := [(4, 4)], n_FileIndex := [\<lparr>fx_findex = 9, fx_findex2 = 9\<rparr>]\<rparr>],
      h_reposition = False, h_mount_next_volume = False\<rparr>"

lemma sample_img_facts:
  assumes "length (concat (map frag_bytes frs)) < 32"
  shows "image_for sample_env 64 \<sigma> num frs (sample_img \<sigma> num frs)" "length (sample_img \<sigma> num frs) = 32 + length (concat (map frag_bytes frs))"
proof -
  let ?ds = "concat (map frag_bytes frs)"
  let ?len = "32 + of_nat (length ?ds) :: u32"
  have l: "unat ?len = 32 + length ?ds" using assms unat_of_nat_u32 [of "length ?ds"] by (simp add: unat_word_ariths)
  show "length (sample_img \<sigma> num frs) = 32 + length ?ds" by (simp add: sample_img_def block_image_def Let_def)
  show "image_for sample_env 64 \<sigma> num frs (sample_img \<sigma> num frs)"
    unfolding image_for_def sample_img_def Let_def
    by (rule exI [of _ 1], rule exI [of _ ?len], rule exI [of _ "e_xxh sample_env (block_image 1 ?len num (fst \<sigma>) (snd \<sigma>) 0 ?ds)"])
      (use assms l in \<open>simp add: MAX_BLOCK_LENGTH_def word_le_nat_alt BLKHOPT_ENCRYPT_BLOCK_def\<close>)
qed

lemma sample_images_at: "images_at sample_env 64 0 sample_imgs sample_vbs"
  by (simp add: sample_imgs_def sample_vbs_def sample_img_facts)

lemma sample_rr_facts:
  "quiet_ops sample_rr_ops" "last_volume sample_rr_ops" "q_read sample_rr_ops = file_ops sample_env"
  "reader (rr_d (sample_rr B (concat sample_imgs)))" "placed (rr_d (sample_rr B (concat sample_imgs)))"
  "w_os (rr_d (sample_rr B bs)) = \<lparr>f_bytes = bs, f_pos = 0\<rparr>" "unat (b_buf_len (c_block (rr_d (sample_rr B bs)))) = 64"
  "rr_bsr (sample_rr B bs) = B" "rr_cb (sample_rr B bs) = []" "s_VolumeName (w_st (rr_d (sample_rr B bs))) = ''Vol1''"
  "q_discard_invalid_records sample_rr_ops = False"
proof -
  show "reader (rr_d (sample_rr B (concat sample_imgs)))"
    by (simp add: sample_rr_def sample_reader_facts sample_imgs_def sample_vbs_def sample_img_facts)
  show "placed (rr_d (sample_rr B (concat sample_imgs)))"
    by (simp add: sample_rr_def placed_def sample_reader_def sample_wdcr_def disk_state_def)
  show "s_VolumeName (w_st (rr_d (sample_rr B bs))) = ''Vol1''"
    by (simp add: sample_rr_def sample_reader_def sample_wdcr_def disk_state_def)
qed (simp_all add: sample_rr_ops_def sample_rr_def quiet_ops_def last_volume_def collects_def sample_reader_facts file_ops_def)

lemma sample_plain_facts:
  "plain_chain None" "in_sequence None xs" "plain_chain (Some sample_plain)" "in_sequence (Some sample_plain) (all_probes sample_vbs)"
  by (simp_all add: plain_chain_def in_sequence_def fresh_chain_def bsr_ok_def ranges_ok_def addrs_sorted_def files_sorted_def plain_bsr_def
      sample_plain_def sample_bsr_def in_order_def follows_def of_session_def one_of_def within_def sample_vbs_def probes_def probe_def new_record_def)

lemma sample_chosen:
  "chosen None ''Vol1'' a \<sigma> f"
  "chosen (Some sample_plain) ''Vol1'' a (4, 5) (9, st, len, bs)" "\<not> chosen (Some sample_plain) ''Vol1'' a (3, 5) (1, st, len, bs)"
  by (simp_all add: chosen_def selects_def sample_plain_def sample_bsr_def wants_def one_of_def within_def covers_file_def
      match_fileregex_def probe_def new_record_def)

lemma sample_acceptable:
  "acceptable (chosen None ''Vol1'') False Map.empty sample_vbs"
  "acceptable (chosen (Some sample_plain) ''Vol1'') False Map.empty sample_vbs"
  by (simp_all add: sample_vbs_def session_block_def sample_chosen frags_wf_def plain_stream_def)

lemma sample_labels: "labels_ok big sample_vbs"
  by (simp add: labels_ok_def sample_vbs_def)

lemma sample_out:
  "filter file_record (volume_out (chosen None ''Vol1'') False Map.empty (filter (\<lambda>vb. fst vb = (3, 5)) sample_vbs)) =
     [(False, (3, 5), 1, 2, [1, 2, 3]), (False, (3, 5), 1, 3, [7, 6, 5, 4, 3])]"
  "filter file_record (volume_out (chosen (Some sample_plain) ''Vol1'') False Map.empty sample_vbs) = [(False, (4, 5), 9, 2, [8, 8])]"
  by (simp_all add: sample_vbs_def session_block_def sample_chosen plain_stream_def)



text \<open>A block of bytes that are no records.\<close>

theorem process_block_returns_witness:
  "\<exists>r. process_block sample_rr_ops
     (set_d (\<lambda>d. d\<lparr>c_block := read_block (replicate 40 0xFF)\<rparr>) (sample_rr (Some sample_plain) [])) = Some r"
proof -
  let ?s = "set_d (\<lambda>d. d\<lparr>c_block := read_block (replicate 40 0xFF)\<rparr>) (sample_rr (Some sample_plain) [])"
  have "rinv (c_block (rr_d ?s))" "rest (c_block (rr_d ?s)) = replicate 40 0xFF" using read_block_facts [of "replicate 40 0xFF"] by simp_all
  then show ?thesis
    using process_block_returns [of ?s sample_rr_ops] by (simp add: sample_rr_ops_def sample_rr_def file_ops_def)
qed

end
