(* ===== verification/Backup_Restore.thy ===== *)
theory Backup_Restore
  imports Read_Volume
begin

text \<open>
  A whole job, written and restored: any number of records go through the writer of records
  (\<^verbatim>\<open>stored/record_write.c\<close>) and of blocks (\<^verbatim>\<open>stored/block.c\<close>) to a disk Volume, and
  \<^verbatim>\<open>read_records\<close> (\<^verbatim>\<open>stored/read_records.c\<close>) hands the same records to its callback.  The theory
  describes the blocks of a job as lists of fragments, which the writer produces and the reader joins.
\<close>

section \<open>Records as sequences of fragments\<close>

text \<open>Fragments of one session in a row: the records they give, the part that is left, and that each can be read.\<close>

definition after_frag :: "part option \<Rightarrow> frag \<Rightarrow> part option" where
  "after_frag p f = (if frag_cut f then Some (join p f) else None)"

fun joined :: "part option \<Rightarrow> frag list \<Rightarrow> part list" where
  "joined p [] = []"
| "joined p (f # fs) = (if frag_cut f then [] else [join p f]) @ joined (after_frag p f) fs"

fun left_part :: "part option \<Rightarrow> frag list \<Rightarrow> part option" where
  "left_part p [] = p"
| "left_part p (f # fs) = left_part (after_frag p f) fs"

fun flows :: "part option \<Rightarrow> frag list \<Rightarrow> bool" where
  "flows p [] \<longleftrightarrow> True"
| "flows p (f # fs) \<longleftrightarrow> continues p f \<and> frag_wf f \<and> is_data f \<and> flows (after_frag p f) fs"

lemma flow_append:
  "joined p (xs @ ys) = joined p xs @ joined (left_part p xs) ys" "left_part p (xs @ ys) = left_part (left_part p xs) ys"
  "flows p (xs @ ys) \<longleftrightarrow> flows p xs \<and> flows (left_part p xs) ys"
  by (induction p xs rule: joined.induct) auto

text \<open>The writer's cuts.\<close>

function cut_cont :: "nat \<Rightarrow> i32 \<Rightarrow> i32 \<Rightarrow> u8 list \<Rightarrow> frag list" where
  "cut_cont cap fi stream ds =
     (let len = of_nat (length ds)
      in if cap \<le> 12 \<or> length ds \<le> cap - 12 then [(fi, - stream, len, ds)]
         else (fi, - stream, len, take (cap - 12) ds) # cut_cont cap fi stream (drop (cap - 12) ds))"
  by pat_completeness auto

termination cut_cont
  by (relation "measure (\<lambda>(cap, fi, stream, ds). length ds)") auto

declare cut_cont.simps [simp del]

definition cut_first :: "nat \<Rightarrow> nat \<Rightarrow> i32 \<Rightarrow> i32 \<Rightarrow> u8 list \<Rightarrow> frag list" where
  "cut_first rm cap fi stream ds =
     (let len = of_nat (length ds)
      in if length ds \<le> rm - 12 then [(fi, stream, len, ds)]
         else (fi, stream, len, take (rm - 12) ds) # cut_cont cap fi stream (drop (rm - 12) ds))"

definition cut_blocks :: "nat \<Rightarrow> nat \<Rightarrow> i32 \<Rightarrow> i32 \<Rightarrow> u8 list \<Rightarrow> frag list list" where
  "cut_blocks rm cap fi stream ds =
     (if rm < 12 then [] # map (\<lambda>f. [f]) (cut_first cap cap fi stream ds)
      else map (\<lambda>f. [f]) (cut_first rm cap fi stream ds))"

abbreviation frags_bytes :: "frag list \<Rightarrow> u8 list" where
  "frags_bytes fs \<equiv> concat (map frag_bytes fs)"

lemma cut_cont_bytes: "map frag_bytes (cut_cont cap fi stream ds) = cont_fragments cap fi stream ds"
proof (induction cap fi stream ds rule: cut_cont.induct)
  case (1 cap fi stream ds)
  then show ?case
    by (subst cut_cont.simps, subst cont_fragments.simps) (auto simp: Let_def)
qed

lemma cut_blocks_bytes: "map frags_bytes (cut_blocks rm cap fi stream ds) = record_fragments rm cap fi stream ds"
proof -
  have "map frag_bytes (cut_first r cap fi stream ds) = first_fragments r cap fi stream ds" for r
    by (simp add: cut_first_def first_fragments_def Let_def cut_cont_bytes)
  moreover have "frags_bytes \<circ> (\<lambda>f. [f]) = frag_bytes" by (rule ext) simp
  ultimately show ?thesis by (simp add: cut_blocks_def record_fragments_def)
qed

lemma concat_cut_blocks: "concat (cut_blocks rm cap fi stream ds) = cut_first (if rm < 12 then cap else rm) cap fi stream ds"
proof -
  have "concat (map (\<lambda>f. [f]) fs) = fs" for fs :: "frag list" by (induction fs) auto
  then show ?thesis by (simp add: cut_blocks_def)
qed

lemma cut_cont_flow:
  assumes "12 < cap" and "0 < sint stream" and "0 \<le> sint fi" and "length ds < 20000000" and "length ds0 + length ds < 2 ^ 31"
  shows "joined (Some (fi, stream, ds0)) (cut_cont cap fi stream ds) = [(fi, stream, ds0 @ ds)] \<and>
    left_part (Some (fi, stream, ds0)) (cut_cont cap fi stream ds) = None \<and> flows (Some (fi, stream, ds0)) (cut_cont cap fi stream ds) \<and>
    \<not> frag_cut (last (cut_cont cap fi stream ds))"
  using assms(4,5)
proof (induction "length ds" arbitrary: ds ds0 rule: less_induct)
  case less
  note st = stream_signs [OF assms(2)] and len = of_nat_len(2) [OF less.prems(1)]
  show ?case
  proof (cases "length ds \<le> cap - 12")
    case True
    then have e: "cut_cont cap fi stream ds = [(fi, - stream, of_nat (length ds), ds)]" by (simp add: cut_cont.simps Let_def)
    show ?thesis unfolding e using st len less.prems assms(3) by (simp add: after_frag_def)
  next
    case False
    let ?k = "cap - 12"
    have k: "0 < ?k" "?k < length ds" using assms(1) False by auto
    have e: "cut_cont cap fi stream ds = (fi, - stream, of_nat (length ds), take ?k ds) # cut_cont cap fi stream (drop ?k ds)"
      using False assms(1) by (subst cut_cont.simps) (simp add: Let_def)
    have ne: "cut_cont cap fi stream (drop ?k ds) \<noteq> []" by (subst cut_cont.simps) (simp add: Let_def)
    have IH: "joined (Some (fi, stream, ds0 @ take ?k ds)) (cut_cont cap fi stream (drop ?k ds)) = [(fi, stream, (ds0 @ take ?k ds) @ drop ?k ds)] \<and>
      left_part (Some (fi, stream, ds0 @ take ?k ds)) (cut_cont cap fi stream (drop ?k ds)) = None \<and>
      flows (Some (fi, stream, ds0 @ take ?k ds)) (cut_cont cap fi stream (drop ?k ds)) \<and> \<not> frag_cut (last (cut_cont cap fi stream (drop ?k ds)))"
      using k less.prems by (intro less.hyps) auto
    show ?thesis unfolding e using st len less.prems assms(3) k IH ne by (simp add: after_frag_def)
  qed
qed

lemma cut_first_flow:
  assumes "12 < cap" and "0 < sint stream" and "0 \<le> sint fi" and "length ds < 20000000"
  shows "joined None (cut_first rm cap fi stream ds) = [(fi, stream, ds)] \<and> left_part None (cut_first rm cap fi stream ds) = None \<and>
    flows None (cut_first rm cap fi stream ds) \<and> \<not> frag_cut (last (cut_first rm cap fi stream ds))"
proof (cases "length ds \<le> rm - 12")
  case True
  then have e: "cut_first rm cap fi stream ds = [(fi, stream, of_nat (length ds), ds)]" by (simp add: cut_first_def Let_def)
  show ?thesis unfolding e using stream_signs [OF assms(2)] of_nat_len(2) [OF assms(4)] assms(3,4) by (simp add: after_frag_def)
next
  case False
  let ?k = "rm - 12"
  have e: "cut_first rm cap fi stream ds = (fi, stream, of_nat (length ds), take ?k ds) # cut_cont cap fi stream (drop ?k ds)"
    using False by (simp add: cut_first_def Let_def)
  have ne: "cut_cont cap fi stream (drop ?k ds) \<noteq> []" by (subst cut_cont.simps) (simp add: Let_def)
  have c: "joined (Some (fi, stream, take ?k ds)) (cut_cont cap fi stream (drop ?k ds)) = [(fi, stream, take ?k ds @ drop ?k ds)] \<and>
    left_part (Some (fi, stream, take ?k ds)) (cut_cont cap fi stream (drop ?k ds)) = None \<and>
    flows (Some (fi, stream, take ?k ds)) (cut_cont cap fi stream (drop ?k ds)) \<and> \<not> frag_cut (last (cut_cont cap fi stream (drop ?k ds)))"
    using assms by (intro cut_cont_flow) auto
  show ?thesis
    unfolding e using stream_signs [OF assms(2)] of_nat_len(2) [OF assms(4)] assms(3,4) False c ne by (simp add: after_frag_def)
qed

section \<open>Reading one session\<close>

lemma run_frags_all:
  assumes "list_all (Not \<circ> frag_cut) (butlast frs)"
  shows "map snd (fst (run_frags (\<lambda>_. True) p bad frs)) = joined p frs \<and>
    fst (snd (run_frags (\<lambda>_. True) p bad frs)) = left_part p frs"
  using assms
proof (induction frs arbitrary: p bad)
  case (Cons f fs)
  show ?case
  proof (cases "frag_cut f")
    case True
    then have "fs = []" using Cons.prems by (cases fs) auto
    then show ?thesis using True by (simp add: after_frag_def)
  next
    case False
    have "list_all (Not \<circ> frag_cut) (butlast fs)" using Cons.prems by (cases fs) (auto simp: comp_def)
    from Cons.IH [OF this, of None False] show ?thesis using False by (simp add: after_frag_def case_prod_beta)
  qed
qed simp

definition untagged :: "delivered list \<Rightarrow> (session \<times> part) list" where
  "untagged out = map snd out"

lemma untagged_tagged: "untagged (tagged \<sigma> out) = map (Pair \<sigma>) (map snd out)"
  by (simp add: untagged_def tagged_def case_prod_beta)

definition blocks_of :: "session \<Rightarrow> frag list list \<Rightarrow> vblock list \<Rightarrow> bool" where
  "blocks_of \<sigma> fss vbs \<longleftrightarrow> map (\<lambda>(\<tau>, num, a, frs). (\<tau>, frs)) vbs = map (Pair \<sigma>) fss"

definition sound_blocks :: "frag list list \<Rightarrow> bool" where
  "sound_blocks fss \<longleftrightarrow> list_all (\<lambda>frs. frs \<noteq> [] \<and> list_all (Not \<circ> frag_cut) (butlast frs)) fss"

lemma flows_wf: "flows p frs \<Longrightarrow> list_all frag_wf frs \<and> list_all is_data frs \<and> (frs \<noteq> [] \<longrightarrow> continues p (hd frs))"
  by (induction p frs rule: flows.induct) auto

lemma session_run:
  assumes "blocks_of \<sigma> fss vbs" and "sound_blocks fss" and "flows p (concat fss)"
    and "case S \<sigma> of None \<Rightarrow> p = None | Some (q, num, bad) \<Rightarrow> q = p"
  shows "acceptable (\<lambda>_ _ _. True) False S vbs \<and>
    untagged (volume_out (\<lambda>_ _ _. True) False S vbs) = map (Pair \<sigma>) (joined p (concat fss))"
  using assms
proof (induction vbs arbitrary: fss p S)
  case Nil
  then show ?case by (simp add: blocks_of_def untagged_def)
next
  case (Cons vb vbs)
  obtain \<tau> num a frs where vb: "vb = (\<tau>, num, a, frs)" by (metis prod_cases4)
  obtain gss where fss: "fss = frs # gss" "\<tau> = \<sigma>" "blocks_of \<sigma> gss vbs" using Cons.prems(1) by (cases fss) (auto simp: blocks_of_def vb)
  have ok: "frs \<noteq> []" "list_all (Not \<circ> frag_cut) (butlast frs)" "sound_blocks gss" using Cons.prems(2) by (auto simp: sound_blocks_def fss(1))
  have fl: "flows p frs" "flows (left_part p frs) (concat gss)" using Cons.prems(3) by (simp_all add: fss(1) flow_append)
  obtain bad where en: "enter_block False (S \<sigma>) num = (p, bad)"
    using Cons.prems(4) by (cases "S \<sigma>") (auto simp: Let_def)
  obtain out q bad' where run: "run_frags (\<lambda>_. True) p bad frs = (out, q, bad')" by (metis prod_cases3)
  have o: "map snd out = joined p frs" "q = left_part p frs" using run_frags_all [OF ok(2), of p bad] run by simp_all
  have sb: "session_block (\<lambda>_. True) False (S \<sigma>) num frs = (out, q, num, bad')" by (simp add: session_block_def en run)
  have IH: "acceptable (\<lambda>_ _ _. True) False (S(\<sigma> \<mapsto> (q, num, bad'))) vbs \<and>
    untagged (volume_out (\<lambda>_ _ _. True) False (S(\<sigma> \<mapsto> (q, num, bad'))) vbs) = map (Pair \<sigma>) (joined q (concat gss))"
    by (rule Cons.IH [OF fss(3) ok(3)]) (use fl(2) o(2) in simp_all)
  have "frags_wf frs" "continues p (hd frs)" using flows_wf [OF fl(1)] ok(1,2) by (auto simp: frags_wf_def)
  then show ?case
    using IH ok(1) o untagged_tagged [of \<sigma> out] by (simp add: vb fss(1,2) sb en flow_append untagged_def)
qed

lemma all_chosen: "chosen None vol = (\<lambda>_ _ _. True)"
  by (intro ext) (simp add: chosen_def selects_def)

lemma data_out: 
  assumes "\<forall>x \<in> set (untagged out). 0 \<le> sint (fst (snd x))"
  shows "filter file_record out = out"
  using assms by (intro filter_True) (auto simp: untagged_def)

lemma joined_data: "flows p frs \<Longrightarrow> pt \<in> set (joined p frs) \<Longrightarrow> 0 \<le> sint (fst pt)"
proof (induction p frs rule: joined.induct)
  case (2 p f fs)
  then show ?case by (cases f) (auto split: if_splits)
qed simp

text \<open>Images with the right payloads are images of blocks.\<close>

lemma images_of_blocks:
  assumes "list_all2 (\<lambda>img fs. image_ok env cap sid stime img \<and> image_payload img = frags_bytes fs) imgs fss"
  shows "\<exists>vbs. images_at env cap pos imgs vbs \<and> blocks_of (sid, stime) fss vbs"
  using assms
proof (induction imgs fss arbitrary: pos rule: list_all2_induct)
  case Nil
  then show ?case by (intro exI [of _ "[]"]) (simp add: blocks_of_def)
next
  case (Cons img imgs fs fss)
  obtain vbs where v: "images_at env cap (pos + length img) imgs vbs" "blocks_of (sid, stime) fss vbs" using Cons.IH by blast
  obtain opts len num cs payload where i: "img = block_image opts len num sid stime cs payload" "unat len = 32 + length payload"
    "unat len \<le> cap" "len \<le> MAX_BLOCK_LENGTH" "opts AND BLKHOPT_ENCRYPT_BLOCK = 0" "cs = e_xxh env (block_image opts len num sid stime 0 payload)"
    using Cons.hyps by (auto simp: image_ok_def)
  have "payload = frags_bytes fs" using image_payload_image [OF i(2)] Cons.hyps i(1) by auto
  then have "image_for env cap (sid, stime) num fs img"
    using i unfolding image_for_def by (intro exI [of _ opts] exI [of _ len] exI [of _ cs]) simp
  then show ?case
    using v by (intro exI [of _ "((sid, stime), num, of_nat pos + of_nat (length img) - 1, fs) # vbs"]) (simp add: blocks_of_def)
qed

lemma image_for_big [simp]: "images_at (env\<lparr>e_big := big\<rparr>) cap pos imgs vbs = images_at env cap pos imgs vbs"
  by (induction env cap pos imgs vbs rule: images_at.induct) (auto simp: image_for_def)

text \<open>A reader that finds the blocks of one session gives the session's records.\<close>

lemma read_session_records:
  assumes "quiet_ops ops" "last_volume ops" "q_read ops = file_ops env" "\<not> q_discard_invalid_records ops"
    and "rr_bsr s = None" "rr_cb s = []" "reader (rr_d s)" "placed (rr_d s)"
    and "drop (f_pos (w_os (rr_d s))) (f_bytes (w_os (rr_d s))) = concat imgs"
    and "list_all2 (\<lambda>img fs. image_ok env (unat (b_buf_len (c_block (rr_d s)))) sid stime img \<and> image_payload img = frags_bytes fs) imgs fss"
    and "sound_blocks fss" "flows None (concat fss)"
  shows "\<exists>s'. read_records ops s = Some (Inr (True, s')) \<and>
    untagged (filter file_record (map view (rr_cb s'))) = map (Pair (sid, stime)) (joined None (concat fss))"
proof -
  let ?vol = "s_VolumeName (w_st (rr_d s))" and ?out = "volume_out (\<lambda>_ _ _. True) False Map.empty"
  obtain vbs where v: "images_at env (unat (b_buf_len (c_block (rr_d s)))) (f_pos (w_os (rr_d s))) imgs vbs" "blocks_of (sid, stime) fss vbs"
    using images_of_blocks [OF assms(10)] by blast
  have run: "acceptable (\<lambda>_ _ _. True) False Map.empty vbs" "untagged (?out vbs) = map (Pair (sid, stime)) (joined None (concat fss))"
    using session_run [OF v(2) assms(11,12), of Map.empty] by simp_all
  have lab: "labels_ok (e_big env) vbs"
  proof -
    have "list_all is_data (concat fss)" using flows_wf [OF assms(12)] by blast
    then have d: "\<forall>fs \<in> set fss. \<forall>f \<in> set fs. is_data f" by (auto simp: list_all_iff)
    have "frs \<in> set fss" if "(\<tau>, num, a, frs) \<in> set vbs" for \<tau> num a frs
    proof -
      have "(\<tau>, frs) \<in> set (map (\<lambda>(\<tau>, num, a, frs). (\<tau>, frs)) vbs)" using that by force
      then show ?thesis using v(2) unfolding blocks_of_def by (simp only:) auto
    qed
    moreover have "label_ok b f" if "is_data f" for b f using that by (cases f) auto
    ultimately show ?thesis using d by (fastforce simp: labels_ok_def list_all_iff)
  qed
  obtain s' where s': "read_records ops s = Some (Inr (True, s'))" "filter file_record (map view (rr_cb s')) = filter file_record (?out vbs)"
    using read_records_volume [of ops s env imgs vbs ?vol] assms(1-9) v(1) run(1) lab
    by (auto simp: all_chosen plain_chain_def in_sequence_def)
  have "filter file_record (?out vbs) = ?out vbs"
    by (rule data_out) (use run(2) joined_data [OF assms(12)] in auto)
  then show ?thesis using s' run(2) by auto
qed

section \<open>Writing a job\<close>

text \<open>The records of a job, one after the other, as long as the writes succeed.\<close>

fun write_records ::
  "('d \<Rightarrow> dev_record \<Rightarrow> (fault + (bool \<times> 'd \<times> dev_record)) option) \<Rightarrow> 'd \<Rightarrow> dev_record list \<Rightarrow> (fault + (bool \<times> 'd)) option" where
  "write_records wr d [] = Some (Inr (True, d))"
| "write_records wr d (rec # recs) =
     (case wr d rec of
        None \<Rightarrow> None
      | Some (Inl f) \<Rightarrow> Some (Inl f)
      | Some (Inr (ok, d, _)) \<Rightarrow> if ok then write_records wr d recs else Some (Inr (False, d)))"

definition job_record :: "u32 \<Rightarrow> u32 \<Rightarrow> dev_record \<Rightarrow> bool" where
  "job_record sid stime rec \<longleftrightarrow> ready_rec rec \<and> r_wstate rec = st_none \<and> r_VolSessionId rec = sid \<and> r_VolSessionTime rec = stime \<and>
     0 < sint (r_Stream rec) \<and> 0 \<le> sint (r_FileIndex rec) \<and> length (to_write rec) < 20000000"

definition record_part :: "dev_record \<Rightarrow> part" where
  "record_part rec = (r_FileIndex rec, r_Stream rec, to_write rec)"

text \<open>The blocks of a job, the last one open: no block is empty but the open one, and only the last fragment of a closed one is cut.\<close>

definition layout_ok :: "frag list list \<Rightarrow> bool" where
  "layout_ok X \<longleftrightarrow> X \<noteq> [] \<and> list_all (\<lambda>fs. fs \<noteq> []) (butlast X) \<and> list_all (\<lambda>fs. list_all (Not \<circ> frag_cut) (butlast fs)) X \<and>
     list_all (Not \<circ> frag_cut) (last X) \<and> flows None (concat X) \<and> left_part None (concat X) = None"

definition add_cuts :: "frag list list \<Rightarrow> frag list list \<Rightarrow> frag list list" where
  "add_cuts X cuts = butlast X @ (last X @ hd cuts) # tl cuts"

lemma concat_add_cuts: "X \<noteq> [] \<Longrightarrow> cuts \<noteq> [] \<Longrightarrow> concat (add_cuts X cuts) = concat X @ concat cuts"
proof -
  assume a: "X \<noteq> []" "cuts \<noteq> []"
  then have "concat X = concat (butlast X) @ last X" by (metis append_butlast_last_id concat.simps concat_append append_Nil2)
  moreover have "concat cuts = hd cuts @ concat (tl cuts)" using a(2) by (cases cuts) auto
  ultimately show ?thesis by (simp add: add_cuts_def)
qed

lemma cut_blocks_shape:
  obtains f fs where "cut_first (if rm < 12 then cap else rm) cap fi stream ds = f # fs"
    "cut_blocks rm cap fi stream ds = (if rm < 12 then [] # [f] # map (\<lambda>f. [f]) fs else [f] # map (\<lambda>f. [f]) fs)"
proof -
  let ?r = "if rm < 12 then cap else rm"
  have "cut_first ?r cap fi stream ds \<noteq> []" by (simp add: cut_first_def Let_def)
  then obtain f fs where "cut_first ?r cap fi stream ds = f # fs" by (cases "cut_first ?r cap fi stream ds") auto
  then show ?thesis using that [of f fs] by (simp add: cut_blocks_def split: if_splits)
qed

lemma layout_add:
  assumes X: "layout_ok X" and cap: "12 < cap" and rec: "0 < sint stream" "0 \<le> sint fi" "length ds < 20000000"
    and ne: "rm < 12 \<Longrightarrow> last X \<noteq> []"
  shows "layout_ok (add_cuts X (cut_blocks rm cap fi stream ds))"
    and "joined None (concat (add_cuts X (cut_blocks rm cap fi stream ds))) = joined None (concat X) @ [(fi, stream, ds)]"
    and "last (add_cuts X (cut_blocks rm cap fi stream ds)) \<noteq> []"
proof -
  let ?cuts = "cut_blocks rm cap fi stream ds"
  obtain f fs where c: "cut_first (if rm < 12 then cap else rm) cap fi stream ds = f # fs"
    "?cuts = (if rm < 12 then [] # [f] # map (\<lambda>f. [f]) fs else [f] # map (\<lambda>f. [f]) fs)"
    by (rule cut_blocks_shape)
  have fl: "joined None (f # fs) = [(fi, stream, ds)]" "left_part None (f # fs) = None" "flows None (f # fs)" "\<not> frag_cut (last (f # fs))"
    using cut_first_flow [OF cap rec, of "if rm < 12 then cap else rm"] c(1) by simp_all
  have x: "X \<noteq> []" "flows None (concat X)" "left_part None (concat X) = None" using X by (simp_all add: layout_ok_def)
  have cc: "concat (add_cuts X ?cuts) = concat X @ f # fs"
    using concat_add_cuts [OF x(1), of ?cuts] concat_cut_blocks [of rm cap fi stream ds] c by (simp split: if_splits)
  show "joined None (concat (add_cuts X ?cuts)) = joined None (concat X) @ [(fi, stream, ds)]"
    unfolding cc using fl(1) x(3) by (simp only: flow_append)
  have flow: "flows None (concat (add_cuts X ?cuts))" "left_part None (concat (add_cuts X ?cuts)) = None"
    unfolding cc using fl(2,3) x(2,3) by (simp_all only: flow_append)
  have last1: "last (add_cuts X ?cuts) = (if rm < 12 \<or> fs \<noteq> [] then [last (f # fs)] else last X @ [f])"
    by (auto simp: add_cuts_def c(2) last_map)
  have wl: "list_all (Not \<circ> frag_cut) (last X)" using X by (simp add: layout_ok_def)
  have b1: "butlast (add_cuts X ?cuts) = butlast X @ (if rm < 12 then [last X] @ map (\<lambda>f. [f]) (butlast (f # fs))
      else if fs = [] then [] else (last X @ [f]) # map (\<lambda>f. [f]) (butlast fs))"
    by (auto simp: add_cuts_def c(2) butlast_append map_butlast)
  have "list_all (\<lambda>fs. fs \<noteq> []) (butlast (add_cuts X ?cuts))"
    unfolding b1 using X ne by (auto simp: layout_ok_def list_all_iff)
  moreover have "list_all (\<lambda>fs. list_all (Not \<circ> frag_cut) (butlast fs)) (add_cuts X ?cuts)"
  proof -
    have "list_all (\<lambda>fs. list_all (Not \<circ> frag_cut) (butlast fs)) (butlast X)" "list_all (Not \<circ> frag_cut) (butlast (last X))"
      using X wl by (auto simp: layout_ok_def list_all_iff dest: in_set_butlastD)
    then show ?thesis using wl by (auto simp: add_cuts_def c(2) list_all_iff)
  qed
  moreover have "list_all (Not \<circ> frag_cut) (last (add_cuts X ?cuts))"
    unfolding last1 using fl(4) wl by (simp split: if_splits)
  ultimately show "layout_ok (add_cuts X ?cuts)" using flow by (simp add: layout_ok_def) (simp add: add_cuts_def)
  show "last (add_cuts X ?cuts) \<noteq> []" unfolding last1 by simp
qed

lemma cont_fragments_length:
  "12 < cap \<Longrightarrow> length (cont_fragments cap fi stream ds) \<le> 1 + length ds div (cap - 12)"
proof (induction "length ds" arbitrary: ds rule: less_induct)
  case less
  show ?case
  proof (cases "length ds \<le> cap - 12")
    case False
    let ?k = "cap - 12"
    have "length (cont_fragments cap fi stream (drop ?k ds)) \<le> 1 + (length ds - ?k) div ?k"
      using less.hyps [of "drop ?k ds"] less.prems False by simp
    also have "\<dots> = length ds div ?k" using less.prems False by (simp add: le_div_geq)
    finally show ?thesis using False less.prems by (simp add: cont_fragments_more)
  qed (simp add: cont_fragments_last)
qed

lemma record_fragments_length:
  assumes "12 < cap"
  shows "length (record_fragments rm cap fi stream ds) \<le> 2 + length ds div (cap - 12)"
proof -
  let ?k = "cap - 12"
  have c: "length (cont_fragments cap fi stream (drop r ds)) \<le> 1 + (length ds - r) div ?k" for r
    using cont_fragments_length [OF assms, of fi stream "drop r ds"] by simp
  have "length (first_fragments cap cap fi stream ds) \<le> 1 + length ds div ?k"
  proof (cases "length ds \<le> ?k")
    case False
    then show ?thesis using c [of ?k] assms by (simp add: first_fragments_def Let_def le_div_geq)
  qed (simp add: first_fragments_def Let_def)
  moreover have "length (first_fragments rm cap fi stream ds) \<le> 2 + length ds div ?k"
    using c [of "rm - 12"] div_le_mono [of "length ds - (rm - 12)" "length ds" ?k] by (auto simp: first_fragments_def Let_def)
  ultimately show ?thesis by (simp add: record_fragments_def)
qed

abbreviation write_one :: "blk_env \<Rightarrow> nat \<Rightarrow> bool \<Rightarrow> disk_os wdcr \<Rightarrow> dev_record \<Rightarrow> (fault + (bool \<times> disk_os wdcr \<times> dev_record)) option" where
  "write_one env n big \<equiv> write_record (write_block_to_device (disk_ops env n) False) (\<lambda>d. j_canceled (w_jcr d)) big"

definition blocks_needed :: "nat \<Rightarrow> dev_record list \<Rightarrow> nat" where
  "blocks_needed cap recs = sum_list (map (\<lambda>rec. 2 + length (to_write rec) div (cap - 12)) recs)"

text \<open>The state of a job that has written the blocks \<open>X\<close>, the last of them still open.\<close>

definition job_at ::
  "blk_env \<Rightarrow> u32 \<Rightarrow> u32 \<Rightarrow> u32 \<Rightarrow> u8 list list \<Rightarrow> nat \<Rightarrow> frag list list \<Rightarrow> disk_os wdcr \<Rightarrow> bool" where
  "job_at env sid stime blen old tot X d \<longleftrightarrow>
     disk_sink.sink_ok env sid stime blen old tot d \<and> layout_ok X \<and>
     map image_payload (k_images (w_os d)) @ [payload_of (c_block d)] = map image_payload old @ map frags_bytes X"

lemma job_at_facts:
  assumes "job_at env sid stime blen old tot X d"
  shows "session_job env sid stime blen old tot d" "winv (c_block d)" "32 \<le> b_bufp (c_block d)" "b_buf_len (c_block d) = blen" "44 < unat blen"
    "32 < b_bufp (c_block d) \<Longrightarrow> b_VolSessionId (c_block d) = sid \<and> b_VolSessionTime (c_block d) = stime"
    "layout_ok X" "payload_of (c_block d) = frags_bytes (last X)" "room (c_block d) + length (frags_bytes (last X)) = unat blen - 32"
    "k_images (w_os d) = old @ drop (length old) (k_images (w_os d))" "map image_payload (drop (length old) (k_images (w_os d))) = map frags_bytes (butlast X)"
proof -
  have s: "disk_sink.sink_ok env sid stime blen old tot d" and lay: "layout_ok X"
    and m: "map image_payload (k_images (w_os d)) @ [payload_of (c_block d)] = map image_payload old @ map frags_bytes X"
    using assms by (auto simp: job_at_def)
  show sj: "session_job env sid stime blen old tot d" and w: "winv (c_block d)" "32 \<le> b_bufp (c_block d)" "b_buf_len (c_block d) = blen" "44 < unat blen"
    and "32 < b_bufp (c_block d) \<Longrightarrow> b_VolSessionId (c_block d) = sid \<and> b_VolSessionTime (c_block d) = stime" and "layout_ok X"
    using s lay by (auto simp: disk_sink.sink_ok_def)
  have X: "map frags_bytes X = map frags_bytes (butlast X) @ [frags_bytes (last X)]"
  proof -
    have "X \<noteq> []" using lay by (simp add: layout_ok_def)
    then show ?thesis by (induction X) auto
  qed
  have both: "map image_payload (k_images (w_os d)) = map image_payload old @ map frags_bytes (butlast X) \<and> payload_of (c_block d) = frags_bytes (last X)"
    using m unfolding X append_assoc [symmetric] by (simp only: append1_eq_conv)
  then show pl: "payload_of (c_block d) = frags_bytes (last X)" by blast
  show im: "k_images (w_os d) = old @ drop (length old) (k_images (w_os d))" by (rule session_images [OF sj])
  show "map image_payload (drop (length old) (k_images (w_os d))) = map frags_bytes (butlast X)"
    using both arg_cong [OF im, of "map image_payload"] by simp
  have "length (payload_of (c_block d)) = b_bufp (c_block d) - 32"
    using w(1,2) by (auto simp: payload_of_def used_def winv_def block_inv_def u32_le)
  moreover have "b_bufp (c_block d) \<le> unat blen"
    using w(1,3) by (auto simp: winv_def block_inv_def u32_le)
  ultimately show "room (c_block d) + length (frags_bytes (last X)) = unat blen - 32"
    using room_bufp [OF w(1)] w(2,3) pl by simp
qed

lemma write_one_record:
  assumes j: "job_at env sid stime blen old tot X d" and r: "job_record sid stime rec"
    and free: "2 + length (to_write rec) div (unat blen - 44) \<le> k_free (w_os d)"
  shows "\<exists>d' rec' X'. write_one env n big d rec = Some (Inr (True, d', rec')) \<and> job_at env sid stime blen old tot X' d' \<and>
    joined None (concat X') = joined None (concat X) @ [record_part rec] \<and> last X' \<noteq> [] \<and>
    k_free (w_os d) \<le> k_free (w_os d') + (2 + length (to_write rec) div (unat blen - 44))"
proof -
  note f = job_at_facts [OF j]
  let ?cap = "unat blen - 32"
  let ?cuts = "cut_blocks (room (c_block d)) ?cap (r_FileIndex rec) (r_Stream rec) (to_write rec)"
  have rr: "ready_rec rec" "r_wstate rec = st_none" "r_VolSessionId rec = sid" "r_VolSessionTime rec = stime" "0 < sint (r_Stream rec)"
    "0 \<le> sint (r_FileIndex rec)" "length (to_write rec) < 20000000" using r by (auto simp: job_record_def)
  have cap: "12 < ?cap" "?cap - 12 = unat blen - 44" using f(5) by auto
  have nc: "\<not> continuing rec" using rr(2) by (simp add: continuing_def)
  have frs: "fragments_of (room (c_block d)) ?cap rec = map frags_bytes ?cuts" using nc by (simp add: fragments_of_def cut_blocks_bytes)
  have lf: "length (map frags_bytes ?cuts) \<le> 2 + length (to_write rec) div (unat blen - 44)"
    using record_fragments_length [OF cap(1), of "room (c_block d)" "r_FileIndex rec" "r_Stream rec" "to_write rec"] cap(2)
    by (simp only: cut_blocks_bytes)
  have sink: "disk_sink.sink_ok env sid stime blen old tot d" using j by (simp add: job_at_def)
  have capd: "disk_sink.cap d = ?cap" using f(4) by (simp add: disk_sink.cap_def)
  have "disk_sink.writes env n sid stime blen old tot big d rec (map frags_bytes ?cuts)"
    using disk_sink.writes_fragments [OF sink rr(1), of n big] rr(2-4) free lf unfolding capd frs by simp
  then obtain d' rec' where w: "write_one env n big d rec = Some (Inr (True, d', rec'))"
    "map image_payload (k_images (w_os d')) @ [payload_of (c_block d')] =
      map image_payload (k_images (w_os d)) @ (payload_of (c_block d) @ hd (map frags_bytes ?cuts)) # tl (map frags_bytes ?cuts)"
    "disk_sink.sink_ok env sid stime blen old tot d'"
    unfolding disk_sink.writes_def by blast
  have ne: "last X \<noteq> []" if "room (c_block d) < 12" using f(9) that cap(1) by auto
  note la = layout_add [OF f(7) cap(1) rr(5-7) ne]
  have c: "?cuts \<noteq> []" by (simp add: cut_blocks_def cut_first_def Let_def)
  have pay: "map image_payload (k_images (w_os d')) @ [payload_of (c_block d')] = map image_payload old @ map frags_bytes (add_cuts X ?cuts)"
    unfolding w(2) using arg_cong [OF f(10), of "map image_payload"] f(8,11) c by (simp add: add_cuts_def hd_map map_tl)
  then have j': "job_at env sid stime blen old tot (add_cuts X ?cuts) d'" using w(3) la(1) by (simp add: job_at_def)
  have "length (k_images (w_os d')) + 1 = length (k_images (w_os d)) + length (map frags_bytes ?cuts)"
    using arg_cong [OF w(2), of length] c by simp
  moreover have "length (k_images (w_os d)) + k_free (w_os d) = tot" "length (k_images (w_os d')) + k_free (w_os d') = tot"
    using f(1) job_at_facts(1) [OF j'] by (simp_all add: session_job_def)
  ultimately have "k_free (w_os d) \<le> k_free (w_os d') + (2 + length (to_write rec) div (unat blen - 44))" using lf by linarith
  then show ?thesis using w(1) j' la(2,3) by (auto simp: record_part_def)
qed

lemma write_job:
  assumes "job_at env sid stime blen old tot X d" and "list_all (job_record sid stime) recs"
    and "blocks_needed (unat blen - 32) recs \<le> k_free (w_os d)"
  shows "\<exists>d' X'. write_records (write_one env n big) d recs = Some (Inr (True, d')) \<and> job_at env sid stime blen old tot X' d' \<and>
    joined None (concat X') = joined None (concat X) @ map record_part recs \<and> (recs \<noteq> [] \<or> last X \<noteq> [] \<longrightarrow> last X' \<noteq> []) \<and>
    k_free (w_os d) \<le> k_free (w_os d') + blocks_needed (unat blen - 32) recs"
  using assms
proof (induction recs arbitrary: d X)
  case Nil
  then show ?case by (intro exI [of _ d] exI [of _ X]) (simp add: blocks_needed_def)
next
  case (Cons rec recs)
  have bn: "blocks_needed (unat blen - 32) (rec # recs) = 2 + length (to_write rec) div (unat blen - 44) + blocks_needed (unat blen - 32) recs"
    by (simp add: blocks_needed_def)
  have jr: "job_record sid stime rec" "list_all (job_record sid stime) recs" using Cons.prems(2) by simp_all
  have "2 + length (to_write rec) div (unat blen - 44) \<le> k_free (w_os d)" using Cons.prems(3) bn by linarith
  from write_one_record [OF Cons.prems(1) jr(1) this, of n big] obtain d1 rec1 X1 where
    w: "write_one env n big d rec = Some (Inr (True, d1, rec1))" "job_at env sid stime blen old tot X1 d1"
    "joined None (concat X1) = joined None (concat X) @ [record_part rec]" "last X1 \<noteq> []"
    "k_free (w_os d) \<le> k_free (w_os d1) + (2 + length (to_write rec) div (unat blen - 44))"
    by blast
  have "blocks_needed (unat blen - 32) recs \<le> k_free (w_os d1)" using Cons.prems(3) bn w(5) by linarith
  from Cons.IH [OF w(2) jr(2) this] obtain d' X' where
    "write_records (write_one env n big) d1 recs = Some (Inr (True, d'))" "job_at env sid stime blen old tot X' d'"
    "joined None (concat X') = joined None (concat X1) @ map record_part recs" "last X' \<noteq> []"
    "k_free (w_os d1) \<le> k_free (w_os d') + blocks_needed (unat blen - 32) recs"
    using w(4) by blast
  then show ?case using w bn by (intro exI [of _ d'] exI [of _ X']) simp
qed

lemma frags_bytes_not_Nil: "fs \<noteq> [] \<Longrightarrow> frags_bytes fs \<noteq> []"
  by (cases fs) auto

text \<open>The job written and its last block flushed: the new images are those of its blocks.\<close>

lemma job_flushed:
  assumes j: "session_job env sid stime (b_buf_len (c_block d)) (k_images (w_os d)) tot d" and b: "winv (c_block d)"
    "b_bufp (c_block d) = 32" "44 < unat (b_buf_len (c_block d))" and "\<not> c_adata_label d"
    and recs: "recs \<noteq> []" "list_all (job_record sid stime) recs"
    and free: "blocks_needed (unat (b_buf_len (c_block d)) - 32) recs < k_free (w_os d)"
  shows "\<exists>d1 d2 new X. write_records (write_one env n big) d recs = Some (Inr (True, d1)) \<and>
    write_block_to_device (disk_ops env n) False d1 = Inr (True, d2) \<and> k_images (w_os d2) = k_images (w_os d) @ new \<and>
    list_all2 (\<lambda>img fs. image_ok env (unat (b_buf_len (c_block d))) sid stime img \<and> image_payload img = frags_bytes fs) new X \<and>
    sound_blocks X \<and> flows None (concat X) \<and> joined None (concat X) = map record_part recs"
proof -
  let ?old = "k_images (w_os d)" and ?blen = "b_buf_len (c_block d)"
  have "payload_of (c_block d) = []" using b(2) by (simp add: payload_of_def used_def)
  moreover have "layout_ok [[]]" by (simp add: layout_ok_def)
  ultimately have start: "job_at env sid stime ?blen ?old tot [[]] d"
    using j b assms(5) by (simp add: job_at_def disk_sink.sink_ok_def)
  have fr: "blocks_needed (unat ?blen - 32) recs \<le> k_free (w_os d)" using free by simp
  obtain d1 X where w: "write_records (write_one env n big) d recs = Some (Inr (True, d1))" "job_at env sid stime ?blen ?old tot X d1"
    "joined None (concat X) = map record_part recs" "last X \<noteq> []" "k_free (w_os d) \<le> k_free (w_os d1) + blocks_needed (unat ?blen - 32) recs"
    using write_job [OF start recs(2) fr, of n big] recs(1) by auto
  note f = job_at_facts [OF w(2)]
  have "payload_of (c_block d1) \<noteq> []" using f(8) frags_bytes_not_Nil [OF w(4)] by simp
  then have bp: "32 < b_bufp (c_block d1)" by (auto simp: payload_of_def used_def)
  have fr1: "0 < k_free (w_os d1)" using free w(5) by linarith
  have ids: "b_VolSessionId (c_block d1) = sid" "b_VolSessionTime (c_block d1) = stime" using f(6) [OF bp] by simp_all
  obtain d2 where d2: "write_block_to_device (disk_ops env n) False d1 = Inr (True, d2)" "session_job env sid stime ?blen ?old tot d2"
    "k_images (w_os d2) = k_images (w_os d1) @ [written_image (disk_ops env n) d1]"
    using session_write_block [OF f(1) fr1 f(2) bp ids f(4), of n] by blast
  let ?new = "drop (length ?old) (k_images (w_os d1)) @ [written_image (disk_ops env n) d1]"
  have im: "k_images (w_os d2) = ?old @ ?new" using d2(3) arg_cong [OF f(10), of "\<lambda>x. x @ [written_image (disk_ops env n) d1]"] by simp
  have ok: "\<forall>img \<in> set ?new. image_ok env (unat ?blen) sid stime img" using d2(2) im by (simp add: session_job_def)
  have X: "X \<noteq> []" using f(7) by (simp add: layout_ok_def)
  then have "map frags_bytes X = map frags_bytes (butlast X) @ [frags_bytes (last X)]" by (induction X) auto
  then have pay: "map image_payload ?new = map frags_bytes X"
    using f(8,11) written_image_payload [OF f(2), of "disk_ops env n"] bp by simp
  have pays: "list_all2 (\<lambda>img fs. image_payload img = frags_bytes fs) ?new X"
    using pay by (simp only: list.rel_map list.rel_eq [symmetric])
  have "list_all2 (\<lambda>img fs. image_ok env (unat ?blen) sid stime img \<and> image_payload img = frags_bytes fs) ?new X"
    by (rule list.rel_mono_strong [OF pays]) (use ok in blast)
  moreover have "sound_blocks X"
  proof -
    have "X = butlast X @ [last X]" using X by simp
    then have "set X = set (butlast X) \<union> {last X}" by (metis Un_insert_right empty_set list.simps(15) set_append sup_bot.right_neutral)
    then show ?thesis using f(7) w(4) by (auto simp: sound_blocks_def layout_ok_def list_all_iff)
  qed
  moreover have "flows None (concat X)" using f(7) by (simp add: layout_ok_def)
  ultimately show ?thesis using w(1,3) d2(1) im by blast
qed

text \<open>
  C1 (job_restored).  Backup and restore of a job.  Any number of records of any size below 20 MB, written one after the other with
  \<^verbatim>\<open>DCR::write_record\<close> on a disk with enough space, the last block flushed with \<^verbatim>\<open>write_block_to_device\<close>, come back from
  \<^verbatim>\<open>read_records\<close>: started in the file where the job begins, on a host of either byte order, without bootstrap records, it
  returns true and has handed exactly these records to its callback, in their order and with session, file index, stream
  and all of their data.
\<close>

theorem job_restored:
  assumes j: "session_job env sid stime (b_buf_len (c_block d)) (k_images (w_os d)) tot d" and b: "winv (c_block d)"
    "b_bufp (c_block d) = 32" "44 < unat (b_buf_len (c_block d))" and "\<not> c_adata_label d"
    and recs: "recs \<noteq> []" "list_all (job_record sid stime) recs"
    and free: "blocks_needed (unat (b_buf_len (c_block d)) - 32) recs < k_free (w_os d)"
  shows "\<exists>d1 d2. write_records (write_one env n big) d recs = Some (Inr (True, d1)) \<and>
    write_block_to_device (disk_ops env n) False d1 = Inr (True, d2) \<and>
    (\<forall>ops s. quiet_ops ops \<and> last_volume ops \<and> q_read ops = file_ops (env\<lparr>e_big := rbig\<rparr>) \<and> \<not> q_discard_invalid_records ops \<and>
        rr_bsr s = None \<and> rr_cb s = [] \<and> reader (rr_d s) \<and> placed (rr_d s) \<and> b_buf_len (c_block (rr_d s)) = b_buf_len (c_block d) \<and>
        f_bytes (w_os (rr_d s)) = concat (k_images (w_os d2)) \<and> f_pos (w_os (rr_d s)) = length (concat (k_images (w_os d))) \<longrightarrow>
      (\<exists>s'. read_records ops s = Some (Inr (True, s')) \<and>
         untagged (filter file_record (map view (rr_cb s'))) = map (\<lambda>rec. ((sid, stime), record_part rec)) recs))"
proof -
  obtain d1 d2 new X where w: "write_records (write_one env n big) d recs = Some (Inr (True, d1))"
    "write_block_to_device (disk_ops env n) False d1 = Inr (True, d2)" "k_images (w_os d2) = k_images (w_os d) @ new"
    and X: "list_all2 (\<lambda>img fs. image_ok env (unat (b_buf_len (c_block d))) sid stime img \<and> image_payload img = frags_bytes fs) new X"
      "sound_blocks X" "flows None (concat X)" "joined None (concat X) = map record_part recs"
    using job_flushed [OF assms, of n big] by blast
  have "\<exists>s'. read_records ops s = Some (Inr (True, s')) \<and>
      untagged (filter file_record (map view (rr_cb s'))) = map (\<lambda>rec. ((sid, stime), record_part rec)) recs"
    if o: "quiet_ops ops" "last_volume ops" "q_read ops = file_ops (env\<lparr>e_big := rbig\<rparr>)" "\<not> q_discard_invalid_records ops"
      "rr_bsr s = None" "rr_cb s = []" "reader (rr_d s)" "placed (rr_d s)" and f: "b_buf_len (c_block (rr_d s)) = b_buf_len (c_block d)"
      "f_bytes (w_os (rr_d s)) = concat (k_images (w_os d2))" "f_pos (w_os (rr_d s)) = length (concat (k_images (w_os d)))" for ops s
  proof -
    have "drop (f_pos (w_os (rr_d s))) (f_bytes (w_os (rr_d s))) = concat new" using f w(3) by simp
    from read_session_records [OF o this _ X(2,3), of sid stime] X(1,4) f(1) show ?thesis by (simp add: comp_def)
  qed
  then show ?thesis using w(1,2) by blast
qed

section \<open>An instance\<close>

definition sample_recs :: "dev_record list" where
  "sample_recs = [sample_record, sample_record\<lparr>r_Stream := 3, r_data := [9], r_data_len := 1\<rparr>]"

lemma sample_recs_facts:
  "list_all (job_record 3 1700000000) sample_recs" "blocks_needed 32 sample_recs = 7"
  "map record_part sample_recs = [(1, 2, map of_nat [0..<60]), (1, 3, [9])]"
proof -
  have r: "ready_rec sample_record" "r_wstate sample_record = st_none" "r_VolSessionId sample_record = 3"
    "r_VolSessionTime sample_record = 1700000000" "r_Stream sample_record = 2" "r_FileIndex sample_record = 1"
    "to_write sample_record = map of_nat [0..<60]"
    using sample_record_facts by (simp_all add: sample_record_def new_record_def to_write_def continuing_def)
  let ?r = "sample_record\<lparr>r_Stream := 3, r_data := [9], r_data_len := 1\<rparr>"
  have q: "ready_rec ?r" "to_write ?r = [9]"
    by (simp_all add: ready_rec_def splittable_def to_write_def continuing_def sample_record_def new_record_def rec_bits)
  show "list_all (job_record 3 1700000000) sample_recs" using r q by (simp add: sample_recs_def job_record_def)
  show "blocks_needed 32 sample_recs = 7" using r q by (simp add: sample_recs_def blocks_needed_def)
  show "map record_part sample_recs = [(1, 2, map of_nat [0..<60]), (1, 3, [9])]"
    unfolding sample_recs_def list.map record_part_def using r(5-7) q(2) by simp
qed

theorem job_restored_witness:
  "\<exists>d1 d2. write_records (write_one sample_env 9 False) (sample_job empty_sample 9) sample_recs = Some (Inr (True, d1)) \<and>
     write_block_to_device (disk_ops sample_env 9) False d1 = Inr (True, d2) \<and>
     (\<forall>s. rr_bsr s = None \<and> rr_cb s = [] \<and> reader (rr_d s) \<and> placed (rr_d s) \<and> b_buf_len (c_block (rr_d s)) = 64 \<and>
        f_bytes (w_os (rr_d s)) = concat (k_images (w_os d2)) \<and> f_pos (w_os (rr_d s)) = 0 \<longrightarrow>
      (\<exists>s'. read_records (sample_rr_ops\<lparr>q_read := file_ops (sample_env\<lparr>e_big := True\<rparr>)\<rparr>) s = Some (Inr (True, s')) \<and>
         untagged (filter file_record (map view (rr_cb s'))) =
           [((3, 1700000000), 1, 2, map of_nat [0..<60]), ((3, 1700000000), 1, 3, [9])]))"
proof -
  let ?d = "sample_job empty_sample 9" and ?ops = "sample_rr_ops\<lparr>q_read := file_ops (sample_env\<lparr>e_big := True\<rparr>)\<rparr>"
  have b: "c_block ?d = empty_sample" "winv empty_sample" "b_bufp empty_sample = 32" "b_buf_len empty_sample = 64"
    using sample_job_facts(5)
    by (simp_all add: empty_sample_def new_block_def empty_block_def winv_def block_inv_def Let_def WRITE_BLKHDR_LENGTH_def word_le_nat_alt)
  have os: "k_images (w_os ?d) = []" "k_free (w_os ?d) = 9" by (simp_all add: job_samples)
  have sj: "session_job sample_env 3 1700000000 (b_buf_len (c_block ?d)) (k_images (w_os ?d)) 9 ?d"
    using sample_job_facts(1) b os by (simp add: session_job_def) (simp add: job_samples MAX_BLOCK_LENGTH_def)
  have ops: "quiet_ops ?ops" "last_volume ?ops" "q_read ?ops = file_ops (sample_env\<lparr>e_big := True\<rparr>)" "\<not> q_discard_invalid_records ?ops"
    by (simp_all add: sample_rr_ops_def quiet_ops_def last_volume_def collects_def file_ops_def)
  have recs: "map (\<lambda>rec. ((3, 1700000000), record_part rec)) sample_recs =
      [((3, 1700000000), 1, 2, map of_nat [0..<60]), ((3, 1700000000), 1, 3, [9])]"
    using arg_cong [OF sample_recs_facts(3), of "map (Pair (3, 1700000000))"] by (simp add: comp_def)
  have pre: "winv (c_block ?d)" "b_bufp (c_block ?d) = 32" "44 < unat (b_buf_len (c_block ?d))" "sample_recs \<noteq> []"
    "blocks_needed (unat (b_buf_len (c_block ?d)) - 32) sample_recs < k_free (w_os ?d)"
    using b os sample_recs_facts(2) by (simp_all add: sample_recs_def)
  note restored = job_restored [OF sj pre(1-3) sample_job_facts(8) pre(4) sample_recs_facts(1) pre(5), of 9 False True]
  have start: "length (concat (k_images (w_os ?d))) = 0" "b_buf_len (c_block ?d) = 64" using b os by simp_all
  show ?thesis using restored ops unfolding recs start by blast
qed

end
