(* ===== verification/Rwlock.thy ===== *)
theory Rwlock
  imports Main
begin

text \<open>
  The read/write locks: \<^verbatim>\<open>src/bacula/src/lib/rwlock.c\<close>, used around the resources, the job chain and
  the Volume list, and \<^verbatim>\<open>lib/devlock.c\<close>, used for devices.  A function that runs from
  \<^verbatim>\<open>pthread_mutex_lock\<close> to \<^verbatim>\<open>pthread_mutex_unlock\<close> is one atomic step on the lock; the
  two functions that wait are cut at \<^verbatim>\<open>pthread_cond_wait\<close>, into the part up to the first
  wait and the part that runs each time the wait returns.  The results of the pthread calls are
  arguments.  The lock manager hooks (\<^verbatim>\<open>lmgr_*\<close>) only record what happens.  Counters
  are unbounded integers: they are bounded by the number of locks held and of threads.
\<close>

section \<open>Results\<close>

type_synonym thread = nat

definition EBUSY :: int where "EBUSY = 16"
definition EINVAL :: int where "EINVAL = 22"
definition ECANCELED :: int where "ECANCELED = 125"

text \<open>The step returns a status, waits on the condition variable, or aborts the program.\<close>

datatype outcome = Ret int | Wait | Abort

datatype signal = Quiet | Wake_readers | Wake_writers

text \<open>What the pthread calls return: lock and unlock of the mutex, broadcast.\<close>

record pthread_res =
  p_lock :: int
  p_unlock :: int
  p_broadcast :: int

section \<open>The read/write lock\<close>

record brwlock =
  k_writer_id :: thread
  k_priority :: int
  k_valid :: int
  k_r_active :: int
  k_w_active :: int
  k_r_wait :: int
  k_w_wait :: int

definition RWLOCK_VALID :: int where "RWLOCK_VALID = 0xfacade"

definition rwl_init :: "int \<Rightarrow> int \<Rightarrow> int \<Rightarrow> int \<Rightarrow> brwlock \<Rightarrow> int \<times> brwlock" where
  "rwl_init mutex_stat read_stat write_stat priority rwl =
     (let rwl = rwl\<lparr>k_r_active := 0, k_w_active := 0, k_r_wait := 0, k_w_wait := 0, k_priority := priority\<rparr>
      in if mutex_stat \<noteq> 0 then (mutex_stat, rwl)
         else if read_stat \<noteq> 0 then (read_stat, rwl)
         else if write_stat \<noteq> 0 then (write_stat, rwl)
         else (0, rwl\<lparr>k_valid := RWLOCK_VALID\<rparr>))"

definition rwl_destroy :: "pthread_res \<Rightarrow> int \<Rightarrow> int \<Rightarrow> int \<Rightarrow> brwlock \<Rightarrow> int \<times> brwlock" where
  "rwl_destroy pt stat stat1 stat2 rwl =
     (if k_valid rwl \<noteq> RWLOCK_VALID then (EINVAL, rwl)
      else if p_lock pt \<noteq> 0 then (p_lock pt, rwl)
      else if k_r_active rwl > 0 \<or> k_w_active rwl \<noteq> 0 then (EBUSY, rwl)
      else if k_r_wait rwl > 0 \<or> k_w_wait rwl > 0 then (EBUSY, rwl)
      else
        (let rwl = rwl\<lparr>k_valid := 0\<rparr>
         in if p_unlock pt \<noteq> 0 then (p_unlock pt, rwl)
            else (if stat \<noteq> 0 then stat else if stat1 \<noteq> 0 then stat1 else stat2, rwl)))"

text \<open>The cleanup handlers of a thread that is cancelled while it waits.\<close>

definition rwl_read_release :: "brwlock \<Rightarrow> brwlock" where
  "rwl_read_release rwl = rwl\<lparr>k_r_wait := k_r_wait rwl - 1\<rparr>"

definition rwl_write_release :: "brwlock \<Rightarrow> brwlock" where
  "rwl_write_release rwl = rwl\<lparr>k_w_wait := k_w_wait rwl - 1\<rparr>"

text \<open>\<^verbatim>\<open>rwl_readlock\<close> up to the wait, and the loop when the wait returns \<open>stat\<close>.\<close>

definition rwl_readlock :: "pthread_res \<Rightarrow> brwlock \<Rightarrow> outcome \<times> brwlock" where
  "rwl_readlock pt rwl =
     (if k_valid rwl \<noteq> RWLOCK_VALID then (Ret EINVAL, rwl)
      else if p_lock pt \<noteq> 0 then (Ret (p_lock pt), rwl)
      else if k_w_active rwl \<noteq> 0 then (Wait, rwl\<lparr>k_r_wait := k_r_wait rwl + 1\<rparr>)
      else (Ret 0, rwl\<lparr>k_r_active := k_r_active rwl + 1\<rparr>))"

definition rwl_readlock_woken :: "int \<Rightarrow> brwlock \<Rightarrow> outcome \<times> brwlock" where
  "rwl_readlock_woken stat rwl =
     (if stat = 0 \<and> k_w_active rwl \<noteq> 0 then (Wait, rwl)
      else
        (let rwl = rwl\<lparr>k_r_wait := k_r_wait rwl - 1\<rparr>
         in if stat = 0 then (Ret 0, rwl\<lparr>k_r_active := k_r_active rwl + 1\<rparr>) else (Ret stat, rwl)))"

definition rwl_readtrylock :: "pthread_res \<Rightarrow> brwlock \<Rightarrow> outcome \<times> brwlock" where
  "rwl_readtrylock pt rwl =
     (if k_valid rwl \<noteq> RWLOCK_VALID then (Ret EINVAL, rwl)
      else if p_lock pt \<noteq> 0 then (Ret (p_lock pt), rwl)
      else if k_w_active rwl \<noteq> 0 then (Ret EBUSY, rwl)
      else (Ret (p_unlock pt), rwl\<lparr>k_r_active := k_r_active rwl + 1\<rparr>))"

definition rwl_readunlock :: "pthread_res \<Rightarrow> brwlock \<Rightarrow> outcome \<times> signal \<times> brwlock" where
  "rwl_readunlock pt rwl =
     (if k_valid rwl \<noteq> RWLOCK_VALID then (Ret EINVAL, Quiet, rwl)
      else if p_lock pt \<noteq> 0 then (Ret (p_lock pt), Quiet, rwl)
      else
        (let rwl = rwl\<lparr>k_r_active := k_r_active rwl - 1\<rparr>;
             wake = (k_r_active rwl = 0 \<and> k_w_wait rwl > 0);
             stat = (if wake then p_broadcast pt else 0)
         in (Ret (if stat = 0 then p_unlock pt else stat), if wake then Wake_writers else Quiet, rwl)))"

definition rwl_writelock :: "pthread_res \<Rightarrow> thread \<Rightarrow> brwlock \<Rightarrow> outcome \<times> brwlock" where
  "rwl_writelock pt self rwl =
     (if k_valid rwl \<noteq> RWLOCK_VALID then (Ret EINVAL, rwl)
      else if p_lock pt \<noteq> 0 then (Ret (p_lock pt), rwl)
      else if k_w_active rwl \<noteq> 0 \<and> k_writer_id rwl = self then (Ret 0, rwl\<lparr>k_w_active := k_w_active rwl + 1\<rparr>)
      else if k_w_active rwl \<noteq> 0 \<or> k_r_active rwl > 0 then (Wait, rwl\<lparr>k_w_wait := k_w_wait rwl + 1\<rparr>)
      else (Ret 0, rwl\<lparr>k_w_active := k_w_active rwl + 1, k_writer_id := self\<rparr>))"

definition rwl_writelock_woken :: "int \<Rightarrow> thread \<Rightarrow> brwlock \<Rightarrow> outcome \<times> brwlock" where
  "rwl_writelock_woken stat self rwl =
     (if stat = 0 \<and> (k_w_active rwl \<noteq> 0 \<or> k_r_active rwl > 0) then (Wait, rwl)
      else
        (let rwl = rwl\<lparr>k_w_wait := k_w_wait rwl - 1\<rparr>
         in if stat = 0 then (Ret 0, rwl\<lparr>k_w_active := k_w_active rwl + 1, k_writer_id := self\<rparr>)
            else (Ret stat, rwl)))"

definition rwl_writetrylock :: "pthread_res \<Rightarrow> thread \<Rightarrow> brwlock \<Rightarrow> outcome \<times> brwlock" where
  "rwl_writetrylock pt self rwl =
     (if k_valid rwl \<noteq> RWLOCK_VALID then (Ret EINVAL, rwl)
      else if p_lock pt \<noteq> 0 then (Ret (p_lock pt), rwl)
      else if k_w_active rwl \<noteq> 0 \<and> k_writer_id rwl = self then (Ret 0, rwl\<lparr>k_w_active := k_w_active rwl + 1\<rparr>)
      else if k_w_active rwl \<noteq> 0 \<or> k_r_active rwl > 0 then (Ret EBUSY, rwl)
      else (Ret (p_unlock pt), rwl\<lparr>k_w_active := 1, k_writer_id := self\<rparr>))"

definition rwl_writeunlock :: "pthread_res \<Rightarrow> thread \<Rightarrow> brwlock \<Rightarrow> outcome \<times> signal \<times> brwlock" where
  "rwl_writeunlock pt self rwl =
     (if k_valid rwl \<noteq> RWLOCK_VALID then (Ret EINVAL, Quiet, rwl)
      else if p_lock pt \<noteq> 0 then (Ret (p_lock pt), Quiet, rwl)
      else if k_w_active rwl \<le> 0 then (Abort, Quiet, rwl)
      else
        (let rwl = rwl\<lparr>k_w_active := k_w_active rwl - 1\<rparr>
         in if k_writer_id rwl \<noteq> self then (Abort, Quiet, rwl)
            else
              (let wake = (if k_w_active rwl > 0 then Quiet
                           else if k_r_wait rwl > 0 then Wake_readers
                           else if k_w_wait rwl > 0 then Wake_writers else Quiet);
                   stat = (if wake = Quiet then 0 else p_broadcast pt)
               in (Ret (if stat = 0 then p_unlock pt else stat), wake, rwl))))"

definition is_rwl_valid :: "brwlock \<Rightarrow> bool" where
  "is_rwl_valid rwl \<longleftrightarrow> k_valid rwl = RWLOCK_VALID"

section \<open>The device lock\<close>

record devlock =
  d_writer_id :: thread
  d_priority :: int
  d_valid :: int
  d_r_active :: int
  d_w_active :: int
  d_r_wait :: int
  d_w_wait :: int
  d_reason :: int
  d_prev_reason :: int
  d_can_take :: bool

record take_lock_t =
  tl_writer_id :: thread
  tl_reason :: int
  tl_prev_reason :: int

definition DEVLOCK_VALID :: int where "DEVLOCK_VALID = 0xfadbec"

definition new_devlock :: devlock where
  "new_devlock = \<lparr>d_writer_id = 0, d_priority = 0, d_valid = 0, d_r_active = 0, d_w_active = 0, d_r_wait = 0,
     d_w_wait = 0, d_reason = 0, d_prev_reason = 0, d_can_take = False\<rparr>"

definition devlock_init :: "int \<Rightarrow> int \<Rightarrow> int \<Rightarrow> int \<Rightarrow> devlock \<Rightarrow> int \<times> devlock" where
  "devlock_init mutex_stat read_stat write_stat priority rwl =
     (let rwl = rwl\<lparr>d_r_active := 0, d_w_active := 0, d_r_wait := 0, d_w_wait := 0, d_priority := priority\<rparr>
      in if mutex_stat \<noteq> 0 then (mutex_stat, rwl)
         else if read_stat \<noteq> 0 then (read_stat, rwl)
         else if write_stat \<noteq> 0 then (write_stat, rwl)
         else (0, rwl\<lparr>d_valid := DEVLOCK_VALID\<rparr>))"

definition devlock_destroy :: "pthread_res \<Rightarrow> int \<Rightarrow> int \<Rightarrow> int \<Rightarrow> devlock \<Rightarrow> int \<times> devlock" where
  "devlock_destroy pt stat stat1 stat2 rwl =
     (if d_valid rwl \<noteq> DEVLOCK_VALID then (EINVAL, rwl)
      else if p_lock pt \<noteq> 0 then (p_lock pt, rwl)
      else if d_r_active rwl > 0 \<or> d_w_active rwl \<noteq> 0 then (EBUSY, rwl)
      else if d_r_wait rwl > 0 \<or> d_w_wait rwl > 0 then (EBUSY, rwl)
      else
        (let rwl = rwl\<lparr>d_valid := 0\<rparr>
         in if p_unlock pt \<noteq> 0 then (p_unlock pt, rwl)
            else (if stat \<noteq> 0 then stat else if stat1 \<noteq> 0 then stat1 else stat2, rwl)))"

definition read_release :: "devlock \<Rightarrow> devlock" where
  "read_release rwl = rwl\<lparr>d_r_wait := d_r_wait rwl - 1\<rparr>"

definition write_release :: "devlock \<Rightarrow> devlock" where
  "write_release rwl = rwl\<lparr>d_w_wait := d_w_wait rwl - 1\<rparr>"

definition readlock :: "pthread_res \<Rightarrow> devlock \<Rightarrow> outcome \<times> devlock" where
  "readlock pt rwl =
     (if d_valid rwl \<noteq> DEVLOCK_VALID then (Ret EINVAL, rwl)
      else if p_lock pt \<noteq> 0 then (Ret (p_lock pt), rwl)
      else if d_w_active rwl \<noteq> 0 then (Wait, rwl\<lparr>d_r_wait := d_r_wait rwl + 1\<rparr>)
      else (Ret 0, rwl\<lparr>d_r_active := d_r_active rwl + 1\<rparr>))"

definition readlock_woken :: "int \<Rightarrow> devlock \<Rightarrow> outcome \<times> devlock" where
  "readlock_woken stat rwl =
     (if stat = 0 \<and> d_w_active rwl \<noteq> 0 then (Wait, rwl)
      else
        (let rwl = rwl\<lparr>d_r_wait := d_r_wait rwl - 1\<rparr>
         in if stat = 0 then (Ret 0, rwl\<lparr>d_r_active := d_r_active rwl + 1\<rparr>) else (Ret stat, rwl)))"

definition readtrylock :: "pthread_res \<Rightarrow> devlock \<Rightarrow> outcome \<times> devlock" where
  "readtrylock pt rwl =
     (if d_valid rwl \<noteq> DEVLOCK_VALID then (Ret EINVAL, rwl)
      else if p_lock pt \<noteq> 0 then (Ret (p_lock pt), rwl)
      else if d_w_active rwl \<noteq> 0 then (Ret EBUSY, rwl)
      else (Ret (p_unlock pt), rwl\<lparr>d_r_active := d_r_active rwl + 1\<rparr>))"

definition readunlock :: "pthread_res \<Rightarrow> devlock \<Rightarrow> outcome \<times> signal \<times> devlock" where
  "readunlock pt rwl =
     (if d_valid rwl \<noteq> DEVLOCK_VALID then (Ret EINVAL, Quiet, rwl)
      else if p_lock pt \<noteq> 0 then (Ret (p_lock pt), Quiet, rwl)
      else
        (let rwl = rwl\<lparr>d_r_active := d_r_active rwl - 1\<rparr>;
             wake = (d_r_active rwl = 0 \<and> d_w_wait rwl > 0);
             stat = (if wake then p_broadcast pt else 0)
         in (Ret (if stat = 0 then p_unlock pt else stat), if wake then Wake_writers else Quiet, rwl)))"

text \<open>The reason of the lock is stored whether it was taken or not, but not for a nested lock.\<close>

definition writelock :: "int \<Rightarrow> bool \<Rightarrow> pthread_res \<Rightarrow> thread \<Rightarrow> devlock \<Rightarrow> outcome \<times> devlock" where
  "writelock areason acan_take pt self rwl =
     (if d_valid rwl \<noteq> DEVLOCK_VALID then (Ret EINVAL, rwl)
      else if p_lock pt \<noteq> 0 then (Ret (p_lock pt), rwl)
      else if d_w_active rwl \<noteq> 0 \<and> d_writer_id rwl = self then (Ret 0, rwl\<lparr>d_w_active := d_w_active rwl + 1\<rparr>)
      else if d_w_active rwl \<noteq> 0 \<or> d_r_active rwl > 0 then (Wait, rwl\<lparr>d_w_wait := d_w_wait rwl + 1\<rparr>)
      else (Ret 0, rwl\<lparr>d_w_active := d_w_active rwl + 1, d_writer_id := self, d_reason := areason, d_can_take := acan_take\<rparr>))"

definition writelock_woken :: "int \<Rightarrow> bool \<Rightarrow> int \<Rightarrow> thread \<Rightarrow> devlock \<Rightarrow> outcome \<times> devlock" where
  "writelock_woken areason acan_take stat self rwl =
     (if stat = 0 \<and> (d_w_active rwl \<noteq> 0 \<or> d_r_active rwl > 0) then (Wait, rwl)
      else
        (let rwl = rwl\<lparr>d_w_wait := d_w_wait rwl - 1\<rparr>;
             rwl = (if stat = 0 then rwl\<lparr>d_w_active := d_w_active rwl + 1, d_writer_id := self\<rparr> else rwl)
         in (Ret stat, rwl\<lparr>d_reason := areason, d_can_take := acan_take\<rparr>)))"

definition writetrylock :: "pthread_res \<Rightarrow> thread \<Rightarrow> devlock \<Rightarrow> outcome \<times> devlock" where
  "writetrylock pt self rwl =
     (if d_valid rwl \<noteq> DEVLOCK_VALID then (Ret EINVAL, rwl)
      else if p_lock pt \<noteq> 0 then (Ret (p_lock pt), rwl)
      else if d_w_active rwl \<noteq> 0 \<and> d_writer_id rwl = self then (Ret 0, rwl\<lparr>d_w_active := d_w_active rwl + 1\<rparr>)
      else if d_w_active rwl \<noteq> 0 \<or> d_r_active rwl > 0 then (Ret EBUSY, rwl)
      else (Ret (p_unlock pt), rwl\<lparr>d_w_active := 1, d_writer_id := self\<rparr>))"

definition writeunlock :: "pthread_res \<Rightarrow> thread \<Rightarrow> devlock \<Rightarrow> outcome \<times> signal \<times> devlock" where
  "writeunlock pt self rwl =
     (if d_valid rwl \<noteq> DEVLOCK_VALID then (Ret EINVAL, Quiet, rwl)
      else if p_lock pt \<noteq> 0 then (Ret (p_lock pt), Quiet, rwl)
      else if d_w_active rwl \<le> 0 then (Abort, Quiet, rwl)
      else
        (let rwl = rwl\<lparr>d_w_active := d_w_active rwl - 1\<rparr>
         in if d_writer_id rwl \<noteq> self then (Abort, Quiet, rwl)
            else
              (let wake = (if d_w_active rwl > 0 then Quiet
                           else if d_r_wait rwl > 0 then Wake_readers
                           else if d_w_wait rwl > 0 then Wake_writers else Quiet);
                   stat = (if wake = Quiet then 0 else p_broadcast pt)
               in (Ret (if stat = 0 then p_unlock pt else stat), wake, rwl))))"

definition take_lock :: "pthread_res \<Rightarrow> thread \<Rightarrow> int \<Rightarrow> take_lock_t \<Rightarrow> devlock \<Rightarrow> int \<times> take_lock_t \<times> devlock" where
  "take_lock pt self areason hold rwl =
     (if d_valid rwl \<noteq> DEVLOCK_VALID then (EINVAL, hold, rwl)
      else if p_lock pt \<noteq> 0 then (p_lock pt, hold, rwl)
      else
        (p_unlock pt,
         \<lparr>tl_writer_id = d_writer_id rwl, tl_reason = d_reason rwl, tl_prev_reason = d_prev_reason rwl\<rparr>,
         rwl\<lparr>d_reason := areason, d_writer_id := self\<rparr>))"

text \<open>The statement that restores the owner is followed by one that overwrites it.\<close>

definition return_lock :: "pthread_res \<Rightarrow> thread \<Rightarrow> take_lock_t \<Rightarrow> devlock \<Rightarrow> int \<times> signal \<times> devlock" where
  "return_lock pt self hold rwl =
     (if d_valid rwl \<noteq> DEVLOCK_VALID then (EINVAL, Quiet, rwl)
      else if p_lock pt \<noteq> 0 then (p_lock pt, Quiet, rwl)
      else
        (let rwl = rwl\<lparr>d_reason := tl_reason hold, d_prev_reason := tl_prev_reason hold\<rparr>;
             rwl = rwl\<lparr>d_writer_id := tl_writer_id hold\<rparr>;
             rwl = rwl\<lparr>d_writer_id := self\<rparr>;
             wake = (d_w_active rwl \<noteq> 0 \<or> d_w_wait rwl \<noteq> 0);
             stat = (if wake then p_broadcast pt else 0)
         in (if stat = 0 then p_unlock pt else stat, if wake then Wake_writers else Quiet, rwl)))"

definition new_reason :: "int \<Rightarrow> devlock \<Rightarrow> devlock" where
  "new_reason nreason rwl = rwl\<lparr>d_prev_reason := d_reason rwl, d_reason := nreason\<rparr>"

definition restore_reason :: "devlock \<Rightarrow> devlock" where
  "restore_reason rwl = rwl\<lparr>d_reason := d_prev_reason rwl, d_prev_reason := 0\<rparr>"

section \<open>Threads\<close>

text \<open>
  The two locks through one interface, and any number \<open>n\<close> of threads that use one of them.  A thread
  runs, or waits for the condition variable of the readers or of the writers, blocked or woken;
  \<open>y_rheld\<close> and \<open>y_wheld\<close> count the locks it holds.  A thread gives back only what it
  holds, and \<open>errs\<close> are the results \<^verbatim>\<open>pthread_cond_wait\<close> can have, with \<open>ECANCELED\<close>
  for the cancellation of a waiting thread, whose cleanup handler runs.  A blocked thread may also wake up by itself.
\<close>

record 'l lock_ops =
  o_read_release :: "'l \<Rightarrow> 'l"
  o_write_release :: "'l \<Rightarrow> 'l"
  o_readlock :: "pthread_res \<Rightarrow> 'l \<Rightarrow> outcome \<times> 'l"
  o_readlock_woken :: "int \<Rightarrow> 'l \<Rightarrow> outcome \<times> 'l"
  o_readtrylock :: "pthread_res \<Rightarrow> 'l \<Rightarrow> outcome \<times> 'l"
  o_readunlock :: "pthread_res \<Rightarrow> 'l \<Rightarrow> outcome \<times> signal \<times> 'l"
  o_writelock :: "pthread_res \<Rightarrow> thread \<Rightarrow> 'l \<Rightarrow> outcome \<times> 'l"
  o_writelock_woken :: "int \<Rightarrow> thread \<Rightarrow> 'l \<Rightarrow> outcome \<times> 'l"
  o_writetrylock :: "pthread_res \<Rightarrow> thread \<Rightarrow> 'l \<Rightarrow> outcome \<times> 'l"
  o_writeunlock :: "pthread_res \<Rightarrow> thread \<Rightarrow> 'l \<Rightarrow> outcome \<times> signal \<times> 'l"

definition rwl_ops :: "brwlock lock_ops" where
  "rwl_ops = \<lparr>o_read_release = rwl_read_release, o_write_release = rwl_write_release, o_readlock = rwl_readlock, o_readlock_woken = rwl_readlock_woken, o_readtrylock = rwl_readtrylock,
     o_readunlock = rwl_readunlock, o_writelock = rwl_writelock, o_writelock_woken = rwl_writelock_woken,
     o_writetrylock = rwl_writetrylock, o_writeunlock = rwl_writeunlock\<rparr>"

definition devlock_ops :: "int \<Rightarrow> bool \<Rightarrow> devlock lock_ops" where
  "devlock_ops areason acan_take = \<lparr>o_read_release = read_release, o_write_release = write_release, o_readlock = readlock, o_readlock_woken = readlock_woken,
     o_readtrylock = readtrylock, o_readunlock = readunlock, o_writelock = writelock areason acan_take,
     o_writelock_woken = writelock_woken areason acan_take, o_writetrylock = writetrylock, o_writeunlock = writeunlock\<rparr>"

datatype pc = Running | Blocked_r | Woken_r | Blocked_w | Woken_w

record 'l lock_sys =
  y_lock :: 'l
  y_pc :: "thread \<Rightarrow> pc"
  y_rheld :: "thread \<Rightarrow> nat"
  y_wheld :: "thread \<Rightarrow> nat"

definition pthread_ok :: "pthread_res \<Rightarrow> bool" where
  "pthread_ok pt \<longleftrightarrow> p_unlock pt = 0 \<and> p_broadcast pt = 0"

fun awaken :: "signal \<Rightarrow> pc \<Rightarrow> pc" where
  "awaken Wake_readers Blocked_r = Woken_r"
| "awaken Wake_writers Blocked_w = Woken_w"
| "awaken _ p = p"

definition after_read :: "thread \<Rightarrow> outcome \<times> 'l \<Rightarrow> 'l lock_sys \<Rightarrow> 'l lock_sys" where
  "after_read t res y =
     (let y = y\<lparr>y_lock := snd res, y_pc := (y_pc y)(t := (if fst res = Wait then Blocked_r else Running))\<rparr>
      in if fst res = Ret 0 then y\<lparr>y_rheld := (y_rheld y)(t := Suc (y_rheld y t))\<rparr> else y)"

definition after_write :: "thread \<Rightarrow> outcome \<times> 'l \<Rightarrow> 'l lock_sys \<Rightarrow> 'l lock_sys" where
  "after_write t res y =
     (let y = y\<lparr>y_lock := snd res, y_pc := (y_pc y)(t := (if fst res = Wait then Blocked_w else Running))\<rparr>
      in if fst res = Ret 0 then y\<lparr>y_wheld := (y_wheld y)(t := Suc (y_wheld y t))\<rparr> else y)"

inductive lock_step :: "'l lock_ops \<Rightarrow> nat \<Rightarrow> int set \<Rightarrow> 'l lock_sys \<Rightarrow> 'l lock_sys \<Rightarrow> bool"
  for ops :: "'l lock_ops" and n :: nat and errs :: "int set" where
  read_enter: "t < n \<Longrightarrow> y_pc y t = Running \<Longrightarrow> pthread_ok pt \<Longrightarrow>
     lock_step ops n errs y (after_read t (o_readlock ops pt (y_lock y)) y)"
| read_woken: "t < n \<Longrightarrow> y_pc y t \<in> {Blocked_r, Woken_r} \<Longrightarrow> stat \<in> errs \<Longrightarrow>
     lock_step ops n errs y (after_read t (o_readlock_woken ops stat (y_lock y)) y)"
| read_cancel: "t < n \<Longrightarrow> y_pc y t \<in> {Blocked_r, Woken_r} \<Longrightarrow> ECANCELED \<in> errs \<Longrightarrow>
     lock_step ops n errs y (after_read t (Ret ECANCELED, o_read_release ops (y_lock y)) y)"
| read_try: "t < n \<Longrightarrow> y_pc y t = Running \<Longrightarrow> pthread_ok pt \<Longrightarrow>
     lock_step ops n errs y (after_read t (o_readtrylock ops pt (y_lock y)) y)"
| read_unlock: "t < n \<Longrightarrow> y_pc y t = Running \<Longrightarrow> 0 < y_rheld y t \<Longrightarrow> pthread_ok pt \<Longrightarrow>
     o_readunlock ops pt (y_lock y) = (Ret 0, sig, l) \<Longrightarrow>
     lock_step ops n errs y
       (y\<lparr>y_lock := l, y_pc := awaken sig \<circ> y_pc y, y_rheld := (y_rheld y)(t := y_rheld y t - 1)\<rparr>)"
| write_enter: "t < n \<Longrightarrow> y_pc y t = Running \<Longrightarrow> pthread_ok pt \<Longrightarrow>
     lock_step ops n errs y (after_write t (o_writelock ops pt t (y_lock y)) y)"
| write_woken: "t < n \<Longrightarrow> y_pc y t \<in> {Blocked_w, Woken_w} \<Longrightarrow> stat \<in> errs \<Longrightarrow>
     lock_step ops n errs y (after_write t (o_writelock_woken ops stat t (y_lock y)) y)"
| write_cancel: "t < n \<Longrightarrow> y_pc y t \<in> {Blocked_w, Woken_w} \<Longrightarrow> ECANCELED \<in> errs \<Longrightarrow>
     lock_step ops n errs y (after_write t (Ret ECANCELED, o_write_release ops (y_lock y)) y)"
| write_try: "t < n \<Longrightarrow> y_pc y t = Running \<Longrightarrow> pthread_ok pt \<Longrightarrow>
     lock_step ops n errs y (after_write t (o_writetrylock ops pt t (y_lock y)) y)"
| write_unlock: "t < n \<Longrightarrow> y_pc y t = Running \<Longrightarrow> 0 < y_wheld y t \<Longrightarrow> pthread_ok pt \<Longrightarrow>
     o_writeunlock ops pt t (y_lock y) = (Ret 0, sig, l) \<Longrightarrow>
     lock_step ops n errs y
       (y\<lparr>y_lock := l, y_pc := awaken sig \<circ> y_pc y, y_wheld := (y_wheld y)(t := y_wheld y t - 1)\<rparr>)"

definition idle_sys :: "'l \<Rightarrow> 'l lock_sys" where
  "idle_sys l = \<lparr>y_lock = l, y_pc = (\<lambda>_. Running), y_rheld = (\<lambda>_. 0), y_wheld = (\<lambda>_. 0)\<rparr>"

abbreviation lock_reach :: "'l lock_ops \<Rightarrow> nat \<Rightarrow> int set \<Rightarrow> 'l lock_sys \<Rightarrow> 'l lock_sys \<Rightarrow> bool" where
  "lock_reach ops n errs \<equiv> (lock_step ops n errs)\<^sup>*\<^sup>*"

section \<open>What a read/write lock promises\<close>

text \<open>The counters of a lock, and its operations on them.\<close>

record lock_view =
  v_r :: int
  v_w :: int
  v_rwait :: int
  v_wwait :: int
  v_id :: thread

definition spec_read :: "pthread_res \<Rightarrow> lock_view \<Rightarrow> outcome \<times> lock_view" where
  "spec_read pt v =
     (if p_lock pt \<noteq> 0 then (Ret (p_lock pt), v)
      else if v_w v \<noteq> 0 then (Wait, v\<lparr>v_rwait := v_rwait v + 1\<rparr>) else (Ret 0, v\<lparr>v_r := v_r v + 1\<rparr>))"

definition spec_read_woken :: "int \<Rightarrow> lock_view \<Rightarrow> outcome \<times> lock_view" where
  "spec_read_woken stat v =
     (if stat \<noteq> 0 then (Ret stat, v\<lparr>v_rwait := v_rwait v - 1\<rparr>)
      else if v_w v \<noteq> 0 then (Wait, v) else (Ret 0, v\<lparr>v_rwait := v_rwait v - 1, v_r := v_r v + 1\<rparr>))"

definition spec_read_try :: "pthread_res \<Rightarrow> lock_view \<Rightarrow> outcome \<times> lock_view" where
  "spec_read_try pt v =
     (if p_lock pt \<noteq> 0 then (Ret (p_lock pt), v)
      else if v_w v \<noteq> 0 then (Ret EBUSY, v) else (Ret (p_unlock pt), v\<lparr>v_r := v_r v + 1\<rparr>))"

definition spec_write :: "pthread_res \<Rightarrow> thread \<Rightarrow> lock_view \<Rightarrow> outcome \<times> lock_view" where
  "spec_write pt self v =
     (if p_lock pt \<noteq> 0 then (Ret (p_lock pt), v)
      else if v_w v \<noteq> 0 \<and> v_id v = self then (Ret 0, v\<lparr>v_w := v_w v + 1\<rparr>)
      else if v_w v \<noteq> 0 \<or> v_r v > 0 then (Wait, v\<lparr>v_wwait := v_wwait v + 1\<rparr>)
      else (Ret 0, v\<lparr>v_w := v_w v + 1, v_id := self\<rparr>))"

definition spec_write_woken :: "int \<Rightarrow> thread \<Rightarrow> lock_view \<Rightarrow> outcome \<times> lock_view" where
  "spec_write_woken stat self v =
     (if stat \<noteq> 0 then (Ret stat, v\<lparr>v_wwait := v_wwait v - 1\<rparr>)
      else if v_w v \<noteq> 0 \<or> v_r v > 0 then (Wait, v)
      else (Ret 0, v\<lparr>v_wwait := v_wwait v - 1, v_w := v_w v + 1, v_id := self\<rparr>))"

definition spec_write_try :: "pthread_res \<Rightarrow> thread \<Rightarrow> lock_view \<Rightarrow> outcome \<times> lock_view" where
  "spec_write_try pt self v =
     (if p_lock pt \<noteq> 0 then (Ret (p_lock pt), v)
      else if v_w v \<noteq> 0 \<and> v_id v = self then (Ret 0, v\<lparr>v_w := v_w v + 1\<rparr>)
      else if v_w v \<noteq> 0 \<or> v_r v > 0 then (Ret EBUSY, v)
      else (Ret (p_unlock pt), v\<lparr>v_w := 1, v_id := self\<rparr>))"

definition spec_read_unlock :: "lock_view \<Rightarrow> signal \<times> lock_view" where
  "spec_read_unlock v =
     (if v_r v = 1 \<and> v_wwait v > 0 then Wake_writers else Quiet, v\<lparr>v_r := v_r v - 1\<rparr>)"

definition spec_write_unlock :: "lock_view \<Rightarrow> signal \<times> lock_view" where
  "spec_write_unlock v =
     (if v_w v > 1 then Quiet else if v_rwait v > 0 then Wake_readers
      else if v_wwait v > 0 then Wake_writers else Quiet, v\<lparr>v_w := v_w v - 1\<rparr>)"

section \<open>Counters and threads agree\<close>

fun is_reading :: "pc \<Rightarrow> bool" where
  "is_reading Blocked_r = True" | "is_reading Woken_r = True" | "is_reading _ = False"

fun is_writing :: "pc \<Rightarrow> bool" where
  "is_writing Blocked_w = True" | "is_writing Woken_w = True" | "is_writing _ = False"

fun count :: "nat \<Rightarrow> (pc \<Rightarrow> bool) \<Rightarrow> (thread \<Rightarrow> pc) \<Rightarrow> nat" where
  "count 0 p pcs = 0"
| "count (Suc n) p pcs = count n p pcs + of_bool (p (pcs n))"

fun total :: "nat \<Rightarrow> (thread \<Rightarrow> nat) \<Rightarrow> int" where
  "total 0 f = 0"
| "total (Suc n) f = total n f + int (f n)"

definition lock_inv :: "nat \<Rightarrow> lock_view \<Rightarrow> (thread \<Rightarrow> pc) \<Rightarrow> (thread \<Rightarrow> nat) \<Rightarrow> (thread \<Rightarrow> nat) \<Rightarrow> bool" where
  "lock_inv n v pcs rh wh \<longleftrightarrow>
     v_r v = total n rh \<and> v_w v = total n wh \<and>
     v_rwait v = int (count n is_reading pcs) \<and> v_wwait v = int (count n is_writing pcs) \<and>
     (\<forall>t<n. t \<noteq> v_id v \<longrightarrow> wh t = 0) \<and> (v_w v \<noteq> 0 \<longrightarrow> v_r v = 0)"

lemma total_beyond: "n \<le> t \<Longrightarrow> total n (f(t := x)) = total n f"
  by (induction n) auto

lemma total_upd: "t < n \<Longrightarrow> total n (f(t := x)) = total n f - int (f t) + int x"
  by (induction n) (auto simp: less_Suc_eq total_beyond)

lemma total_nonneg: "0 \<le> total n f"
  by (induction n) auto

lemma total_ge: "t < n \<Longrightarrow> int (f t) \<le> total n f"
  by (induction n) (auto simp: less_Suc_eq, use total_nonneg in \<open>smt (verit)\<close>)

lemma total_0_iff: "total n f = 0 \<longleftrightarrow> (\<forall>t<n. f t = 0)"
  by (induction n) (auto simp: less_Suc_eq add_nonneg_eq_0_iff total_nonneg)

lemma count_beyond: "n \<le> t \<Longrightarrow> count n p (pcs(t := c)) = count n p pcs"
  by (induction n) auto

lemma count_upd:
  "t < n \<Longrightarrow> int (count n p (pcs(t := c))) = int (count n p pcs) - of_bool (p (pcs t)) + of_bool (p c)"
  by (induction n) (auto simp: less_Suc_eq count_beyond)

lemma count_pos_iff: "0 < count n p pcs \<longleftrightarrow> (\<exists>t<n. p (pcs t))"
  by (induction n) (auto simp: less_Suc_eq)

lemma awaken_kind [simp]: "is_reading (awaken s p) = is_reading p" "is_writing (awaken s p) = is_writing p"
  by (cases "(s, p)" rule: awaken.cases; simp)+

lemma count_awaken [simp]:
  "count n is_reading (awaken s \<circ> pcs) = count n is_reading pcs" "count n is_writing (awaken s \<circ> pcs) = count n is_writing pcs"
  by (induction n) simp_all

section \<open>The operations keep the agreement\<close>

lemma inv_read:
  assumes "lock_inv n v pcs rh wh" and "t < n" and "pcs t = Running" and "spec_read pt v = (out, v')"
  shows "lock_inv n v' (pcs(t := (if out = Wait then Blocked_r else Running)))
    (if out = Ret 0 then rh(t := Suc (rh t)) else rh) wh"
  using assms by (auto simp: lock_inv_def spec_read_def count_upd total_upd split: if_splits)

lemma inv_read_woken:
  assumes "lock_inv n v pcs rh wh" and "t < n" and "is_reading (pcs t)" and "spec_read_woken stat v = (out, v')"
  shows "lock_inv n v' (pcs(t := (if out = Wait then Blocked_r else Running)))
    (if out = Ret 0 then rh(t := Suc (rh t)) else rh) wh"
  using assms by (cases "pcs t") (auto simp: lock_inv_def spec_read_woken_def count_upd total_upd split: if_splits)


text \<open>A writer gets a lock that is free or its own.\<close>

lemma inv_write_got:
  assumes "lock_inv n v pcs rh wh" and "t < n" and "v_w v = 0 \<and> v_r v = 0 \<or> v_w v \<noteq> 0 \<and> v_id v = t"
  shows "lock_inv n (v\<lparr>v_w := v_w v + 1, v_id := t\<rparr>) pcs rh (wh(t := Suc (wh t)))"
proof -
  have "\<forall>u<n. u \<noteq> t \<longrightarrow> wh u = 0"
    using assms(1,3) total_0_iff [of n wh] by (auto simp: lock_inv_def)
  then show ?thesis using assms by (auto simp: lock_inv_def total_upd)
qed

lemma inv_wait:
  assumes "lock_inv n v pcs rh wh" and "t < n"
    and "v' = v\<lparr>v_rwait := v_rwait v - of_bool (is_reading (pcs t)) + of_bool (is_reading c),
                v_wwait := v_wwait v - of_bool (is_writing (pcs t)) + of_bool (is_writing c)\<rparr>"
  shows "lock_inv n v' (pcs(t := c)) rh wh"
  using assms by (auto simp: lock_inv_def count_upd)

lemma inv_write:
  assumes "lock_inv n v pcs rh wh" and "t < n" and "pcs t = Running" and "spec_write pt t v = (out, v')"
  shows "lock_inv n v' (pcs(t := (if out = Wait then Blocked_w else Running))) rh
    (if out = Ret 0 then wh(t := Suc (wh t)) else wh)"
proof -
  have "0 \<le> v_r v" using assms(1) by (simp add: lock_inv_def total_nonneg)
  moreover have "lock_inv n (v\<lparr>v_wwait := v_wwait v + 1\<rparr>) (pcs(t := Blocked_w)) rh wh"
    using inv_wait [OF assms(1,2), of _ Blocked_w] assms(3) by simp
  moreover have "pcs(t := Running) = pcs" using assms(3) by auto
  moreover have "v\<lparr>v_w := v_w v + 1\<rparr> = v\<lparr>v_w := v_w v + 1, v_id := t\<rparr>" if "v_id v = t" using that by simp
  ultimately show ?thesis
    using assms(1,4) inv_write_got [OF assms(1,2)] by (auto simp: spec_write_def split: if_splits)
qed

lemma inv_write_woken:
  assumes "lock_inv n v pcs rh wh" and "t < n" and "is_writing (pcs t)" and "spec_write_woken stat t v = (out, v')"
  shows "lock_inv n v' (pcs(t := (if out = Wait then Blocked_w else Running))) rh
    (if out = Ret 0 then wh(t := Suc (wh t)) else wh)"
proof -
  have nr: "\<not> is_reading (pcs t)" using assms(3) by (cases "pcs t") auto
  have pos: "0 \<le> v_r v" using assms(1) by (simp add: lock_inv_def total_nonneg)
  have left: "lock_inv n (v\<lparr>v_wwait := v_wwait v - 1\<rparr>) (pcs(t := Running)) rh wh"
    using inv_wait [OF assms(1,2), of _ Running] assms(3) nr by simp
  have stay: "lock_inv n v (pcs(t := Blocked_w)) rh wh"
    using inv_wait [OF assms(1,2), of _ Blocked_w] assms(3) nr by simp
  show ?thesis
    using assms(4) left stay inv_write_got [OF left assms(2)] pos
    by (auto simp: spec_write_woken_def split: if_splits)
qed

text \<open>The attempts are the locks without the wait.\<close>

lemma try_eq:
  assumes "pthread_ok pt" and "lock_inv n v pcs rh wh"
  shows "spec_read_try pt v = (out, v') \<Longrightarrow> spec_read pt v = (out, v') \<or> v' = v \<and> out \<noteq> Ret 0 \<and> out \<noteq> Wait"
    and "spec_write_try pt t v = (out, v') \<Longrightarrow> spec_write pt t v = (out, v') \<or> v' = v \<and> out \<noteq> Ret 0 \<and> out \<noteq> Wait"
  using assms(1) by (auto simp: spec_read_try_def spec_read_def spec_write_try_def spec_write_def pthread_ok_def EBUSY_def)

lemma inv_read_unlock:
  assumes "lock_inv n v pcs rh wh" and "t < n" and "0 < rh t" and "spec_read_unlock v = (sig, v')"
  shows "lock_inv n v' (awaken sig \<circ> pcs) (rh(t := rh t - 1)) wh"
proof -
  have "0 < v_r v" using assms(1-3) total_ge [of t n rh] by (auto simp: lock_inv_def)
  then show ?thesis using assms by (auto simp: lock_inv_def spec_read_unlock_def total_upd)
qed

lemma inv_write_unlock:
  assumes "lock_inv n v pcs rh wh" and "t < n" and "0 < wh t" and "spec_write_unlock v = (sig, v')"
  shows "lock_inv n v' (awaken sig \<circ> pcs) rh (wh(t := wh t - 1))"
proof -
  have "0 < v_w v" using assms(1-3) total_ge [of t n wh] by (auto simp: lock_inv_def)
  then show ?thesis using assms by (auto simp: lock_inv_def spec_write_unlock_def total_upd)
qed

text \<open>A thread that holds the write lock is its owner.\<close>

lemma holder_owns:
  assumes "lock_inv n v pcs rh wh" and "t < n" and "0 < wh t"
  shows "0 < v_w v" and "v_id v = t"
  using assms total_ge [of t n wh] by (auto simp: lock_inv_def)

section \<open>Nobody sleeps on a free lock\<close>

definition wake_inv :: "nat \<Rightarrow> lock_view \<Rightarrow> (thread \<Rightarrow> pc) \<Rightarrow> bool" where
  "wake_inv n v pcs \<longleftrightarrow>
     (v_w v = 0 \<longrightarrow> (\<forall>t<n. pcs t \<noteq> Blocked_r)) \<and>
     (v_w v = 0 \<and> v_r v = 0 \<and> (\<exists>t<n. pcs t = Blocked_w) \<longrightarrow> (\<exists>t<n. pcs t \<in> {Woken_r, Woken_w}))"

lemma wake_taken:
  assumes "wake_inv n v pcs" and "v_r v' > 0 \<and> v_w v' = 0 \<and> v_w v = 0 \<or> v_w v' \<noteq> 0" and "c \<noteq> Blocked_r \<or> v_w v' \<noteq> 0"
  shows "wake_inv n v' (pcs(t := c))"
  using assms by (auto simp: wake_inv_def)

lemma wake_read:
  assumes "wake_inv n v pcs" and "lock_inv n v pcs rh wh" and "pcs t = Running" and "spec_read pt v = (out, v')"
  shows "wake_inv n v' (pcs(t := (if out = Wait then Blocked_r else Running)))"
proof -
  have same: "pcs(t := Running) = pcs" and pos: "0 \<le> v_r v" using assms(2,3) by (auto simp: lock_inv_def total_nonneg)
  show ?thesis
  proof (cases "p_lock pt = 0")
    case True
    then show ?thesis
      using assms(4) pos by (intro wake_taken [OF assms(1)]) (auto simp: spec_read_def split: if_splits)
  qed (use assms(1,4) same in \<open>auto simp: spec_read_def\<close>)
qed

lemma wake_read_woken:
  assumes "wake_inv n v pcs" and "lock_inv n v pcs rh wh" and "spec_read_woken 0 v = (out, v')"
  shows "wake_inv n v' (pcs(t := (if out = Wait then Blocked_r else Running)))"
proof -
  have "0 \<le> v_r v" using assms(2) by (auto simp: lock_inv_def total_nonneg)
  then show ?thesis
    using assms(3) by (intro wake_taken [OF assms(1)]) (auto simp: spec_read_woken_def split: if_splits)
qed

lemma wake_write:
  assumes "wake_inv n v pcs" and "lock_inv n v pcs rh wh" and "pcs t = Running" and "spec_write pt t v = (out, v')"
  shows "wake_inv n v' (pcs(t := (if out = Wait then Blocked_w else Running)))"
proof (cases "p_lock pt = 0")
  case True
  have "0 \<le> v_r v" "0 \<le> v_w v" using assms(2) by (auto simp: lock_inv_def total_nonneg)
  then show ?thesis
    using assms(4) True by (intro wake_taken [OF assms(1)]) (auto simp: spec_write_def split: if_splits)
next
  case False
  moreover have "pcs(t := Running) = pcs" using assms(3) by auto
  ultimately show ?thesis using assms(1,4) by (auto simp: spec_write_def)
qed

lemma wake_write_woken:
  assumes "wake_inv n v pcs" and "lock_inv n v pcs rh wh" and "spec_write_woken 0 t v = (out, v')"
  shows "wake_inv n v' (pcs(t := (if out = Wait then Blocked_w else Running)))"
proof -
  have "0 \<le> v_r v" "0 \<le> v_w v" using assms(2) by (auto simp: lock_inv_def total_nonneg)
  then show ?thesis
    using assms(3) by (intro wake_taken [OF assms(1)]) (auto simp: spec_write_woken_def split: if_splits)
qed

lemma awaken_blocked [simp]:
  "awaken sig p = Blocked_r \<longleftrightarrow> p = Blocked_r \<and> sig \<noteq> Wake_readers" "awaken sig p = Blocked_w \<longleftrightarrow> p = Blocked_w \<and> sig \<noteq> Wake_writers"
  by (cases "(sig, p)" rule: awaken.cases; simp)+

lemma awaken_woken:
  "is_writing p \<Longrightarrow> awaken Wake_writers p = Woken_w" "is_reading p \<Longrightarrow> awaken Wake_readers p = Woken_r"
  by (cases p; simp)+

lemma wake_read_unlock:
  assumes "wake_inv n v pcs" and "lock_inv n v pcs rh wh" and "0 < v_r v" and "spec_read_unlock v = (sig, v')"
  shows "wake_inv n v' (awaken sig \<circ> pcs)"
proof -
  have w: "v_w v = 0" "v_wwait v = int (count n is_writing pcs)" using assms(2,3) by (auto simp: lock_inv_def)
  have "\<exists>t<n. awaken Wake_writers (pcs t) = Woken_w" if "0 < v_wwait v"
    using that count_pos_iff [of n is_writing pcs] awaken_woken(1) unfolding w(2) by auto
  moreover have "\<not> (\<exists>t<n. pcs t = Blocked_w)" if "\<not> 0 < v_wwait v"
    using that count_pos_iff [of n is_writing pcs] unfolding w(2) by force
  ultimately show ?thesis
    using assms(1,3,4) w(1) by (auto simp: wake_inv_def spec_read_unlock_def split: if_splits)
qed

lemma wake_write_unlock:
  assumes "wake_inv n v pcs" and "lock_inv n v pcs rh wh" and "0 < v_w v" and "spec_write_unlock v = (sig, v')"
  shows "wake_inv n v' (awaken sig \<circ> pcs)"
proof -
  have w: "v_rwait v = int (count n is_reading pcs)" "v_wwait v = int (count n is_writing pcs)"
    using assms(2) by (auto simp: lock_inv_def)
  have ww: "\<exists>t<n. awaken Wake_writers (pcs t) = Woken_w" if "0 < v_wwait v"
    using that count_pos_iff [of n is_writing pcs] awaken_woken(1) unfolding w(2) by auto
  have rw: "\<exists>t<n. awaken Wake_readers (pcs t) = Woken_r" if "0 < v_rwait v"
    using that count_pos_iff [of n is_reading pcs] awaken_woken(2) unfolding w(1) by auto
  have nw: "\<not> (\<exists>t<n. pcs t = Blocked_w)" if "\<not> 0 < v_wwait v"
    using that count_pos_iff [of n is_writing pcs] unfolding w(2) by force
  have nr: "\<not> (\<exists>t<n. pcs t = Blocked_r)" if "\<not> 0 < v_rwait v"
    using that count_pos_iff [of n is_reading pcs] unfolding w(1) by force
  show ?thesis
  proof (cases "v_w v = 1")
    case True
    then show ?thesis
      using assms(4) ww rw nw nr by (auto simp: wake_inv_def spec_write_unlock_def split: if_splits)
  qed (use assms(3,4) in \<open>auto simp: wake_inv_def spec_write_unlock_def split: if_splits\<close>)
qed

section \<open>The counters alone\<close>

definition counts_agree :: "nat \<Rightarrow> lock_view \<Rightarrow> (thread \<Rightarrow> nat) \<Rightarrow> (thread \<Rightarrow> nat) \<Rightarrow> bool" where
  "counts_agree n v rh wh \<longleftrightarrow> v_r v = total n rh \<and> v_w v = total n wh \<and> (v_w v \<noteq> 0 \<longrightarrow> v_r v = 0)"

lemma counts_read:
  assumes "counts_agree n v rh wh" and "t < n"
  shows "spec_read pt v = (out, v') \<Longrightarrow> counts_agree n v' (if out = Ret 0 then rh(t := Suc (rh t)) else rh) wh"
    and "spec_read_woken stat v = (out, v') \<Longrightarrow> counts_agree n v' (if out = Ret 0 then rh(t := Suc (rh t)) else rh) wh"
    and "pthread_ok pt \<Longrightarrow> spec_read_try pt v = (out, v') \<Longrightarrow>
      counts_agree n v' (if out = Ret 0 then rh(t := Suc (rh t)) else rh) wh"
  using assms
  by (auto simp: counts_agree_def spec_read_def spec_read_woken_def spec_read_try_def pthread_ok_def EBUSY_def total_upd split: if_splits)

lemma counts_write:
  assumes "counts_agree n v rh wh" and "t < n"
  shows "spec_write pt t v = (out, v') \<Longrightarrow> counts_agree n v' rh (if out = Ret 0 then wh(t := Suc (wh t)) else wh)"
    and "spec_write_woken stat t v = (out, v') \<Longrightarrow> counts_agree n v' rh (if out = Ret 0 then wh(t := Suc (wh t)) else wh)"
    and "pthread_ok pt \<Longrightarrow> spec_write_try pt t v = (out, v') \<Longrightarrow>
      counts_agree n v' rh (if out = Ret 0 then wh(t := Suc (wh t)) else wh)"
  using assms total_nonneg [of n rh]
  by (auto simp: counts_agree_def spec_write_def spec_write_woken_def spec_write_try_def pthread_ok_def EBUSY_def total_upd split: if_splits)

lemma counts_unlock:
  assumes "counts_agree n v rh wh" and "t < n"
  shows "0 < rh t \<Longrightarrow> spec_read_unlock v = (sig, v') \<Longrightarrow> counts_agree n v' (rh(t := rh t - 1)) wh"
    and "0 < wh t \<Longrightarrow> spec_write_unlock v = (sig, v') \<Longrightarrow> counts_agree n v' rh (wh(t := wh t - 1))"
proof -
  have "0 < rh t \<Longrightarrow> v_w v = 0" "0 < wh t \<Longrightarrow> 0 < v_w v"
    using assms total_ge [of t n rh] total_ge [of t n wh] by (auto simp: counts_agree_def)
  then show "0 < rh t \<Longrightarrow> spec_read_unlock v = (sig, v') \<Longrightarrow> counts_agree n v' (rh(t := rh t - 1)) wh"
    "0 < wh t \<Longrightarrow> spec_write_unlock v = (sig, v') \<Longrightarrow> counts_agree n v' rh (wh(t := wh t - 1))"
    using assms by (auto simp: counts_agree_def spec_read_unlock_def spec_write_unlock_def total_upd)
qed

section \<open>The interface of a lock\<close>

locale rw_lock =
  fixes ops :: "'l lock_ops"
    and view :: "'l \<Rightarrow> lock_view"
    and valid :: "'l \<Rightarrow> bool"
  assumes read_law: "valid l \<Longrightarrow> o_readlock ops pt l = (out, l') \<Longrightarrow> spec_read pt (view l) = (out, view l') \<and> valid l'"
    and read_woken_law: "valid l \<Longrightarrow> o_readlock_woken ops stat l = (out, l') \<Longrightarrow>
      spec_read_woken stat (view l) = (out, view l') \<and> valid l'"
    and read_try_law: "valid l \<Longrightarrow> o_readtrylock ops pt l = (out, l') \<Longrightarrow>
      spec_read_try pt (view l) = (out, view l') \<and> valid l'"
    and write_law: "valid l \<Longrightarrow> o_writelock ops pt t l = (out, l') \<Longrightarrow>
      spec_write pt t (view l) = (out, view l') \<and> valid l'"
    and write_woken_law: "valid l \<Longrightarrow> o_writelock_woken ops stat t l = (out, l') \<Longrightarrow>
      spec_write_woken stat t (view l) = (out, view l') \<and> valid l'"
    and write_try_law: "valid l \<Longrightarrow> o_writetrylock ops pt t l = (out, l') \<Longrightarrow>
      spec_write_try pt t (view l) = (out, view l') \<and> valid l'"
    and read_unlock_law: "valid l \<Longrightarrow> o_readunlock ops pt l = (Ret 0, sig, l') \<Longrightarrow>
      spec_read_unlock (view l) = (sig, view l') \<and> valid l'"
    and write_unlock_law: "valid l \<Longrightarrow> o_writeunlock ops pt t l = (Ret 0, sig, l') \<Longrightarrow>
      spec_write_unlock (view l) = (sig, view l') \<and> valid l'"
    and release_law: "valid l \<Longrightarrow> view (o_read_release ops l) = (view l)\<lparr>v_rwait := v_rwait (view l) - 1\<rparr> \<and> valid (o_read_release ops l)"
      "valid l \<Longrightarrow> view (o_write_release ops l) = (view l)\<lparr>v_wwait := v_wwait (view l) - 1\<rparr> \<and> valid (o_write_release ops l)"
    and owner_unlocks: "valid l \<Longrightarrow> pthread_ok pt \<Longrightarrow> p_lock pt = 0 \<Longrightarrow> 0 < v_w (view l) \<Longrightarrow> v_id (view l) = t \<Longrightarrow>
      fst (o_writeunlock ops pt t l) = Ret 0"
begin

definition sys_inv :: "nat \<Rightarrow> 'l lock_sys \<Rightarrow> bool" where
  "sys_inv n y \<longleftrightarrow> valid (y_lock y) \<and> lock_inv n (view (y_lock y)) (y_pc y) (y_rheld y) (y_wheld y)"

lemma after_read_inv:
  assumes "valid l'" and "lock_inv n (view l') ((y_pc y)(t := (if out = Wait then Blocked_r else Running)))
      (if out = Ret 0 then (y_rheld y)(t := Suc (y_rheld y t)) else y_rheld y) (y_wheld y)"
  shows "sys_inv n (after_read t (out, l') y)"
  using assms by (auto simp: sys_inv_def after_read_def Let_def)

lemma after_write_inv:
  assumes "valid l'" and "lock_inv n (view l') ((y_pc y)(t := (if out = Wait then Blocked_w else Running))) (y_rheld y)
      (if out = Ret 0 then (y_wheld y)(t := Suc (y_wheld y t)) else y_wheld y)"
  shows "sys_inv n (after_write t (out, l') y)"
  using assms by (auto simp: sys_inv_def after_write_def Let_def)

lemma step_inv:
  assumes "lock_step ops n errs y y'" and "sys_inv n y"
  shows "sys_inv n y'"
proof -
  have v: "valid (y_lock y)" and i: "lock_inv n (view (y_lock y)) (y_pc y) (y_rheld y) (y_wheld y)"
    using assms(2) by (simp_all add: sys_inv_def)
  have same: "(y_pc y)(t := Running) = y_pc y" if "y_pc y t = Running" for t using that by auto
  show ?thesis
    using assms(1)
  proof (cases rule: lock_step.cases)
    case (read_enter t pt)
    obtain out l' where r: "o_readlock ops pt (y_lock y) = (out, l')" by fastforce
    then show ?thesis
      unfolding read_enter(1) using read_law [OF v r] inv_read [OF i read_enter(2,3)] by (auto intro: after_read_inv)
  next
    case (read_woken t stat)
    obtain out l' where r: "o_readlock_woken ops stat (y_lock y) = (out, l')" by fastforce
    have "is_reading (y_pc y t)" using read_woken(3) by auto
    then show ?thesis
      unfolding read_woken(1) r using read_woken_law [OF v r] inv_read_woken [OF i read_woken(2)]
      by (auto intro: after_read_inv)
  next
    case (read_cancel t)
    then have "is_reading (y_pc y t)" by auto
    then show ?thesis
      unfolding read_cancel(1)
      using release_law(1) [OF v] inv_read_woken [OF i read_cancel(2), of ECANCELED "Ret ECANCELED"]
      by (auto intro!: after_read_inv simp: spec_read_woken_def ECANCELED_def)
  next
    case (read_try t pt)
    obtain out l' where r: "o_readtrylock ops pt (y_lock y) = (out, l')" by fastforce
    then show ?thesis
      unfolding read_try(1) using read_try_law [OF v r] try_eq(1) [OF read_try(4) i] inv_read [OF i read_try(2,3)] i
        same [OF read_try(3)] by (fastforce intro: after_read_inv)
  next
    case (read_unlock t pt sig l)
    then show ?thesis
      using read_unlock_law [OF v read_unlock(6)] inv_read_unlock [OF i read_unlock(2,4)] by (auto simp: sys_inv_def)
  next
    case (write_enter t pt)
    obtain out l' where r: "o_writelock ops pt t (y_lock y) = (out, l')" by fastforce
    then show ?thesis
      unfolding write_enter(1) using write_law [OF v r] inv_write [OF i write_enter(2,3)] by (auto intro: after_write_inv)
  next
    case (write_woken t stat)
    obtain out l' where r: "o_writelock_woken ops stat t (y_lock y) = (out, l')" by fastforce
    have "is_writing (y_pc y t)" using write_woken(3) by auto
    then show ?thesis
      unfolding write_woken(1) r using write_woken_law [OF v r] inv_write_woken [OF i write_woken(2)]
      by (auto intro: after_write_inv)
  next
    case (write_cancel t)
    then have "is_writing (y_pc y t)" by auto
    then show ?thesis
      unfolding write_cancel(1)
      using release_law(2) [OF v] inv_write_woken [OF i write_cancel(2), of ECANCELED "Ret ECANCELED"]
      by (auto intro!: after_write_inv simp: spec_write_woken_def ECANCELED_def)
  next
    case (write_try t pt)
    obtain out l' where r: "o_writetrylock ops pt t (y_lock y) = (out, l')" by fastforce
    then show ?thesis
      unfolding write_try(1) using write_try_law [OF v r] try_eq(2) [OF write_try(4) i] inv_write [OF i write_try(2,3)] i
        same [OF write_try(3)] by (fastforce intro: after_write_inv)
  next
    case (write_unlock t pt sig l)
    then show ?thesis
      using write_unlock_law [OF v write_unlock(6)] inv_write_unlock [OF i write_unlock(2,4)] by (auto simp: sys_inv_def)
  qed
qed

definition sys_wake :: "nat \<Rightarrow> 'l lock_sys \<Rightarrow> bool" where
  "sys_wake n y \<longleftrightarrow> wake_inv n (view (y_lock y)) (y_pc y)"

lemma after_read_wake:
  "wake_inv n (view l') ((y_pc y)(t := (if out = Wait then Blocked_r else Running))) \<Longrightarrow> sys_wake n (after_read t (out, l') y)"
  by (auto simp: sys_wake_def after_read_def Let_def)

lemma after_write_wake:
  "wake_inv n (view l') ((y_pc y)(t := (if out = Wait then Blocked_w else Running))) \<Longrightarrow> sys_wake n (after_write t (out, l') y)"
  by (auto simp: sys_wake_def after_write_def Let_def)

lemma step_wake:
  assumes "lock_step ops n {0} y y'" and "sys_inv n y" and "sys_wake n y"
  shows "sys_wake n y'"
proof -
  have v: "valid (y_lock y)" and i: "lock_inv n (view (y_lock y)) (y_pc y) (y_rheld y) (y_wheld y)"
    and w: "wake_inv n (view (y_lock y)) (y_pc y)"
    using assms(2,3) by (simp_all add: sys_inv_def sys_wake_def)
  have same: "(y_pc y)(t := Running) = y_pc y" if "y_pc y t = Running" for t using that by auto
  show ?thesis
    using assms(1)
  proof (cases rule: lock_step.cases)
    case (read_enter t pt)
    obtain out l' where r: "o_readlock ops pt (y_lock y) = (out, l')" by fastforce
    then show ?thesis
      unfolding read_enter(1) using read_law [OF v r] wake_read [OF w i read_enter(3)] by (auto intro: after_read_wake)
  next
    case (read_woken t stat)
    obtain out l' where r: "o_readlock_woken ops 0 (y_lock y) = (out, l')" by fastforce
    moreover have "stat = 0" using read_woken(4) by simp
    ultimately show ?thesis
      unfolding read_woken(1) using read_woken_law [OF v r] wake_read_woken [OF w i] by (auto intro: after_read_wake)
  next
    case (read_try t pt)
    obtain out l' where r: "o_readtrylock ops pt (y_lock y) = (out, l')" by fastforce
    then show ?thesis
      unfolding read_try(1) using read_try_law [OF v r] try_eq(1) [OF read_try(4) i] wake_read [OF w i read_try(3)] w
        same [OF read_try(3)] by (fastforce intro: after_read_wake)
  next
    case (read_unlock t pt sig l)
    have "0 < v_r (view (y_lock y))"
      using i total_ge [OF read_unlock(2), of "y_rheld y"] read_unlock(4) by (auto simp: lock_inv_def)
    then show ?thesis
      using read_unlock(1) read_unlock_law [OF v read_unlock(6)] wake_read_unlock [OF w i] by (auto simp: sys_wake_def)
  next
    case (write_enter t pt)
    obtain out l' where r: "o_writelock ops pt t (y_lock y) = (out, l')" by fastforce
    then show ?thesis
      unfolding write_enter(1) using write_law [OF v r] wake_write [OF w i write_enter(3)] by (auto intro: after_write_wake)
  next
    case (write_woken t stat)
    obtain out l' where r: "o_writelock_woken ops 0 t (y_lock y) = (out, l')" by fastforce
    moreover have "stat = 0" using write_woken(4) by simp
    ultimately show ?thesis
      unfolding write_woken(1) using write_woken_law [OF v r] wake_write_woken [OF w i] by (auto intro: after_write_wake)
  next
    case (write_try t pt)
    obtain out l' where r: "o_writetrylock ops pt t (y_lock y) = (out, l')" by fastforce
    then show ?thesis
      unfolding write_try(1) using write_try_law [OF v r] try_eq(2) [OF write_try(4) i] wake_write [OF w i write_try(3)] w
        same [OF write_try(3)] by (fastforce intro: after_write_wake)
  next
    case (write_unlock t pt sig l)
    then show ?thesis
      using write_unlock_law [OF v write_unlock(6)] wake_write_unlock [OF w i holder_owns(1) [OF i write_unlock(2,4)]]
      by (auto simp: sys_wake_def)
  qed (simp_all add: ECANCELED_def)
qed

definition free_lock :: "'l \<Rightarrow> bool" where
  "free_lock l \<longleftrightarrow> valid l \<and> v_r (view l) = 0 \<and> v_w (view l) = 0 \<and> v_rwait (view l) = 0 \<and> v_wwait (view l) = 0"

lemma idle_inv:
  assumes "free_lock l"
  shows "sys_inv n (idle_sys l)" and "sys_wake n (idle_sys l)"
proof -
  have "total n (\<lambda>_. 0) = 0" "count n is_reading (\<lambda>_. Running) = 0" "count n is_writing (\<lambda>_. Running) = 0" by (induction n) auto
  then show "sys_inv n (idle_sys l)" and "sys_wake n (idle_sys l)"
    using assms by (simp_all add: sys_inv_def sys_wake_def free_lock_def idle_sys_def lock_inv_def wake_inv_def)
qed

lemma reach_inv:
  assumes "lock_reach ops n errs (idle_sys l) y" and "free_lock l"
  shows "sys_inv n y"
  using assms(1) by (induction rule: rtranclp_induct) (auto intro: idle_inv(1) [OF assms(2)] step_inv)

lemma reach_wake:
  assumes "lock_reach ops n {0} (idle_sys l) y" and "free_lock l"
  shows "sys_wake n y"
  using assms(1)
proof (induction rule: rtranclp_induct)
  case (step y z)
  then show ?case using reach_inv [OF _ assms(2)] by (blast intro: step_wake)
qed (rule idle_inv(2) [OF assms(2)])

lemma exclusion:
  assumes "lock_reach ops n errs (idle_sys l) y" and "free_lock l" and "t < n" and "u < n" and "0 < y_wheld y t"
  shows "y_rheld y u = 0 \<and> (u \<noteq> t \<longrightarrow> y_wheld y u = 0)"
proof -
  have i: "lock_inv n (view (y_lock y)) (y_pc y) (y_rheld y) (y_wheld y)"
    using reach_inv [OF assms(1,2)] by (simp add: sys_inv_def)
  then have "v_id (view (y_lock y)) = t" "0 < v_w (view (y_lock y))" using holder_owns assms(3,5) by blast+
  moreover from this i have "total n (y_rheld y) = 0" by (auto simp: lock_inv_def)
  ultimately show ?thesis using i assms(4) total_0_iff [of n "y_rheld y"] by (auto simp: lock_inv_def)
qed

lemma holder_unlocks:
  assumes "lock_reach ops n errs (idle_sys l) y" and "free_lock l" and "t < n" and "0 < y_wheld y t"
    and "pthread_ok pt" and "p_lock pt = 0"
  shows "fst (o_writeunlock ops pt t (y_lock y)) = Ret 0"
proof -
  have "valid (y_lock y)" and i: "lock_inv n (view (y_lock y)) (y_pc y) (y_rheld y) (y_wheld y)"
    using reach_inv [OF assms(1,2)] by (simp_all add: sys_inv_def)
  then show ?thesis using owner_unlocks assms(5,6) holder_owns [OF i assms(3,4)] by blast
qed

text \<open>No reader sleeps unless a writer is active; on a free lock somebody who waits has been woken and gets it.\<close>

lemma readers_awake:
  assumes "lock_reach ops n {0} (idle_sys l) y" and "free_lock l" and "\<forall>t<n. y_wheld y t = 0" and "t < n"
  shows "y_pc y t \<noteq> Blocked_r"
proof -
  have "v_w (view (y_lock y)) = 0"
    using reach_inv [OF assms(1,2)] assms(3) total_0_iff by (auto simp: sys_inv_def lock_inv_def)
  then show ?thesis using reach_wake [OF assms(1,2)] assms(4) by (auto simp: sys_wake_def wake_inv_def)
qed

lemma progress:
  assumes "lock_reach ops n {0} (idle_sys l) y" and "free_lock l"
    and "\<forall>t<n. y_rheld y t = 0 \<and> y_wheld y t = 0" and "t < n" and "y_pc y t \<noteq> Running"
  shows "\<exists>u<n. y_pc y u = Woken_r \<and> fst (o_readlock_woken ops 0 (y_lock y)) = Ret 0 \<or>
    y_pc y u = Woken_w \<and> fst (o_writelock_woken ops 0 u (y_lock y)) = Ret 0"
proof -
  have v: "valid (y_lock y)" and i: "lock_inv n (view (y_lock y)) (y_pc y) (y_rheld y) (y_wheld y)"
    using reach_inv [OF assms(1,2)] by (simp_all add: sys_inv_def)
  have free: "v_r (view (y_lock y)) = 0" "v_w (view (y_lock y)) = 0"
    using i assms(3) total_0_iff by (auto simp: lock_inv_def)
  obtain u where u: "u < n" "y_pc y u = Woken_r \<or> y_pc y u = Woken_w"
    using reach_wake [OF assms(1,2)] free assms(4,5) unfolding sys_wake_def wake_inv_def
    by (cases "y_pc y t") auto
  have "fst (o_readlock_woken ops 0 (y_lock y)) = Ret 0"
    using read_woken_law [OF v surjective_pairing, of 0] free by (simp add: spec_read_woken_def)
  moreover have "fst (o_writelock_woken ops 0 u (y_lock y)) = Ret 0"
    using write_woken_law [OF v surjective_pairing, of 0 u] free by (simp add: spec_write_woken_def)
  ultimately show ?thesis using u by blast
qed

text \<open>The part of the agreement that does not depend on who is written down as the owner.\<close>

definition sys_counts :: "nat \<Rightarrow> 'l lock_sys \<Rightarrow> bool" where
  "sys_counts n y \<longleftrightarrow> valid (y_lock y) \<and> counts_agree n (view (y_lock y)) (y_rheld y) (y_wheld y)"

lemma after_read_counts:
  "valid l' \<Longrightarrow> counts_agree n (view l') (if out = Ret 0 then (y_rheld y)(t := Suc (y_rheld y t)) else y_rheld y) (y_wheld y) \<Longrightarrow>
   sys_counts n (after_read t (out, l') y)"
  by (auto simp: sys_counts_def after_read_def Let_def)

lemma after_write_counts:
  "valid l' \<Longrightarrow> counts_agree n (view l') (y_rheld y) (if out = Ret 0 then (y_wheld y)(t := Suc (y_wheld y t)) else y_wheld y) \<Longrightarrow>
   sys_counts n (after_write t (out, l') y)"
  by (auto simp: sys_counts_def after_write_def Let_def)

lemma step_counts:
  assumes "lock_step ops n errs y y'" and "sys_counts n y"
  shows "sys_counts n y'"
proof -
  have v: "valid (y_lock y)" and c: "counts_agree n (view (y_lock y)) (y_rheld y) (y_wheld y)"
    using assms(2) by (simp_all add: sys_counts_def)
  show ?thesis
    using assms(1)
  proof (cases rule: lock_step.cases)
    case (read_enter t pt)
    obtain out l' where r: "o_readlock ops pt (y_lock y) = (out, l')" by fastforce
    show ?thesis
      unfolding read_enter(1) r using read_law [OF v r] counts_read(1) [OF c read_enter(2)] by (auto intro: after_read_counts)
  next
    case (read_woken t stat)
    obtain out l' where r: "o_readlock_woken ops stat (y_lock y) = (out, l')" by fastforce
    show ?thesis
      unfolding read_woken(1) r using read_woken_law [OF v r] counts_read(2) [OF c read_woken(2)] by (auto intro: after_read_counts)
  next
    case (read_cancel t)
    show ?thesis
      unfolding read_cancel(1) using release_law(1) [OF v] c by (auto intro!: after_read_counts simp: counts_agree_def ECANCELED_def)
  next
    case (read_try t pt)
    obtain out l' where r: "o_readtrylock ops pt (y_lock y) = (out, l')" by fastforce
    show ?thesis
      unfolding read_try(1) r using read_try_law [OF v r] counts_read(3) [OF c read_try(2) read_try(4)] by (auto intro: after_read_counts)
  next
    case (read_unlock t pt sig l)
    then show ?thesis
      using read_unlock_law [OF v read_unlock(6)] counts_unlock(1) [OF c read_unlock(2,4)] by (auto simp: sys_counts_def)
  next
    case (write_enter t pt)
    obtain out l' where r: "o_writelock ops pt t (y_lock y) = (out, l')" by fastforce
    show ?thesis
      unfolding write_enter(1) r using write_law [OF v r] counts_write(1) [OF c write_enter(2)] by (auto intro: after_write_counts)
  next
    case (write_woken t stat)
    obtain out l' where r: "o_writelock_woken ops stat t (y_lock y) = (out, l')" by fastforce
    show ?thesis
      unfolding write_woken(1) r using write_woken_law [OF v r] counts_write(2) [OF c write_woken(2)] by (auto intro: after_write_counts)
  next
    case (write_cancel t)
    show ?thesis
      unfolding write_cancel(1) using release_law(2) [OF v] c by (auto intro!: after_write_counts simp: counts_agree_def ECANCELED_def)
  next
    case (write_try t pt)
    obtain out l' where r: "o_writetrylock ops pt t (y_lock y) = (out, l')" by fastforce
    show ?thesis
      unfolding write_try(1) r using write_try_law [OF v r] counts_write(3) [OF c write_try(2) write_try(4)] by (auto intro: after_write_counts)
  next
    case (write_unlock t pt sig l)
    then show ?thesis
      using write_unlock_law [OF v write_unlock(6)] counts_unlock(2) [OF c write_unlock(2,4)] by (auto simp: sys_counts_def)
  qed
qed

end

section \<open>Both locks keep the promise\<close>

definition rwl_view :: "brwlock \<Rightarrow> lock_view" where
  "rwl_view l = \<lparr>v_r = k_r_active l, v_w = k_w_active l, v_rwait = k_r_wait l, v_wwait = k_w_wait l, v_id = k_writer_id l\<rparr>"

definition devlock_view :: "devlock \<Rightarrow> lock_view" where
  "devlock_view l = \<lparr>v_r = d_r_active l, v_w = d_w_active l, v_rwait = d_r_wait l, v_wwait = d_w_wait l, v_id = d_writer_id l\<rparr>"

lemmas spec_defs = spec_read_def spec_read_woken_def spec_read_try_def spec_write_def spec_write_woken_def
  spec_write_try_def spec_read_unlock_def spec_write_unlock_def

lemmas rwl_op_defs = rwl_read_release_def rwl_write_release_def rwl_readlock_def rwl_readlock_woken_def rwl_readtrylock_def rwl_readunlock_def rwl_writelock_def
  rwl_writelock_woken_def rwl_writetrylock_def rwl_writeunlock_def

lemmas devlock_op_defs = read_release_def write_release_def readlock_def readlock_woken_def readtrylock_def readunlock_def writelock_def
  writelock_woken_def writetrylock_def writeunlock_def

interpretation rwl: rw_lock rwl_ops rwl_view is_rwl_valid
  by unfold_locales
    (auto simp: rwl_ops_def rwl_op_defs rwl_view_def is_rwl_valid_def spec_defs EINVAL_def pthread_ok_def Let_def split: if_splits)

interpretation dlock: rw_lock "devlock_ops areason acan_take" devlock_view "\<lambda>l. d_valid l = DEVLOCK_VALID" for areason acan_take
  by unfold_locales
    (auto simp: devlock_ops_def devlock_op_defs devlock_view_def spec_defs EINVAL_def pthread_ok_def Let_def split: if_splits)

lemma rwl_init_free: "rwl.free_lock (snd (rwl_init 0 0 0 priority l))"
  by (simp add: rwl.free_lock_def rwl_init_def rwl_view_def is_rwl_valid_def Let_def)

lemma devlock_init_free: "dlock.free_lock (snd (devlock_init 0 0 0 priority l))"
  by (simp add: dlock.free_lock_def devlock_init_def devlock_view_def Let_def)

section \<open>Properties\<close>

text \<open>
  C14 (rwlock_exclusion).  Readers and writers exclude each other: whatever any number of threads
  do with an initialised lock, and whatever errors the waits return, while a thread holds the
  write lock, once or nested, no thread holds a read lock and no other thread the write lock.
\<close>

theorem rwlock_exclusion:
  assumes "lock_reach rwl_ops n errs (idle_sys (snd (rwl_init 0 0 0 priority l))) y"
    and "t < n" and "u < n" and "0 < y_wheld y t"
  shows "y_rheld y u = 0 \<and> (u \<noteq> t \<longrightarrow> y_wheld y u = 0)"
  using rwl.exclusion [OF assms(1) rwl_init_free assms(2-4)] .

text \<open>
  C15 (rwlock_progress).  No wake-up is lost as long as no wait fails: in every reachable state no thread sleeps on the
  condition variable of the readers unless some thread holds the write lock, and when nobody holds the lock but a thread waits
  for it, then some waiting thread has been signalled (it is not merely able to wake up by itself) and the return
  of its wait gives it the lock.
\<close>

theorem rwlock_progress:
  assumes "lock_reach rwl_ops n {0} (idle_sys (snd (rwl_init 0 0 0 priority l))) y"
  shows "((\<forall>t<n. y_wheld y t = 0) \<longrightarrow> (\<forall>t<n. y_pc y t \<noteq> Blocked_r)) \<and>
    ((\<forall>t<n. y_rheld y t = 0 \<and> y_wheld y t = 0) \<and> (\<exists>t<n. y_pc y t \<noteq> Running) \<longrightarrow>
      (\<exists>u<n. y_pc y u = Woken_r \<and> fst (rwl_readlock_woken 0 (y_lock y)) = Ret 0 \<or>
         y_pc y u = Woken_w \<and> fst (rwl_writelock_woken 0 u (y_lock y)) = Ret 0))"
  using rwl.readers_awake [OF assms rwl_init_free] rwl.progress [OF assms rwl_init_free] by (auto simp: rwl_ops_def)

text \<open>
  A lock is destroyed exactly when it is not in use: \<^verbatim>\<open>rwl_destroy\<close>
  reports EBUSY if and only if some thread holds the lock or waits for it.
\<close>

theorem rwl_destroy_exact:
  assumes "lock_reach rwl_ops n errs (idle_sys (snd (rwl_init 0 0 0 priority l))) y"
  shows "fst (rwl_destroy \<lparr>p_lock = 0, p_unlock = 0, p_broadcast = 0\<rparr> 0 0 0 (y_lock y)) = EBUSY \<longleftrightarrow>
    (\<exists>t<n. 0 < y_rheld y t \<or> 0 < y_wheld y t \<or> y_pc y t \<noteq> Running)"
proof -
  have v: "is_rwl_valid (y_lock y)" and i: "lock_inv n (rwl_view (y_lock y)) (y_pc y) (y_rheld y) (y_wheld y)"
    using rwl.reach_inv [OF assms rwl_init_free] by (simp_all add: rwl.sys_inv_def)
  have kinds: "p \<noteq> Running \<longleftrightarrow> is_reading p \<or> is_writing p" for p by (cases p) auto
  have r: "k_r_active (y_lock y) > 0 \<longleftrightarrow> (\<exists>t<n. 0 < y_rheld y t)" and w: "k_w_active (y_lock y) \<noteq> 0 \<longleftrightarrow> (\<exists>t<n. 0 < y_wheld y t)"
    using i total_0_iff [of n "y_rheld y"] total_0_iff [of n "y_wheld y"] total_nonneg [of n "y_rheld y"]
    by (auto simp: lock_inv_def rwl_view_def)
  have "k_r_wait (y_lock y) > 0 \<longleftrightarrow> (\<exists>t<n. is_reading (y_pc y t))" "k_w_wait (y_lock y) > 0 \<longleftrightarrow> (\<exists>t<n. is_writing (y_pc y t))"
    using i count_pos_iff [of n is_reading "y_pc y"] count_pos_iff [of n is_writing "y_pc y"]
    by (simp_all add: lock_inv_def rwl_view_def)
  then show ?thesis
    using v unfolding rwl_destroy_def r w kinds by (auto simp: is_rwl_valid_def EBUSY_def Let_def)
qed

text \<open>
  The device lock in use: every locking step with a reason of its own, changes of the reason, and, with
  \<open>loans\<close>, \<^verbatim>\<open>take_lock\<close> and \<^verbatim>\<open>return_lock\<close> by any running thread
  at any time and with any earlier state to restore.
\<close>

inductive dev_step :: "bool \<Rightarrow> nat \<Rightarrow> int set \<Rightarrow> devlock lock_sys \<Rightarrow> devlock lock_sys \<Rightarrow> bool"
  for loans :: bool and n :: nat and errs :: "int set" where
  dev_use: "lock_step (devlock_ops areason acan_take) n errs y y' \<Longrightarrow> dev_step loans n errs y y'"
| dev_reason: "dev_step loans n errs y (y\<lparr>y_lock := new_reason nreason (y_lock y)\<rparr>)"
| dev_restore: "dev_step loans n errs y (y\<lparr>y_lock := restore_reason (y_lock y)\<rparr>)"
| dev_take: "loans \<Longrightarrow> t < n \<Longrightarrow> y_pc y t = Running \<Longrightarrow> take_lock pt t areason hold (y_lock y) = (stat, hold', l) \<Longrightarrow>
     dev_step loans n errs y (y\<lparr>y_lock := l\<rparr>)"
| dev_return: "loans \<Longrightarrow> t < n \<Longrightarrow> y_pc y t = Running \<Longrightarrow> return_lock pt t hold (y_lock y) = (stat, sig, l) \<Longrightarrow>
     dev_step loans n errs y (y\<lparr>y_lock := l, y_pc := awaken sig \<circ> y_pc y\<rparr>)"

abbreviation dev_reach :: "bool \<Rightarrow> nat \<Rightarrow> int set \<Rightarrow> devlock lock_sys \<Rightarrow> devlock lock_sys \<Rightarrow> bool" where
  "dev_reach loans n errs \<equiv> (dev_step loans n errs)\<^sup>*\<^sup>*"

lemma reason_view [simp]:
  "devlock_view (new_reason r l) = devlock_view l" "d_valid (new_reason r l) = d_valid l"
  "devlock_view (restore_reason l) = devlock_view l" "d_valid (restore_reason l) = d_valid l"
  by (simp_all add: new_reason_def restore_reason_def devlock_view_def)

lemma loan_view:
  "take_lock pt t areason hold l = (stat, hold', l') \<Longrightarrow> d_valid l' = d_valid l \<and>
     v_r (devlock_view l') = v_r (devlock_view l) \<and> v_w (devlock_view l') = v_w (devlock_view l)"
  "return_lock pt t hold l = (stat, sig, l') \<Longrightarrow> d_valid l' = d_valid l \<and>
     v_r (devlock_view l') = v_r (devlock_view l) \<and> v_w (devlock_view l') = v_w (devlock_view l)"
  by (auto simp: take_lock_def return_lock_def devlock_view_def Let_def split: if_splits)

lemma dev_step_counts: "dev_step loans n errs y y' \<Longrightarrow> dlock.sys_counts n y \<Longrightarrow> dlock.sys_counts n y'"
proof (induction rule: dev_step.induct)
  case (dev_use areason acan_take y y')
  then show ?case by (rule dlock.step_counts)
qed (auto simp: dlock.sys_counts_def counts_agree_def dest!: loan_view)

lemma dev_step_inv: "dev_step loans n errs y y' \<Longrightarrow> \<not> loans \<Longrightarrow> dlock.sys_inv n y \<Longrightarrow> dlock.sys_inv n y'"
proof (induction rule: dev_step.induct)
  case (dev_use areason acan_take y y')
  then show ?case using dlock.step_inv by blast
qed (auto simp: dlock.sys_inv_def)

lemma dev_reach_counts:
  assumes "dev_reach loans n errs (idle_sys (snd (devlock_init 0 0 0 priority l))) y"
  shows "dlock.sys_counts n y"
  using assms
proof (induction rule: rtranclp_induct)
  case base
  show ?case
    using dlock.idle_inv(1) [OF devlock_init_free, of n priority l]
    by (auto simp: dlock.sys_inv_def dlock.sys_counts_def lock_inv_def counts_agree_def)
qed (rule dev_step_counts)

lemma dev_reach_inv:
  assumes "dev_reach False n errs (idle_sys (snd (devlock_init 0 0 0 priority l))) y"
  shows "dlock.sys_inv n y"
  using assms by (induction rule: rtranclp_induct) (auto intro: dlock.idle_inv(1) [OF devlock_init_free] dev_step_inv)


text \<open>
  \<^verbatim>\<open>return_lock\<close> does not give the lock back: after another thread took the
  write lock and returned it, the lock still names that thread as its owner, and the holder
  aborts the program when it unlocks.
\<close>

theorem return_lock_keeps_owner:
  assumes "d_valid l = DEVLOCK_VALID" and "d_writer_id l = t" and "0 < d_w_active l" and "u \<noteq> t" and "p_lock pt = 0"
    and "take_lock pt u areason hold l = (st, hold', l')" and "return_lock pt u hold' l' = (st', sig, l'')"
  shows "d_writer_id l'' = u \<and> fst (writeunlock pt t l'') = Abort"
  using assms by (auto simp: take_lock_def return_lock_def writeunlock_def Let_def)

section \<open>Examples\<close>

definition pt0 :: pthread_res where
  "pt0 = \<lparr>p_lock = 0, p_unlock = 0, p_broadcast = 0\<rparr>"

definition fresh_rwl :: brwlock where
  "fresh_rwl = snd (rwl_init 0 0 0 1 \<lparr>k_writer_id = 9, k_priority = 0, k_valid = 0, k_r_active = 5, k_w_active = 5,
     k_r_wait = 5, k_w_wait = 5\<rparr>)"

text \<open>Thread 0 locks for writing, thread 1 waits to read, thread 2 waits to write, thread 0 unlocks.\<close>

definition held_sys :: "brwlock lock_sys" where
  "held_sys = after_write 0 (rwl_writelock pt0 0 fresh_rwl) (idle_sys fresh_rwl)"

definition queued_sys :: "brwlock lock_sys" where
  "queued_sys =
     (let y = after_read 1 (rwl_readlock pt0 (y_lock held_sys)) held_sys
      in after_write 2 (rwl_writelock pt0 2 (y_lock y)) y)"

definition freed_sys :: "brwlock lock_sys" where
  "freed_sys = queued_sys\<lparr>y_lock := snd (snd (rwl_writeunlock pt0 0 (y_lock queued_sys))),
     y_pc := awaken Wake_readers \<circ> y_pc queued_sys, y_wheld := (y_wheld queued_sys)(0 := 0)\<rparr>"

lemmas sample_lock_defs = fresh_rwl_def held_sys_def queued_sys_def freed_sys_def pt0_def idle_sys_def rwl_init_def
  after_read_def after_write_def rwl_op_defs

lemma pt0_ok: "pthread_ok pt0" "p_lock pt0 = 0"
  by (simp_all add: pt0_def pthread_ok_def)

lemma held_step: "lock_step rwl_ops 3 errs (idle_sys fresh_rwl) held_sys"
  using lock_step.write_enter [of 0 3 "idle_sys fresh_rwl" pt0 rwl_ops errs] pt0_ok
  by (simp add: held_sys_def rwl_ops_def idle_sys_def)

lemma queued_reach: "lock_reach rwl_ops 3 errs held_sys queued_sys"
proof -
  let ?y = "after_read 1 (rwl_readlock pt0 (y_lock held_sys)) held_sys"
  have "lock_step rwl_ops 3 errs held_sys ?y"
    using lock_step.read_enter [of 1 3 held_sys pt0 rwl_ops errs] pt0_ok
    by (simp add: rwl_ops_def) (simp add: sample_lock_defs Let_def)
  moreover have "lock_step rwl_ops 3 errs ?y queued_sys"
    using lock_step.write_enter [of 2 3 ?y pt0 rwl_ops errs] pt0_ok
    by (simp add: rwl_ops_def queued_sys_def Let_def) (simp add: sample_lock_defs Let_def)
  ultimately show ?thesis by (meson converse_rtranclp_into_rtranclp rtranclp.rtrancl_refl)
qed

lemma freed_step: "lock_step rwl_ops 3 errs queued_sys freed_sys"
proof -
  have "fst (rwl_writeunlock pt0 0 (y_lock queued_sys)) = Ret 0" "fst (snd (rwl_writeunlock pt0 0 (y_lock queued_sys))) = Wake_readers"
    by (simp_all add: sample_lock_defs RWLOCK_VALID_def Let_def)
  then obtain l where u: "rwl_writeunlock pt0 0 (y_lock queued_sys) = (Ret 0, Wake_readers, l)"
    by (cases "rwl_writeunlock pt0 0 (y_lock queued_sys)") auto
  have "y_wheld queued_sys 0 = 1" "y_pc queued_sys 0 = Running"
    by (simp_all add: sample_lock_defs RWLOCK_VALID_def Let_def)
  then show ?thesis
    using lock_step.write_unlock [of 0 3 queued_sys pt0 rwl_ops Wake_readers l errs] u pt0_ok
    by (simp add: rwl_ops_def freed_sys_def)
qed

lemma sample_init: "fresh_rwl = snd (rwl_init 0 0 0 1 \<lparr>k_writer_id = 9, k_priority = 0, k_valid = 0, k_r_active = 5,
    k_w_active = 5, k_r_wait = 5, k_w_wait = 5\<rparr>)"
  by (fact fresh_rwl_def)

lemma queued_from_init: "lock_reach rwl_ops 3 errs (idle_sys fresh_rwl) queued_sys"
  using held_step queued_reach by (rule converse_rtranclp_into_rtranclp)

lemma freed_from_init: "lock_reach rwl_ops 3 errs (idle_sys fresh_rwl) freed_sys"
  using queued_from_init freed_step by (rule rtranclp.rtrancl_into_rtrancl)

lemma queued_facts: "y_wheld queued_sys 0 = 1" "y_pc queued_sys 1 = Blocked_r" "y_pc queued_sys 2 = Blocked_w"
  by (simp_all add: sample_lock_defs RWLOCK_VALID_def Let_def)

lemma freed_facts: "y_rheld freed_sys t = 0" "y_wheld freed_sys t = 0" "y_pc freed_sys 1 = Woken_r" "y_pc freed_sys 2 = Blocked_w"
  by (simp_all add: sample_lock_defs RWLOCK_VALID_def Let_def)

theorem rwlock_exclusion_witness:
  "y_wheld queued_sys 0 = 1 \<and> y_rheld queued_sys 1 = 0 \<and> y_wheld queued_sys 2 = 0"
  using rwlock_exclusion [OF queued_from_init [of "{0}", unfolded sample_init], of 0 1]
    rwlock_exclusion [OF queued_from_init [of "{0}", unfolded sample_init], of 0 2]
  by (simp add: queued_facts)

theorem rwlock_progress_witness:
  "y_pc freed_sys 2 = Blocked_w \<and>
   (\<exists>u<3. y_pc freed_sys u = Woken_r \<and> fst (rwl_readlock_woken 0 (y_lock freed_sys)) = Ret 0 \<or>
      y_pc freed_sys u = Woken_w \<and> fst (rwl_writelock_woken 0 u (y_lock freed_sys)) = Ret 0)"
proof -
  have "\<exists>t<3. y_pc freed_sys t \<noteq> Running" by (rule exI [of _ 2]) (simp add: freed_facts)
  then show ?thesis using rwlock_progress [OF freed_from_init [of "{0}", unfolded sample_init]] by (simp add: freed_facts)
qed

theorem rwl_destroy_exact_witness:
  "fst (rwl_destroy \<lparr>p_lock = 0, p_unlock = 0, p_broadcast = 0\<rparr> 0 0 0 (y_lock freed_sys)) = EBUSY"
proof -
  have "\<exists>t<3. 0 < y_rheld freed_sys t \<or> 0 < y_wheld freed_sys t \<or> y_pc freed_sys t \<noteq> Running"
    by (rule exI [of _ 2]) (simp add: freed_facts)
  then show ?thesis using rwl_destroy_exact [OF freed_from_init [of "{0}", unfolded sample_init]] by blast
qed

text \<open>
  If the wait of the woken reader fails, nobody is awake: the writer sleeps on a free lock.
\<close>

definition failed_sys :: "brwlock lock_sys" where
  "failed_sys = after_read 1 (rwl_readlock_woken EINVAL (y_lock freed_sys)) freed_sys"

lemma failed_wait_loses_wakeup:
  "lock_reach rwl_ops 3 {0, EINVAL} (idle_sys fresh_rwl) failed_sys \<and> k_w_active (y_lock failed_sys) = 0 \<and>
   k_r_active (y_lock failed_sys) = 0 \<and> y_pc failed_sys 2 = Blocked_w \<and> y_pc failed_sys 0 = Running \<and> y_pc failed_sys 1 = Running"
proof -
  have "lock_step rwl_ops 3 {0, EINVAL} freed_sys failed_sys"
    using lock_step.read_woken [of 1 3 freed_sys EINVAL "{0, EINVAL}" rwl_ops] freed_facts(3)
    by (simp add: rwl_ops_def failed_sys_def)
  then have "lock_reach rwl_ops 3 {0, EINVAL} (idle_sys fresh_rwl) failed_sys"
    using freed_from_init by (rule rtranclp.rtrancl_into_rtrancl [rotated])
  then show ?thesis
    by (simp add: failed_sys_def) (simp add: sample_lock_defs RWLOCK_VALID_def EINVAL_def Let_def)
qed

definition held_devlock :: "devlock lock_sys" where
  "held_devlock = after_write 0 (writelock 7 True pt0 0 (snd (devlock_init 0 0 0 1 new_devlock)))
     (idle_sys (snd (devlock_init 0 0 0 1 new_devlock)))"


theorem return_lock_keeps_owner_witness:
  "d_writer_id (snd (snd (return_lock pt0 3 \<lparr>tl_writer_id = 0, tl_reason = 7, tl_prev_reason = 0\<rparr>
     ((y_lock held_devlock)\<lparr>d_reason := 4, d_writer_id := 3\<rparr>)))) = 3"
proof -
  have l: "d_valid (y_lock held_devlock) = DEVLOCK_VALID" "d_writer_id (y_lock held_devlock) = 0" "0 < d_w_active (y_lock held_devlock)"
    "d_reason (y_lock held_devlock) = 7" "d_prev_reason (y_lock held_devlock) = 0"
    by (simp_all add: held_devlock_def after_write_def writelock_def devlock_init_def idle_sys_def pt0_def new_devlock_def
        DEVLOCK_VALID_def Let_def)
  have t: "take_lock pt0 3 4 h (y_lock held_devlock) =
      (0, \<lparr>tl_writer_id = 0, tl_reason = 7, tl_prev_reason = 0\<rparr>, (y_lock held_devlock)\<lparr>d_reason := 4, d_writer_id := 3\<rparr>)" for h
    using l by (simp add: take_lock_def pt0_def)
  show ?thesis
    using return_lock_keeps_owner [OF l(1,2,3) _ _ t] pt0_ok(2)
    by (metis (no_types, lifting) prod.collapse zero_neq_numeral)
qed

end
