(* ===== verification/Rblist.thy ===== *)
theory Rblist
  imports Bacula_Prelude "HOL-Library.Tree"
begin

text \<open>
  The binary tree with parent pointers of \<^verbatim>\<open>lib/rblist.c\<close> and
  \<^verbatim>\<open>lib/rblist.h\<close>, which keeps the children of a node of the restore tree
  (\<^verbatim>\<open>lib/tree.c\<close>).  Items are addresses, zero is \<^verbatim>\<open>NULL\<close>, and the
  memory maps an item to the link structure inside it; an item that is not allocated has none, so that
  every access through \<^verbatim>\<open>NULL\<close> or to a freed item is the value \<open>None\<close>.
  The caller's comparison is an argument.  The second part relates the memory to a tree value
  and shows what the pointer operations do to it.
\<close>

section \<open>The links and the list\<close>

record rblink =
  lk_parent :: nat
  lk_left :: nat
  lk_right :: nat
  lk_red :: bool

record rblist =
  rb_head :: nat
  rb_loffset :: int
  rb_num_items :: u32
  rb_down :: bool
  rb_mem :: "nat \<Rightarrow> rblink option"

type_synonym compare_fun = "nat \<Rightarrow> nat \<Rightarrow> int"

text \<open>The offset of the links is the same in all items; outside its range the program aborts.\<close>

definition rblist_init :: "nat \<Rightarrow> nat \<Rightarrow> rblist \<Rightarrow> rblist option" where
  "rblist_init item link s =
     (let off = sint (of_int (int link - int item) :: i16)
      in if off < 0 \<or> 5000 < off then None else Some (s\<lparr>rb_head := 0, rb_loffset := off, rb_num_items := 0\<rparr>))"

definition set_parent :: "rblist \<Rightarrow> nat \<Rightarrow> nat \<Rightarrow> rblist option" where
  "set_parent s x v = map_option (\<lambda>k. s\<lparr>rb_mem := (rb_mem s)(x \<mapsto> k\<lparr>lk_parent := v\<rparr>)\<rparr>) (rb_mem s x)"

definition set_left :: "rblist \<Rightarrow> nat \<Rightarrow> nat \<Rightarrow> rblist option" where
  "set_left s x v = map_option (\<lambda>k. s\<lparr>rb_mem := (rb_mem s)(x \<mapsto> k\<lparr>lk_left := v\<rparr>)\<rparr>) (rb_mem s x)"

definition set_right :: "rblist \<Rightarrow> nat \<Rightarrow> nat \<Rightarrow> rblist option" where
  "set_right s x v = map_option (\<lambda>k. s\<lparr>rb_mem := (rb_mem s)(x \<mapsto> k\<lparr>lk_right := v\<rparr>)\<rparr>) (rb_mem s x)"

definition set_red :: "rblist \<Rightarrow> nat \<Rightarrow> bool \<Rightarrow> rblist option" where
  "set_red s x v = map_option (\<lambda>k. s\<lparr>rb_mem := (rb_mem s)(x \<mapsto> k\<lparr>lk_red := v\<rparr>)\<rparr>) (rb_mem s x)"

definition rb_empty :: "rblist \<Rightarrow> bool" where
  "rb_empty s \<longleftrightarrow> rb_head s = 0"

definition rb_size :: "rblist \<Rightarrow> int" where
  "rb_size s = sint (rb_num_items s)"

definition parent :: "rblist \<Rightarrow> nat \<Rightarrow> nat option" where
  "parent s x = map_option lk_parent (rb_mem s x)"

definition left :: "rblist \<Rightarrow> nat \<Rightarrow> nat option" where
  "left s x = map_option lk_left (rb_mem s x)"

definition right :: "rblist \<Rightarrow> nat \<Rightarrow> nat option" where
  "right s x = map_option lk_right (rb_mem s x)"

definition red :: "rblist \<Rightarrow> nat \<Rightarrow> bool option" where
  "red s x = map_option lk_red (rb_mem s x)"

section \<open>Rotations\<close>

definition left_rotate :: "rblist \<Rightarrow> nat \<Rightarrow> rblist option" where
  "left_rotate s x =
     do { y \<leftarrow> right s x;
          ly \<leftarrow> left s y;
          s \<leftarrow> set_right s x ly;
          ly \<leftarrow> left s y;
          s \<leftarrow> (if ly \<noteq> 0 then set_parent s ly x else Some s);
          px \<leftarrow> parent s x;
          s \<leftarrow> set_parent s y px;
          px \<leftarrow> parent s x;
          s \<leftarrow> (if px = 0 then Some (s\<lparr>rb_head := y\<rparr>)
               else do { lp \<leftarrow> left s px; if x = lp then set_left s px y else set_right s px y });
          s \<leftarrow> set_left s y x;
          set_parent s x y }"

definition right_rotate :: "rblist \<Rightarrow> nat \<Rightarrow> rblist option" where
  "right_rotate s y =
     do { x \<leftarrow> left s y;
          rx \<leftarrow> right s x;
          s \<leftarrow> set_left s y rx;
          rx \<leftarrow> right s x;
          s \<leftarrow> (if rx \<noteq> 0 then set_parent s rx y else Some s);
          py \<leftarrow> parent s y;
          s \<leftarrow> set_parent s x py;
          py \<leftarrow> parent s y;
          s \<leftarrow> (if py = 0 then Some (s\<lparr>rb_head := x\<rparr>)
               else do { lp \<leftarrow> left s py; if y = lp then set_left s py x else set_right s py x });
          s \<leftarrow> set_right s x y;
          set_parent s y x }"

section \<open>Insertion\<close>

text \<open>
  The search of \<^verbatim>\<open>insert\<close>: the item found (or zero), the last item looked at and the last
  result of the comparison.
\<close>

partial_function (option) insert_search ::
  "compare_fun \<Rightarrow> rblist \<Rightarrow> nat \<Rightarrow> nat \<Rightarrow> nat \<Rightarrow> int \<Rightarrow> (nat \<times> nat \<times> int) option" where
  "insert_search compare s item x lst cmp =
     (if x = 0 then Some (0, lst, cmp)
      else if compare item x < 0 then left s x \<bind> (\<lambda>l. insert_search compare s item l x (compare item x))
      else if 0 < compare item x then right s x \<bind> (\<lambda>r. insert_search compare s item r x (compare item x))
      else Some (x, x, compare item x))"

definition grandparent :: "rblist \<Rightarrow> nat \<Rightarrow> nat option" where
  "grandparent s x = parent s x \<bind> parent s"

text \<open>The body of the loop that walks up: the new state and the item to go on with.\<close>

definition recolour :: "rblist \<Rightarrow> nat \<Rightarrow> nat \<Rightarrow> (rblist \<times> nat) option" where
  "recolour s x y =
     do { p \<leftarrow> parent s x;
          s \<leftarrow> set_red s p False;
          s \<leftarrow> set_red s y False;
          g \<leftarrow> grandparent s x;
          s \<leftarrow> set_red s g True;
          g \<leftarrow> grandparent s x;
          Some (s, g) }"

definition promote :: "(rblist \<Rightarrow> nat \<Rightarrow> rblist option) \<Rightarrow> rblist \<Rightarrow> nat \<Rightarrow> (rblist \<times> nat) option" where
  "promote rot s x =
     do { p \<leftarrow> parent s x;
          s \<leftarrow> set_red s p False;
          g \<leftarrow> grandparent s x;
          s \<leftarrow> set_red s g True;
          g \<leftarrow> grandparent s x;
          s \<leftarrow> rot s g;
          Some (s, x) }"

definition balance_left :: "rblist \<Rightarrow> nat \<Rightarrow> (rblist \<times> nat) option" where
  "balance_left s x =
     do { g \<leftarrow> grandparent s x;
          y \<leftarrow> right s g;
          ry \<leftarrow> (if y = 0 then Some False else red s y);
          if ry then recolour s x y
          else do { p \<leftarrow> parent s x;
                    r \<leftarrow> right s p;
                    (s, x) \<leftarrow> (if x = r then do { x \<leftarrow> parent s x; s \<leftarrow> left_rotate s x; Some (s, x) } else Some (s, x));
                    promote right_rotate s x } }"

definition balance_right :: "rblist \<Rightarrow> nat \<Rightarrow> (rblist \<times> nat) option" where
  "balance_right s x =
     do { g \<leftarrow> grandparent s x;
          y \<leftarrow> left s g;
          ry \<leftarrow> (if y = 0 then Some False else red s y);
          if ry then recolour s x y
          else do { p \<leftarrow> parent s x;
                    l \<leftarrow> left s p;
                    (s, x) \<leftarrow> (if x = l then do { x \<leftarrow> parent s x; s \<leftarrow> right_rotate s x; Some (s, x) } else Some (s, x));
                    promote left_rotate s x } }"

definition balance_step :: "rblist \<Rightarrow> nat \<Rightarrow> (rblist \<times> nat) option" where
  "balance_step s x =
     do { p \<leftarrow> parent s x;
          g \<leftarrow> grandparent s x;
          l \<leftarrow> left s g;
          if p = l then balance_left s x else balance_right s x }"

partial_function (option) balance :: "rblist \<Rightarrow> nat \<Rightarrow> rblist option" where
  "balance s x =
     (if x = rb_head s then Some s
      else parent s x \<bind> (\<lambda>p. red s p \<bind> (\<lambda>r.
        if r then balance_step s x \<bind> (\<lambda>sx. balance (fst sx) (snd sx)) else Some s)))"

definition rb_insert :: "compare_fun \<Rightarrow> rblist \<Rightarrow> nat \<Rightarrow> (nat \<times> rblist) option" where
  "rb_insert compare s item =
     do { (found, lst, cmp) \<leftarrow> insert_search compare s item (rb_head s) 0 0;
          if found \<noteq> 0 then Some (found, s)
          else do { s \<leftarrow> set_left s item 0;
                    s \<leftarrow> set_right s item 0;
                    s \<leftarrow> set_parent s item 0;
                    s \<leftarrow> set_red s item False;
                    if rb_num_items s = 0
                    then Some (item, s\<lparr>rb_head := item, rb_num_items := rb_num_items s + 1\<rparr>)
                    else do { s \<leftarrow> (if cmp < 0 then set_left s lst item else set_right s lst item);
                              s \<leftarrow> set_red s lst True;
                              s \<leftarrow> set_parent s item lst;
                              s \<leftarrow> balance (s\<lparr>rb_num_items := rb_num_items s + 1\<rparr>) lst;
                              s \<leftarrow> set_red s (rb_head s) False;
                              Some (item, s) } } }"

section \<open>Search and traversal\<close>

partial_function (option) search_loop :: "compare_fun \<Rightarrow> rblist \<Rightarrow> nat \<Rightarrow> nat \<Rightarrow> nat option" where
  "search_loop compare s item x =
     (if x = 0 then Some 0
      else if compare item x < 0 then left s x \<bind> search_loop compare s item
      else if 0 < compare item x then right s x \<bind> search_loop compare s item
      else Some x)"

definition rb_search :: "compare_fun \<Rightarrow> rblist \<Rightarrow> nat \<Rightarrow> nat option" where
  "rb_search compare s item = search_loop compare s item (rb_head s)"

text \<open>The loops that go down to the left: \<^verbatim>\<open>while (left(x)) x = left(x)\<close>.\<close>

partial_function (option) leftmost :: "rblist \<Rightarrow> nat \<Rightarrow> nat option" where
  "leftmost s x = left s x \<bind> (\<lambda>l. if l \<noteq> 0 then leftmost s l else Some x)"

definition rb_first :: "rblist \<Rightarrow> (nat \<times> rblist) option" where
  "rb_first s =
     (let s = s\<lparr>rb_down := True\<rparr>
      in if rb_head s = 0 then Some (0, s) else leftmost s (rb_head s) \<bind> (\<lambda>x. Some (x, s)))"

text \<open>The test with which \<^verbatim>\<open>next\<close> and \<^verbatim>\<open>any\<close> decide to go down.\<close>

definition goes_down :: "rblist \<Rightarrow> nat \<Rightarrow> bool option" where
  "goes_down s x =
     do { l \<leftarrow> left s x;
          r \<leftarrow> right s x;
          Some (rb_down s \<and> l = 0 \<and> r \<noteq> 0 \<or> \<not> rb_down s \<and> r \<noteq> 0) }"

definition down_right :: "rblist \<Rightarrow> nat \<Rightarrow> (nat \<times> rblist) option" where
  "down_right s x =
     do { r \<leftarrow> right s x;
          y \<leftarrow> leftmost (s\<lparr>rb_down := True\<rparr>) r;
          Some (y, s\<lparr>rb_down := True\<rparr>) }"

partial_function (option) next_up :: "rblist \<Rightarrow> nat \<Rightarrow> (nat \<times> rblist) option" where
  "next_up s x =
     parent s x \<bind> (\<lambda>p.
       if p = 0 then Some (0, s)
       else right s p \<bind> (\<lambda>r.
         if r = x then next_up (s\<lparr>rb_down := False\<rparr>) p else Some (p, s\<lparr>rb_down := False\<rparr>)))"

definition rb_next :: "rblist \<Rightarrow> nat \<Rightarrow> (nat \<times> rblist) option" where
  "rb_next s item =
     (if item = 0 then rb_first s
      else do { d \<leftarrow> goes_down s item; if d then down_right s item else next_up s item })"

definition rb_any :: "rblist \<Rightarrow> nat \<Rightarrow> (nat \<times> rblist) option" where
  "rb_any s item =
     (if item = 0 then Some (0, s)
      else do { d \<leftarrow> goes_down s item;
                if d then down_right s item
                else do { p \<leftarrow> parent s item;
                          if p = 0 then Some (0, s) else Some (p, s\<lparr>rb_down := False\<rparr>) } })"

text \<open>\<^verbatim>\<open>foreach_rblist\<close> with a body that collects the items.\<close>

partial_function (option) foreach_from :: "rblist \<Rightarrow> nat \<Rightarrow> nat list \<Rightarrow> (nat list \<times> rblist) option" where
  "foreach_from s x acc =
     (if x = 0 then Some (rev acc, s)
      else rb_next s x \<bind> (\<lambda>n. foreach_from (snd n) (fst n) (x # acc)))"

definition foreach_rblist :: "rblist \<Rightarrow> (nat list \<times> rblist) option" where
  "foreach_rblist s = rb_first s \<bind> (\<lambda>n. foreach_from (snd n) (fst n) [])"

section \<open>Destruction\<close>

text \<open>\<^verbatim>\<open>free\<close> of an item that is not allocated is an error; \<^verbatim>\<open>remove\<close> is empty in the code.\<close>

definition free_item :: "rblist \<Rightarrow> nat \<Rightarrow> rblist option" where
  "free_item s x = (if rb_mem s x = None then None else Some (s\<lparr>rb_mem := (rb_mem s)(x := None)\<rparr>))"

definition rb_remove :: "rblist \<Rightarrow> nat \<Rightarrow> rblist" where
  "rb_remove s item = s"

definition prune :: "rblist \<Rightarrow> nat \<Rightarrow> rblist option" where
  "prune s x =
     do { p \<leftarrow> parent s x;
          s \<leftarrow> (if p \<noteq> 0
               then do { l \<leftarrow> left s p;
                         if x = l then set_left s p 0
                         else do { r \<leftarrow> right s p; if x = r then set_right s p 0 else Some s } }
               else Some s);
          l \<leftarrow> left s x;
          r \<leftarrow> right s x;
          if l = 0 \<and> r = 0
          then do { s \<leftarrow> free_item (if rb_head s = x then s\<lparr>rb_head := 0\<rparr> else s) x;
                    Some (s\<lparr>rb_num_items := rb_num_items s - 1\<rparr>) }
          else Some s }"

partial_function (option) destroy_loop :: "rblist \<Rightarrow> nat \<Rightarrow> (nat \<times> rblist) option" where
  "destroy_loop s x =
     rb_any s x \<bind> (\<lambda>n.
       if fst n = 0 then Some (x, snd n)
       else prune (snd n) x \<bind> (\<lambda>s. destroy_loop s (fst n)))"

definition rb_destroy :: "rblist \<Rightarrow> rblist option" where
  "rb_destroy s =
     do { (x, s) \<leftarrow> rb_first s;
          (x, s) \<leftarrow> destroy_loop s x;
          s \<leftarrow> (if x \<noteq> 0
               then do { s \<leftarrow> free_item (if x = rb_head s then s\<lparr>rb_head := 0\<rparr> else s) x;
                         Some (s\<lparr>rb_num_items := rb_num_items s - 1\<rparr>) }
               else Some s);
          s \<leftarrow> (if rb_head s \<noteq> 0 then free_item s (rb_head s) else Some s);
          Some (s\<lparr>rb_head := 0\<rparr>) }"

section \<open>Trees in memory\<close>

text \<open>
  A tree value has the address and the colour of each item; a context is the way from a subtree up to
  the head, with the direction, the item, its colour and its other subtree.
\<close>

type_synonym rbtree = "(nat \<times> bool) tree"
type_synonym frame = "bool \<times> nat \<times> bool \<times> rbtree"

fun root :: "rbtree \<Rightarrow> nat" where
  "root Leaf = 0"
| "root (Node l (a, c) r) = a"

fun items :: "rbtree \<Rightarrow> nat list" where
  "items Leaf = []"
| "items (Node l (a, c) r) = items l @ a # items r"

fun tree_at :: "(nat \<Rightarrow> rblink option) \<Rightarrow> nat \<Rightarrow> rbtree \<Rightarrow> bool" where
  "tree_at m p Leaf \<longleftrightarrow> True"
| "tree_at m p (Node l (a, c) r) \<longleftrightarrow>
     a \<noteq> 0 \<and> m a = Some \<lparr>lk_parent = p, lk_left = root l, lk_right = root r, lk_red = c\<rparr> \<and> tree_at m a l \<and> tree_at m a r"

fun fpar :: "frame list \<Rightarrow> nat" where
  "fpar [] = 0"
| "fpar ((d, a, c, t) # K) = a"

fun ctx_at :: "(nat \<Rightarrow> rblink option) \<Rightarrow> nat \<Rightarrow> frame list \<Rightarrow> bool" where
  "ctx_at m x [] \<longleftrightarrow> True"
| "ctx_at m x ((d, a, c, t) # K) \<longleftrightarrow>
     a \<noteq> 0 \<and> m a = Some \<lparr>lk_parent = fpar K, lk_left = (if d then x else root t), lk_right = (if d then root t else x),
       lk_red = c\<rparr> \<and> tree_at m a t \<and> ctx_at m a K"

fun ctx_items :: "frame list \<Rightarrow> nat list" where
  "ctx_items [] = []"
| "ctx_items ((d, a, c, t) # K) = a # items t @ ctx_items K"

fun plug :: "frame list \<Rightarrow> rbtree \<Rightarrow> rbtree" where
  "plug [] t = t"
| "plug ((d, a, c, u) # K) t = plug K (if d then Node t (a, c) u else Node u (a, c) t)"

text \<open>The list holds a tree: the head, the links, no item twice, and the count.\<close>

definition holds_tree :: "rblist \<Rightarrow> rbtree \<Rightarrow> bool" where
  "holds_tree s t \<longleftrightarrow> rb_head s = root t \<and> tree_at (rb_mem s) 0 t \<and> distinct (items t) \<and>
     rb_num_items s = of_nat (length (items t))"

lemma tree_upd [simp]: "a \<notin> set (items t) \<Longrightarrow> tree_at (m(a := v)) p t = tree_at m p t"
  by (induction m p t rule: tree_at.induct) auto

lemma ctx_upd [simp]: "a \<notin> set (ctx_items K) \<Longrightarrow> ctx_at (m(a := v)) x K = ctx_at m x K"
  by (induction m x K rule: ctx_at.induct) auto

lemma tree_nonzero: "tree_at m p t \<Longrightarrow> 0 \<notin> set (items t)"
  by (induction m p t rule: tree_at.induct) auto

lemma ctx_nonzero: "ctx_at m x K \<Longrightarrow> 0 \<notin> set (ctx_items K)"
  by (induction m x K rule: ctx_at.induct) (auto dest: tree_nonzero)

lemma root_in: "t \<noteq> Leaf \<Longrightarrow> root t \<in> set (items t)"
  by (cases t rule: root.cases) auto

lemma root_zero: "tree_at m p t \<Longrightarrow> root t = 0 \<longleftrightarrow> t = Leaf"
  by (cases t rule: root.cases) auto

lemma tree_at_root: "tree_at m p t \<Longrightarrow> t \<noteq> Leaf \<Longrightarrow> \<exists>k. m (root t) = Some k \<and> lk_parent k = p"
  by (cases t rule: root.cases) auto

lemma tree_at_plug: "tree_at m 0 (plug K t) \<longleftrightarrow> tree_at m (fpar K) t \<and> ctx_at m (root t) K"
  by (induction K t rule: plug.induct) auto

lemma distinct_plug: "distinct (items (plug K t)) \<longleftrightarrow> distinct (items t @ ctx_items K)"
  by (induction K t rule: plug.induct) auto

lemma length_plug: "length (items (plug K t)) = length (items t) + length (ctx_items K)"
  by (induction K t rule: plug.induct) auto

lemma set_plug: "set (items (plug K t)) = set (items t) \<union> set (ctx_items K)"
  by (induction K t rule: plug.induct) auto

fun top_item :: "frame list \<Rightarrow> nat \<Rightarrow> nat" where
  "top_item [] x = x"
| "top_item ((d, a, c, t) # K) x = top_item K a"

lemma root_plug: "root (plug K t) = top_item K (root t)"
  by (induction K t rule: plug.induct) auto

lemma top_item_in: "top_item K x \<in> insert x (set (ctx_items K))"
  by (induction K x rule: top_item.induct) auto

text \<open>Making a tree the child of another item, and giving a context another child, each changes one link.\<close>

lemma tree_reparent:
  assumes "tree_at m p t" and "distinct (items t)" and "t \<noteq> Leaf" and "m (root t) = Some k"
  shows "tree_at (m(root t \<mapsto> k\<lparr>lk_parent := q\<rparr>)) q t"
  using assms by (cases t rule: root.cases) auto

text \<open>
  The list seen from an item inside: the subtree at that item and the way up, whose items are \<open>I\<close>;
  compared with the state \<open>s0\<close> only links of these items are changed.
\<close>

definition zipped :: "nat set \<Rightarrow> rblist \<Rightarrow> rblist \<Rightarrow> rbtree \<Rightarrow> frame list \<Rightarrow> bool" where
  "zipped I s0 s t K \<longleftrightarrow> rb_head s = top_item K (root t) \<and> tree_at (rb_mem s) (fpar K) t \<and> ctx_at (rb_mem s) (root t) K \<and>
     distinct (items t @ ctx_items K) \<and> set (items t) \<union> set (ctx_items K) = I \<and>
     (\<forall>a. a \<notin> I \<longrightarrow> rb_mem s a = rb_mem s0 a) \<and> rb_num_items s = rb_num_items s0 \<and> rb_down s = rb_down s0 \<and>
     rb_loffset s = rb_loffset s0"

lemmas link_ops = set_parent_def set_left_def set_right_def set_red_def parent_def left_def right_def red_def

lemma root_fresh: "x \<notin> set (items t) \<Longrightarrow> x \<noteq> 0 \<Longrightarrow> root t \<noteq> x"
  by (cases t rule: root.cases) auto

lemma left_rotate_zipped:
  assumes "zipped I s0 s (Node A (x, cx) (Node B (y, cy) C)) K"
  shows "\<exists>s'. left_rotate s x = Some s' \<and> zipped I s0 s' (Node (Node A (x, cx) B) (y, cy) C) K"
proof -
  have d: "x \<notin> set (items A)" "x \<notin> set (items B)" "x \<notin> set (items C)" "x \<notin> set (ctx_items K)" "x \<noteq> y" "y \<noteq> x"
    "y \<notin> set (items A)" "y \<notin> set (items B)" "y \<notin> set (items C)" "y \<notin> set (ctx_items K)"
    "x \<noteq> 0" "y \<noteq> 0" "0 \<notin> set (items B)" "0 \<notin> set (ctx_items K)"
    "distinct (items A)" "distinct (items B)" "distinct (items C)" "distinct (ctx_items K)"
    "set (items A) \<inter> set (items B) = {}" "set (items A) \<inter> set (items C) = {}" "set (items B) \<inter> set (items C) = {}"
    "set (items A) \<inter> set (ctx_items K) = {}" "set (items B) \<inter> set (ctx_items K) = {}" "set (items C) \<inter> set (ctx_items K) = {}"
    using assms tree_nonzero ctx_nonzero by (auto simp: zipped_def)
  have m: "rb_mem s x = Some \<lparr>lk_parent = fpar K, lk_left = root A, lk_right = y, lk_red = cx\<rparr>"
    "rb_mem s y = Some \<lparr>lk_parent = x, lk_left = root B, lk_right = root C, lk_red = cy\<rparr>"
    "tree_at (rb_mem s) x A" "tree_at (rb_mem s) y B" "tree_at (rb_mem s) y C" "ctx_at (rb_mem s) x K"
    "rb_head s = top_item K x"
    and i: "I = insert x (insert y (set (items A) \<union> set (items B) \<union> set (items C) \<union> set (ctx_items K)))"
    "\<forall>a. a \<notin> I \<longrightarrow> rb_mem s a = rb_mem s0 a" "rb_num_items s = rb_num_items s0" "rb_down s = rb_down s0"
    "rb_loffset s = rb_loffset s0"
    using assms by (auto simp: zipped_def)
  show ?thesis
  proof (cases K)
    case Nil
    show ?thesis
    proof (cases B rule: root.cases)
      case 1
      then show ?thesis using m d i Nil by (simp add: left_rotate_def link_ops zipped_def Int_Un_distrib Int_Un_distrib2 Un_ac insert_commute)
    next
      case (2 l b c r)
      then show ?thesis using m d i Nil by (simp add: left_rotate_def link_ops zipped_def Int_Un_distrib Int_Un_distrib2 Un_ac insert_commute)
    qed
  next
    case (Cons f K')
    obtain e a c t where f: "f = (e, a, c, t)" by (cases f)
    have "root t \<noteq> x" using root_fresh [of x t] d Cons f by simp
    then show ?thesis
    proof (cases B rule: root.cases)
      case 1
      then show ?thesis
        using m d i Cons f \<open>root t \<noteq> x\<close> by (cases e) (simp_all add: left_rotate_def link_ops zipped_def Int_Un_distrib Int_Un_distrib2 Un_ac insert_commute)
    next
      case (2 l b c r)
      then show ?thesis
        using m d i Cons f \<open>root t \<noteq> x\<close> by (cases e) (simp_all add: left_rotate_def link_ops zipped_def Int_Un_distrib Int_Un_distrib2 Un_ac insert_commute)
    qed
  qed
qed

lemma right_rotate_zipped:
  assumes "zipped I s0 s (Node (Node A (x, cx) B) (y, cy) C) K"
  shows "\<exists>s'. right_rotate s y = Some s' \<and> zipped I s0 s' (Node A (x, cx) (Node B (y, cy) C)) K"
proof -
  have d: "x \<notin> set (items A)" "x \<notin> set (items B)" "x \<notin> set (items C)" "x \<notin> set (ctx_items K)" "x \<noteq> y" "y \<noteq> x"
    "y \<notin> set (items A)" "y \<notin> set (items B)" "y \<notin> set (items C)" "y \<notin> set (ctx_items K)"
    "x \<noteq> 0" "y \<noteq> 0" "0 \<notin> set (items B)" "0 \<notin> set (ctx_items K)"
    "distinct (items A)" "distinct (items B)" "distinct (items C)" "distinct (ctx_items K)"
    "set (items A) \<inter> set (items B) = {}" "set (items A) \<inter> set (items C) = {}" "set (items B) \<inter> set (items C) = {}"
    "set (items A) \<inter> set (ctx_items K) = {}" "set (items B) \<inter> set (ctx_items K) = {}" "set (items C) \<inter> set (ctx_items K) = {}"
    using assms tree_nonzero ctx_nonzero by (auto simp: zipped_def)
  have m: "rb_mem s y = Some \<lparr>lk_parent = fpar K, lk_left = x, lk_right = root C, lk_red = cy\<rparr>"
    "rb_mem s x = Some \<lparr>lk_parent = y, lk_left = root A, lk_right = root B, lk_red = cx\<rparr>"
    "tree_at (rb_mem s) x A" "tree_at (rb_mem s) x B" "tree_at (rb_mem s) y C" "ctx_at (rb_mem s) y K"
    "rb_head s = top_item K y"
    and i: "I = insert x (insert y (set (items A) \<union> set (items B) \<union> set (items C) \<union> set (ctx_items K)))"
    "\<forall>a. a \<notin> I \<longrightarrow> rb_mem s a = rb_mem s0 a" "rb_num_items s = rb_num_items s0" "rb_down s = rb_down s0"
    "rb_loffset s = rb_loffset s0"
    using assms by (auto simp: zipped_def)
  show ?thesis
  proof (cases K)
    case Nil
    show ?thesis
    proof (cases B rule: root.cases)
      case 1
      then show ?thesis using m d i Nil by (simp add: right_rotate_def link_ops zipped_def Int_Un_distrib Int_Un_distrib2 Un_ac insert_commute)
    next
      case (2 l b c r)
      then show ?thesis using m d i Nil by (simp add: right_rotate_def link_ops zipped_def Int_Un_distrib Int_Un_distrib2 Un_ac insert_commute)
    qed
  next
    case (Cons f K')
    obtain e a c t where f: "f = (e, a, c, t)" by (cases f)
    have "root t \<noteq> y" using root_fresh [of y t] d Cons f by simp
    then show ?thesis
    proof (cases B rule: root.cases)
      case 1
      then show ?thesis
        using m d i Cons f \<open>root t \<noteq> y\<close> by (cases e) (simp_all add: right_rotate_def link_ops zipped_def Int_Un_distrib Int_Un_distrib2 Un_ac insert_commute)
    next
      case (2 l b c r)
      then show ?thesis
        using m d i Cons f \<open>root t \<noteq> y\<close> by (cases e) (simp_all add: right_rotate_def link_ops zipped_def Int_Un_distrib Int_Un_distrib2 Un_ac insert_commute)
    qed
  qed
qed

section \<open>Moving in the tree\<close>

definition side :: "bool \<Rightarrow> rbtree \<Rightarrow> nat \<Rightarrow> bool \<Rightarrow> rbtree \<Rightarrow> rbtree" where
  "side d t a c u = (if d then Node t (a, c) u else Node u (a, c) t)"

lemma side_simps [simp]: "side True t a c u = Node t (a, c) u" "side False t a c u = Node u (a, c) t"
  by (simp_all add: side_def)

lemma zipped_up: "zipped I s0 s t ((d, a, c, u) # K) \<longleftrightarrow> zipped I s0 s (side d t a c u) K"
  by (auto simp: zipped_def side_def)

lemma zipped_links:
  assumes "zipped I s0 s (Node l (a, c) r) K"
  shows "left s a = Some (root l)" "right s a = Some (root r)" "parent s a = Some (fpar K)" "red s a = Some c" "a \<noteq> 0"
  using assms by (auto simp: zipped_def link_ops)

lemma zipped_frame:
  assumes "zipped I s0 s t ((d, a, c, u) # K)"
  shows "left s a = Some (if d then root t else root u)" "right s a = Some (if d then root u else root t)"
    "parent s a = Some (fpar K)" "red s a = Some c" "a \<noteq> 0"
  using assms by (auto simp: zipped_def link_ops)

lemma zipped_distinct:
  assumes "zipped I s0 s (Node A (x, cx) B) ((d, p, cp, u) # K)"
  shows "root u \<noteq> x" "rb_head s \<noteq> x"
proof -
  have "x \<noteq> p" "x \<notin> set (items u)" "x \<notin> set (ctx_items K)" "x \<noteq> 0" "rb_head s = top_item K p"
    using assms by (auto simp: zipped_def)
  then show "root u \<noteq> x" "rb_head s \<noteq> x" using root_fresh [of x u] top_item_in [of K p] by auto
qed

lemma set_red_root:
  assumes "zipped I s0 s (Node l (a, c) r) K"
  shows "\<exists>s'. set_red s a v = Some s' \<and> zipped I s0 s' (Node l (a, v) r) K"
  using assms by (auto simp: zipped_def link_ops)

lemma set_red_frame:
  assumes "zipped I s0 s t ((d, a, c, u) # K)"
  shows "\<exists>s'. set_red s a v = Some s' \<and> zipped I s0 s' t ((d, a, v, u) # K)"
  using assms set_red_root [of I s0 s _ a c _ K v] by (cases d) (simp_all add: zipped_up)

text \<open>From a subtree to the other side of its parent.\<close>

lemma zipped_swap: "zipped I s0 s t ((d, a, c, u) # K) \<longleftrightarrow> zipped I s0 s u ((\<not> d, a, c, t) # K)"
  by (cases d) (simp_all add: zipped_up)

section \<open>The walk up\<close>

fun is_red :: "rbtree \<Rightarrow> bool" where
  "is_red Leaf = False"
| "is_red (Node l (a, c) r) = c"

fun paint :: "bool \<Rightarrow> rbtree \<Rightarrow> rbtree" where
  "paint v Leaf = Leaf"
| "paint v (Node l (a, c) r) = Node l (a, v) r"

text \<open>The single and the double rotation at the grandparent.\<close>

fun rotated :: "bool \<Rightarrow> bool \<Rightarrow> rbtree \<Rightarrow> nat \<Rightarrow> rbtree \<Rightarrow> nat \<Rightarrow> rbtree \<Rightarrow> rbtree" where
  "rotated True True t p u g y = Node t (p, False) (Node u (g, True) y)"
| "rotated False False t p u g y = Node (Node y (g, True) u) (p, False) t"
| "rotated False True (Node A (x, c) B) p u g y = Node (Node u (p, True) A) (x, False) (Node B (g, True) y)"
| "rotated True False (Node A (x, c) B) p u g y = Node (Node y (g, True) A) (x, False) (Node B (p, True) u)"
| "rotated d e Leaf p u g y = Leaf"

fun rebalance :: "frame list \<Rightarrow> rbtree \<Rightarrow> rbtree" where
  "rebalance ((d, p, cp, u) # (e, g, cg, y) # K) t =
     (if \<not> cp then plug ((d, p, cp, u) # (e, g, cg, y) # K) t
      else if is_red y then rebalance K (side e (side d t p False u) g True (paint False y))
      else plug K (rotated d e t p u g y))"
| "rebalance K t = plug K t"

lemma grandparent_zipped:
  "zipped I s0 s (Node A (x, cx) B) ((d, p, cp, u) # K) \<Longrightarrow> grandparent s x = Some (fpar K)"
  using zipped_links(3) zipped_frame(3) by (fastforce simp: grandparent_def)

lemma recolour_zipped:
  assumes z: "zipped I s0 s (Node A (x, cx) B) ((d, p, True, u) # (e, g, cg, y) # K)" and y: "is_red y"
  shows "\<exists>s'. recolour s x (root y) = Some (s', g) \<and>
    zipped I s0 s' (side e (side d (Node A (x, cx) B) p False u) g True (paint False y)) K"
proof -
  let ?t = "Node A (x, cx) B"
  obtain yl ya yr where y: "y = Node yl (ya, True) yr" using y by (cases y rule: root.cases) auto
  obtain s1 where s1: "set_red s p False = Some s1" and z1: "zipped I s0 s1 ?t ((d, p, False, u) # (e, g, cg, y) # K)"
    using set_red_frame [OF z] by blast
  have "zipped I s0 s1 y ((\<not> e, g, cg, side d ?t p False u) # K)"
    using z1 by (simp add: zipped_up [of _ _ _ _ d] zipped_swap [of _ _ _ _ e])
  then obtain s2 where s2: "set_red s1 ya False = Some s2"
    and "zipped I s0 s2 (paint False y) ((\<not> e, g, cg, side d ?t p False u) # K)"
    using set_red_root y by fastforce
  then have z2: "zipped I s0 s2 ?t ((d, p, False, u) # (e, g, cg, paint False y) # K)"
    by (simp add: zipped_up [of _ _ _ _ d] zipped_swap [of _ _ _ _ e])
  then obtain s3 where s3: "set_red s2 g True = Some s3"
    and "zipped I s0 s3 (side d ?t p False u) ((e, g, True, paint False y) # K)"
    using set_red_frame [of I s0 s2 "side d ?t p False u" e g cg "paint False y" K True] by (auto simp: zipped_up)
  then have z3: "zipped I s0 s3 (side e (side d ?t p False u) g True (paint False y)) K"
    and z3': "zipped I s0 s3 ?t ((d, p, False, u) # (e, g, True, paint False y) # K)" by (simp_all add: zipped_up)
  have "recolour s x (root y) = Some (s3, g)"
    using s1 s2 s3 y zipped_links(3) [OF z] grandparent_zipped [OF z2] grandparent_zipped [OF z3']
    by (simp add: recolour_def)
  then show ?thesis using z3 by blast
qed

text \<open>The walk ends below a black parent.\<close>

lemma balance_stops:
  assumes "zipped I s0 s (Node A (x, cx) B) ((d, p, False, u) # K)"
  shows "balance s x = Some s"
  using zipped_links(3) [OF assms] zipped_frame(4) [OF assms] by (subst balance.simps) simp

lemma red_test:
  assumes "zipped I s0 s t ((d, g, c, y) # K)"
  shows "(if root y = 0 then Some False else red s (root y)) = Some (is_red y)"
  using assms by (cases y rule: root.cases) (auto simp: zipped_def link_ops)

lemma promote_zipped:
  assumes "zipped I s0 s (Node A (x, cx) B) ((e, p, cp, u) # (e, g, cg, y) # K)"
  shows "\<exists>s'. promote (if e then right_rotate else left_rotate) s x = Some (s', x) \<and>
    zipped I s0 s' (Node A (x, cx) B) ((e, p, False, side (\<not> e) y g True u) # K)"
proof -
  let ?t = "Node A (x, cx) B"
  obtain s1 where s1: "set_red s p False = Some s1" and z1: "zipped I s0 s1 ?t ((e, p, False, u) # (e, g, cg, y) # K)"
    using set_red_frame [OF assms] by blast
  then obtain s2 where s2: "set_red s1 g True = Some s2" and "zipped I s0 s2 (side e ?t p False u) ((e, g, True, y) # K)"
    using set_red_frame [of I s0 s1 "side e ?t p False u" e g cg y K True] by (auto simp: zipped_up)
  then have z2: "zipped I s0 s2 ?t ((e, p, False, u) # (e, g, True, y) # K)" by (simp add: zipped_up)
  obtain s3 where s3: "(if e then right_rotate else left_rotate) s2 g = Some s3"
    "zipped I s0 s3 ?t ((e, p, False, side (\<not> e) y g True u) # K)"
    using z2 left_rotate_zipped [of I s0 s2 y g True u p False ?t K] right_rotate_zipped [of I s0 s2 ?t p False u g True y K]
    by (cases e) (auto simp: zipped_up)
  have "promote (if e then right_rotate else left_rotate) s x = Some (s3, x)"
    using s1 s2 s3 zipped_links(3) [OF assms] grandparent_zipped [OF z1] grandparent_zipped [OF z2] by (simp add: promote_def)
  then show ?thesis using s3 by blast
qed

lemma balance_step_rotates:
  assumes z: "zipped I s0 s (Node A (x, cx) B) ((d, p, True, u) # (e, g, cg, y) # K)" and y: "\<not> is_red y"
  shows "\<exists>s' x'. balance_step s x = Some (s', x') \<and> zipped I s0 s' (rotated d e (Node A (x, cx) B) p u g y) K \<and>
    balance s' x' = Some s'"
proof -
  let ?t = "Node A (x, cx) B"
  note p = zipped_links(3) [OF z] and g = grandparent_zipped [OF z]
  have zp: "zipped I s0 s (side d ?t p True u) ((e, g, cg, y) # K)" using z by (simp add: zipped_up)
  note y' = red_test [OF zp] and ne = zipped_distinct [OF z]
  have py: "root y \<noteq> p" using zp zipped_distinct(1) [of I s0 s _ p True _ e g cg y K] by (cases d) auto
  show ?thesis
  proof (cases "d = e")
    case True
    then obtain s' where "promote (if e then right_rotate else left_rotate) s x = Some (s', x)"
      and z': "zipped I s0 s' ?t ((e, p, False, side (\<not> e) y g True u) # K)" using promote_zipped z by blast
    then have "balance_step s x = Some (s', x)"
      using p g y y' ne py zipped_frame(1,2) [OF z] zipped_frame(1,2) [OF zp] True
      by (cases e) (simp_all add: balance_step_def balance_left_def balance_right_def)
    moreover have "zipped I s0 s' (rotated d e ?t p u g y) K" using z' True by (cases e) (simp_all add: zipped_up)
    ultimately show ?thesis using balance_stops [OF z'] by blast
  next
    case False
    then obtain s1 where s1: "(if e then left_rotate else right_rotate) s p = Some s1"
      and z1: "zipped I s0 s1 (side e u p True (if e then A else B)) ((e, x, cx, if e then B else A) # (e, g, cg, y) # K)"
      using zp left_rotate_zipped [of I s0 s u p True A x cx B "(e, g, cg, y) # K"]
        right_rotate_zipped [of I s0 s A x cx B p True u "(e, g, cg, y) # K"]
      by (cases e) (auto simp: zipped_up [where K = "_ # _"])
    let ?P = "side e u p True (if e then A else B)" and ?O = "if e then B else A"
    obtain l r where P: "?P = Node l (p, True) r" by (cases e) auto
    obtain s2 where "promote (if e then right_rotate else left_rotate) s1 p = Some (s2, p)"
      and z2: "zipped I s0 s2 ?P ((e, x, False, side (\<not> e) y g True ?O) # K)"
      using promote_zipped z1 unfolding P by blast
    then have "balance_step s x = Some (s2, p)"
      using p g y y' ne py s1 zipped_frame(1,2) [OF z] zipped_frame(1,2) [OF zp] False
      by (cases e) (simp_all add: balance_step_def balance_left_def balance_right_def)
    moreover have "zipped I s0 s2 (rotated d e ?t p u g y) K" using z2 False by (cases e) (simp_all add: zipped_up)
    moreover have "balance s2 p = Some s2" using balance_stops z2 unfolding P by blast
    ultimately show ?thesis by blast
  qed
qed

lemma balance_step_recolours:
  assumes z: "zipped I s0 s (Node A (x, cx) B) ((d, p, True, u) # (e, g, cg, y) # K)" and y: "is_red y"
  shows "\<exists>s'. balance_step s x = Some (s', g) \<and>
    zipped I s0 s' (side e (side d (Node A (x, cx) B) p False u) g True (paint False y)) K"
proof -
  let ?t = "Node A (x, cx) B"
  have zp: "zipped I s0 s (side d ?t p True u) ((e, g, cg, y) # K)" using z by (simp add: zipped_up)
  have py: "root y \<noteq> p" using zp zipped_distinct(1) [of I s0 s _ p True _ e g cg y K] by (cases d) auto
  from recolour_zipped [OF z y] show ?thesis
    using zipped_links(3) [OF z] grandparent_zipped [OF z] zipped_frame(1,2) [OF zp] red_test [OF zp] y py
    by (cases e; cases d) (auto simp: balance_step_def balance_left_def balance_right_def)
qed

text \<open>The whole walk: when the head is black, the pointers follow \<open>rebalance\<close>, and the walk ends.\<close>

fun head_black :: "frame list \<Rightarrow> bool" where
  "head_black [] \<longleftrightarrow> True"
| "head_black [(d, a, c, u)] \<longleftrightarrow> \<not> c"
| "head_black (f # K) \<longleftrightarrow> head_black K"

lemma zipped_plug: "zipped I s0 s t K \<longleftrightarrow> zipped I s0 s (plug K t) []"
  by (induction K t rule: plug.induct) (simp_all add: zipped_up side_def)

lemma balance_walks:
  assumes z: "zipped I s0 s (Node A (x, cx) B) ((d, p, True, u) # K)" and "balance_step s x = Some (s', x')"
  shows "balance s x = balance s' x'"
  using zipped_links(3) [OF z] zipped_frame(4) [OF z] zipped_distinct(2) [OF z] assms(2) by (subst balance.simps) simp

lemma balance_zipped:
  assumes "zipped I s0 s (Node A (x, cx) B) K" and "head_black K"
  shows "\<exists>s'. balance s x = Some s' \<and> zipped I s0 s' (rebalance K (Node A (x, cx) B)) []"
  using assms
proof (induction K "Node A (x, cx) B" arbitrary: s A x cx B rule: rebalance.induct [case_names climb here below])
  case (climb d p cp u e g cg y K)
  let ?t = "Node A (x, cx) B"
  note z = climb(2)
  have hb: "head_black K" using climb(3) by (cases K rule: head_black.cases) auto
  consider (black) "\<not> cp" | (red) cp "is_red y" | (rotate) cp "\<not> is_red y" by blast
  then show ?case
  proof cases
    case black
    then have "balance s x = Some s" using balance_stops z by simp
    moreover have "zipped I s0 s (rebalance ((d, p, cp, u) # (e, g, cg, y) # K) ?t) []"
      using z black by (simp only: rebalance.simps if_True zipped_plug [symmetric] not_False_eq_True simp_thms)
    ultimately show ?thesis by blast
  next
    case red
    then have z': "zipped I s0 s ?t ((d, p, True, u) # (e, g, cg, y) # K)" using z by simp
    let ?T = "side e (side d ?t p False u) g True (paint False y)"
    obtain s' where s': "balance_step s x = Some (s', g)" "zipped I s0 s' ?T K" using balance_step_recolours [OF z' red(2)] by blast
    obtain l r where T: "?T = Node l (g, True) r" by (cases e) auto
    have "\<exists>s''. balance s' g = Some s'' \<and> zipped I s0 s'' (rebalance K ?T) []"
      using climb(1) [OF _ red(2) T _ hb] red s'(2) T by simp
    then show ?thesis using balance_walks [OF z' s'(1)] red by simp
  next
    case rotate
    then have z': "zipped I s0 s ?t ((d, p, True, u) # (e, g, cg, y) # K)" using z by simp
    from balance_step_rotates [OF z' rotate(2)] obtain s' x' where "balance_step s x = Some (s', x')"
      "zipped I s0 s' (rotated d e ?t p u g y) K" "balance s' x' = Some s'" by blast
    then show ?thesis using balance_walks [OF z'] rotate zipped_plug by simp
  qed
next
  case (here A x cx B s)
  then have "rb_head s = x" by (simp add: zipped_def)
  then show ?case using here by (subst balance.simps) simp
next
  case (below v A x cx B s)
  obtain d a c u where v: "v = (d, a, c, u)" by (cases v)
  then have "balance s x = Some s" using below balance_stops by fastforce
  then show ?case using below(1) zipped_plug [of I s0 s _ "[v]"] by simp
qed

section \<open>Insertion into a tree\<close>

text \<open>The way down to an item: the context reached, and the subtree there, empty when the item is not found.\<close>

fun locate :: "compare_fun \<Rightarrow> nat \<Rightarrow> rbtree \<Rightarrow> frame list \<Rightarrow> frame list \<times> rbtree" where
  "locate compare item Leaf K = (K, Leaf)"
| "locate compare item (Node l (a, c) r) K =
     (if compare item a < 0 then locate compare item l ((True, a, c, r) # K)
      else if 0 < compare item a then locate compare item r ((False, a, c, l) # K)
      else (K, Node l (a, c) r))"

fun attach :: "nat \<Rightarrow> rbtree \<Rightarrow> frame list \<Rightarrow> rbtree \<Rightarrow> nat \<times> rbtree" where
  "attach item t K (Node l (a, c) r) = (a, t)"
| "attach item t [] Leaf = (item, Node Leaf (item, False) Leaf)"
| "attach item t ((d, a, c, u) # K) Leaf = (item, paint False (rebalance K (side d (Node Leaf (item, False) Leaf) a True u)))"

definition tree_insert :: "compare_fun \<Rightarrow> nat \<Rightarrow> rbtree \<Rightarrow> nat \<times> rbtree" where
  "tree_insert compare item t = (case locate compare item t [] of (K, t') \<Rightarrow> attach item t K t')"

lemma locate_plug: "locate compare item t K = (K', t') \<Longrightarrow> plug K' t' = plug K t"
  by (induction compare item t K rule: locate.induct) (auto split: if_splits)

text \<open>What the search of \<^verbatim>\<open>insert\<close> returns in terms of that way.\<close>

lemma insert_search_locate:
  assumes "tree_at (rb_mem s) p t" and "locate compare item t K = (K', t')"
  shows "\<exists>lst c. insert_search compare s item (root t) (fpar K) c0 = Some (root t', lst, c) \<and>
    (t' = Leaf \<longrightarrow> lst = fpar K' \<and> (K' = K \<and> c = c0 \<or> (\<exists>d a b u L. K' = (d, a, b, u) # L \<and> (c < 0 \<longleftrightarrow> d))))"
  using assms
proof (induction compare item t K arbitrary: p c0 rule: locate.induct)
  case (1 compare item K)
  then show ?case by (auto simp: insert_search.simps)
next
  case (2 compare item l a c r K)
  have m: "a \<noteq> 0" "left s a = Some (root l)" "right s a = Some (root r)" "tree_at (rb_mem s) a l" "tree_at (rb_mem s) a r"
    using 2(3) by (auto simp: link_ops)
  consider (lt) "compare item a < 0" | (gt) "0 < compare item a" | (eq) "compare item a = 0" by linarith
  then show ?case
  proof cases
    case lt
    then have "locate compare item l ((True, a, c, r) # K) = (K', t')" using 2(4) by simp
    from 2(1) [OF lt m(4) this, of "compare item a"] show ?thesis
      using lt m(1,2) by (subst insert_search.simps) auto
  next
    case gt
    then have "locate compare item r ((False, a, c, l) # K) = (K', t')" using 2(4) by simp
    from 2(2) [OF _ gt m(5) this, of "compare item a"] show ?thesis
      using gt m(1,3) by (subst insert_search.simps) auto
  next
    case eq
    then show ?thesis using 2(4) m(1) by (subst insert_search.simps) auto
  qed
qed

lemma head_black_plug: "K \<noteq> [] \<Longrightarrow> head_black K \<longleftrightarrow> \<not> is_red (plug K t)"
proof (induction K t rule: plug.induct)
  case (2 d a c u K t)
  then show ?case by (cases K) auto
qed simp

lemma items_rotated: "t \<noteq> Leaf \<Longrightarrow> items (rotated d e t p u g y) = items (side e (side d t p True u) g True y)"
  by (cases t rule: root.cases; cases d; cases e) auto

lemma items_paint [simp]: "items (paint v t) = items t"
  by (cases t rule: root.cases) auto

text \<open>The items before and behind a subtree.\<close>

fun before :: "frame list \<Rightarrow> nat list" where
  "before [] = []"
| "before ((d, a, c, u) # K) = before K @ (if d then [] else items u @ [a])"

fun behind :: "frame list \<Rightarrow> nat list" where
  "behind [] = []"
| "behind ((d, a, c, u) # K) = (if d then a # items u else []) @ behind K"

lemma items_plug: "items (plug K t) = before K @ items t @ behind K"
  by (induction K t rule: plug.induct) simp_all

lemma items_rebalance: "t \<noteq> Leaf \<Longrightarrow> items (rebalance K t) = items (plug K t)"
proof (induction K t rule: rebalance.induct)
  case (1 d p cp u e g cg y K t)
  have "items (side e (side d t p False u) g True (paint False y)) = items (side e (side d t p cp u) g cg y)"
    by (cases d; cases e) simp_all
  moreover have "side e (side d t p False u) g True (paint False y) \<noteq> Leaf" by (cases e) simp_all
  moreover have "items (rotated d e t p u g y) = items (side e (side d t p cp u) g cg y)"
    using items_rotated [OF 1(2)] by (cases d; cases e) simp_all
  moreover have "plug ((d, p, cp, u) # (e, g, cg, y) # K) t = plug K (side e (side d t p cp u) g cg y)"
    by (simp add: side_def)
  ultimately show ?case using 1(1) by (simp only: rebalance.simps items_plug split: if_split) simp
qed simp_all

section \<open>The pointers follow the tree\<close>

lemma holds_treeI:
  assumes "zipped I s0 s t []" and "rb_num_items s = of_nat (length (items t))"
  shows "holds_tree s t"
  using assms by (simp add: zipped_def holds_tree_def)

text \<open>Hanging a new item below the last one of the search.\<close>

lemma hang_item:
  assumes h: "holds_tree s (plug ((d, a, c, u) # K) Leaf)" and new: "item \<noteq> 0" "item \<notin> set (items (plug ((d, a, c, u) # K) Leaf))"
    and m: "rb_mem s item = Some k"
  shows "\<exists>s1 s2 s3 s4 s5 s6 s7.
    set_left s item 0 = Some s1 \<and> set_right s1 item 0 = Some s2 \<and> set_parent s2 item 0 = Some s3 \<and> set_red s3 item False = Some s4 \<and>
    (if d then set_left s4 a item else set_right s4 a item) = Some s5 \<and> set_red s5 a True = Some s6 \<and> set_parent s6 item a = Some s7 \<and>
    rb_num_items s4 = rb_num_items s \<and> rb_num_items s7 = rb_num_items s \<and>
    zipped (insert item (set (items (plug ((d, a, c, u) # K) Leaf)))) (s7\<lparr>rb_num_items := n\<rparr>) (s7\<lparr>rb_num_items := n\<rparr>)
      (side d (Node Leaf (item, False) Leaf) a True u) K \<and>
    (\<forall>b. b \<notin> insert item (set (items (plug ((d, a, c, u) # K) Leaf))) \<longrightarrow> rb_mem s7 b = rb_mem s b)"
proof -
  let ?K = "(d, a, c, u) # K"
  have t: "tree_at (rb_mem s) 0 (plug ?K Leaf)" and dist: "distinct (items (plug ?K Leaf))" and hd: "rb_head s = root (plug ?K Leaf)"
    using h by (simp_all add: holds_tree_def)
  have ctx: "ctx_at (rb_mem s) 0 ?K" using t unfolding tree_at_plug by simp
  have f: "item \<noteq> a" "item \<notin> set (items u)" "item \<notin> set (ctx_items K)" using new(2) unfolding set_plug by auto
  have dd: "distinct (a # items u @ ctx_items K)" using dist unfolding distinct_plug by simp
  have top: "rb_head s = top_item K a" using hd unfolding root_plug by simp
  show ?thesis
    using ctx f dd top m new(1) unfolding set_plug
    by (cases d) (auto simp: link_ops zipped_def)
qed

lemma is_red_paint [simp]: "\<not> is_red (paint False t)"
  by (cases t rule: root.cases) auto

lemma num_items_0: "n < 2 ^ 32 \<Longrightarrow> (of_nat n :: u32) = 0 \<longleftrightarrow> n = 0"
  by (auto simp: word_of_nat_eq_0_iff dest: dvd_imp_le)

lemma rb_insert_tree:
  assumes h: "holds_tree s t" and black: "\<not> is_red t" and new: "item \<noteq> 0" "item \<notin> set (items t)" and m: "rb_mem s item \<noteq> None"
    and n: "length (items t) < 2 ^ 32"
  shows "\<exists>s'. rb_insert compare s item = Some (fst (tree_insert compare item t), s') \<and>
    holds_tree s' (snd (tree_insert compare item t)) \<and> \<not> is_red (snd (tree_insert compare item t)) \<and>
    (fst (tree_insert compare item t) \<noteq> item \<longrightarrow> s' = s) \<and>
    (\<forall>b. b \<notin> insert item (set (items t)) \<longrightarrow> rb_mem s' b = rb_mem s b)"
proof -
  obtain k where k: "rb_mem s item = Some k" using m by auto
  obtain K' t' where loc: "locate compare item t [] = (K', t')" by fastforce
  have whole: "plug K' t' = t" using locate_plug [OF loc] by simp
  have mem: "tree_at (rb_mem s) 0 t" and hd: "rb_head s = root t" using h by (simp_all add: holds_tree_def)
  obtain lst c where search: "insert_search compare s item (root t) 0 0 = Some (root t', lst, c)"
    and lst: "t' = Leaf \<longrightarrow> lst = fpar K' \<and> (K' = [] \<and> c = 0 \<or> (\<exists>d a b u L. K' = (d, a, b, u) # L \<and> (c < 0 \<longleftrightarrow> d)))"
    using insert_search_locate [OF mem loc, of 0] by auto
  show ?thesis
  proof (cases t' rule: root.cases)
    case (2 l a b r)
    then have "a \<in> set (items t)" using set_plug [of K' t'] whole by simp
    then have "a \<noteq> 0" "a \<noteq> item" using tree_nonzero [OF mem] new(2) by metis+
    then show ?thesis using search hd h black loc 2 by (simp add: rb_insert_def tree_insert_def)
  next
    case 1
    show ?thesis
    proof (cases K')
      case Nil
      then have "t = Leaf" using whole 1 by simp
      then show ?thesis
        using search hd h loc 1 Nil k new(1) by (auto simp: rb_insert_def tree_insert_def link_ops holds_tree_def)
    next
      case (Cons f K)
      obtain d a b u where f: "f = (d, a, b, u)" by (cases f)
      have t: "t = plug ((d, a, b, u) # K) Leaf" using whole 1 Cons f by simp
      let ?n = "rb_num_items s + 1" and ?t = "side d (Node Leaf (item, False) Leaf) a True u"
      obtain s1 s2 s3 s4 s5 s6 s7 where
        st: "set_left s item 0 = Some s1" "set_right s1 item 0 = Some s2" "set_parent s2 item 0 = Some s3" "set_red s3 item False = Some s4"
          "(if d then set_left s4 a item else set_right s4 a item) = Some s5" "set_red s5 a True = Some s6" "set_parent s6 item a = Some s7"
          "rb_num_items s4 = rb_num_items s" "rb_num_items s7 = rb_num_items s"
        and z: "zipped (insert item (set (items t))) (s7\<lparr>rb_num_items := ?n\<rparr>) (s7\<lparr>rb_num_items := ?n\<rparr>) ?t K"
        and frame: "\<forall>x. x \<notin> insert item (set (items t)) \<longrightarrow> rb_mem s7 x = rb_mem s x"
        using hang_item [OF h [unfolded t] new(1) new(2) [unfolded t] k, of ?n] unfolding t [symmetric] by blast
      have hb: "head_black K" using black head_black_plug [of K ?t] t
        by (cases "K = []") (auto simp: head_black_plug [of K "if d then Node Leaf (a, b) u else Node u (a, b) Leaf"])
      obtain l r where T: "?t = Node l (a, True) r" by (cases d) auto
      obtain s8 where s8: "balance (s7\<lparr>rb_num_items := ?n\<rparr>) a = Some s8"
        "zipped (insert item (set (items t))) (s7\<lparr>rb_num_items := ?n\<rparr>) s8 (rebalance K ?t) []"
        using balance_zipped [OF z [unfolded T] hb] unfolding T by blast
      have "?t \<noteq> Leaf" by (cases d) simp_all
      from items_rebalance [OF this, of K] have it: "items (rebalance K ?t) = items (plug K ?t)" .
      then obtain l' a' c' r' where R: "rebalance K ?t = Node l' (a', c') r'"
        by (cases "rebalance K ?t" rule: root.cases) (auto simp: items_plug T)
      obtain s9 where s9: "set_red s8 (rb_head s8) False = Some s9"
        "zipped (insert item (set (items t))) (s7\<lparr>rb_num_items := ?n\<rparr>) s9 (paint False (rebalance K ?t)) []"
        using set_red_root [OF s8(2) [unfolded R], of False] s8(2) R by (auto simp: zipped_def)
      have len: "length (items t) = length (items u) + 1 + length (ctx_items K)" unfolding t length_plug by simp
      have "rb_num_items s9 = of_nat (length (items (paint False (rebalance K ?t))))"
        using s9(2) h it len by (cases d) (simp_all add: zipped_def holds_tree_def length_plug)
      then have "holds_tree s9 (paint False (rebalance K ?t))" using holds_treeI [OF s9(2)] by simp
      moreover have "rb_num_items s \<noteq> 0" using h num_items_0 [OF n] len by (simp add: holds_tree_def)
      then have "rb_insert compare s item = Some (item, s9)"
        using search lst hd 1 Cons f st s8(1) s9(1) by (simp add: rb_insert_def)
      moreover have "\<forall>x. x \<notin> insert item (set (items t)) \<longrightarrow> rb_mem s9 x = rb_mem s x" using s9(2) frame by (simp add: zipped_def)
      ultimately show ?thesis using loc 1 Cons f by (simp add: tree_insert_def)
    qed
  qed
qed

section \<open>Ordered lists\<close>

text \<open>The abstract list: its items in order, the insertion into it, and the contract of the comparison.\<close>

definition rb_list :: "rblist \<Rightarrow> nat list \<Rightarrow> bool" where
  "rb_list s xs \<longleftrightarrow> (\<exists>t. holds_tree s t \<and> \<not> is_red t \<and> items t = xs)"

fun ord_insert :: "compare_fun \<Rightarrow> nat \<Rightarrow> nat list \<Rightarrow> nat list" where
  "ord_insert compare item [] = [item]"
| "ord_insert compare item (a # xs) =
     (if compare item a < 0 then item # a # xs else if 0 < compare item a then a # ord_insert compare item xs else a # xs)"

definition ordered :: "compare_fun \<Rightarrow> nat list \<Rightarrow> bool" where
  "ordered compare xs \<longleftrightarrow> sorted_wrt (\<lambda>a b. compare a b < 0) xs"

lemma search_locate:
  assumes "tree_at (rb_mem s) p t" and "locate compare item t K = (K', t')"
  shows "search_loop compare s item (root t) = Some (root t')"
  using assms
proof (induction compare item t K arbitrary: p rule: locate.induct)
  case (1 compare item K)
  then show ?case by (auto simp: search_loop.simps)
next
  case (2 compare item l a c r K)
  have m: "a \<noteq> 0" "left s a = Some (root l)" "right s a = Some (root r)" "tree_at (rb_mem s) a l" "tree_at (rb_mem s) a r"
    using 2(3) by (auto simp: link_ops)
  consider (lt) "compare item a < 0" | (gt) "0 < compare item a" | (eq) "compare item a = 0" by linarith
  then show ?case
  proof cases
    case lt
    then show ?thesis using 2(1) [OF lt m(4)] 2(4) m(1,2) by (subst search_loop.simps) simp
  next
    case gt
    then show ?thesis using 2(2) [OF _ gt m(5)] 2(4) m(1,3) by (subst search_loop.simps) simp
  next
    case eq
    then show ?thesis using 2(4) m(1) by (subst search_loop.simps) auto
  qed
qed

locale item_order =
  fixes compare :: "nat \<Rightarrow> nat \<Rightarrow> int"
  assumes sign: "compare b a < 0 \<longleftrightarrow> 0 < compare a b"
    and trans: "compare a b \<le> 0 \<Longrightarrow> compare b c \<le> 0 \<Longrightarrow> compare a c \<le> 0"
begin

lemma less_le_trans: "compare a b < 0 \<Longrightarrow> compare b c \<le> 0 \<Longrightarrow> compare a c < 0"
  using sign [of a b] sign [of a c] trans [of b c a] by (metis not_le)

lemma locate_order:
  assumes "locate compare item t K = (K', t')" and "ordered compare (items (plug K t))"
    and "\<And>a. a \<in> set (before K) \<Longrightarrow> 0 < compare item a" and "\<And>a. a \<in> set (behind K) \<Longrightarrow> compare item a < 0"
  shows "(\<forall>a \<in> set (before K'). 0 < compare item a) \<and> (\<forall>a \<in> set (behind K'). compare item a < 0) \<and>
    (t' \<noteq> Leaf \<longrightarrow> compare item (root t') = 0)"
  using assms
proof (induction t arbitrary: K rule: items.induct)
  case 1
  then show ?case by auto
next
  case (2 l a c r)
  have ord: "\<forall>b \<in> set (items l). compare b a < 0" "\<forall>b \<in> set (items r). compare a b < 0"
    using 2(4) by (auto simp: ordered_def items_plug sorted_wrt_append)
  consider (lt) "compare item a < 0" | (gt) "0 < compare item a" | (eq) "compare item a = 0" by linarith
  then show ?case
  proof cases
    case lt
    have "compare item b < 0" if "b \<in> set (behind ((True, a, c, r) # K))" for b
      using that lt ord(2) 2(6) less_le_trans [of item a b] by force
    then show ?thesis using 2(1) [of "(True, a, c, r) # K"] 2(3-5) lt by simp
  next
    case gt
    have "0 < compare item b" if "b \<in> set (before ((False, a, c, l) # K))" for b
      using that gt ord(1) 2(5) less_le_trans [of b a item] sign [of a item] sign [of b item] by force
    then show ?thesis using 2(2) [of "(False, a, c, l) # K"] 2(3,4,6) gt by simp
  next
    case eq
    then show ?thesis using 2(3,5,6) by auto
  qed
qed

lemma ord_insert_between:
  assumes "\<forall>a \<in> set xs. 0 < compare item a" and "\<forall>a \<in> set ys. compare item a < 0"
  shows "ord_insert compare item (xs @ ys) = xs @ item # ys"
  using assms
proof (induction xs)
  case Nil
  then show ?case by (cases ys) auto
next
  case (Cons x xs)
  then have "\<not> compare item x < 0" by simp
  then show ?case using Cons by simp
qed

lemma ordered_between:
  assumes "ordered compare (xs @ ys)" and "\<forall>a \<in> set xs. 0 < compare item a" and "\<forall>a \<in> set ys. compare item a < 0"
  shows "ordered compare (xs @ item # ys)"
  using assms sign by (auto simp: ordered_def sorted_wrt_append)

lemma tree_insert_items:
  assumes "ordered compare (items t)"
  shows "if \<exists>a \<in> set (items t). compare item a = 0
    then fst (tree_insert compare item t) \<in> set (items t) \<and> compare item (fst (tree_insert compare item t)) = 0 \<and>
      snd (tree_insert compare item t) = t
    else fst (tree_insert compare item t) = item \<and>
      items (snd (tree_insert compare item t)) = ord_insert compare item (items t) \<and>
      ordered compare (items (snd (tree_insert compare item t)))"
proof -
  obtain K' t' where loc: "locate compare item t [] = (K', t')" by fastforce
  have whole: "plug K' t' = t" using locate_plug [OF loc] by simp
  have o: "\<forall>a \<in> set (before K'). 0 < compare item a" "\<forall>a \<in> set (behind K'). compare item a < 0"
    "t' \<noteq> Leaf \<longrightarrow> compare item (root t') = 0"
    using locate_order [OF loc] assms by auto
  have it: "items t = before K' @ items t' @ behind K'" using items_plug [of K' t'] whole by simp
  show ?thesis
  proof (cases t' rule: root.cases)
    case (2 l a c r)
    then have "a \<in> set (items t)" "compare item a = 0" using it o(3) by auto
    then show ?thesis using loc 2 by (auto simp: tree_insert_def)
  next
    case 1
    then have none: "\<not> (\<exists>a \<in> set (items t). compare item a = 0)" using it o(1,2) by force
    have new: "fst (tree_insert compare item t) = item \<and> items (snd (tree_insert compare item t)) = before K' @ item # behind K'"
    proof (cases K')
      case Nil
      then show ?thesis using loc 1 by (simp add: tree_insert_def)
    next
      case (Cons f K)
      obtain d a c u where "f = (d, a, c, u)" by (cases f)
      then show ?thesis using loc 1 Cons items_rebalance [of "side d (Node Leaf (item, False) Leaf) a True u" K]
        by (cases d) (simp_all add: tree_insert_def items_plug)
    qed
    then show ?thesis
      using none it 1 ord_insert_between [OF o(1,2)] ordered_between [of "before K'" "behind K'" item] o(1,2) assms by simp
  qed
qed

lemma insert_refines:
  assumes l: "rb_list s xs" and o: "ordered compare xs" and new: "item \<noteq> 0" "item \<notin> set xs" "rb_mem s item \<noteq> None"
    and n: "length xs < 2 ^ 32"
  shows "\<exists>x s'. rb_insert compare s item = Some (x, s') \<and>
    (if \<exists>a \<in> set xs. compare item a = 0 then x \<in> set xs \<and> compare item x = 0 \<and> s' = s
     else x = item \<and> rb_list s' (ord_insert compare item xs) \<and> ordered compare (ord_insert compare item xs)) \<and>
    (\<forall>b. b \<notin> insert item (set xs) \<longrightarrow> rb_mem s' b = rb_mem s b)"
proof -
  obtain t where t: "holds_tree s t" "\<not> is_red t" "items t = xs" using l by (auto simp: rb_list_def)
  obtain s' where s': "rb_insert compare s item = Some (fst (tree_insert compare item t), s')"
    "holds_tree s' (snd (tree_insert compare item t))" "\<not> is_red (snd (tree_insert compare item t))"
    "fst (tree_insert compare item t) \<noteq> item \<longrightarrow> s' = s"
    "\<forall>b. b \<notin> insert item (set xs) \<longrightarrow> rb_mem s' b = rb_mem s b"
    using rb_insert_tree [OF t(1,2) new(1)] t(3) new(2,3) n by auto
  have i: "if \<exists>a \<in> set xs. compare item a = 0
    then fst (tree_insert compare item t) \<in> set xs \<and> compare item (fst (tree_insert compare item t)) = 0
    else fst (tree_insert compare item t) = item \<and> items (snd (tree_insert compare item t)) = ord_insert compare item xs \<and>
      ordered compare (items (snd (tree_insert compare item t)))"
    using tree_insert_items [of t item] t(3) o by (auto split: if_splits)
  show ?thesis
  proof (cases "\<exists>a \<in> set xs. compare item a = 0")
    case True
    then have "fst (tree_insert compare item t) \<noteq> item" using i new(2) by auto
    then show ?thesis using s' i True by auto
  next
    case False
    have f: "fst (tree_insert compare item t) = item" "items (snd (tree_insert compare item t)) = ord_insert compare item xs"
      "ordered compare (ord_insert compare item xs)" using i unfolding if_not_P [OF False] by auto
    then have "rb_list s' (ord_insert compare item xs)" using s'(2,3) by (auto simp: rb_list_def)
    then show ?thesis unfolding if_not_P [OF False] using s' f by auto
  qed
qed

lemma search_finds:
  assumes "rb_list s xs" and "ordered compare xs"
  shows "\<exists>x. rb_search compare s item = Some x \<and>
    (if \<exists>a \<in> set xs. compare item a = 0 then x \<in> set xs \<and> compare item x = 0 else x = 0)"
proof -
  obtain t where t: "holds_tree s t" "items t = xs" using assms(1) by (auto simp: rb_list_def)
  obtain K' t' where loc: "locate compare item t [] = (K', t')" by fastforce
  have whole: "plug K' t' = t" using locate_plug [OF loc] by simp
  have o: "\<forall>a \<in> set (before K'). 0 < compare item a" "\<forall>a \<in> set (behind K'). compare item a < 0"
    "t' \<noteq> Leaf \<longrightarrow> compare item (root t') = 0"
    using locate_order [OF loc] assms(2) t(2) by auto
  have it: "xs = before K' @ items t' @ behind K'" using items_plug [of K' t'] whole t(2) by simp
  have "rb_search compare s item = Some (root t')"
    using search_locate [of s 0 t compare item "[]" K' t'] t(1) loc by (simp add: rb_search_def holds_tree_def)
  moreover have "if \<exists>a \<in> set xs. compare item a = 0 then root t' \<in> set xs \<and> compare item (root t') = 0 else root t' = 0"
  proof (cases t' rule: root.cases)
    case 1
    then show ?thesis using it o(1,2) by force
  next
    case (2 l a c r)
    then show ?thesis using it o(3) by auto
  qed
  ultimately show ?thesis by blast
qed

end

section \<open>Properties\<close>

text \<open>
  C32 (rb_insert_refines).  \<^verbatim>\<open>insert\<close> implements the insertion into an ordered list: for every comparison that
  is an order, the call returns; when an equal item is there, that item is the result and nothing has changed,
  and otherwise the new item is the result and the tree holds the old items and the new one in order, each
  once, with correct links and count.  No memory but that of these items is written.
\<close>

theorem rb_insert_refines:
  assumes "item_order compare" and "rb_list s xs" and "ordered compare xs" and "item \<noteq> 0" and "item \<notin> set xs"
    and "rb_mem s item \<noteq> None" and "length xs < 2 ^ 32"
  shows "\<exists>x s'. rb_insert compare s item = Some (x, s') \<and>
    (if \<exists>a \<in> set xs. compare item a = 0 then x \<in> set xs \<and> compare item x = 0 \<and> s' = s
     else x = item \<and> rb_list s' (ord_insert compare item xs) \<and> ordered compare (ord_insert compare item xs)) \<and>
    (\<forall>b. b \<notin> insert item (set xs) \<longrightarrow> rb_mem s' b = rb_mem s b)"
  by (rule item_order.insert_refines [OF assms])

text \<open>
  \<^verbatim>\<open>search\<close> returns an equal item when the list has one, and \<^verbatim>\<open>NULL\<close> otherwise.
\<close>

theorem rb_search_exact:
  assumes "item_order compare" and "rb_list s xs" and "ordered compare xs"
  shows "\<exists>x. rb_search compare s item = Some x \<and>
    (if \<exists>a \<in> set xs. compare item a = 0 then x \<in> set xs \<and> compare item x = 0 else x = 0)"
  by (rule item_order.search_finds [OF assms])

section \<open>Examples\<close>

definition by_number :: compare_fun where
  "by_number a b = int a - int b"

lemma by_number_order: "item_order by_number"
  by unfold_locales (auto simp: by_number_def)

definition two_items :: rblist where
  "two_items = \<lparr>rb_head = 5, rb_loffset = 0, rb_num_items = 2, rb_down = False,
     rb_mem = [2 \<mapsto> \<lparr>lk_parent = 5, lk_left = 0, lk_right = 0, lk_red = False\<rparr>,
       5 \<mapsto> \<lparr>lk_parent = 0, lk_left = 2, lk_right = 0, lk_red = False\<rparr>,
       3 \<mapsto> \<lparr>lk_parent = 7, lk_left = 7, lk_right = 7, lk_red = True\<rparr>]\<rparr>"

lemma two_items_list: "rb_list two_items [2, 5]" "ordered by_number [2, 5]"
proof -
  have "holds_tree two_items (Node (Node Leaf (2, False) Leaf) (5, False) Leaf)" by (simp add: holds_tree_def two_items_def)
  then show "rb_list two_items [2, 5]"
    unfolding rb_list_def by (intro exI [of _ "Node (Node Leaf (2, False) Leaf) (5, False) Leaf"]) simp
  show "ordered by_number [2, 5]" by (simp add: ordered_def by_number_def)
qed

theorem rb_insert_refines_witness:
  "\<exists>s'. rb_insert by_number two_items 3 = Some (3, s') \<and> rb_list s' [2, 3, 5]"
proof -
  have "rb_mem two_items 3 \<noteq> None" by (simp add: two_items_def)
  from rb_insert_refines [OF by_number_order two_items_list _ _ this] show ?thesis by (auto simp: by_number_def)
qed

theorem rb_search_exact_witness: "rb_search by_number two_items 2 = Some 2 \<and> rb_search by_number two_items 4 = Some 0"
  using rb_search_exact [OF by_number_order two_items_list, of 2] rb_search_exact [OF by_number_order two_items_list, of 4]
  by (auto simp: by_number_def)

end
