(* ===== verification/Rblist_Walk.thy ===== *)
theory Rblist_Walk
  imports Rblist
begin

text \<open>
  Traversal and destruction of the tree of \<^verbatim>\<open>lib/rblist.c\<close>: \<^verbatim>\<open>first\<close> and
  \<^verbatim>\<open>next\<close> walk without a stack, with one flag for the direction, and \<^verbatim>\<open>destroy\<close> frees
  the items while it walks over them.
\<close>

section \<open>The order of visits\<close>

lemma zipped_down: "zipped I (s\<lparr>rb_down := b\<rparr>) (s\<lparr>rb_down := b\<rparr>) t K = zipped I s s t K"
  by (simp add: zipped_def)

lemma zipped_self: "zipped I s0 s t K \<Longrightarrow> zipped I s s t K"
  by (simp add: zipped_def)

text \<open>Going down to the left: the first item of a subtree, which has nothing to its left.\<close>

lemma leftmost_zipped:
  assumes "zipped I s0 s t K" and "t \<noteq> Leaf"
  shows "\<exists>y c r L. leftmost s (root t) = Some y \<and> zipped I s0 s (Node Leaf (y, c) r) (L @ K) \<and>
    items t @ behind K = y # items r @ behind (L @ K) \<and> (\<forall>f \<in> set L. fst f)"
  using assms
proof (induction t arbitrary: K rule: items.induct)
  case (2 l a c r)
  note m = zipped_links [OF 2(3)]
  show ?case
  proof (cases "l = Leaf")
    case True
    then have "leftmost s a = Some a" using m(1) by (subst leftmost.simps) simp
    then show ?thesis using 2(3) True by (intro exI [of _ a] exI [of _ c] exI [of _ r] exI [of _ "[]"]) simp
  next
    case False
    have z: "zipped I s0 s l ((True, a, c, r) # K)" using 2(3) by (simp add: zipped_up)
    then have "root l \<noteq> 0" using False by (auto simp: zipped_def root_zero)
    then have "leftmost s a = leftmost s (root l)" using m(1) by (subst leftmost.simps) simp
    moreover obtain y c' r' L where "leftmost s (root l) = Some y" "zipped I s0 s (Node Leaf (y, c') r') (L @ (True, a, c, r) # K)"
      "items l @ behind ((True, a, c, r) # K) = y # items r' @ behind (L @ (True, a, c, r) # K)" "\<forall>f \<in> set L. fst f"
      using 2(1) [OF z False] by blast
    ultimately show ?thesis
      by (intro exI [of _ y] exI [of _ c'] exI [of _ r'] exI [of _ "L @ [(True, a, c, r)]"]) simp
  qed
qed simp

text \<open>Going up: the next item is the first one behind the subtree.\<close>

lemma next_up_zipped:
  assumes "zipped I s s t K" and "t \<noteq> Leaf"
  shows "(behind K = [] \<longrightarrow> (\<exists>b. next_up s (root t) = Some (0, s\<lparr>rb_down := b\<rparr>))) \<and>
    (behind K \<noteq> [] \<longrightarrow> (\<exists>l y c r L. next_up s (root t) = Some (y, s\<lparr>rb_down := False\<rparr>) \<and> zipped I s s (Node l (y, c) r) L \<and>
      behind K = y # items r @ behind L))"
  using assms
proof (induction K arbitrary: s t)
  case Nil
  obtain l a c r where t: "t = Node l (a, c) r" using Nil(2) by (cases t rule: root.cases) auto
  then have "next_up s a = Some (0, s)" using zipped_links(3) [of I s s] Nil(1) by (subst next_up.simps) simp
  then show ?case using t by (auto intro!: exI [of _ "rb_down s"])
next
  case (Cons f K)
  obtain l a c r where t: "t = Node l (a, c) r" using Cons(3) by (cases t rule: root.cases) auto
  obtain d p cp u where f: "f = (d, p, cp, u)" by (cases f)
  have z: "zipped I s s (Node l (a, c) r) ((d, p, cp, u) # K)" using Cons(2) t f by simp
  note m = zipped_links [OF z] zipped_frame [OF z] zipped_distinct(1) [OF z]
  show ?case
  proof (cases d)
    case True
    then have "next_up s a = Some (p, s\<lparr>rb_down := False\<rparr>)" using m by (subst next_up.simps) simp
    moreover have "zipped I s s (Node t (p, cp) u) K" using z True t by (simp add: zipped_up)
    ultimately show ?thesis using t f True by auto
  next
    case False
    let ?s = "s\<lparr>rb_down := False\<rparr>"
    have "next_up s a = next_up ?s p" using m False by (subst next_up.simps) simp
    moreover have "zipped I ?s ?s (Node u (p, cp) t) K" using z False t by (simp add: zipped_up zipped_down)
    note Cons(1) [OF this]
    ultimately show ?thesis using t f False by (simp add: zipped_down)
  qed
qed

text \<open>\<^verbatim>\<open>next\<close> at an item whose left subtree has been visited.\<close>

definition visiting :: "nat set \<Rightarrow> rblist \<Rightarrow> rbtree \<Rightarrow> nat \<Rightarrow> bool \<Rightarrow> rbtree \<Rightarrow> frame list \<Rightarrow> bool" where
  "visiting I s l x c r K \<longleftrightarrow> zipped I s s (Node l (x, c) r) K \<and> (rb_down s \<longrightarrow> l = Leaf)"

lemma goes_down_visiting: "visiting I s l x c r K \<Longrightarrow> goes_down s x = Some (r \<noteq> Leaf)"
proof -
  assume v: "visiting I s l x c r K"
  then have z: "zipped I s s (Node l (x, c) r) K" by (simp add: visiting_def)
  then have "root l = 0 \<longleftrightarrow> l = Leaf" "root r = 0 \<longleftrightarrow> r = Leaf" by (auto simp: zipped_def root_zero)
  then show ?thesis using zipped_links [OF z] v by (auto simp: goes_down_def visiting_def)
qed

lemma rb_next_visiting:
  assumes v: "visiting I s l x c r K"
  shows "\<exists>y b. rb_next s x = Some (y, s\<lparr>rb_down := b\<rparr>) \<and>
    (items r @ behind K = [] \<longrightarrow> y = 0) \<and>
    (items r @ behind K \<noteq> [] \<longrightarrow> (\<exists>l' c' r' L. visiting I (s\<lparr>rb_down := b\<rparr>) l' y c' r' L \<and>
       items r @ behind K = y # items r' @ behind L))"
proof -
  have z: "zipped I s s (Node l (x, c) r) K" using v by (simp add: visiting_def)
  note m = zipped_links [OF z]
  show ?thesis
  proof (cases "r = Leaf")
    case False
    let ?s = "s\<lparr>rb_down := True\<rparr>"
    have "zipped I ?s ?s r ((False, x, c, l) # K)" using z by (simp add: zipped_up zipped_down)
    from leftmost_zipped [OF this False] obtain y c' r' L where y: "leftmost ?s (root r) = Some y"
      "zipped I ?s ?s (Node Leaf (y, c') r') (L @ (False, x, c, l) # K)"
      "items r @ behind K = y # items r' @ behind (L @ (False, x, c, l) # K)" by auto
    have "rb_next s x = Some (y, ?s)"
      using goes_down_visiting [OF v] False m y(1) by (simp add: rb_next_def down_right_def)
    moreover have "visiting I ?s Leaf y c' r' (L @ (False, x, c, l) # K)" using y(2) by (simp add: visiting_def)
    ultimately show ?thesis using y(3) by (intro exI [of _ y] exI [of _ True]) auto
  next
    case True
    have n: "rb_next s x = next_up s x" using goes_down_visiting [OF v] True m by (simp add: rb_next_def)
    show ?thesis
    proof (cases "behind K = []")
      case none: True
      then show ?thesis using next_up_zipped [OF z] n True by auto
    next
      case False
      then obtain l' y c' r' L where "next_up s x = Some (y, s\<lparr>rb_down := False\<rparr>)" "zipped I s s (Node l' (y, c') r') L"
        "behind K = y # items r' @ behind L" using next_up_zipped [OF z] by auto
      moreover have "visiting I (s\<lparr>rb_down := False\<rparr>) l' y c' r' L" using calculation(2) by (simp add: visiting_def zipped_down)
      ultimately show ?thesis using n True by (intro exI [of _ y] exI [of _ False]) auto
    qed
  qed
qed

lemma foreach_visiting:
  assumes "visiting I s l x c r K"
  shows "\<exists>b. foreach_from s x acc = Some (rev acc @ x # items r @ behind K, s\<lparr>rb_down := b\<rparr>)"
  using assms
proof (induction "length (items r @ behind K)" arbitrary: s l x c r K acc rule: less_induct)
  case less
  have x: "x \<noteq> 0" using less(2) zipped_links(5) by (auto simp: visiting_def)
  obtain y b where y: "rb_next s x = Some (y, s\<lparr>rb_down := b\<rparr>)"
    and stop: "items r @ behind K = [] \<longrightarrow> y = 0"
    and more: "items r @ behind K \<noteq> [] \<longrightarrow> (\<exists>l' c' r' L. visiting I (s\<lparr>rb_down := b\<rparr>) l' y c' r' L \<and>
       items r @ behind K = y # items r' @ behind L)"
    using rb_next_visiting [OF less(2)] by blast
  have step: "foreach_from s x acc = foreach_from (s\<lparr>rb_down := b\<rparr>) y (x # acc)"
    using x y by (subst foreach_from.simps) simp
  show ?case
  proof (cases "items r @ behind K = []")
    case True
    then have "foreach_from (s\<lparr>rb_down := b\<rparr>) y (x # acc) = Some (rev (x # acc), s\<lparr>rb_down := b\<rparr>)"
      using stop by (subst foreach_from.simps) simp
    then show ?thesis using step True by auto
  next
    case False
    then obtain l' c' r' L where v: "visiting I (s\<lparr>rb_down := b\<rparr>) l' y c' r' L" and it: "items r @ behind K = y # items r' @ behind L"
      using more by blast
    then have "length (items r' @ behind L) < length (items r @ behind K)" by simp
    from less(1) [OF this v, of "x # acc"] show ?thesis using step it by auto
  qed
qed

lemma holds_tree_zipped: "holds_tree s t \<Longrightarrow> zipped (set (items t)) s s t []"
  by (simp add: holds_tree_def zipped_def)

lemma rb_first_tree:
  assumes "holds_tree s t"
  shows "if t = Leaf then rb_first s = Some (0, s\<lparr>rb_down := True\<rparr>)
    else \<exists>y c r K. rb_first s = Some (y, s\<lparr>rb_down := True\<rparr>) \<and> items t = y # items r @ behind K \<and>
      visiting (set (items t)) (s\<lparr>rb_down := True\<rparr>) Leaf y c r K \<and> (\<forall>f \<in> set K. fst f)"
proof (cases "t = Leaf")
  case True
  then show ?thesis using assms by (simp add: rb_first_def holds_tree_def)
next
  case False
  have z: "zipped (set (items t)) (s\<lparr>rb_down := True\<rparr>) (s\<lparr>rb_down := True\<rparr>) t []"
    using holds_tree_zipped [OF assms] by (simp add: zipped_down)
  have hd: "rb_head s = root t" "root t \<noteq> 0" using assms False root_zero by (auto simp: holds_tree_def simp del: neq0_conv)
  from leftmost_zipped [OF z False] show ?thesis using False hd by (fastforce simp: rb_first_def visiting_def)
qed

lemma foreach_tree:
  assumes "holds_tree s t"
  shows "\<exists>b. foreach_rblist s = Some (items t, s\<lparr>rb_down := b\<rparr>)"
proof (cases "t = Leaf")
  case True
  have "foreach_from (s\<lparr>rb_down := True\<rparr>) 0 [] = Some ([], s\<lparr>rb_down := True\<rparr>)" by (subst foreach_from.simps) simp
  then show ?thesis using rb_first_tree [OF assms] True by (auto simp: foreach_rblist_def)
next
  case False
  then obtain y c r K where y: "rb_first s = Some (y, s\<lparr>rb_down := True\<rparr>)" "items t = y # items r @ behind K"
    "visiting (set (items t)) (s\<lparr>rb_down := True\<rparr>) Leaf y c r K" using rb_first_tree [OF assms] by auto
  from foreach_visiting [OF y(3), of "[]"] show ?thesis using y(1,2) by (auto simp: foreach_rblist_def)
qed

section \<open>Destruction\<close>

text \<open>
  The state of \<^verbatim>\<open>destroy\<close> at an item: its left subtree is gone, the right one is \<open>r\<close>; on the way up,
  an item left to the right has lost its left subtree and is cut off from its own parent, one left to
  the left is complete but for the link to where the walk is.  \<open>h\<close> is that link.
\<close>

fun cut_ctx :: "(nat \<Rightarrow> rblink option) \<Rightarrow> nat \<Rightarrow> frame list \<Rightarrow> bool" where
  "cut_ctx m h [] \<longleftrightarrow> True"
| "cut_ctx m h ((d, a, c, u) # K) \<longleftrightarrow>
     a \<noteq> 0 \<and> m a = Some \<lparr>lk_parent = fpar K, lk_left = (if d then h else 0), lk_right = (if d then root u else h), lk_red = c\<rparr> \<and>
     (d \<longrightarrow> tree_at m a u) \<and> cut_ctx m (if d then a else 0) K"

fun cut_items :: "frame list \<Rightarrow> nat list" where
  "cut_items [] = []"
| "cut_items ((d, a, c, u) # K) = a # (if d then items u else []) @ cut_items K"

fun cut_steps :: "frame list \<Rightarrow> nat" where
  "cut_steps [] = 0"
| "cut_steps ((d, a, c, u) # K) = Suc (if d then 2 * length (items u) else 0) + cut_steps K"

definition cutting :: "nat set \<Rightarrow> rblist \<Rightarrow> rblist \<Rightarrow> nat \<Rightarrow> nat \<Rightarrow> bool \<Rightarrow> rbtree \<Rightarrow> frame list \<Rightarrow> bool" where
  "cutting I s0 s h x c r K \<longleftrightarrow>
     x \<noteq> 0 \<and> rb_mem s x = Some \<lparr>lk_parent = fpar K, lk_left = 0, lk_right = root r, lk_red = c\<rparr> \<and>
     tree_at (rb_mem s) x r \<and> cut_ctx (rb_mem s) h K \<and> (h = x \<or> h = 0 \<and> r = Leaf) \<and>
     distinct (x # items r @ cut_items K) \<and> set (x # items r @ cut_items K) \<subseteq> I \<and>
     rb_head s = top_item K x \<and> rb_num_items s = of_nat (length (x # items r @ cut_items K)) \<and>
     (\<forall>a \<in> I - set (x # items r @ cut_items K). rb_mem s a = None) \<and> (\<forall>a. a \<notin> I \<longrightarrow> rb_mem s a = rb_mem s0 a)"

lemma cut_upd [simp]: "a \<notin> set (cut_items K) \<Longrightarrow> cut_ctx (m(a := v)) h K = cut_ctx m h K"
  by (induction m h K rule: cut_ctx.induct) auto

lemma top_item_cut: "top_item K x \<in> insert x (set (cut_items K))"
  by (induction K x rule: top_item.induct) auto

lemma cutting_goes_down: "cutting I s0 s h x c r K \<Longrightarrow> goes_down s x = Some (r \<noteq> Leaf)"
  using root_zero [of "rb_mem s" x r] by (auto simp: cutting_def goes_down_def link_ops)

lemma cut_last_step:
  assumes "cutting I s0 s h x c Leaf ((d, p, cp, u) # K)"
  shows "\<exists>s'. rb_any s x = Some (p, s\<lparr>rb_down := False\<rparr>) \<and> prune (s\<lparr>rb_down := False\<rparr>) x = Some s' \<and>
    cutting I s0 s' (if d then p else 0) p cp (if d then u else Leaf) K"
proof -
  have g: "goes_down s x = Some False" using cutting_goes_down [OF assms] by simp
  have f: "x \<noteq> 0" "p \<noteq> 0" "x \<noteq> p" "h = x \<or> h = 0" "rb_head s = top_item K p"
    "x \<notin> set (cut_items K)" "p \<notin> set (cut_items K)" "d \<longrightarrow> x \<notin> set (items u)"
    "rb_mem s x = Some \<lparr>lk_parent = p, lk_left = 0, lk_right = 0, lk_red = c\<rparr>"
    "rb_mem s p = Some \<lparr>lk_parent = fpar K, lk_left = (if d then h else 0), lk_right = (if d then root u else h), lk_red = cp\<rparr>"
    using assms by (auto simp: cutting_def)
  have x: "rb_head s \<noteq> x" "d \<longrightarrow> root u \<noteq> x" using f top_item_cut [of K p] root_fresh [of x u] by auto
  have "rb_any s x = Some (p, s\<lparr>rb_down := False\<rparr>)" using g f by (simp add: rb_any_def link_ops)
  moreover have "\<exists>s'. prune (s\<lparr>rb_down := False\<rparr>) x = Some s' \<and> cutting I s0 s' (if d then p else 0) p cp (if d then u else Leaf) K"
    using f(4)
  proof
    assume "h = x"
    then show ?thesis using assms f x
      by (cases d) (auto simp: prune_def link_ops free_item_def cutting_def)
  next
    assume "h = 0"
    then show ?thesis using assms f x
      by (cases d) (auto simp: prune_def link_ops free_item_def cutting_def)
  qed
  ultimately show ?thesis by blast
qed

text \<open>The way down to the left, as a function of the tree.\<close>

fun go_left :: "rbtree \<Rightarrow> frame list \<Rightarrow> nat \<times> bool \<times> rbtree \<times> frame list" where
  "go_left Leaf K = (0, False, Leaf, K)"
| "go_left (Node l (a, c) r) K = (if l = Leaf then (a, c, r, K) else go_left l ((True, a, c, r) # K))"

lemma leftmost_go_left:
  assumes "tree_at (rb_mem s) p t" and "t \<noteq> Leaf"
  shows "leftmost s (root t) = Some (fst (go_left t K))"
  using assms
proof (induction t K arbitrary: p rule: go_left.induct)
  case (2 l a c r K)
  then have m: "left s a = Some (root l)" "tree_at (rb_mem s) a l" by (auto simp: link_ops)
  show ?case
  proof (cases "l = Leaf")
    case True
    then show ?thesis using m(1) by (subst leftmost.simps) simp
  next
    case False
    then have "root l \<noteq> 0" using m(2) root_zero by metis
    then show ?thesis using 2(1) [OF False m(2) False] m(1) False by (subst leftmost.simps) simp
  qed
qed simp

lemma go_left_items:
  assumes "t \<noteq> Leaf" and "go_left t K = (y, c, r, L)"
  shows "set (y # items r @ cut_items L) = set (items t @ cut_items K)"
    "length (y # items r @ cut_items L) = length (items t @ cut_items K)"
    "top_item L y = top_item K (root t)"
    "2 * length (items r) + cut_steps L + 2 \<le> 2 * length (items t) + cut_steps K"
  using assms
proof (induction t K rule: go_left.induct)
  case (2 l a c' r' K)
  { case 1 then show ?case using 2 by (cases "l = Leaf") auto }
  { case 2 then show ?case using "2.IH" by (cases "l = Leaf") auto }
  { case 3 then show ?case using "2.IH" by (cases "l = Leaf") auto }
  { case 4 then show ?case using "2.IH" by (cases "l = Leaf") auto }
qed simp_all

lemma go_left_cut:
  assumes "t \<noteq> Leaf" and "go_left t K = (y, c, r, L)" and "tree_at m (fpar K) t" and "cut_ctx m (root t) K"
  shows "y \<noteq> 0 \<and> m y = Some \<lparr>lk_parent = fpar L, lk_left = 0, lk_right = root r, lk_red = c\<rparr> \<and> tree_at m y r \<and> cut_ctx m y L"
  using assms
proof (induction t K rule: go_left.induct)
  case (2 l a c' r' K)
  then show ?case by (cases "l = Leaf") auto
qed simp

lemma prune_attached:
  assumes "cutting I s0 s x x c r K" and "r \<noteq> Leaf"
  shows "\<exists>s'. prune s x = Some s' \<and> tree_at (rb_mem s') x r \<and> cut_ctx (rb_mem s') (root r) ((False, x, c, Leaf) # K) \<and>
    rb_head s' = rb_head s \<and> rb_num_items s' = rb_num_items s \<and>
    (\<forall>a. a \<notin> set (cut_items K) \<longrightarrow> rb_mem s' a = rb_mem s a)"
proof -
  have r: "root r \<noteq> 0" using assms root_zero by (auto simp: cutting_def simp del: neq0_conv)
  show ?thesis
  proof (cases K)
    case Nil
    then show ?thesis using assms r by (auto simp: prune_def link_ops cutting_def)
  next
    case (Cons f K')
    obtain d p cp u where f: "f = (d, p, cp, u)" by (cases f)
    have "d \<longrightarrow> root u \<noteq> x" using assms(1) Cons f root_fresh [of x u] by (auto simp: cutting_def)
    then show ?thesis using assms Cons f r by (cases d) (auto simp: prune_def link_ops cutting_def)
  qed
qed

lemma cut_down_step:
  assumes cut: "cutting I s0 s h x c r K" and r: "r \<noteq> Leaf" and g: "go_left r ((False, x, c, Leaf) # K) = (y, cy, r', L)"
  shows "\<exists>s'. rb_any s x = Some (y, s\<lparr>rb_down := True\<rparr>) \<and> prune (s\<lparr>rb_down := True\<rparr>) x = Some s' \<and> cutting I s0 s' y y cy r' L"
proof -
  let ?s = "s\<lparr>rb_down := True\<rparr>" and ?K = "(False, x, c, Leaf) # K"
  have h: "h = x" using cut r by (simp add: cutting_def)
  have cut': "cutting I s0 ?s x x c r K" using cut h by (simp add: cutting_def)
  obtain s' where p: "prune ?s x = Some s'" and m: "tree_at (rb_mem s') x r" "cut_ctx (rb_mem s') (root r) ?K"
    and keep: "rb_head s' = rb_head s" "rb_num_items s' = rb_num_items s" "\<forall>a. a \<notin> set (cut_items K) \<longrightarrow> rb_mem s' a = rb_mem s a"
    using prune_attached [OF cut' r] by auto
  have "leftmost ?s (root r) = Some y" using leftmost_go_left [of ?s x r ?K] cut' r g by (simp add: cutting_def)
  moreover have "x \<noteq> 0" "right s x = Some (root r)" using cut by (auto simp: cutting_def link_ops)
  ultimately have any: "rb_any s x = Some (y, ?s)" using cutting_goes_down [OF cut] r by (simp add: rb_any_def down_right_def)
  note it = go_left_items [OF r g]
  have all: "set (y # items r' @ cut_items L) = set (x # items r @ cut_items K)" using it(1) by auto
  have len: "length (y # items r' @ cut_items L) = length (x # items r @ cut_items K)" using it(2) by simp
  have "distinct (x # items r @ cut_items K)" using cut by (simp add: cutting_def)
  then have "distinct (y # items r' @ cut_items L)"
    using all len by (metis card_distinct distinct_card)
  moreover note len
  moreover have "\<forall>a \<in> I - set (x # items r @ cut_items K). rb_mem s' a = None" using cut keep(3) by (auto simp: cutting_def)
  moreover have "\<forall>a. a \<notin> I \<longrightarrow> rb_mem s' a = rb_mem s0 a" using cut keep(3) by (auto simp: cutting_def)
  ultimately have "cutting I s0 s' y y cy r' L"
    using go_left_cut [OF r g _ m(2)] m(1) cut keep(1,2) it(3) all unfolding cutting_def by auto
  then show ?thesis using any p by blast
qed

lemma destroy_loop_cuts:
  assumes "cutting I s0 s h x c r K"
  shows "\<exists>s' h' c'. destroy_loop s x = Some (top_item K x, s') \<and> cutting I s0 s' h' (top_item K x) c' Leaf []"
  using assms
proof (induction "2 * length (items r) + cut_steps K" arbitrary: s h x c r K rule: less_induct)
  case less
  have x: "x \<noteq> 0" using less(2) by (simp add: cutting_def)
  show ?case
  proof (cases "r = Leaf")
    case False
    obtain y cy r' L where g: "go_left r ((False, x, c, Leaf) # K) = (y, cy, r', L)" by (cases "go_left r ((False, x, c, Leaf) # K)")
    obtain s' where s': "rb_any s x = Some (y, s\<lparr>rb_down := True\<rparr>)" "prune (s\<lparr>rb_down := True\<rparr>) x = Some s'" "cutting I s0 s' y y cy r' L"
      using cut_down_step [OF less(2) False g] by blast
    then have "y \<noteq> 0" by (simp add: cutting_def)
    then have "destroy_loop s x = destroy_loop s' y" using s' by (subst destroy_loop.simps) simp
    moreover have "2 * length (items r') + cut_steps L < 2 * length (items r) + cut_steps K" "top_item L y = top_item K x"
      using go_left_items(3,4) [OF False g] by simp_all
    ultimately show ?thesis using less(1) [OF _ s'(3)] by simp
  next
    case True
    show ?thesis
    proof (cases K)
      case Nil
      have "goes_down s x = Some False" using cutting_goes_down [OF less(2)] True by simp
      then have "rb_any s x = Some (0, s)" using less(2) Nil x by (simp add: rb_any_def cutting_def link_ops)
      then have "destroy_loop s x = Some (x, s)" by (subst destroy_loop.simps) simp
      then show ?thesis using less(2) True Nil by auto
    next
      case (Cons f K')
      obtain d p cp u where f: "f = (d, p, cp, u)" by (cases f)
      obtain s' where s': "rb_any s x = Some (p, s\<lparr>rb_down := False\<rparr>)" "prune (s\<lparr>rb_down := False\<rparr>) x = Some s'"
        "cutting I s0 s' (if d then p else 0) p cp (if d then u else Leaf) K'"
        using cut_last_step less(2) True Cons f by blast
      then have "p \<noteq> 0" by (simp add: cutting_def)
      then have "destroy_loop s x = destroy_loop s' p" using s' by (subst destroy_loop.simps) simp
      then show ?thesis using less(1) [OF _ s'(3)] Cons f True by (cases d) auto
    qed
  qed
qed

lemma cut_ctx_lefts: "\<forall>f \<in> set K. fst f \<Longrightarrow> ctx_at m x K \<Longrightarrow> cut_ctx m x K"
  by (induction m x K rule: ctx_at.induct) auto

lemma cut_items_lefts: "\<forall>f \<in> set K. fst f \<Longrightarrow> cut_items K = ctx_items K"
  by (induction K rule: ctx_items.induct) auto

lemma rb_destroy_tree:
  assumes "holds_tree s t"
  shows "\<exists>s'. rb_destroy s = Some s' \<and> rb_head s' = 0 \<and> rb_num_items s' = 0 \<and>
    (\<forall>a. rb_mem s' a = (if a \<in> set (items t) then None else rb_mem s a))"
proof (cases "t = Leaf")
  case True
  have "destroy_loop (s\<lparr>rb_down := True\<rparr>) 0 = Some (0, s\<lparr>rb_down := True\<rparr>)" by (subst destroy_loop.simps) (simp add: rb_any_def)
  then show ?thesis using rb_first_tree [OF assms] assms True by (simp add: rb_destroy_def holds_tree_def)
next
  case False
  let ?s = "s\<lparr>rb_down := True\<rparr>" and ?I = "set (items t)"
  obtain y c r K where y: "rb_first s = Some (y, ?s)" "visiting ?I ?s Leaf y c r K" "\<forall>f \<in> set K. fst f"
    using rb_first_tree [OF assms] False by auto
  have z: "zipped ?I ?s ?s (Node Leaf (y, c) r) K" using y(2) by (simp add: visiting_def)
  have n: "rb_num_items s = of_nat (length (y # items r @ cut_items K))"
  proof -
    have d: "distinct (y # items r @ ctx_items K)" "?I = set (y # items r @ ctx_items K)" using z by (auto simp: zipped_def)
    then have "length (items t) = length (y # items r @ ctx_items K)"
      using assms distinct_card [of "items t"] distinct_card [OF d(1)] by (simp add: holds_tree_def)
    then show ?thesis using assms cut_items_lefts [OF y(3)] by (simp add: holds_tree_def)
  qed
  have "cutting ?I s ?s y y c r K"
    using z n cut_ctx_lefts [OF y(3)] cut_items_lefts [OF y(3)] by (auto simp: cutting_def zipped_def)
  from destroy_loop_cuts [OF this] obtain s' h' c' where l: "destroy_loop ?s y = Some (top_item K y, s')"
    and e: "cutting ?I s s' h' (top_item K y) c' Leaf []" by blast
  then show ?thesis using y(1) by (auto simp: rb_destroy_def free_item_def cutting_def)
qed

section \<open>Properties\<close>

text \<open>
  C34 (foreach_in_order).  A loop with \<^verbatim>\<open>foreach_rblist\<close> ends, and visits every item of the list once, in order;
  it changes nothing but the flag of the direction.
\<close>

theorem foreach_in_order:
  assumes "rb_list s xs"
  shows "\<exists>b. foreach_rblist s = Some (xs, s\<lparr>rb_down := b\<rparr>)"
  using assms foreach_tree by (auto simp: rb_list_def)

text \<open>
  C35 (rb_destroy_frees).  \<^verbatim>\<open>destroy\<close> ends, frees every item of the list exactly once, reads no item it has freed,
  leaves all other memory as it was and makes the list empty.
\<close>

theorem rb_destroy_frees:
  assumes "rb_list s xs"
  shows "\<exists>s'. rb_destroy s = Some s' \<and> rb_head s' = 0 \<and> rb_num_items s' = 0 \<and>
    (\<forall>a. rb_mem s' a = (if a \<in> set xs then None else rb_mem s a))"
proof -
  obtain t where "holds_tree s t" "items t = xs" using assms by (auto simp: rb_list_def)
  then show ?thesis using rb_destroy_tree [of s t] by simp
qed

theorem foreach_in_order_witness: "\<exists>b. foreach_rblist two_items = Some ([2, 5], two_items\<lparr>rb_down := b\<rparr>)"
  by (rule foreach_in_order [OF two_items_list(1)])

theorem rb_destroy_frees_witness:
  "\<exists>s'. rb_destroy two_items = Some s' \<and> rb_num_items s' = 0 \<and> rb_mem s' 2 = None \<and> rb_mem s' 5 = None \<and> rb_mem s' 3 = rb_mem two_items 3"
  using rb_destroy_frees [OF two_items_list(1)] by auto

end
