(* ===== verification/Rblist_Shape.thy ===== *)
theory Rblist_Shape
  imports Rblist
begin

text \<open>
  The shape of the tree of \<^verbatim>\<open>lib/rblist.c\<close>.  The new item is made black and its parent
  red, whatever the other subtree of that parent is, so the rules of red-black trees are not kept:
  there are orders of insertion in which the tree grows one level deeper with every three items.
\<close>

section \<open>Repeated insertion\<close>

fun insert_all :: "compare_fun \<Rightarrow> rblist \<Rightarrow> nat list \<Rightarrow> rblist option" where
  "insert_all compare s [] = Some s"
| "insert_all compare s (x # xs) = rb_insert compare s x \<bind> (\<lambda>r. insert_all compare (snd r) xs)"

definition tree_inserts :: "compare_fun \<Rightarrow> nat list \<Rightarrow> rbtree \<Rightarrow> rbtree" where
  "tree_inserts compare xs t = fold (\<lambda>x t. snd (tree_insert compare x t)) xs t"

lemma tree_insert_bounds:
  "set (items (snd (tree_insert compare item t))) \<subseteq> insert item (set (items t))"
  "length (items (snd (tree_insert compare item t))) \<le> Suc (length (items t))"
proof -
  obtain K t' where loc: "locate compare item t [] = (K, t')" by fastforce
  have whole: "plug K t' = t" using locate_plug [OF loc] by simp
  have "set (items (snd (attach item t K t'))) \<subseteq> insert item (set (items t)) \<and>
    length (items (snd (attach item t K t'))) \<le> Suc (length (items t))"
    using whole
  proof (induction item t K t' rule: attach.induct)
    case (3 item t d a c u K)
    have "side d (Node Leaf (item, False) Leaf) a True u \<noteq> Leaf" by (cases d) simp_all
    from items_rebalance [OF this, of K] 3 show ?case
      by (cases d) (auto simp: set_plug length_plug)
  qed auto
  then show "set (items (snd (tree_insert compare item t))) \<subseteq> insert item (set (items t))"
    "length (items (snd (tree_insert compare item t))) \<le> Suc (length (items t))"
    using loc by (simp_all add: tree_insert_def)
qed

lemma insert_all_tree:
  assumes "holds_tree s t" and "\<not> is_red t" and "distinct xs" and "set xs \<inter> insert 0 (set (items t)) = {}"
    and "\<forall>x \<in> set xs. rb_mem s x \<noteq> None" and "length (items t) + length xs < 2 ^ 32"
  shows "\<exists>s'. insert_all compare s xs = Some s' \<and> holds_tree s' (tree_inserts compare xs t)"
  using assms
proof (induction xs arbitrary: s t)
  case Nil
  then show ?case by (simp add: tree_inserts_def)
next
  case (Cons x xs)
  let ?t = "snd (tree_insert compare x t)"
  obtain s' where s': "rb_insert compare s x = Some (fst (tree_insert compare x t), s')" "holds_tree s' ?t" "\<not> is_red ?t"
    "\<forall>b. b \<notin> insert x (set (items t)) \<longrightarrow> rb_mem s' b = rb_mem s b"
    using rb_insert_tree [OF Cons(2,3), of x compare] Cons(4-7) by auto
  have "\<exists>s''. insert_all compare s' xs = Some s'' \<and> holds_tree s'' (tree_inserts compare xs ?t)"
  proof (rule Cons(1) [OF s'(2,3)])
    show "distinct xs" using Cons(4) by simp
    show "set xs \<inter> insert 0 (set (items ?t)) = {}" using tree_insert_bounds(1) [of compare x t] Cons(4,5) by auto
    show "length (items ?t) + length xs < 2 ^ 32" using tree_insert_bounds(2) [of compare x t] Cons(7) by simp
    show "\<forall>y \<in> set xs. rb_mem s' y \<noteq> None"
    proof
      fix y assume y: "y \<in> set xs"
      then have "y \<notin> insert x (set (items t))" using Cons(4,5) by auto
      then show "rb_mem s' y \<noteq> None" using s'(4) Cons(6) y by auto
    qed
  qed
  then show ?case using s'(1) by (simp add: tree_inserts_def)
qed

section \<open>A degenerate tree\<close>

text \<open>Items ordered by their number; the context is a spine that only goes to the right.\<close>

definition spine :: "nat \<Rightarrow> frame list \<Rightarrow> bool" where
  "spine x K \<longleftrightarrow> (\<forall>f \<in> set K. \<not> fst f \<and> fst (snd f) < x)"

lemma spine_simps [simp]: "spine x []" "spine x ((d, a, c, u) # K) \<longleftrightarrow> \<not> d \<and> a < x \<and> spine x K"
  by (simp_all add: spine_def)

lemma spine_mono: "spine x K \<Longrightarrow> x \<le> y \<Longrightarrow> spine y K"
  by (auto simp: spine_def)

lemma locate_spine: "spine x K \<Longrightarrow> locate by_number x (plug K t) [] = locate by_number x t K"
  by (induction K t rule: plug.induct) (auto simp: by_number_def)

lemma rebalance_black [simp]: "rebalance ((d, p, False, u) # K) t = plug ((d, p, False, u) # K) t"
  by (cases K) auto

lemma paint_plug: "K \<noteq> [] \<Longrightarrow> head_black K \<Longrightarrow> paint False (plug K t) = plug K t"
  using head_black_plug [of K t] by (cases "plug K t" rule: root.cases) auto

lemma head_black_Cons [simp]: "K \<noteq> [] \<Longrightarrow> head_black (f # K) = head_black K"
  by (cases K) auto

lemma height_plug: "length K + height t \<le> height (plug K t)"
proof (induction K t rule: plug.induct)
  case (2 d a c u K t)
  then show ?case by (cases d) auto
qed simp

definition bottom :: "nat \<Rightarrow> rbtree" where
  "bottom k = Node (Node Leaf (4 + 6 * k, True) (Node Leaf (6 + 6 * k, False) Leaf)) (7 + 6 * k, True)
     (Node Leaf (9 + 6 * k, False) (Node Leaf (15 + 6 * k, False) Leaf))"

definition block_items :: "nat \<Rightarrow> nat list" where
  "block_items k = [5 + 6 * k, 13 + 6 * k, 10 + 6 * k, 21 + 6 * k, 12 + 6 * k, 8 + 6 * k]"

lemma block_deepens:
  assumes K: "K = (False, p, False, u) # L" and sp: "spine (4 + 6 * k) K" and hb: "head_black K"
  shows "tree_inserts by_number (block_items k) (plug K (bottom k)) =
    plug ((False, 9 + 6 * k, False, Node Leaf (7 + 6 * k, True) (Node Leaf (8 + 6 * k, False) Leaf)) #
      (False, 6 + 6 * k, True, Node Leaf (4 + 6 * k, False) (Node Leaf (5 + 6 * k, False) Leaf)) # K) (bottom (Suc k))"
proof -
  have step: "snd (tree_insert by_number x (plug K t)) = snd (attach x (plug K t) (fst (locate by_number x t K)) (snd (locate by_number x t K)))"
    if "4 + 6 * k \<le> x" for x t
    using locate_spine [OF spine_mono [OF sp that], of t] by (simp add: tree_insert_def split: prod.split)
  have ne: "K \<noteq> []" and rb: "rebalance K t = plug K t" for t using K by simp_all
  note p = paint_plug [OF ne hb]
  show ?thesis
    unfolding tree_inserts_def block_items_def bottom_def
    by (simp add: step by_number_def rb p)
qed

fun spine_items :: "nat \<Rightarrow> nat list" where
  "spine_items 0 = [9, 7, 3, 4, 15, 6, 2, 1]"
| "spine_items (Suc k) = spine_items k @ block_items k"

lemma spine_tree:
  "\<exists>K. tree_inserts by_number (spine_items k) Leaf = plug K (bottom k) \<and> length K = 2 * k + 1 \<and>
     (\<exists>p u L. K = (False, p, False, u) # L) \<and> spine (4 + 6 * k) K \<and> head_black K \<and> length (ctx_items K) = 6 * k + 3"
proof (induction k)
  case 0
  have "tree_inserts by_number (spine_items 0) Leaf =
      plug [(False, 3, False, Node (Node Leaf (1, False) Leaf) (2, True) Leaf)] (bottom 0)"
    by (simp add: tree_inserts_def tree_insert_def by_number_def bottom_def)
  then show ?case by (intro exI [of _ "[(False, 3, False, Node (Node Leaf (1, False) Leaf) (2, True) Leaf)]"]) simp
next
  case (Suc k)
  then obtain K p u L where K: "tree_inserts by_number (spine_items k) Leaf = plug K (bottom k)" "length K = 2 * k + 1"
    "K = (False, p, False, u) # L" "spine (4 + 6 * k) K" "head_black K" "length (ctx_items K) = 6 * k + 3" by blast
  let ?K = "(False, 9 + 6 * k, False, Node Leaf (7 + 6 * k, True) (Node Leaf (8 + 6 * k, False) Leaf)) #
      (False, 6 + 6 * k, True, Node Leaf (4 + 6 * k, False) (Node Leaf (5 + 6 * k, False) Leaf)) # K"
  have "tree_inserts by_number (spine_items (Suc k)) Leaf = plug ?K (bottom (Suc k))"
    using block_deepens [OF K(3-5)] K(1) by (simp add: tree_inserts_def)
  moreover have "spine (4 + 6 * Suc k) ?K" using spine_mono [OF K(4), of "4 + 6 * Suc k"] by simp
  moreover have "head_black ?K" using K(3,5) by simp
  ultimately show ?case using K(2,6) by (intro exI [of _ ?K]) simp
qed

lemma length_spine_items: "length (spine_items k) = 6 * k + 8"
  by (induction k) (simp_all add: block_items_def)

lemma set_spine_items: "x \<in> set (spine_items k) \<Longrightarrow> x \<in> {1, 2, 3, 4, 6, 7, 9, 15} \<or> (\<exists>j < k. x \<in> set (block_items j))"
  by (induction k) (auto simp: less_Suc_eq)

lemma block_items_fresh: "x \<in> set (block_items k) \<Longrightarrow> x \<notin> set (spine_items k)"
proof
  assume x: "x \<in> set (block_items k)" and "x \<in> set (spine_items k)"
  then consider "x \<in> {1, 2, 3, 4, 6, 7, 9, 15}" | j where "j < k" "x \<in> set (block_items j)" using set_spine_items by blast
  then show False
  proof cases
    case 1
    then show ?thesis using x by (auto simp: block_items_def) presburger+
  next
    case (2 j)
    then show ?thesis using x by (auto simp: block_items_def) presburger+
  qed
qed

lemma spine_items_ok: "distinct (spine_items k)" "0 \<notin> set (spine_items k)"
proof -
  show "distinct (spine_items k)"
  proof (induction k)
    case (Suc k)
    then show ?case using block_items_fresh [of _ k] by (auto simp: block_items_def)
  qed simp
  show "0 \<notin> set (spine_items k)" by (induction k) (auto simp: block_items_def)
qed

section \<open>Property\<close>

text \<open>
  C36 (rblist_degenerates).  The tree is not kept balanced: for every \<open>k\<close> there are \<open>6 * k + 8\<close> items which, inserted one
  after the other into an empty list, all succeed and make a tree with at least \<open>2 * k + 4\<close> levels, so that the
  depth grows linearly with the number of items and not with its logarithm.
\<close>

theorem rblist_degenerates:
  assumes "holds_tree s Leaf" and "\<forall>x \<in> set (spine_items k). rb_mem s x \<noteq> None" and "6 * k + 8 < 2 ^ 32"
  shows "\<exists>s' t. insert_all by_number s (spine_items k) = Some s' \<and> holds_tree s' t \<and>
    length (items t) = 6 * k + 8 \<and> 2 * k + 4 \<le> height t"
proof -
  obtain K where K: "tree_inserts by_number (spine_items k) Leaf = plug K (bottom k)" "length K = 2 * k + 1"
    "length (ctx_items K) = 6 * k + 3" using spine_tree [of k] by blast
  have "\<exists>s'. insert_all by_number s (spine_items k) = Some s' \<and> holds_tree s' (plug K (bottom k))"
    using insert_all_tree [OF assms(1), of "spine_items k" by_number] spine_items_ok [of k] assms(2,3) K(1)
    by (simp add: length_spine_items)
  moreover have "length (items (plug K (bottom k))) = 6 * k + 8" using K(3) by (simp add: length_plug bottom_def)
  moreover have "2 * k + 4 \<le> height (plug K (bottom k))" using height_plug [of K "bottom k"] K(2) by (simp add: bottom_def)
  ultimately show ?thesis by blast
qed

definition free_items :: rblist where
  "free_items = \<lparr>rb_head = 0, rb_loffset = 0, rb_num_items = 0, rb_down = False,
     rb_mem = (\<lambda>a. if a = 0 then None else Some \<lparr>lk_parent = 0, lk_left = 0, lk_right = 0, lk_red = False\<rparr>)\<rparr>"

theorem rblist_degenerates_witness:
  "\<exists>s' t. insert_all by_number free_items (spine_items 1000) = Some s' \<and> holds_tree s' t \<and>
    length (items t) = 6008 \<and> 2004 \<le> height t"
proof -
  have "holds_tree free_items Leaf" by (simp add: holds_tree_def free_items_def)
  moreover have "\<forall>x \<in> set (spine_items 1000). rb_mem free_items x \<noteq> None"
    using spine_items_ok(2) [of 1000] by (auto simp: free_items_def simp del: neq0_conv intro: ccontr)
  ultimately show ?thesis using rblist_degenerates [of free_items 1000] by simp
qed

end
