(* ===== verification/Restore_Tree.thy ===== *)
theory Restore_Tree
  imports Rblist_Walk
begin

text \<open>
  The tree of files from which a restore is chosen, \<^verbatim>\<open>lib/tree.c\<close>: nodes are cut out of large
  buffers, and the children of a node are kept in an \<^verbatim>\<open>rblist\<close> ordered by their names.  The theory
  gives the comparison of nodes to the interface of the list, so that what is shown of the
  list's pointers carries over to the tree of files.
\<close>

section \<open>Comparison of names\<close>

text \<open>
  Names are the bytes before the terminating zero.  Whether \<^verbatim>\<open>char\<close> is signed depends on the
  machine, \<open>cs\<close>; of the result of \<^verbatim>\<open>strcmp\<close> only the sign is defined.
\<close>

fun strcmp :: "u8 list \<Rightarrow> u8 list \<Rightarrow> int" where
  "strcmp [] [] = 0"
| "strcmp [] (b # bs) = -1"
| "strcmp (a # as) [] = 1"
| "strcmp (a # as) (b # bs) = (if a = b then strcmp as bs else if a < b then -1 else 1)"

definition first_char :: "bool \<Rightarrow> u8 list \<Rightarrow> int" where
  "first_char cs s = (let c = (case s of [] \<Rightarrow> 0 | b # _ \<Rightarrow> b) in if cs then sint c else uint c)"

definition name_compare :: "bool \<Rightarrow> u8 list \<Rightarrow> u8 list \<Rightarrow> int" where
  "name_compare cs s t =
     (if first_char cs t < first_char cs s then 1
      else if first_char cs s < first_char cs t then -1
      else strcmp s t)"

definition node_compare :: "bool \<Rightarrow> (nat \<Rightarrow> u8 list) \<Rightarrow> nat \<Rightarrow> nat \<Rightarrow> int" where
  "node_compare cs fname item1 item2 = name_compare cs (fname item1) (fname item2)"

lemma strcmp_sign: "strcmp t s < 0 \<longleftrightarrow> 0 < strcmp s t"
  by (induction s t rule: strcmp.induct) auto

lemma strcmp_trans: "strcmp s t \<le> 0 \<Longrightarrow> strcmp t u \<le> 0 \<Longrightarrow> strcmp s u \<le> 0"
proof (induction s t arbitrary: u rule: strcmp.induct)
  case (1)
  then show ?case by (cases u) auto
next
  case (2 b bs)
  then show ?case by (cases u) auto
next
  case (3 a as)
  then show ?case by simp
next
  case (4 a as b bs)
  then show ?case by (cases u) (auto split: if_splits)
qed

lemma strcmp_eq: "strcmp s t = 0 \<longleftrightarrow> s = t"
  by (induction s t rule: strcmp.induct) auto

lemma name_compare_eq: "name_compare cs s t = 0 \<longleftrightarrow> s = t"
  by (auto simp: name_compare_def strcmp_eq)

interpretation node_order: item_order "node_compare cs fname" for cs fname
proof
  show "node_compare cs fname b a < 0 \<longleftrightarrow> 0 < node_compare cs fname a b" for a b
    by (auto simp: node_compare_def name_compare_def strcmp_sign)
  show "node_compare cs fname a c \<le> 0" if "node_compare cs fname a b \<le> 0" "node_compare cs fname b c \<le> 0" for a b c
    using that strcmp_trans [of "fname a" "fname b" "fname c"] by (auto simp: node_compare_def name_compare_def split: if_splits)
qed

section \<open>Nodes and the root\<close>

text \<open>
  A node without the links to its siblings, which are in the memory of the lists; of its
  \<^verbatim>\<open>child\<close> list the head, the count and the flag of the direction.  \<open>tn_delta_list\<close> has the
  job and the file index of the parts, newest first.
\<close>

record tree_node =
  tn_child_head :: nat
  tn_child_num :: u32
  tn_child_down :: bool
  tn_fname :: "u8 list"
  tn_FileIndex :: i32
  tn_JobId :: u32
  tn_delta_seq :: i16
  tn_fname_len :: u16
  tn_size :: u64
  tn_type :: int
  tn_extract :: bool
  tn_extract_dir :: bool
  tn_hard_link :: bool
  tn_soft_link :: bool
  tn_inserted :: bool
  tn_loaded :: bool
  tn_can_access :: bool
  tn_extract_sub :: bool
  tn_parent :: nat
  tn_next :: nat
  tn_delta_list :: "(u32 \<times> i32) list"

definition TN_ROOT :: int where "TN_ROOT = 1"
definition TN_NEWDIR :: int where "TN_NEWDIR = 2"
definition TN_DIR :: int where "TN_DIR = 3"
definition TN_DIR_NLS :: int where "TN_DIR_NLS = 4"
definition TN_FILE :: int where "TN_FILE = 5"

text \<open>A buffer from which nodes and names are cut: its first byte, the next free one, and how many are left.\<close>

record s_mem =
  sm_first :: nat
  sm_mem :: nat
  sm_rem :: int

text \<open>The root: it is also a node, the one at address \<open>tr_self\<close>.\<close>

record tree_root =
  tr_self :: nat
  tr_nodes :: "nat \<Rightarrow> tree_node option"
  tr_links :: "nat \<Rightarrow> rblink option"
  tr_first :: nat
  tr_last :: nat
  tr_mem :: "s_mem list"
  tr_total_size :: u32
  tr_blocks :: u32
  tr_cached_path_len :: int
  tr_cached_path :: "u8 list"
  tr_cached_parent :: nat

section \<open>Memory\<close>

text \<open>
  The sizes of the two structures and the alignment on a machine with 64 bit pointers;
  \<open>malloc\<close> gives the address of a new buffer, from the buffers in use and the size.
\<close>

type_synonym malloc_fun = "s_mem list \<Rightarrow> int \<Rightarrow> nat"

definition MAX_BUF_SIZE :: int where "MAX_BUF_SIZE = 2400 * 4096"
definition sizeof_s_mem_header :: nat where "sizeof_s_mem_header = 20 + 4"
definition sizeof_TREE_NODE :: int where "sizeof_TREE_NODE = 120"

definition BALIGN :: "int \<Rightarrow> int" where
  "BALIGN x = (x + 7) div 8 * 8"

definition malloc_buf :: "malloc_fun \<Rightarrow> int \<Rightarrow> tree_root \<Rightarrow> tree_root" where
  "malloc_buf malloc sz tr =
     (let mem = malloc (tr_mem tr) sz
      in tr\<lparr>tr_total_size := tr_total_size tr + of_int sz, tr_blocks := tr_blocks tr + 1,
              tr_mem := \<lparr>sm_first = mem + sizeof_s_mem_header, sm_mem = mem + sizeof_s_mem_header,
                          sm_rem = sz - int sizeof_s_mem_header\<rparr> # tr_mem tr\<rparr>)"

definition blank_node :: tree_node where
  "blank_node = \<lparr>tn_child_head = 0, tn_child_num = 0, tn_child_down = False, tn_fname = [], tn_FileIndex = 0, tn_JobId = 0,
     tn_delta_seq = -1, tn_fname_len = 0, tn_size = 0, tn_type = 0, tn_extract = False, tn_extract_dir = False,
     tn_hard_link = False, tn_soft_link = False, tn_inserted = False, tn_loaded = False, tn_can_access = True,
     tn_extract_sub = False, tn_parent = 0, tn_next = 0, tn_delta_list = []\<rparr>"

definition new_tree :: "malloc_fun \<Rightarrow> nat \<Rightarrow> int \<Rightarrow> tree_root" where
  "new_tree malloc self count =
     (let count = (if count < 1000 then 1000 else count);
          tr = \<lparr>tr_self = self, tr_nodes = [self \<mapsto> blank_node\<lparr>tn_delta_seq := 0, tn_type := TN_ROOT\<rparr>], tr_links = Map.empty,
                  tr_first = 0, tr_last = 0, tr_mem = [], tr_total_size = 0, tr_blocks = 0, tr_cached_path_len = -1,
                  tr_cached_path = [], tr_cached_parent = 0\<rparr>;
          sz = uint (of_int (count * (BALIGN sizeof_TREE_NODE + 40)) :: u32);
          sz = (if 1000000 < count \<or> MAX_BUF_SIZE div 2 < sz then MAX_BUF_SIZE else sz)
      in malloc_buf malloc sz tr)"

text \<open>\<open>None\<close> when the root has no buffer.\<close>

definition tree_alloc :: "malloc_fun \<Rightarrow> int \<Rightarrow> tree_root \<Rightarrow> (nat \<times> tree_root) option" where
  "tree_alloc malloc sz tr =
     (case tr_mem tr of
        [] \<Rightarrow> None
      | m # _ \<Rightarrow>
          (let asize = BALIGN sz;
               tr = (if sm_rem m < asize
                       then malloc_buf malloc (if of_int (MAX_BUF_SIZE div 2) \<le> tr_total_size tr then MAX_BUF_SIZE else MAX_BUF_SIZE div 2) tr
                       else tr);
               m = hd (tr_mem tr)
           in Some (sm_mem m, tr\<lparr>tr_mem := m\<lparr>sm_rem := sm_rem m - asize, sm_mem := sm_mem m + nat asize\<rparr> # tl (tr_mem tr)\<rparr>)))"

definition new_tree_node :: "malloc_fun \<Rightarrow> tree_root \<Rightarrow> (nat \<times> tree_root) option" where
  "new_tree_node malloc tr =
     do { (node, tr) \<leftarrow> tree_alloc malloc sizeof_TREE_NODE tr;
          Some (node, tr\<lparr>tr_nodes := (tr_nodes tr)(node \<mapsto> blank_node),
            tr_links := (tr_links tr)(node \<mapsto> \<lparr>lk_parent = 0, lk_left = 0, lk_right = 0, lk_red = False\<rparr>)\<rparr>) }"

text \<open>The last node that was cut is given back: what was there is no node any more.\<close>

definition free_tree_node :: "tree_root \<Rightarrow> tree_root option" where
  "free_tree_node tr =
     (case tr_mem tr of
        [] \<Rightarrow> None
      | m # ms \<Rightarrow>
          (let asize = BALIGN sizeof_TREE_NODE; node = sm_mem m - nat asize
           in Some (tr\<lparr>tr_mem := m\<lparr>sm_rem := sm_rem m + asize, sm_mem := node\<rparr> # ms,
                         tr_nodes := (tr_nodes tr)(node := None), tr_links := (tr_links tr)(node := None)\<rparr>)))"

section \<open>Insertion\<close>

text \<open>The list of the children of a node, taken out of the tree and put back.\<close>

definition children :: "tree_root \<Rightarrow> tree_node \<Rightarrow> rblist" where
  "children tr nd = \<lparr>rb_head = tn_child_head nd, rb_loffset = 0, rb_num_items = tn_child_num nd, rb_down = tn_child_down nd,
     rb_mem = tr_links tr\<rparr>"

definition put_children :: "nat \<Rightarrow> rblist \<Rightarrow> tree_root \<Rightarrow> tree_root" where
  "put_children p s tr =
     tr\<lparr>tr_links := rb_mem s,
          tr_nodes := (tr_nodes tr)(p := map_option (\<lambda>nd. nd\<lparr>tn_child_head := rb_head s, tn_child_num := rb_num_items s,
            tn_child_down := rb_down s\<rparr>) (tr_nodes tr p))\<rparr>"

definition upd_node :: "nat \<Rightarrow> (tree_node \<Rightarrow> tree_node) \<Rightarrow> tree_root \<Rightarrow> tree_root option" where
  "upd_node n f tr = map_option (\<lambda>nd. tr\<lparr>tr_nodes := (tr_nodes tr)(n \<mapsto> f nd)\<rparr>) (tr_nodes tr n)"

definition fname_of :: "tree_root \<Rightarrow> nat \<Rightarrow> u8 list" where
  "fname_of tr n = (case tr_nodes tr n of Some nd \<Rightarrow> tn_fname nd | None \<Rightarrow> [])"

definition append_chain :: "nat \<Rightarrow> tree_root \<Rightarrow> tree_root option" where
  "append_chain node tr =
     (if tr_first tr = 0 then Some (tr\<lparr>tr_first := node, tr_last := node\<rparr>)
      else upd_node (tr_last tr) (\<lambda>nd. nd\<lparr>tn_next := node\<rparr>) tr \<bind> (\<lambda>tr. Some (tr\<lparr>tr_last := node\<rparr>)))"

text \<open>The steps after the list has taken the new node: the name is copied, the node linked into the chain.
  The copy of the name is \<open>None\<close> when it does not fit into the bytes that were cut for it, whose
  number is kept in 16 bits.\<close>

definition finish_node :: "malloc_fun \<Rightarrow> u8 list \<Rightarrow> int \<Rightarrow> nat \<Rightarrow> nat \<Rightarrow> tree_root \<Rightarrow> (nat \<times> tree_root) option" where
  "finish_node malloc fname type par node tr =
     do { tr \<leftarrow> upd_node node (\<lambda>nd. nd\<lparr>tn_fname_len := of_nat (length fname)\<rparr>) tr;
          len \<leftarrow> map_option tn_fname_len (tr_nodes tr node);
          (_, tr) \<leftarrow> tree_alloc malloc (uint len + 1) tr;
          _ \<leftarrow> (if uint len < int (length fname) then None else Some ());
          tr \<leftarrow> upd_node node (\<lambda>nd. nd\<lparr>tn_fname := fname, tn_parent := par, tn_type := type\<rparr>) tr;
          tr \<leftarrow> append_chain node tr;
          tr \<leftarrow> upd_node node (\<lambda>nd. nd\<lparr>tn_inserted := True\<rparr>) tr;
          Some (node, tr) }"

text \<open>See whether the name is there, and insert a new node for it if not.\<close>

definition search_and_insert_tree_node ::
  "malloc_fun \<Rightarrow> bool \<Rightarrow> u8 list \<Rightarrow> int \<Rightarrow> tree_root \<Rightarrow> nat \<Rightarrow> (nat \<times> tree_root) option" where
  "search_and_insert_tree_node malloc cs fname type tr par =
     do { (node, tr) \<leftarrow> new_tree_node malloc tr;
          tr \<leftarrow> upd_node node (\<lambda>nd. nd\<lparr>tn_fname := fname\<rparr>) tr;
          pd \<leftarrow> tr_nodes tr par;
          (found_node, s) \<leftarrow> rb_insert (node_compare cs (fname_of tr)) (children tr pd) node;
          let tr = put_children par s tr;
          if found_node \<noteq> node then
            do { tr \<leftarrow> free_tree_node tr;
                 tr \<leftarrow> upd_node found_node (\<lambda>nd. nd\<lparr>tn_inserted := False\<rparr>) tr;
                 Some (found_node, tr) }
          else finish_node malloc fname type par node tr }"

text \<open>Paths on a Unix host, where \<open>/\<close> is the only separator.\<close>

definition SEP :: u8 where "SEP = 47"

fun last_path_separator :: "u8 list \<Rightarrow> nat option" where
  "last_path_separator [] = None"
| "last_path_separator (c # cs) =
     (case last_path_separator cs of Some i \<Rightarrow> Some (Suc i) | None \<Rightarrow> if c = SEP then Some 0 else None)"

lemma last_path_separator_less: "last_path_separator s = Some i \<Longrightarrow> i < length s"
  by (induction s arbitrary: i) (auto split: option.splits if_splits)

function make_tree_path :: "malloc_fun \<Rightarrow> bool \<Rightarrow> u8 list \<Rightarrow> tree_root \<Rightarrow> (nat \<times> tree_root) option" where
  "make_tree_path malloc cs path tr =
     (if path = [] then Some (tr_self tr, tr)
      else case last_path_separator path of
        Some p \<Rightarrow>
          make_tree_path malloc cs (take p path) tr \<bind> (\<lambda>(par, tr).
            search_and_insert_tree_node malloc cs (drop (Suc p) path) TN_NEWDIR tr par)
      | None \<Rightarrow> search_and_insert_tree_node malloc cs path TN_DIR_NLS tr (tr_self tr))"
  by pat_completeness auto
termination
  by (relation "measure (\<lambda>(malloc, cs, path, tr). length path)") (auto dest: last_path_separator_less)

declare make_tree_path.simps [simp del]

text \<open>
  The path is cut at its last separator and restored afterwards; the parent of the last call is
  remembered for the next file of the same directory.  \<open>par\<close>, the parent, is zero when it is not given.
\<close>

definition strip_slash :: "u8 list \<Rightarrow> u8 list" where
  "strip_slash path = (if path \<noteq> [] \<and> last path = SEP then butlast path else path)"

definition split_fname :: "u8 list \<Rightarrow> u8 list \<Rightarrow> u8 list \<times> u8 list" where
  "split_fname path fname =
     (if fname = [] then
        (case last_path_separator path of Some p \<Rightarrow> (take p path, drop (Suc p) path) | None \<Rightarrow> (path, []))
      else (path, fname))"

definition cached_parent :: "malloc_fun \<Rightarrow> bool \<Rightarrow> u8 list \<Rightarrow> tree_root \<Rightarrow> (nat \<times> tree_root) option" where
  "cached_parent malloc cs path tr =
     (if int (length path) = tr_cached_path_len tr \<and> path = tr_cached_path tr then Some (tr_cached_parent tr, tr)
      else do { (par, tr) \<leftarrow> make_tree_path malloc cs path (tr\<lparr>tr_cached_path_len := int (length path), tr_cached_path := path\<rparr>);
                Some (par, tr\<lparr>tr_cached_parent := par\<rparr>) })"

definition insert_tree_node :: "malloc_fun \<Rightarrow> bool \<Rightarrow> u8 list \<Rightarrow> u8 list \<Rightarrow> tree_root \<Rightarrow> nat \<Rightarrow> (nat \<times> tree_root) option" where
  "insert_tree_node malloc cs path fname tr par =
     (let (path, fname) = split_fname (strip_slash path) fname
      in if fname \<noteq> [] then
           do { (par, tr) \<leftarrow> (if par = 0 then cached_parent malloc cs path tr else Some (par, tr));
                search_and_insert_tree_node malloc cs fname 0 tr par }
         else search_and_insert_tree_node malloc cs path 0 tr (if par = 0 then tr_self tr else par))"

definition tree_add_delta_part :: "malloc_fun \<Rightarrow> tree_root \<Rightarrow> nat \<Rightarrow> u32 \<Rightarrow> i32 \<Rightarrow> tree_root option" where
  "tree_add_delta_part malloc tr node JobId FileIndex =
     do { (_, tr) \<leftarrow> tree_alloc malloc 16 tr;
          upd_node node (\<lambda>nd. nd\<lparr>tn_delta_list := (JobId, FileIndex) # tn_delta_list nd\<rparr>) tr }"

definition tree_remove_node :: "tree_root \<Rightarrow> nat \<Rightarrow> tree_root option" where
  "tree_remove_node tr node =
     do { nd \<leftarrow> tr_nodes tr node;
          pd \<leftarrow> tr_nodes tr (tn_parent nd);
          let tr = put_children (tn_parent nd) (rb_remove (children tr pd) node) tr;
          case tr_mem tr of
            [] \<Rightarrow> None
          | m # _ \<Rightarrow> if sm_mem m - nat (BALIGN sizeof_TREE_NODE) = node then free_tree_node tr else Some tr }"

section \<open>The path of a node\<close>

definition bstrncat :: "u8 list \<Rightarrow> u8 list \<Rightarrow> nat \<Rightarrow> u8 list" where
  "bstrncat dest src maxlen =
     take (maxlen - 1) (if length dest < maxlen - 1 then dest @ take (maxlen - length dest - 1) src else dest)"

definition tree_node_has_child :: "tree_node \<Rightarrow> bool" where
  "tree_node_has_child nd \<longleftrightarrow> 0 < sint (tn_child_num nd)"

definition extend_path :: "tree_node \<Rightarrow> nat \<Rightarrow> u8 list \<Rightarrow> u8 list" where
  "extend_path nd buf_size buf =
     (let buf = (if tn_type nd = TN_DIR_NLS \<and> buf = [SEP] then [] else buf);
          buf = bstrncat buf (tn_fname nd) buf_size
      in if tn_type nd \<noteq> TN_FILE \<and> buf \<noteq> [SEP] \<or> tn_soft_link nd \<and> tree_node_has_child nd
         then bstrncat buf [SEP] buf_size else buf)"

partial_function (option) tree_getpath :: "tree_root \<Rightarrow> nat \<Rightarrow> nat \<Rightarrow> u8 list option" where
  "tree_getpath tr node buf_size =
     (if node = 0 then Some []
      else tr_nodes tr node \<bind> (\<lambda>nd.
        tree_getpath tr (tn_parent nd) buf_size \<bind> (\<lambda>buf. Some (extend_path nd buf_size buf))))"

section \<open>Lists side by side\<close>

lemma tree_at_cong: "(\<And>a. a \<in> set (items t) \<Longrightarrow> m' a = m a) \<Longrightarrow> tree_at m' p t = tree_at m p t"
  by (induction m p t rule: tree_at.induct) auto

lemma rb_list_cong:
  assumes "rb_list s xs" and "\<And>a. a \<in> set xs \<Longrightarrow> rb_mem s' a = rb_mem s a" and "rb_head s' = rb_head s" and "rb_num_items s' = rb_num_items s"
  shows "rb_list s' xs"
proof -
  obtain t where t: "holds_tree s t" "\<not> is_red t" "items t = xs" using assms(1) by (auto simp: rb_list_def)
  then have "tree_at (rb_mem s') 0 t" using tree_at_cong [of t "rb_mem s'" "rb_mem s"] assms(2) by (simp add: holds_tree_def)
  then have "holds_tree s' t" using t(1) assms(3,4) by (simp add: holds_tree_def)
  then show ?thesis using t by (auto simp: rb_list_def)
qed

lemma rb_list_facts:
  assumes "rb_list s xs"
  shows "distinct xs" "0 \<notin> set xs"
  using assms tree_nonzero by (auto simp: rb_list_def holds_tree_def)

section \<open>The buffers\<close>

definition region :: "s_mem \<Rightarrow> nat set" where
  "region m = {sm_first m ..< sm_mem m + nat (sm_rem m)}"

text \<open>
  What is documented of \<^verbatim>\<open>malloc\<close>: the new buffer is not at address zero, and overlaps neither the
  buffers in use nor the root.
\<close>

definition malloc_ok :: "malloc_fun \<Rightarrow> nat \<Rightarrow> bool" where
  "malloc_ok malloc self \<longleftrightarrow> (\<forall>ms n. 0 < malloc ms n \<and> self \<notin> {malloc ms n ..< malloc ms n + nat n} \<and>
     (\<forall>m \<in> set ms. {malloc ms n ..< malloc ms n + nat n} \<inter> region m = {}))"

definition mem_inv :: "nat \<Rightarrow> s_mem list \<Rightarrow> nat set \<Rightarrow> bool" where
  "mem_inv self ms N \<longleftrightarrow> ms \<noteq> [] \<and>
     (\<forall>m \<in> set ms. 0 < sm_first m \<and> sm_first m \<le> sm_mem m \<and> 0 \<le> sm_rem m \<and> self \<notin> region m) \<and>
     sorted_wrt (\<lambda>m m'. region m \<inter> region m' = {}) ms \<and>
     (\<forall>c \<in> N. \<exists>m \<in> set ms. sm_first m \<le> c \<and> c < sm_mem m)"

lemma BALIGN_bounds: "0 < x \<Longrightarrow> x \<le> BALIGN x \<and> BALIGN x < x + 8"
  unfolding BALIGN_def by presburger

lemma cut_ok:
  assumes inv: "mem_inv self (m # ms) N" and n: "0 < n" "n \<le> sm_rem m"
  shows "sm_mem m \<noteq> 0" "sm_mem m \<noteq> self" "sm_mem m \<notin> N"
    "mem_inv self (m\<lparr>sm_rem := sm_rem m - n, sm_mem := sm_mem m + nat n\<rparr> # ms) (insert (sm_mem m) N)"
proof -
  have i: "0 < sm_first m" "sm_first m \<le> sm_mem m" "0 \<le> sm_rem m" "self \<notin> region m" "\<forall>m' \<in> set ms. region m \<inter> region m' = {}"
    using inv by (simp_all add: mem_inv_def)
  have r: "region (m\<lparr>sm_rem := sm_rem m - n, sm_mem := sm_mem m + nat n\<rparr>) = region m"
  proof -
    have "sm_mem m + nat n + nat (sm_rem m - n) = sm_mem m + nat (sm_rem m)" using n by linarith
    then show ?thesis by (simp add: region_def add.assoc)
  qed
  have cov: "\<forall>c \<in> N. \<exists>m' \<in> set (m # ms). sm_first m' \<le> c \<and> c < sm_mem m'" using inv unfolding mem_inv_def by blast
  have inr: "sm_mem m \<in> region m" using i(2) n by (simp add: region_def)
  show "sm_mem m \<noteq> 0" using i by simp
  show "sm_mem m \<noteq> self" using inr i(4) by auto
  show "sm_mem m \<notin> N"
  proof
    assume "sm_mem m \<in> N"
    then obtain m' where m': "m' \<in> set (m # ms)" "sm_first m' \<le> sm_mem m" "sm_mem m < sm_mem m'" using cov by blast
    then have "m' \<in> set ms" by auto
    moreover have "sm_mem m \<in> region m'" using m' by (simp add: region_def)
    ultimately show False using i(5) inr by blast
  qed
  have "\<exists>m' \<in> set (m\<lparr>sm_rem := sm_rem m - n, sm_mem := sm_mem m + nat n\<rparr> # ms). sm_first m' \<le> c \<and> c < sm_mem m'"
    if c: "c \<in> insert (sm_mem m) N" for c
  proof (cases "c = sm_mem m")
    case True
    then show ?thesis using i(2) n(1) by auto
  next
    case False
    then obtain m' where "m' \<in> set (m # ms)" "sm_first m' \<le> c" "c < sm_mem m'" using cov c by blast
    then show ?thesis by (cases "m' = m") auto
  qed
  then show "mem_inv self (m\<lparr>sm_rem := sm_rem m - n, sm_mem := sm_mem m + nat n\<rparr> # ms) (insert (sm_mem m) N)"
    using inv i r n unfolding mem_inv_def by (auto simp: r)
qed

lemma new_block_inv:
  assumes inv: "mem_inv self ms N" and mal: "malloc_ok malloc self" and sz: "24 \<le> sz"
  shows "mem_inv self (\<lparr>sm_first = malloc ms sz + 24, sm_mem = malloc ms sz + 24, sm_rem = sz - 24\<rparr> # ms) N"
proof -
  let ?m = "\<lparr>sm_first = malloc ms sz + 24, sm_mem = malloc ms sz + 24, sm_rem = sz - 24\<rparr>"
  have "region ?m \<subseteq> {malloc ms sz ..< malloc ms sz + nat sz}" using sz by (auto simp: region_def)
  moreover have "self \<notin> {malloc ms sz ..< malloc ms sz + nat sz}"
    "\<forall>m \<in> set ms. {malloc ms sz ..< malloc ms sz + nat sz} \<inter> region m = {}"
    using mal by (simp_all add: malloc_ok_def)
  ultimately have "self \<notin> region ?m" "\<forall>m \<in> set ms. region ?m \<inter> region m = {}" by blast+
  moreover have "0 < malloc ms sz" using mal by (simp add: malloc_ok_def)
  ultimately show ?thesis using inv sz by (auto simp: mem_inv_def)
qed

lemma tree_alloc_ok:
  assumes inv: "mem_inv (tr_self tr) (tr_mem tr) N" and mal: "malloc_ok malloc (tr_self tr)" and sz: "0 < sz" "sz \<le> 65536"
  shows "\<exists>m ms ts bs. tree_alloc malloc sz tr =
      Some (sm_mem m, tr\<lparr>tr_mem := m\<lparr>sm_rem := sm_rem m - BALIGN sz, sm_mem := sm_mem m + nat (BALIGN sz)\<rparr> # ms, tr_total_size := ts, tr_blocks := bs\<rparr>) \<and>
    mem_inv (tr_self tr) (m # ms) N \<and> BALIGN sz \<le> sm_rem m"
proof -
  obtain m ms where ms: "tr_mem tr = m # ms" using inv by (auto simp: mem_inv_def neq_Nil_conv)
  have b: "sz \<le> BALIGN sz" "BALIGN sz < sz + 8" using BALIGN_bounds [OF sz(1)] by auto
  show ?thesis
  proof (cases "sm_rem m < BALIGN sz")
    case False
    then have "tree_alloc malloc sz tr = Some (sm_mem m, tr\<lparr>tr_mem := m\<lparr>sm_rem := sm_rem m - BALIGN sz,
      sm_mem := sm_mem m + nat (BALIGN sz)\<rparr> # ms, tr_total_size := tr_total_size tr, tr_blocks := tr_blocks tr\<rparr>)"
      using ms by (simp add: tree_alloc_def Let_def)
    then show ?thesis using inv ms False
      by (intro exI [of _ m] exI [of _ ms] exI [of _ "tr_total_size tr"] exI [of _ "tr_blocks tr"]) simp
  next
    case True
    let ?n = "if of_int (MAX_BUF_SIZE div 2) \<le> tr_total_size tr then MAX_BUF_SIZE else MAX_BUF_SIZE div 2"
    let ?m = "\<lparr>sm_first = malloc (tr_mem tr) ?n + 24, sm_mem = malloc (tr_mem tr) ?n + 24, sm_rem = ?n - 24\<rparr>"
    have n: "100000 \<le> ?n" by (simp add: MAX_BUF_SIZE_def)
    have "tree_alloc malloc sz tr = Some (sm_mem ?m, tr\<lparr>tr_mem := ?m\<lparr>sm_rem := sm_rem ?m - BALIGN sz,
      sm_mem := sm_mem ?m + nat (BALIGN sz)\<rparr> # m # ms, tr_total_size := tr_total_size tr + of_int ?n, tr_blocks := tr_blocks tr + 1\<rparr>)"
      using ms True by (simp add: tree_alloc_def malloc_buf_def sizeof_s_mem_header_def Let_def)
    moreover have "mem_inv (tr_self tr) (?m # m # ms) N" using new_block_inv [OF inv mal, of ?n] n ms by simp
    moreover have "BALIGN sz \<le> sm_rem ?m" using b sz n by simp
    ultimately show ?thesis by blast
  qed
qed

section \<open>The invariant of the tree\<close>

text \<open>
  What the structure of the tree rests on is in four fields of a node: the head and the count of its list, its
  name and its parent.
\<close>

type_synonym core = "nat \<times> u32 \<times> u8 list \<times> nat"

definition core :: "tree_node \<Rightarrow> core" where
  "core nd = (tn_child_head nd, tn_child_num nd, tn_fname nd, tn_parent nd)"

definition cores :: "tree_root \<Rightarrow> nat \<Rightarrow> core option" where
  "cores tr n = map_option core (tr_nodes tr n)"

definition cname :: "(nat \<Rightarrow> core option) \<Rightarrow> nat \<Rightarrow> u8 list" where
  "cname C n = (case C n of Some (h, k, f, p) \<Rightarrow> f | None \<Rightarrow> [])"

definition clist :: "(nat \<Rightarrow> rblink option) \<Rightarrow> nat \<Rightarrow> u32 \<Rightarrow> rblist" where
  "clist links h k = \<lparr>rb_head = h, rb_loffset = 0, rb_num_items = k, rb_down = False, rb_mem = links\<rparr>"

text \<open>
  \<open>kids\<close> are the children of a node in order, \<open>pth\<close> the names on the way to it: the children of each
  node are in its list, they know their parent, every node but the root is in the list of its parent.
\<close>

definition nodes_inv :: "bool \<Rightarrow> nat \<Rightarrow> (nat \<Rightarrow> core option) \<Rightarrow> (nat \<Rightarrow> rblink option) \<Rightarrow> (nat \<Rightarrow> nat list) \<Rightarrow> (nat \<Rightarrow> u8 list list) \<Rightarrow> bool" where
  "nodes_inv cs self C links kids pth \<longleftrightarrow>
     self \<noteq> 0 \<and> (\<exists>h k f. C self = Some (h, k, f, 0)) \<and> pth self = [] \<and>
     (\<forall>n h k f p. C n = Some (h, k, f, p) \<longrightarrow> rb_list (clist links h k) (kids n) \<and> ordered (node_compare cs (cname C)) (kids n)) \<and>
     (\<forall>n c. c \<in> set (kids n) \<longrightarrow> c \<noteq> self \<and> C n \<noteq> None \<and> (\<exists>h k f. C c = Some (h, k, f, n)) \<and> pth c = pth n @ [cname C c]) \<and>
     (\<forall>c h k f p. C c = Some (h, k, f, p) \<longrightarrow> c \<noteq> self \<longrightarrow> c \<in> set (kids p))"

lemma ordered_cong:
  "(\<And>a. a \<in> set xs \<Longrightarrow> fn a = fn' a) \<Longrightarrow> ordered (node_compare cs fn) xs = ordered (node_compare cs fn') xs"
  unfolding ordered_def node_compare_def by (induction xs) auto

lemma set_ord_insert: "\<forall>a \<in> set xs. compare item a \<noteq> 0 \<Longrightarrow> set (ord_insert compare item xs) = insert item (set xs)"
  by (induction xs) auto

lemma nodes_invD:
  assumes "nodes_inv cs self C links kids pth"
  shows "self \<noteq> 0" "\<exists>h k f. C self = Some (h, k, f, 0)" "pth self = []"
    "C n = Some (h, k, f, p) \<Longrightarrow> rb_list (clist links h k) (kids n)"
    "C n = Some (h, k, f, p) \<Longrightarrow> ordered (node_compare cs (cname C)) (kids n)"
    "c \<in> set (kids n) \<Longrightarrow> c \<noteq> self" "c \<in> set (kids n) \<Longrightarrow> C n \<noteq> None"
    "c \<in> set (kids n) \<Longrightarrow> \<exists>h k f. C c = Some (h, k, f, n)"
    "c \<in> set (kids n) \<Longrightarrow> pth c = pth n @ [cname C c]"
    "C c = Some (h, k, f, p) \<Longrightarrow> c \<noteq> self \<Longrightarrow> c \<in> set (kids p)"
  using assms unfolding nodes_inv_def by blast+

lemma nodes_inv_disjoint:
  assumes inv: "nodes_inv cs self C links kids pth" and "c \<in> set (kids n)" and "c \<in> set (kids m)"
  shows "n = m"
  using nodes_invD(8) [OF inv assms(2)] nodes_invD(8) [OF inv assms(3)] by auto

lemma add_child:
  assumes inv: "nodes_inv cs self C links kids pth" and par: "C par = Some (h, k, f, pp)"
    and new: "C node = None" "node \<noteq> 0" "node \<noteq> self"
    and lst: "rb_list (clist links' h' k') ys" "ordered (node_compare cs (cname (C(node \<mapsto> (0, 0, fname, par))))) ys"
    and ys: "set ys = insert node (set (kids par))"
    and frame: "\<forall>b. b \<notin> insert node (set (kids par)) \<longrightarrow> links' b = links b"
  shows "nodes_inv cs self (C(node \<mapsto> (0, 0, fname, par), par \<mapsto> (h', k', f, pp))) links' (kids(par := ys, node := []))
    (pth(node := pth par @ [fname]))"
proof -
  let ?C = "C(node \<mapsto> (0, 0, fname, par), par \<mapsto> (h', k', f, pp))" and ?K = "kids(par := ys, node := [])"
    and ?P = "pth(node := pth par @ [fname])"
  have ne: "par \<noteq> node" using par new(1) by auto
  have kn: "node \<notin> set (kids n)" for n using nodes_invD(8) [OF inv, of node n] new(1) by auto
  have names: "cname ?C a = (if a = node then fname else cname C a)" for a using par ne by (simp add: cname_def)
  have names': "cname ?C a = cname (C(node \<mapsto> (0, 0, fname, par))) a" for a using par ne by (simp add: cname_def)
  have empty: "rb_list (clist links' 0 0) []"
    unfolding rb_list_def by (rule exI [of _ Leaf]) (simp add: holds_tree_def clist_def)
  have lists: "rb_list (clist links' h1 k1) (?K n) \<and> ordered (node_compare cs (cname ?C)) (?K n)"
    if c: "?C n = Some (h1, k1, f1, p1)" for n h1 k1 f1 p1
  proof -
    consider "n = node" | "n = par" | "n \<noteq> node" "n \<noteq> par" by blast
    then show ?thesis
    proof cases
      case 1
      then show ?thesis using c ne empty by (simp add: ordered_def)
    next
      case 2
      have "ordered (node_compare cs (cname ?C)) ys" using lst(2) unfolding ordered_cong [of ys "cname ?C", OF names'] .
      then show ?thesis using 2 c ne lst(1) by auto
    next
      case 3
      then have cn: "C n = Some (h1, k1, f1, p1)" using c by simp
      have dis: "a \<notin> insert node (set (kids par))" if a: "a \<in> set (kids n)" for a
        using nodes_inv_disjoint [OF inv a] kn [of n] a 3(2) by blast
      have "rb_list (clist links' h1 k1) (kids n)"
      proof (rule rb_list_cong)
        show "rb_list (clist links h1 k1) (kids n)" using nodes_invD(4) [OF inv cn] .
      qed (use dis frame in \<open>auto simp: clist_def\<close>)
      moreover have "ordered (node_compare cs (cname ?C)) (kids n)"
      proof -
        have "ordered (node_compare cs (cname C)) (kids n)" using nodes_invD(5) [OF inv cn] .
        then show ?thesis using ordered_cong [of "kids n" "cname ?C" "cname C" cs] names dis by auto
      qed
      ultimately show ?thesis using 3 by simp
    qed
  qed
  have members: "c \<noteq> self \<and> ?C n \<noteq> None \<and> (\<exists>h k f. ?C c = Some (h, k, f, n)) \<and> ?P c = ?P n @ [cname ?C c]" if c: "c \<in> set (?K n)" for n c
  proof (cases "c = node")
    case True
    then have "n = par" using c kn [of n] by (auto split: if_splits)
    then show ?thesis using True new ne names by auto
  next
    case False
    then have k: "c \<in> set (kids n)" using c ys by (auto split: if_splits)
    have nn: "n \<noteq> node" using nodes_invD(7) [OF inv k] new(1) by auto
    obtain h1 k1 f1 where "C c = Some (h1, k1, f1, n)" using nodes_invD(8) [OF inv k] by blast
    then have "\<exists>h k f. ?C c = Some (h, k, f, n)" using False par by auto
    moreover have "?P c = ?P n @ [cname ?C c]" using nodes_invD(9) [OF inv k] False nn names by simp
    ultimately show ?thesis using nodes_invD(6,7) [OF inv k] by simp
  qed
  have all: "c \<in> set (?K p1)" if c: "?C c = Some (h1, k1, f1, p1)" "c \<noteq> self" for c h1 k1 f1 p1
  proof (cases "c = node")
    case True
    then show ?thesis using c ne ys by simp
  next
    case False
    then have "\<exists>h2 k2 f2. C c = Some (h2, k2, f2, p1)" using c(1) par by (auto split: if_splits)
    then have k: "c \<in> set (kids p1)" using nodes_invD(10) [OF inv] c(2) by blast
    then have "p1 \<noteq> node" using nodes_invD(7) [OF inv k] new(1) by auto
    then show ?thesis using k ys by auto
  qed
  have self: "\<exists>h k f. ?C self = Some (h, k, f, 0)" using nodes_invD(2) [OF inv] par new(3) by auto
  show ?thesis
    unfolding nodes_inv_def
    using nodes_invD(1) [OF inv] self nodes_invD(3) [OF inv] new(3) lists members all by (intro conjI allI impI) (blast | simp)+
qed

lemma nodes_inv_links:
  assumes inv: "nodes_inv cs self C links kids pth" and eq: "\<And>n a. a \<in> set (kids n) \<Longrightarrow> links' a = links a"
  shows "nodes_inv cs self C links' kids pth"
proof -
  have "rb_list (clist links' h k) (kids n)" if "C n = Some (h, k, f, p)" for n h k f p
    using nodes_invD(4) [OF inv that] by (rule rb_list_cong) (use eq in \<open>auto simp: clist_def\<close>)
  then show ?thesis using inv unfolding nodes_inv_def by blast
qed

text \<open>How a path is cut into names.\<close>

function comps :: "u8 list \<Rightarrow> u8 list list" where
  "comps path =
     (if path = [] then []
      else case last_path_separator path of Some p \<Rightarrow> comps (take p path) @ [drop (Suc p) path] | None \<Rightarrow> [path])"
  by pat_completeness auto
termination
  by (relation "measure length") (auto dest: last_path_separator_less)

declare comps.simps [simp del]

definition tree_inv :: "bool \<Rightarrow> tree_root \<Rightarrow> (nat \<Rightarrow> nat list) \<Rightarrow> (nat \<Rightarrow> u8 list list) \<Rightarrow> bool" where
  "tree_inv cs tr kids pth \<longleftrightarrow>
     nodes_inv cs (tr_self tr) (cores tr) (tr_links tr) kids pth \<and>
     mem_inv (tr_self tr) (tr_mem tr) (dom (tr_nodes tr) - {tr_self tr}) \<and> finite (dom (tr_nodes tr)) \<and>
     (tr_first tr \<noteq> 0 \<longrightarrow> tr_nodes tr (tr_last tr) \<noteq> None)"

lemma cores_iff: "cores tr n = Some (h, k, f, p) \<longleftrightarrow>
    (\<exists>nd. tr_nodes tr n = Some nd \<and> tn_child_head nd = h \<and> tn_child_num nd = k \<and> tn_fname nd = f \<and> tn_parent nd = p)"
  by (auto simp: cores_def core_def)

lemma cores_None: "cores tr n = None \<longleftrightarrow> tr_nodes tr n = None"
  by (simp add: cores_def)

lemma fname_of_cname: "fname_of tr = cname (cores tr)"
  by (rule ext) (auto simp: fname_of_def cname_def cores_def core_def split: option.splits)

text \<open>What the small steps keep.\<close>

definition same_tree :: "tree_root \<Rightarrow> tree_root \<Rightarrow> bool" where
  "same_tree tr tr' \<longleftrightarrow> tr_self tr' = tr_self tr \<and> tr_cached_path_len tr' = tr_cached_path_len tr \<and>
     tr_cached_path tr' = tr_cached_path tr \<and> tr_cached_parent tr' = tr_cached_parent tr"

lemma upd_node_keeps:
  assumes "tr_nodes tr n \<noteq> None" and "\<And>nd. core (f nd) = core nd"
  shows "\<exists>tr'. upd_node n f tr = Some tr' \<and> cores tr' = cores tr \<and> dom (tr_nodes tr') = dom (tr_nodes tr) \<and> tr_links tr' = tr_links tr \<and>
    tr_mem tr' = tr_mem tr \<and> same_tree tr tr' \<and> tr_first tr' = tr_first tr \<and> tr_last tr' = tr_last tr"
proof -
  obtain nd where nd: "tr_nodes tr n = Some nd" using assms(1) by auto
  have "cores (tr\<lparr>tr_nodes := (tr_nodes tr)(n \<mapsto> f nd)\<rparr>) = cores tr" using nd assms(2) by (rule_tac ext) (simp add: cores_def)
  then show ?thesis using nd by (auto simp: upd_node_def same_tree_def)
qed

lemma append_chain_keeps:
  assumes "tr_nodes tr node \<noteq> None" and "tr_first tr \<noteq> 0 \<longrightarrow> tr_nodes tr (tr_last tr) \<noteq> None"
  shows "\<exists>tr'. append_chain node tr = Some tr' \<and> cores tr' = cores tr \<and> dom (tr_nodes tr') = dom (tr_nodes tr) \<and> tr_links tr' = tr_links tr \<and>
    tr_mem tr' = tr_mem tr \<and> same_tree tr tr' \<and> tr_last tr' = node"
proof (cases "tr_first tr = 0")
  case True
  have "cores (tr\<lparr>tr_first := node, tr_last := node\<rparr>) = cores tr" by (rule ext) (simp add: cores_def)
  then show ?thesis using True by (simp add: append_chain_def same_tree_def)
next
  case False
  obtain tr' where "upd_node (tr_last tr) (\<lambda>nd. nd\<lparr>tn_next := node\<rparr>) tr = Some tr'" "cores tr' = cores tr"
    "dom (tr_nodes tr') = dom (tr_nodes tr)" "tr_links tr' = tr_links tr" "tr_mem tr' = tr_mem tr" "same_tree tr tr'"
    using upd_node_keeps [of tr "tr_last tr" "\<lambda>nd. nd\<lparr>tn_next := node\<rparr>"] False assms(2) by (auto simp: core_def)
  moreover have "cores (tr'\<lparr>tr_last := node\<rparr>) = cores tr'" for tr' :: tree_root by (rule ext) (simp add: cores_def)
  ultimately show ?thesis using False by (simp add: append_chain_def same_tree_def)
qed

text \<open>Cutting a new node with its name set.\<close>

lemma new_node_ok:
  assumes inv: "mem_inv (tr_self tr) (tr_mem tr) (dom (tr_nodes tr) - {tr_self tr})" and self: "tr_nodes tr (tr_self tr) \<noteq> None"
    and mal: "malloc_ok malloc (tr_self tr)"
  shows "\<exists>node tr1 tr2 m ms. new_tree_node malloc tr = Some (node, tr1) \<and> upd_node node (\<lambda>nd. nd\<lparr>tn_fname := fname\<rparr>) tr1 = Some tr2 \<and>
    node \<noteq> 0 \<and> tr_nodes tr node = None \<and> node = sm_mem m \<and>
    tr_nodes tr2 = (tr_nodes tr)(node \<mapsto> blank_node\<lparr>tn_fname := fname\<rparr>) \<and>
    tr_links tr2 = (tr_links tr)(node \<mapsto> \<lparr>lk_parent = 0, lk_left = 0, lk_right = 0, lk_red = False\<rparr>) \<and>
    same_tree tr tr2 \<and> tr_first tr2 = tr_first tr \<and> tr_last tr2 = tr_last tr \<and>
    tr_mem tr2 = m\<lparr>sm_rem := sm_rem m - 120, sm_mem := sm_mem m + 120\<rparr> # ms \<and>
    mem_inv (tr_self tr) (m # ms) (dom (tr_nodes tr) - {tr_self tr}) \<and>
    mem_inv (tr_self tr) (tr_mem tr2) (insert node (dom (tr_nodes tr) - {tr_self tr}))"
proof -
  have b: "BALIGN sizeof_TREE_NODE = 120" by (simp add: BALIGN_def sizeof_TREE_NODE_def)
  obtain m ms ts bs where a: "tree_alloc malloc sizeof_TREE_NODE tr =
      Some (sm_mem m, tr\<lparr>tr_mem := m\<lparr>sm_rem := sm_rem m - 120, sm_mem := sm_mem m + nat 120\<rparr> # ms, tr_total_size := ts, tr_blocks := bs\<rparr>)"
    and i: "mem_inv (tr_self tr) (m # ms) (dom (tr_nodes tr) - {tr_self tr})" "120 \<le> sm_rem m"
    using tree_alloc_ok [OF inv mal, of sizeof_TREE_NODE] unfolding b by (auto simp: sizeof_TREE_NODE_def)
  note c = cut_ok [OF i(1) _ i(2)]
  have "tr_nodes tr (sm_mem m) = None" using c(2,3) by auto
  then show ?thesis
    using a i c by (simp add: new_tree_node_def upd_node_def same_tree_def) (rule exI [of _ m], simp)
qed

text \<open>The list of the parent as the insertion finds it.\<close>

lemma parent_list_ready:
  assumes inv: "nodes_inv cs (tr_self tr) (cores tr) (tr_links tr) kids pth" and fin: "finite (dom (tr_nodes tr))"
    and card: "card (dom (tr_nodes tr)) < 2 ^ 32" and par: "tr_nodes tr par = Some pd" and node: "tr_nodes tr node = None"
    and nodes: "tr_nodes tr2 = (tr_nodes tr)(node \<mapsto> nd)" and links: "tr_links tr2 = (tr_links tr)(node \<mapsto> lk)"
  shows "rb_list (children tr2 pd) (kids par)" "ordered (node_compare cs (fname_of tr2)) (kids par)" "node \<notin> set (kids par)"
    "length (kids par) < 2 ^ 32"
proof -
  have cp: "cores tr par = Some (tn_child_head pd, tn_child_num pd, tn_fname pd, tn_parent pd)" using par by (auto simp: cores_iff)
  have kd: "tr_nodes tr a \<noteq> None" if "a \<in> set (kids par)" for a using nodes_invD(8) [OF inv that] by (auto simp: cores_iff)
  show k: "node \<notin> set (kids par)" using kd [of node] node by blast
  show "rb_list (children tr2 pd) (kids par)"
    using nodes_invD(4) [OF inv cp] by (rule rb_list_cong) (use k links in \<open>auto simp: children_def clist_def\<close>)
  have "fname_of tr2 a = fname_of tr a" if "a \<in> set (kids par)" for a using k that nodes by (auto simp: fname_of_def)
  then show "ordered (node_compare cs (fname_of tr2)) (kids par)"
    using nodes_invD(5) [OF inv cp] ordered_cong [of "kids par" "fname_of tr2" "fname_of tr"] by (simp add: fname_of_cname)
  have "set (kids par) \<subseteq> dom (tr_nodes tr)" using kd by auto
  then have "card (set (kids par)) \<le> card (dom (tr_nodes tr))" using fin by (rule_tac card_mono)
  moreover have "card (set (kids par)) = length (kids par)"
    using rb_list_facts(1) [OF nodes_invD(4) [OF inv cp]] by (rule distinct_card)
  ultimately show "length (kids par) < 2 ^ 32" using card by simp
qed

definition grows :: "tree_root \<Rightarrow> (nat \<Rightarrow> u8 list list) \<Rightarrow> nat \<Rightarrow> tree_root \<Rightarrow> (nat \<Rightarrow> u8 list list) \<Rightarrow> bool" where
  "grows tr pth n tr' pth' \<longleftrightarrow> same_tree tr tr' \<and> n \<in> dom (tr_nodes tr') \<and> dom (tr_nodes tr) \<subseteq> dom (tr_nodes tr') \<and>
     dom (tr_nodes tr') \<subseteq> insert n (dom (tr_nodes tr)) \<and> (\<forall>m \<in> dom (tr_nodes tr). pth' m = pth m)"

lemma search_finds_node:
  assumes inv: "tree_inv cs tr kids pth" and node: "tr_nodes tr node = None" "node = sm_mem m"
    and par: "tr_nodes tr par = Some pd" and x: "x \<in> set (kids par)"
    and nodes: "tr_nodes tr2 = (tr_nodes tr)(node \<mapsto> nd)" and links: "tr_links tr2 = (tr_links tr)(node \<mapsto> lk)"
    and st: "same_tree tr tr2" "tr_first tr2 = tr_first tr" "tr_last tr2 = tr_last tr"
    and mem: "tr_mem tr2 = m\<lparr>sm_rem := sm_rem m - 120, sm_mem := sm_mem m + 120\<rparr> # ms"
    and mi: "mem_inv (tr_self tr) (m # ms) (dom (tr_nodes tr) - {tr_self tr})"
  shows "\<exists>tr3 tr4. free_tree_node (put_children par (children tr2 pd) tr2) = Some tr3 \<and>
    upd_node x (\<lambda>nd. nd\<lparr>tn_inserted := False\<rparr>) tr3 = Some tr4 \<and> tree_inv cs tr4 kids pth \<and> grows tr pth x tr4 pth"
proof -
  have ni: "nodes_inv cs (tr_self tr) (cores tr) (tr_links tr) kids pth" using inv by (simp add: tree_inv_def)
  have pn: "par \<noteq> node" using par node by auto
  obtain h k f where "cores tr x = Some (h, k, f, par)" using nodes_invD(8) [OF ni x] by blast
  then have xd: "tr_nodes tr x \<noteq> None" by (auto simp: cores_iff)
  then have xn: "x \<noteq> node" using node by auto
  have b: "BALIGN sizeof_TREE_NODE = 120" by (simp add: BALIGN_def sizeof_TREE_NODE_def)
  obtain tr3 where f3: "free_tree_node (put_children par (children tr2 pd) tr2) = Some tr3" and n3: "tr_nodes tr3 = (tr_nodes tr)(node := None)"
    "tr_links tr3 = (tr_links tr)(node := None)" "tr_mem tr3 = m # ms" "same_tree tr tr3" "tr_first tr3 = tr_first tr" "tr_last tr3 = tr_last tr"
    using mem nodes links st par pn node(2) b
    by (auto simp: free_tree_node_def put_children_def children_def same_tree_def fun_upd_twist map_upd_triv [of "tr_nodes tr", OF par] Let_def)
  have n3': "tr_nodes tr3 = tr_nodes tr" using n3(1) node(1) by (simp add: fun_upd_idem)
  then have c3: "cores tr3 = cores tr" by (simp add: cores_def fun_eq_iff)
  obtain tr4 where f4: "upd_node x (\<lambda>nd. nd\<lparr>tn_inserted := False\<rparr>) tr3 = Some tr4" "cores tr4 = cores tr3"
    "dom (tr_nodes tr4) = dom (tr_nodes tr3)" "tr_links tr4 = tr_links tr3" "tr_mem tr4 = tr_mem tr3" "same_tree tr3 tr4"
    "tr_first tr4 = tr_first tr3" "tr_last tr4 = tr_last tr3"
    using upd_node_keeps [of tr3 x "\<lambda>nd. nd\<lparr>tn_inserted := False\<rparr>"] xd n3' by (auto simp: core_def)
  have "a \<noteq> node" if "a \<in> set (kids n)" for a n using nodes_invD(8) [OF ni that] node(1) by (auto simp: cores_iff)
  then have "nodes_inv cs (tr_self tr) (cores tr) (tr_links tr3) kids pth" using n3(2) by (intro nodes_inv_links [OF ni]) auto
  moreover have d: "dom (tr_nodes tr4) = dom (tr_nodes tr)" using f4(3) n3' by simp
  then have "tr_nodes tr4 a = None \<longleftrightarrow> tr_nodes tr a = None" for a by (metis domIff)
  ultimately have "tree_inv cs tr4 kids pth"
    using inv mi n3 f4 c3 d by (simp add: tree_inv_def same_tree_def)
  moreover have "grows tr pth x tr4 pth" using xd d n3(4) f4(6) by (auto simp: grows_def same_tree_def)
  ultimately show ?thesis using f3 f4(1) by blast
qed

lemma put_children_cores:
  assumes "tr_nodes tr par = Some pd"
  shows "cores (put_children par s tr) = (cores tr)(par \<mapsto> (rb_head s, rb_num_items s, tn_fname pd, tn_parent pd))"
    "dom (tr_nodes (put_children par s tr)) = dom (tr_nodes tr)"
  using assms by (auto simp: put_children_def cores_def core_def fun_eq_iff)

lemma place_node:
  assumes "tr_nodes tr node = Some nd"
  shows "\<exists>tr'. upd_node node (\<lambda>nd. nd\<lparr>tn_fname := fname, tn_parent := par, tn_type := type\<rparr>) tr = Some tr' \<and>
    cores tr' = (cores tr)(node \<mapsto> (tn_child_head nd, tn_child_num nd, fname, par)) \<and> dom (tr_nodes tr') = dom (tr_nodes tr) \<and>
    tr_links tr' = tr_links tr \<and> tr_mem tr' = tr_mem tr \<and> same_tree tr tr' \<and> tr_first tr' = tr_first tr \<and> tr_last tr' = tr_last tr"
  using assms by (auto simp: upd_node_def cores_def core_def same_tree_def fun_eq_iff)

lemma same_tree_trans: "same_tree a b \<Longrightarrow> same_tree b c \<Longrightarrow> same_tree a c"
  by (simp add: same_tree_def)

lemma mem_inv_mono: "mem_inv self ms N \<Longrightarrow> M \<subseteq> N \<Longrightarrow> mem_inv self ms M"
  by (auto simp: mem_inv_def)

lemma finish_node_ok:
  assumes nd: "tr_nodes tr node = Some nd" and len: "length fname < 65536" and mi: "mem_inv (tr_self tr) (tr_mem tr) N"
    and mal: "malloc_ok malloc (tr_self tr)" and chain: "tr_first tr \<noteq> 0 \<longrightarrow> tr_nodes tr (tr_last tr) \<noteq> None"
  shows "\<exists>tr'. finish_node malloc fname type par node tr = Some (node, tr') \<and>
    cores tr' = (cores tr)(node \<mapsto> (tn_child_head nd, tn_child_num nd, fname, par)) \<and> dom (tr_nodes tr') = dom (tr_nodes tr) \<and>
    tr_links tr' = tr_links tr \<and> mem_inv (tr_self tr) (tr_mem tr') N \<and> same_tree tr tr' \<and> tr_last tr' = node"
proof -
  let ?f = "\<lambda>nd. nd\<lparr>tn_fname_len := of_nat (length fname)\<rparr>"
  let ?t1 = "tr\<lparr>tr_nodes := (tr_nodes tr)(node \<mapsto> ?f nd)\<rparr>"
  have t1: "upd_node node ?f tr = Some ?t1" using nd by (simp add: upd_node_def)
  have u: "uint (of_nat (length fname) :: u16) = int (length fname)" using len by (simp add: unsigned_of_nat take_bit_nat_eq_self)
  have c1: "cores ?t1 = cores tr" using nd by (auto simp: cores_def core_def fun_eq_iff)
  obtain m ms ts bs where a: "tree_alloc malloc (int (length fname) + 1) ?t1 =
      Some (sm_mem m, ?t1\<lparr>tr_mem := m\<lparr>sm_rem := sm_rem m - BALIGN (int (length fname) + 1),
        sm_mem := sm_mem m + nat (BALIGN (int (length fname) + 1))\<rparr> # ms, tr_total_size := ts, tr_blocks := bs\<rparr>)"
    and i: "mem_inv (tr_self tr) (m # ms) N" "BALIGN (int (length fname) + 1) \<le> sm_rem m"
    using tree_alloc_ok [of ?t1 N malloc "int (length fname) + 1"] mi mal len by auto
  let ?ms = "m\<lparr>sm_rem := sm_rem m - BALIGN (int (length fname) + 1), sm_mem := sm_mem m + nat (BALIGN (int (length fname) + 1))\<rparr> # ms"
  let ?t2 = "?t1\<lparr>tr_mem := ?ms, tr_total_size := ts, tr_blocks := bs\<rparr>"
  have "mem_inv (tr_self tr) ?ms (insert (sm_mem m) N)"
    using cut_ok(4) [OF i(1) _ i(2)] BALIGN_bounds [of "int (length fname) + 1"] by simp
  then have i2: "mem_inv (tr_self tr) ?ms N" by (rule mem_inv_mono) auto
  have c2: "cores ?t2 = cores tr" using c1 by (simp add: cores_def fun_eq_iff)
  obtain t3 where t3: "upd_node node (\<lambda>nd. nd\<lparr>tn_fname := fname, tn_parent := par, tn_type := type\<rparr>) ?t2 = Some t3"
    "cores t3 = (cores ?t2)(node \<mapsto> (tn_child_head nd, tn_child_num nd, fname, par))" "dom (tr_nodes t3) = dom (tr_nodes ?t2)"
    "tr_links t3 = tr_links ?t2" "tr_mem t3 = tr_mem ?t2" "same_tree ?t2 t3" "tr_first t3 = tr_first ?t2" "tr_last t3 = tr_last ?t2"
    using place_node [where tr = ?t2 and node = node and nd = "?f nd" and fname = fname and par = par and type = type] by auto
  have d3: "dom (tr_nodes t3) = dom (tr_nodes tr)" using t3(3) nd by auto
  have node3: "tr_nodes t3 node \<noteq> None" using d3 nd by (metis domIff option.distinct(1))
  have "tr_first t3 \<noteq> 0 \<longrightarrow> tr_nodes t3 (tr_last t3) \<noteq> None" using d3 chain t3(7,8) by (simp add: domIff set_eq_iff)
  then obtain t4 where t4: "append_chain node t3 = Some t4" "cores t4 = cores t3" "dom (tr_nodes t4) = dom (tr_nodes t3)"
    "tr_links t4 = tr_links t3" "tr_mem t4 = tr_mem t3" "same_tree t3 t4" "tr_last t4 = node"
    using append_chain_keeps [OF node3] by blast
  have "tr_nodes t4 node \<noteq> None" using node3 t4(3) by (metis domIff)
  then obtain t5 where t5: "upd_node node (\<lambda>nd. nd\<lparr>tn_inserted := True\<rparr>) t4 = Some t5" "cores t5 = cores t4"
    "dom (tr_nodes t5) = dom (tr_nodes t4)" "tr_links t5 = tr_links t4" "tr_mem t5 = tr_mem t4" "same_tree t4 t5" "tr_last t5 = tr_last t4"
    using upd_node_keeps [of t4 node "\<lambda>nd. nd\<lparr>tn_inserted := True\<rparr>"] by (auto simp: core_def)
  have "finish_node malloc fname type par node tr = Some (node, t5)"
    using t1 u a t3(1) t4(1) t5(1) by (simp add: finish_node_def)
  moreover have "same_tree tr t5" using t3(6) t4(6) t5(6) by (simp add: same_tree_def)
  ultimately show ?thesis using t3 t4 t5 c2 d3 i2 by auto
qed

lemma search_adds_node:
  assumes inv: "tree_inv cs tr kids pth" and mal: "malloc_ok malloc (tr_self tr)" and node: "tr_nodes tr node = None" "node \<noteq> 0"
    and par: "tr_nodes tr par = Some pd" and len: "length fname < 65536"
    and nodes: "tr_nodes tr2 = (tr_nodes tr)(node \<mapsto> blank_node\<lparr>tn_fname := fname\<rparr>)" and links: "tr_links tr2 = (tr_links tr)(node \<mapsto> lk)"
    and st: "same_tree tr tr2" "tr_first tr2 = tr_first tr" "tr_last tr2 = tr_last tr"
    and mi: "mem_inv (tr_self tr) (tr_mem tr2) (insert node (dom (tr_nodes tr) - {tr_self tr}))"
    and lst: "rb_list s' ys" "ordered (node_compare cs (fname_of tr2)) ys" and ys: "set ys = insert node (set (kids par))"
    and frame: "\<forall>b. b \<notin> insert node (set (kids par)) \<longrightarrow> rb_mem s' b = tr_links tr2 b"
  shows "\<exists>tr' kids' pth'. finish_node malloc fname type par node (put_children par s' tr2) = Some (node, tr') \<and>
    tree_inv cs tr' kids' pth' \<and> grows tr pth node tr' pth' \<and> pth' node = pth par @ [fname]"
proof -
  have ni: "nodes_inv cs (tr_self tr) (cores tr) (tr_links tr) kids pth" using inv by (simp add: tree_inv_def)
  have pn: "par \<noteq> node" "tr_nodes tr2 par = Some pd" using par node nodes by auto
  have sn: "node \<noteq> tr_self tr" using nodes_invD(2) [OF ni] node by (auto simp: cores_iff)
  let ?t3 = "put_children par s' tr2"
  have n3: "tr_nodes ?t3 node = Some (blank_node\<lparr>tn_fname := fname\<rparr>)" using pn nodes by (simp add: put_children_def)
  have st3: "same_tree tr ?t3" "tr_self ?t3 = tr_self tr" "tr_first ?t3 = tr_first tr" "tr_last ?t3 = tr_last tr" "tr_mem ?t3 = tr_mem tr2" "tr_links ?t3 = rb_mem s'"
    using st by (simp_all add: put_children_def same_tree_def)
  have d3: "dom (tr_nodes ?t3) = insert node (dom (tr_nodes tr))" using put_children_cores(2) [OF pn(2)] nodes by auto
  have "tr_first ?t3 \<noteq> 0 \<longrightarrow> tr_nodes ?t3 (tr_last ?t3) \<noteq> None"
    using inv d3 st3(3,4) by (metis domIff insertCI tree_inv_def)
  then obtain tr' where f: "finish_node malloc fname type par node ?t3 = Some (node, tr')"
    "cores tr' = (cores ?t3)(node \<mapsto> (0, 0, fname, par))" "dom (tr_nodes tr') = dom (tr_nodes ?t3)" "tr_links tr' = rb_mem s'"
    "mem_inv (tr_self tr) (tr_mem tr') (insert node (dom (tr_nodes tr) - {tr_self tr}))" "same_tree ?t3 tr'" "tr_last tr' = node"
    using finish_node_ok [OF n3 len, of "insert node (dom (tr_nodes tr) - {tr_self tr})" malloc type par] mi mal st3 by (auto simp: blank_node_def)
  have c2: "cores tr2 = (cores tr)(node \<mapsto> (0, 0, fname, 0))" using nodes by (auto simp: cores_def core_def blank_node_def fun_eq_iff)
  have c': "cores tr' = (cores tr)(node \<mapsto> (0, 0, fname, par), par \<mapsto> (rb_head s', rb_num_items s', tn_fname pd, tn_parent pd))"
    using f(2) put_children_cores(1) [OF pn(2)] c2 pn(1) by (auto simp: fun_eq_iff)
  have cp: "cores tr par = Some (tn_child_head pd, tn_child_num pd, tn_fname pd, tn_parent pd)" using par by (auto simp: cores_iff)
  have "cname ((cores tr)(node \<mapsto> (0, 0, fname, par))) = fname_of tr2" unfolding fname_of_cname c2 by (auto simp: cname_def fun_eq_iff)
  then have o: "ordered (node_compare cs (cname ((cores tr)(node \<mapsto> (0, 0, fname, par))))) ys" using lst(2) by simp
  have l: "rb_list (clist (rb_mem s') (rb_head s') (rb_num_items s')) ys" using lst(1) by (rule rb_list_cong) (simp_all add: clist_def)
  have fr: "\<forall>b. b \<notin> insert node (set (kids par)) \<longrightarrow> rb_mem s' b = tr_links tr b" using frame links by auto
  let ?P = "pth(node := pth par @ [fname])"
  have "nodes_inv cs (tr_self tr) (cores tr') (tr_links tr') (kids(par := ys, node := [])) ?P"
    unfolding c' f(4) using add_child [OF ni cp _ node(2) sn l o ys fr] node(1) by (simp add: cores_None)
  note ni' = this
  have d: "dom (tr_nodes tr') = insert node (dom (tr_nodes tr))" using f(3) d3 by simp
  have sub: "dom (tr_nodes tr') - {tr_self tr} \<subseteq> insert node (dom (tr_nodes tr) - {tr_self tr})" unfolding d by blast
  have e: "tr_self tr' = tr_self tr" using f(6) st3(1) by (simp add: same_tree_def)
  have "tr_nodes tr' node \<noteq> None" "finite (dom (tr_nodes tr'))" using d inv by (auto simp: tree_inv_def)
  then have "tree_inv cs tr' (kids(par := ys, node := [])) ?P"
    unfolding tree_inv_def e f(7) using ni' mem_inv_mono [OF f(5) sub] by simp
  moreover have "grows tr pth node tr' ?P" using d node(1) f(6) st3(1) by (auto simp: grows_def same_tree_def)
  ultimately show ?thesis using f(1) by (intro exI [of _ tr'] exI [of _ "kids(par := ys, node := [])"] exI [of _ ?P]) simp
qed

lemma search_and_insert_ok:
  assumes inv: "tree_inv cs tr kids pth" and mal: "malloc_ok malloc (tr_self tr)" and par: "tr_nodes tr par \<noteq> None"
    and len: "length fname < 65536" and card: "card (dom (tr_nodes tr)) < 2 ^ 32"
  shows "\<exists>n tr' kids' pth'. search_and_insert_tree_node malloc cs fname type tr par = Some (n, tr') \<and>
    tree_inv cs tr' kids' pth' \<and> grows tr pth n tr' pth' \<and> pth' n = pth par @ [fname]"
proof -
  have ni: "nodes_inv cs (tr_self tr) (cores tr) (tr_links tr) kids pth" and fin: "finite (dom (tr_nodes tr))"
    and chain: "tr_first tr \<noteq> 0 \<longrightarrow> tr_nodes tr (tr_last tr) \<noteq> None"
    and mi: "mem_inv (tr_self tr) (tr_mem tr) (dom (tr_nodes tr) - {tr_self tr})" using inv by (auto simp: tree_inv_def)
  obtain pd where pd: "tr_nodes tr par = Some pd" using par by auto
  have self: "tr_nodes tr (tr_self tr) \<noteq> None" using nodes_invD(2) [OF ni] by (auto simp: cores_iff)
  obtain node tr1 tr2 m ms where new: "new_tree_node malloc tr = Some (node, tr1)" "upd_node node (\<lambda>nd. nd\<lparr>tn_fname := fname\<rparr>) tr1 = Some tr2"
    and nn: "node \<noteq> 0" "tr_nodes tr node = None" "node = sm_mem m"
    and n2: "tr_nodes tr2 = (tr_nodes tr)(node \<mapsto> blank_node\<lparr>tn_fname := fname\<rparr>)"
    and l2: "tr_links tr2 = (tr_links tr)(node \<mapsto> \<lparr>lk_parent = 0, lk_left = 0, lk_right = 0, lk_red = False\<rparr>)"
    and st: "same_tree tr tr2" "tr_first tr2 = tr_first tr" "tr_last tr2 = tr_last tr"
    and mem: "tr_mem tr2 = m\<lparr>sm_rem := sm_rem m - 120, sm_mem := sm_mem m + 120\<rparr> # ms"
    and mi2: "mem_inv (tr_self tr) (m # ms) (dom (tr_nodes tr) - {tr_self tr})"
      "mem_inv (tr_self tr) (tr_mem tr2) (insert node (dom (tr_nodes tr) - {tr_self tr}))"
    using new_node_ok [OF mi self mal, of fname] by blast
  note ready = parent_list_ready [OF ni fin card pd nn(2) n2 l2]
  have pn: "par \<noteq> node" "tr_nodes tr2 par = Some pd" using pd nn(2) n2 by auto
  have lk: "rb_mem (children tr2 pd) node \<noteq> None" using l2 by (simp add: children_def)
  let ?cmp = "node_compare cs (fname_of tr2)"
  obtain x s' where ins: "rb_insert ?cmp (children tr2 pd) node = Some (x, s')"
    and res: "if \<exists>a \<in> set (kids par). ?cmp node a = 0 then x \<in> set (kids par) \<and> ?cmp node x = 0 \<and> s' = children tr2 pd
       else x = node \<and> rb_list s' (ord_insert ?cmp node (kids par)) \<and> ordered ?cmp (ord_insert ?cmp node (kids par))"
    and frame: "\<forall>b. b \<notin> insert node (set (kids par)) \<longrightarrow> rb_mem s' b = rb_mem (children tr2 pd) b"
    using node_order.insert_refines [OF ready(1,2) nn(1) ready(3) lk ready(4)] by blast
  have nf: "fname_of tr2 node = fname" using n2 by (simp add: fname_of_def)
  show ?thesis
  proof (cases "\<exists>a \<in> set (kids par). ?cmp node a = 0")
    case True
    then have x: "x \<in> set (kids par)" "?cmp node x = 0" "s' = children tr2 pd" using res by auto
    then have xn: "x \<noteq> node" using ready(3) by auto
    have "fname_of tr2 x = fname" using x(2) nf by (simp add: node_compare_def name_compare_eq)
    then have "cname (cores tr) x = fname" using n2 xn by (simp add: fname_of_cname [symmetric] fname_of_def)
    then have px: "pth x = pth par @ [fname]" using nodes_invD(9) [OF ni x(1)] by simp
    from search_finds_node [OF inv nn(2,3) pd x(1) n2 l2 st mem mi2(1)]
    obtain tr3 tr4 where "free_tree_node (put_children par (children tr2 pd) tr2) = Some tr3"
      "upd_node x (\<lambda>nd. nd\<lparr>tn_inserted := False\<rparr>) tr3 = Some tr4" "tree_inv cs tr4 kids pth" "grows tr pth x tr4 pth" by blast
    moreover have "search_and_insert_tree_node malloc cs fname type tr par = Some (x, tr4)"
      using new pn ins xn x(3) calculation(1,2) by (simp add: search_and_insert_tree_node_def Let_def)
    ultimately show ?thesis using px by blast
  next
    case False
    then have x: "x = node" "rb_list s' (ord_insert ?cmp node (kids par))" "ordered ?cmp (ord_insert ?cmp node (kids par))"
      using res by auto
    have "set (ord_insert ?cmp node (kids par)) = insert node (set (kids par))" using False by (intro set_ord_insert) auto
    from search_adds_node [OF inv mal nn(2,1) pd len n2 l2 st mi2(2) x(2,3) this, of type] frame
    obtain tr' kids' pth' where "finish_node malloc fname type par node (put_children par s' tr2) = Some (node, tr')"
      "tree_inv cs tr' kids' pth'" "grows tr pth node tr' pth'" "pth' node = pth par @ [fname]" by (auto simp: children_def)
    then show ?thesis using new pn ins x(1) by (auto simp: search_and_insert_tree_node_def Let_def)
  qed
qed

section \<open>Paths\<close>

text \<open>The names on the way from the root to a node, by the links to the parents.\<close>

inductive has_path :: "tree_root \<Rightarrow> nat \<Rightarrow> u8 list list \<Rightarrow> bool" for tr where
  path_root: "has_path tr (tr_self tr) []"
| path_child: "has_path tr p ps \<Longrightarrow> tr_nodes tr c = Some nd \<Longrightarrow> tn_parent nd = p \<Longrightarrow> c \<noteq> tr_self tr \<Longrightarrow>
    has_path tr c (ps @ [tn_fname nd])"

inductive_simps has_path_Nil: "has_path tr n []"
inductive_cases has_path_snoc: "has_path tr n (ps @ [f])"

lemma kids_name:
  assumes "nodes_inv cs self (cores tr) links kids pth" and "tr_nodes tr c = Some nd" and "c \<noteq> self"
  shows "c \<in> set (kids (tn_parent nd))" "pth c = pth (tn_parent nd) @ [tn_fname nd]" "tr_nodes tr (tn_parent nd) \<noteq> None"
proof -
  have c: "cores tr c = Some (tn_child_head nd, tn_child_num nd, tn_fname nd, tn_parent nd)" using assms(2) by (auto simp: cores_iff)
  show k: "c \<in> set (kids (tn_parent nd))" using nodes_invD(10) [OF assms(1) c assms(3)] .
  show "pth c = pth (tn_parent nd) @ [tn_fname nd]" using nodes_invD(9) [OF assms(1) k] c by (simp add: cname_def)
  show "tr_nodes tr (tn_parent nd) \<noteq> None" using nodes_invD(7) [OF assms(1) k] by (simp add: cores_None)
qed

lemma has_path_pth:
  assumes inv: "nodes_inv cs (tr_self tr) (cores tr) links kids pth"
  shows "has_path tr n ps \<longleftrightarrow> tr_nodes tr n \<noteq> None \<and> pth n = ps"
proof
  assume "has_path tr n ps"
  then show "tr_nodes tr n \<noteq> None \<and> pth n = ps"
  proof induction
    case path_root
    then show ?case using nodes_invD(2,3) [OF inv] by (auto simp: cores_iff)
  next
    case (path_child p ps c nd)
    then show ?case using kids_name [OF inv path_child(2,4)] by auto
  qed
next
  assume "tr_nodes tr n \<noteq> None \<and> pth n = ps"
  then show "has_path tr n ps"
  proof (induction ps arbitrary: n rule: rev_induct)
    case Nil
    then obtain nd where "tr_nodes tr n = Some nd" by auto
    then show ?case using kids_name(2) [OF inv, of n nd] Nil has_path.path_root [of tr] by (cases "n = tr_self tr") auto
  next
    case (snoc f ps)
    then obtain nd where nd: "tr_nodes tr n = Some nd" by auto
    have ns: "n \<noteq> tr_self tr" using nodes_invD(3) [OF inv] snoc(2) by auto
    note k = kids_name [OF inv nd ns]
    then have "pth (tn_parent nd) = ps" "f = tn_fname nd" using snoc(2) by auto
    then show ?case using has_path.path_child [OF snoc(1) nd _ ns] k(3) by simp
  qed
qed

text \<open>A path belongs to one node: two children of a node have different names.\<close>

lemma path_unique:
  assumes inv: "nodes_inv cs (tr_self tr) (cores tr) links kids pth" and "tr_nodes tr a \<noteq> None" and "tr_nodes tr b \<noteq> None"
    and "pth a = pth b"
  shows "a = b"
  using assms(2-4)
proof (induction "pth a" arbitrary: a b rule: rev_induct)
  case Nil
  then have "has_path tr a []" "has_path tr b []" using has_path_pth [OF inv] by auto
  then show ?case by (simp add: has_path_Nil)
next
  case (snoc f ps)
  obtain na nb where n: "tr_nodes tr a = Some na" "tr_nodes tr b = Some nb" using snoc(3,4) by auto
  have ns: "a \<noteq> tr_self tr" "b \<noteq> tr_self tr" using nodes_invD(3) [OF inv] snoc(2,5) by auto
  note ka = kids_name [OF inv n(1) ns(1)] and kb = kids_name [OF inv n(2) ns(2)]
  have p: "pth (tn_parent na) = ps" "pth (tn_parent nb) = ps" "tn_fname na = f" "tn_fname nb = f"
    using ka(2) kb(2) snoc(2,5) by auto
  then have par: "tn_parent na = tn_parent nb" using snoc(1) [of "tn_parent na" "tn_parent nb"] ka(3) kb(3) by simp
  obtain pd where "tr_nodes tr (tn_parent na) = Some pd" using ka(3) by auto
  then have "cores tr (tn_parent na) = Some (tn_child_head pd, tn_child_num pd, tn_fname pd, tn_parent pd)" by (auto simp: cores_iff)
  then have o: "ordered (node_compare cs (cname (cores tr))) (kids (tn_parent na))" by (rule nodes_invD(5) [OF inv])
  have "node_compare cs (cname (cores tr)) a b = 0" "node_compare cs (cname (cores tr)) b a = 0"
    using n p(3,4) by (auto simp: node_compare_def name_compare_eq fname_of_cname [symmetric] fname_of_def)
  moreover have "a = b \<or> compare a b < 0 \<or> compare b a < 0" if "ordered compare xs" "a \<in> set xs" "b \<in> set xs" for compare xs
    using that unfolding ordered_def by (induction xs) auto
  ultimately show ?case using o ka(1) kb(1) par by fastforce
qed

definition extends :: "tree_root \<Rightarrow> (nat \<Rightarrow> u8 list list) \<Rightarrow> u8 list list \<Rightarrow> tree_root \<Rightarrow> (nat \<Rightarrow> u8 list list) \<Rightarrow> bool" where
  "extends tr pth ps tr' pth' \<longleftrightarrow> tr_self tr' = tr_self tr \<and> dom (tr_nodes tr) \<subseteq> dom (tr_nodes tr') \<and>
     (\<forall>m \<in> dom (tr_nodes tr). pth' m = pth m) \<and>
     pth' ` dom (tr_nodes tr') = pth ` dom (tr_nodes tr) \<union> range (\<lambda>i. take i ps) \<and>
     card (dom (tr_nodes tr')) \<le> card (dom (tr_nodes tr)) + length ps"

lemma length_comps: "length (comps path) \<le> length path"
proof (induction path rule: comps.induct)
  case (1 path)
  show ?case
  proof (cases "last_path_separator path")
    case None
    then show ?thesis by (cases path) (simp_all add: comps.simps)
  next
    case (Some i)
    then have i: "i < length path" by (rule last_path_separator_less)
    then have "path \<noteq> []" by auto
    then show ?thesis using 1(1) [OF _ Some] Some i by (subst comps.simps) simp
  qed
qed

lemma take_snoc_range: "range (\<lambda>i. take i (ps @ [f])) = insert (ps @ [f]) (range (\<lambda>i. take i ps))"
proof (intro set_eqI iffI)
  fix x assume "x \<in> range (\<lambda>i. take i (ps @ [f]))"
  then obtain i where "x = take i (ps @ [f])" by auto
  then show "x \<in> insert (ps @ [f]) (range (\<lambda>i. take i ps))" by (cases "i \<le> length ps") auto
next
  fix x assume "x \<in> insert (ps @ [f]) (range (\<lambda>i. take i ps))"
  then consider "x = ps @ [f]" | i where "x = take i ps" by auto
  then show "x \<in> range (\<lambda>i. take i (ps @ [f]))"
  proof cases
    case 1
    then have "x = take (length (ps @ [f])) (ps @ [f])" by simp
    then show ?thesis by blast
  next
    case (2 i)
    then have "x = take (min i (length ps)) (ps @ [f])" by (simp add: min_def)
    then show ?thesis by blast
  qed
qed

lemma extends_grows:
  assumes e: "extends tr pth ps tr1 pth1" and g: "grows tr1 pth1 n tr2 pth2" and p: "pth2 n = ps @ [f]"
    and fin: "finite (dom (tr_nodes tr1))"
  shows "extends tr pth (ps @ [f]) tr2 pth2"
proof -
  have d: "dom (tr_nodes tr2) = insert n (dom (tr_nodes tr1))" and same: "\<forall>m \<in> dom (tr_nodes tr1). pth2 m = pth1 m" "tr_self tr2 = tr_self tr1"
    using g by (auto simp: grows_def same_tree_def)
  have "pth2 ` dom (tr_nodes tr2) = insert (ps @ [f]) (pth1 ` dom (tr_nodes tr1))" using d same(1) p by auto
  moreover have "card (dom (tr_nodes tr2)) \<le> Suc (card (dom (tr_nodes tr1)))" using d fin by (simp add: card_insert_if)
  moreover have "\<forall>m \<in> dom (tr_nodes tr). pth2 m = pth m" "dom (tr_nodes tr) \<subseteq> dom (tr_nodes tr2)"
    using e same(1) unfolding d extends_def by (metis subsetD, blast)
  ultimately show ?thesis using e same(2) unfolding extends_def take_snoc_range by auto
qed

lemma extends_refl: "pth (tr_self tr) = [] \<Longrightarrow> tr_nodes tr (tr_self tr) \<noteq> None \<Longrightarrow> extends tr pth [] tr pth"
  by (force simp: extends_def)

lemma tree_inv_root: "tree_inv cs tr kids pth \<Longrightarrow> pth (tr_self tr) = [] \<and> tr_nodes tr (tr_self tr) \<noteq> None \<and> finite (dom (tr_nodes tr))"
  using nodes_invD(2,3) by (fastforce simp: tree_inv_def cores_iff)

lemma make_tree_path_ok:
  assumes "tree_inv cs tr kids pth" and "malloc_ok malloc (tr_self tr)" and "length path < 65536"
    and "card (dom (tr_nodes tr)) + length (comps path) < 2 ^ 32"
  shows "\<exists>n tr' kids' pth'. make_tree_path malloc cs path tr = Some (n, tr') \<and> tree_inv cs tr' kids' pth' \<and>
    tr_nodes tr' n \<noteq> None \<and> pth' n = comps path \<and> extends tr pth (comps path) tr' pth' \<and> same_tree tr tr'"
  using assms
proof (induction path rule: comps.induct)
  case (1 path)
  note r = tree_inv_root [OF 1(2)]
  show ?case
  proof (cases "path = []")
    case True
    then show ?thesis using r extends_refl [of pth tr] 1(2) by (auto simp: make_tree_path.simps comps.simps same_tree_def)
  next
    case ne: False
    show ?thesis
    proof (cases "last_path_separator path")
      case None
      then have c: "comps path = [path]" using ne by (simp add: comps.simps)
      obtain n tr' kids' pth' where i: "search_and_insert_tree_node malloc cs path TN_DIR_NLS tr (tr_self tr) = Some (n, tr')"
        "tree_inv cs tr' kids' pth'" "grows tr pth n tr' pth'" "pth' n = pth (tr_self tr) @ [path]"
        using search_and_insert_ok [OF 1(2,3) _ 1(4), of "tr_self tr" TN_DIR_NLS] r 1(5) by auto
      have "make_tree_path malloc cs path tr = Some (n, tr')" using i(1) None ne by (simp add: make_tree_path.simps)
      moreover have "extends tr pth [path] tr' pth'" using extends_grows [OF extends_refl i(3), of path] r i(4) by simp
      ultimately show ?thesis using i r c by (auto simp: grows_def)
    next
      case (Some p)
      then have c: "comps path = comps (take p path) @ [drop (Suc p) path]" using ne by (simp add: comps.simps)
      have "length (take p path) < 65536" "card (dom (tr_nodes tr)) + length (comps (take p path)) < 2 ^ 32" using 1(4,5) c by simp_all
      then obtain q tr1 k1 p1 where q: "make_tree_path malloc cs (take p path) tr = Some (q, tr1)" "tree_inv cs tr1 k1 p1" "tr_nodes tr1 q \<noteq> None"
        "p1 q = comps (take p path)" "extends tr pth (comps (take p path)) tr1 p1" "same_tree tr tr1" using 1(1) [OF ne Some 1(2,3)] by blast
      have "card (dom (tr_nodes tr1)) < 2 ^ 32" using q(5) 1(5) c by (simp add: extends_def)
      moreover have "malloc_ok malloc (tr_self tr1)" using 1(3) q(6) by (simp add: same_tree_def)
      moreover have "length (drop (Suc p) path) < 65536" using 1(4) by simp
      ultimately obtain n tr' kids' pth' where i: "search_and_insert_tree_node malloc cs (drop (Suc p) path) TN_NEWDIR tr1 q = Some (n, tr')"
        "tree_inv cs tr' kids' pth'" "grows tr1 p1 n tr' pth'" "pth' n = p1 q @ [drop (Suc p) path]"
        using search_and_insert_ok [OF q(2) _ q(3), of malloc "drop (Suc p) path" TN_NEWDIR] by blast
      have "make_tree_path malloc cs path tr = Some (n, tr')" using i(1) q(1) Some ne by (simp add: make_tree_path.simps)
      moreover have "extends tr pth (comps path) tr' pth'" unfolding c
        using extends_grows [OF q(5) i(3)] i(4) q(4) tree_inv_root [OF q(2)] by simp
      ultimately show ?thesis using i c q(4,6) by (auto simp: grows_def same_tree_def)
    qed
  qed
qed

lemma has_path_prefix: "has_path tr n ps \<Longrightarrow> \<exists>m. has_path tr m (take i ps)"
proof (induction rule: has_path.induct)
  case path_root
  then show ?case using has_path.path_root by auto
next
  case (path_child p ps c nd)
  show ?case
  proof (cases "i \<le> length ps")
    case True
    then show ?thesis using path_child(5) by simp
  next
    case False
    then have "take i (ps @ [tn_fname nd]) = ps @ [tn_fname nd]" by simp
    then show ?thesis using has_path.path_child [OF path_child(1-4)] by metis
  qed
qed

lemma extends_there:
  assumes inv: "tree_inv cs tr kids pth" and n: "tr_nodes tr n \<noteq> None"
  shows "extends tr pth (pth n) tr pth"
proof -
  have ni: "nodes_inv cs (tr_self tr) (cores tr) (tr_links tr) kids pth" using inv by (simp add: tree_inv_def)
  have "take i (pth n) \<in> pth ` dom (tr_nodes tr)" for i
    using has_path_prefix [of tr n "pth n" i] n unfolding has_path_pth [OF ni] by force
  then show ?thesis by (auto simp: extends_def)
qed

definition cache_ok :: "tree_root \<Rightarrow> (nat \<Rightarrow> u8 list list) \<Rightarrow> bool" where
  "cache_ok tr pth \<longleftrightarrow> (0 \<le> tr_cached_path_len tr \<longrightarrow>
     tr_nodes tr (tr_cached_parent tr) \<noteq> None \<and> pth (tr_cached_parent tr) = comps (tr_cached_path tr))"

lemma cache_ok_kept:
  assumes "cache_ok tr pth" and "same_tree tr tr'" and "dom (tr_nodes tr) \<subseteq> dom (tr_nodes tr')" and "\<forall>m \<in> dom (tr_nodes tr). pth' m = pth m"
  shows "cache_ok tr' pth'"
  using assms unfolding cache_ok_def same_tree_def by (metis domIff subsetD)

lemma tree_inv_cache: "tree_inv cs (tr\<lparr>tr_cached_path_len := l, tr_cached_path := p\<rparr>) kids pth = tree_inv cs tr kids pth"
  "tree_inv cs (tr\<lparr>tr_cached_parent := n\<rparr>) kids pth = tree_inv cs tr kids pth"
  by (simp_all add: tree_inv_def cores_def [abs_def])

lemma cached_parent_ok:
  assumes inv: "tree_inv cs tr kids pth" "cache_ok tr pth" and mal: "malloc_ok malloc (tr_self tr)" and len: "length path < 65536"
    and card: "card (dom (tr_nodes tr)) + length (comps path) < 2 ^ 32"
  shows "\<exists>n tr' kids' pth'. cached_parent malloc cs path tr = Some (n, tr') \<and> tree_inv cs tr' kids' pth' \<and> cache_ok tr' pth' \<and>
    tr_nodes tr' n \<noteq> None \<and> pth' n = comps path \<and> extends tr pth (comps path) tr' pth'"
proof (cases "int (length path) = tr_cached_path_len tr \<and> path = tr_cached_path tr")
  case True
  then have "tr_nodes tr (tr_cached_parent tr) \<noteq> None" "pth (tr_cached_parent tr) = comps path"
    using inv(2) by (auto simp: cache_ok_def)
  then show ?thesis using True inv extends_there [OF inv(1), of "tr_cached_parent tr"] by (auto simp: cached_parent_def)
next
  case False
  let ?t = "tr\<lparr>tr_cached_path_len := int (length path), tr_cached_path := path\<rparr>"
  obtain n t1 k1 p1 where m: "make_tree_path malloc cs path ?t = Some (n, t1)" "tree_inv cs t1 k1 p1" "tr_nodes t1 n \<noteq> None"
    "p1 n = comps path" "extends ?t pth (comps path) t1 p1" "same_tree ?t t1"
    using make_tree_path_ok [of cs ?t kids pth malloc path] assms tree_inv_cache(1) by auto
  let ?t1 = "t1\<lparr>tr_cached_parent := n\<rparr>"
  have c: "cached_parent malloc cs path tr = Some (n, ?t1)" unfolding cached_parent_def if_not_P [OF False] m(1) by simp
  have "cache_ok ?t1 p1" using m(3,4,6) by (simp add: cache_ok_def same_tree_def)
  moreover have "extends tr pth (comps path) ?t1 p1" using m(5) by (simp add: extends_def)
  moreover have "tree_inv cs ?t1 k1 p1" using m(2) tree_inv_cache(2) by blast
  ultimately show ?thesis using c m(3,4) by (intro exI [of _ n] exI [of _ ?t1] exI [of _ k1] exI [of _ p1]) simp
qed

section \<open>Inserting a file\<close>

text \<open>
  \<open>restore_tree\<close> is the invariant of the tree between calls, \<open>file_names\<close> the names from the root to
  the node of a file.
\<close>

definition restore_tree :: "bool \<Rightarrow> tree_root \<Rightarrow> bool" where
  "restore_tree cs tr \<longleftrightarrow> (\<exists>kids pth. tree_inv cs tr kids pth \<and> cache_ok tr pth)"

definition file_names :: "u8 list \<Rightarrow> u8 list \<Rightarrow> u8 list list" where
  "file_names path fname = (let (p, f) = split_fname (strip_slash path) fname in if f \<noteq> [] then comps p @ [f] else [p])"

definition paths :: "tree_root \<Rightarrow> u8 list list set" where
  "paths tr = {ps. \<exists>n. has_path tr n ps}"

lemma new_tree_ok:
  assumes mal: "malloc_ok malloc self" and self: "self \<noteq> 0"
  shows "restore_tree cs (new_tree malloc self count)" "tr_self (new_tree malloc self count) = self"
    "tr_nodes (new_tree malloc self count) = [self \<mapsto> blank_node\<lparr>tn_delta_seq := 0, tn_type := TN_ROOT\<rparr>]"
proof -
  let ?c = "if count < 1000 then 1000 else count"
  let ?s = "uint (of_int (?c * (BALIGN sizeof_TREE_NODE + 40)) :: u32)"
  let ?sz = "if 1000000 < ?c \<or> MAX_BUF_SIZE div 2 < ?s then MAX_BUF_SIZE else ?s"
  have b: "BALIGN sizeof_TREE_NODE = 120" by (simp add: BALIGN_def sizeof_TREE_NODE_def)
  have sz: "24 \<le> ?sz"
  proof (cases "1000000 < ?c")
    case False
    then have "0 \<le> ?c * 160 \<and> ?c * 160 < 2 ^ 32" by (simp split: if_split)
    then have "?s = ?c * 160" unfolding b by (simp only: unsigned_of_int take_bit_int_eq_self) (simp add: take_bit_int_eq_self)
    then show ?thesis by (simp add: MAX_BUF_SIZE_def)
  qed (simp add: MAX_BUF_SIZE_def)
  let ?tr = "new_tree malloc self count"
  have tr: "tr_self ?tr = self" "tr_nodes ?tr = [self \<mapsto> blank_node\<lparr>tn_delta_seq := 0, tn_type := TN_ROOT\<rparr>]" "tr_links ?tr = Map.empty"
    "tr_first ?tr = 0" "tr_cached_path_len ?tr = -1"
    and "tr_mem ?tr = [\<lparr>sm_first = malloc [] ?sz + 24, sm_mem = malloc [] ?sz + 24, sm_rem = ?sz - 24\<rparr>]"
    by (simp_all add: new_tree_def malloc_buf_def sizeof_s_mem_header_def Let_def)
  then obtain sz where sz: "24 \<le> sz" and mem: "tr_mem ?tr = [\<lparr>sm_first = malloc [] sz + 24, sm_mem = malloc [] sz + 24, sm_rem = sz - 24\<rparr>]"
    using sz by blast
  have "rb_list (clist Map.empty 0 0) []" unfolding rb_list_def by (rule exI [of _ Leaf]) (simp add: holds_tree_def clist_def)
  then have "nodes_inv cs self (cores ?tr) Map.empty (\<lambda>_. []) (\<lambda>_. [])"
    using self tr(2) by (auto simp: nodes_inv_def cores_def core_def blank_node_def ordered_def split: if_splits)
  moreover have "mem_inv self (tr_mem ?tr) {}"
  proof -
    have "self \<notin> {malloc [] sz ..< malloc [] sz + nat sz}" using mal unfolding malloc_ok_def by blast
    then have "self \<notin> region (hd (tr_mem ?tr))" using sz unfolding mem by (auto simp: region_def)
    then show ?thesis using sz unfolding mem_inv_def mem by simp
  qed
  ultimately have "tree_inv cs ?tr (\<lambda>_. []) (\<lambda>_. [])" unfolding tree_inv_def tr(1-5) by simp
  then show "restore_tree cs ?tr" using tr(5) unfolding restore_tree_def cache_ok_def by auto
  show "tr_self ?tr = self" "tr_nodes ?tr = [self \<mapsto> blank_node\<lparr>tn_delta_seq := 0, tn_type := TN_ROOT\<rparr>]" using tr by auto
qed

lemma insert_grows:
  assumes inv: "tree_inv cs tr kids pth" "cache_ok tr pth" and mal: "malloc_ok malloc (tr_self tr)"
    and len: "length path < 65536" "length fname < 65536" and card: "card (dom (tr_nodes tr)) + length path + 1 < 2 ^ 32"
  shows "\<exists>n tr' kids' pth'. insert_tree_node malloc cs path fname tr 0 = Some (n, tr') \<and> tree_inv cs tr' kids' pth' \<and> cache_ok tr' pth' \<and>
    tr_nodes tr' n \<noteq> None \<and> pth' n = file_names path fname \<and> extends tr pth (file_names path fname) tr' pth'"
proof -
  obtain p f where s: "split_fname (strip_slash path) fname = (p, f)" by fastforce
  have lp: "length p \<le> length path" "length f < 65536"
    using s len by (auto simp: split_fname_def strip_slash_def split: if_splits option.splits)
  note r = tree_inv_root [OF inv(1)]
  show ?thesis
  proof (cases "f = []")
    case True
    obtain n tr' kids' pth' where i: "search_and_insert_tree_node malloc cs p 0 tr (tr_self tr) = Some (n, tr')" "tree_inv cs tr' kids' pth'"
      "grows tr pth n tr' pth'" "pth' n = pth (tr_self tr) @ [p]"
      using search_and_insert_ok [OF inv(1) mal, of "tr_self tr" p 0] r lp len card by auto
    have "cache_ok tr' pth'" using cache_ok_kept [OF inv(2)] i(3) by (simp add: grows_def)
    moreover have "extends tr pth [p] tr' pth'" using extends_grows [OF extends_refl i(3), of p] r i(4) by simp
    ultimately show ?thesis using i r s True by (auto simp: insert_tree_node_def file_names_def grows_def)
  next
    case False
    have cl: "length (comps p) \<le> length path" using length_comps [of p] lp(1) by simp
    obtain q t1 k1 p1 where q: "cached_parent malloc cs p tr = Some (q, t1)" "tree_inv cs t1 k1 p1" "cache_ok t1 p1" "tr_nodes t1 q \<noteq> None"
      "p1 q = comps p" "extends tr pth (comps p) t1 p1"
      using cached_parent_ok [OF inv mal, of p] lp len card cl by auto
    have "card (dom (tr_nodes t1)) < 2 ^ 32" "malloc_ok malloc (tr_self t1)" using q(6) card cl mal by (simp_all add: extends_def)
    then obtain n tr' kids' pth' where i: "search_and_insert_tree_node malloc cs f 0 t1 q = Some (n, tr')" "tree_inv cs tr' kids' pth'"
      "grows t1 p1 n tr' pth'" "pth' n = p1 q @ [f]"
      using search_and_insert_ok [OF q(2) _ q(4) lp(2), of malloc 0] by blast
    have "cache_ok tr' pth'" using cache_ok_kept [OF q(3)] i(3) by (simp add: grows_def)
    moreover have "extends tr pth (comps p @ [f]) tr' pth'"
      using extends_grows [OF q(6) i(3)] i(4) q(5) tree_inv_root [OF q(2)] by simp
    ultimately show ?thesis using i q s False by (auto simp: insert_tree_node_def file_names_def grows_def)
  qed
qed

text \<open>
  C33 (insert_tree_node_path).  Inserting a file returns the one node that has the path of the file in the
  tree, whether it was there already or not; every node keeps its path, and the paths added are those
  of the file and of the directories above it.  The invariant of the tree is kept: the children of
  each node are in its list in the order of their names, no two of the same name.
\<close>

theorem insert_tree_node_path:
  assumes "restore_tree cs tr" and "malloc_ok malloc (tr_self tr)" and "length path < 65536" and "length fname < 65536"
    and "card (dom (tr_nodes tr)) + length path + 1 < 2 ^ 32"
  shows "\<exists>n tr'. insert_tree_node malloc cs path fname tr 0 = Some (n, tr') \<and> restore_tree cs tr' \<and>
    (\<forall>m. has_path tr' m (file_names path fname) \<longleftrightarrow> m = n) \<and> (\<forall>m ps. has_path tr m ps \<longrightarrow> has_path tr' m ps) \<and>
    paths tr' = paths tr \<union> range (\<lambda>i. take i (file_names path fname))"
proof -
  obtain kids pth where inv: "tree_inv cs tr kids pth" "cache_ok tr pth" using assms(1) by (auto simp: restore_tree_def)
  obtain n tr' kids' pth' where i: "insert_tree_node malloc cs path fname tr 0 = Some (n, tr')" "tree_inv cs tr' kids' pth'" "cache_ok tr' pth'"
    "tr_nodes tr' n \<noteq> None" "pth' n = file_names path fname" and e: "extends tr pth (file_names path fname) tr' pth'"
    using insert_grows [OF inv assms(2-5)] by blast
  have ni: "nodes_inv cs (tr_self tr) (cores tr) (tr_links tr) kids pth" "nodes_inv cs (tr_self tr') (cores tr') (tr_links tr') kids' pth'"
    using inv i by (simp_all add: tree_inv_def)
  note hp = has_path_pth [OF ni(1)] and hp' = has_path_pth [OF ni(2)]
  have "has_path tr' m (file_names path fname) \<longleftrightarrow> m = n" for m
    unfolding hp' using i(4,5) path_unique [OF ni(2), of m n] by auto
  moreover have "has_path tr' m ps" if "has_path tr m ps" for m ps
    using that e unfolding hp hp' extends_def by (metis domIff subsetD)
  moreover have "paths tr = pth ` dom (tr_nodes tr)" "paths tr' = pth' ` dom (tr_nodes tr')"
    unfolding paths_def hp hp' by auto
  ultimately show ?thesis using i e unfolding restore_tree_def extends_def by metis
qed

definition bump_malloc :: malloc_fun where
  "bump_malloc ms n = 1000 + sum_list (map (\<lambda>m. sm_mem m + nat (sm_rem m)) ms)"

lemma bump_malloc_ok: "malloc_ok bump_malloc 8"
proof -
  have "a < bump_malloc ms n" if "m \<in> set ms" "a \<in> region m" for ms n m a
  proof -
    have "sm_mem m + nat (sm_rem m) \<le> sum_list (map (\<lambda>m. sm_mem m + nat (sm_rem m)) ms)" using that(1) by (intro member_le_sum_list) auto
    then show ?thesis using that(2) by (simp add: region_def bump_malloc_def)
  qed
  then have "{bump_malloc ms n ..< bump_malloc ms n + nat n} \<inter> region m = {}" if "m \<in> set ms" for ms n m
    using that by (metis atLeastLessThan_iff disjoint_iff not_le)
  then show ?thesis by (auto simp: malloc_ok_def bump_malloc_def)
qed

text \<open>The file \<^verbatim>\<open>/a/b\<close> in an empty tree: below the root only the directory and, in it, the file.\<close>

theorem insert_tree_node_path_witness:
  "\<exists>n tr'. insert_tree_node bump_malloc True [47, 97, 47] [98] (new_tree bump_malloc 8 0) 0 = Some (n, tr') \<and> restore_tree True tr' \<and>
    (\<forall>m. has_path tr' m [[97], [98]] \<longleftrightarrow> m = n) \<and> [[97]] \<in> paths tr' \<and> [[98]] \<notin> paths tr'"
proof -
  let ?t = "new_tree bump_malloc 8 0"
  have n: "restore_tree True ?t" "tr_self ?t = 8" "tr_nodes ?t = [8 \<mapsto> blank_node\<lparr>tn_delta_seq := 0, tn_type := TN_ROOT\<rparr>]"
    using new_tree_ok [OF bump_malloc_ok] by auto
  have f: "file_names [47, 97, 47] [98] = [[97], [98]]"
    by (simp add: file_names_def split_fname_def strip_slash_def comps.simps SEP_def)
  have "\<not> has_path ?t m [[98]]" for m using has_path_snoc [where tr = ?t and n = m and ps = "[]" and f = "[98]"] n(2,3) by (auto split: if_splits)
  then have "[[98]] \<notin> paths ?t" by (simp add: paths_def)
  moreover have "take 1 [[97], [98]] = [[97 :: u8]]" by simp
  then have "[[97 :: u8]] \<in> range (\<lambda>i. take i [[97], [98]])" by (metis rangeI)
  moreover have "[[98 :: u8]] \<notin> range (\<lambda>i. take i [[97], [98]])" by (auto simp: take_Cons split: nat.splits)
  ultimately show ?thesis
    using insert_tree_node_path [OF n(1), of bump_malloc "[47, 97, 47]" "[98]"] bump_malloc_ok unfolding f n(2,3) by auto
qed

text \<open>The length of a name is cut to 16 bits: a longer name does not fit into the bytes cut for it.\<close>

lemma long_name_overflows:
  assumes "65536 \<le> length fname"
  shows "finish_node malloc fname type par node tr = None"
proof -
  have "uint w < 65536" for w :: u16 using uint_lt2p [of w] by simp
  then have "uint w < int (length fname)" for w :: u16 using assms by (metis le_less_trans not_less of_nat_numeral of_nat_le_iff order_less_le_trans)
  then show ?thesis by (auto simp: finish_node_def split: Option.bind_split)
qed

end
