(* ===== verification/Base64.thy ===== *)
theory Base64
  imports Bacula_Prelude
begin

text \<open>
  Numbers and bytes as text, \<^verbatim>\<open>src/bacula/src/lib/base64.c\<close>, and the attributes of a file,
  \<^verbatim>\<open>encode_stat\<close>, \<^verbatim>\<open>decode_stat\<close> and \<^verbatim>\<open>decode_LinkFI\<close> of \<^verbatim>\<open>findlib/attribs.c\<close>: the
  file daemon sends the result of \<^verbatim>\<open>lstat\<close> as sixteen numbers in base 64, which the catalog
  keeps and a restore decodes.  A C string is a list of bytes with its zero; reading or writing past the end of the
  list is \<open>None\<close>.  The structure \<^verbatim>\<open>stat\<close> is that of Linux on a 64 bit machine (no
  \<^verbatim>\<open>HAVE_CHFLAGS\<close>, no \<^verbatim>\<open>HAVE_MINGW\<close>); negation of the smallest number wraps.
\<close>

section \<open>Digits\<close>

definition base64_digits :: "u8 list" where
  "base64_digits = map of_char ''ABCDEFGHIJKLMNOPQRSTUVWXYZabcdefghijklmnopqrstuvwxyz0123456789+/''"

definition base64_map :: "u8 list" where
  "base64_map = [
     0xff, 0xff, 0xff, 0xff, 0xff, 0xff, 0xff, 0xff,
     0xff, 0xff, 0xff, 0xff, 0xff, 0xff, 0xff, 0xff,
     0xff, 0xff, 0xff, 0xff, 0xff, 0xff, 0xff, 0xff,
     0xff, 0xff, 0xff, 0xff, 0xff, 0xff, 0xff, 0xff,
     0xff, 0xff, 0xff, 0xff, 0xff, 0xff, 0xff, 0xff,
     0xff, 0xff, 0xff, 0x3e, 0xff, 0xff, 0xff, 0x3f,
     0x34, 0x35, 0x36, 0x37, 0x38, 0x39, 0x3a, 0x3b,
     0x3c, 0x3d, 0xff, 0xff, 0xff, 0xff, 0xff, 0xff,
     0xff, 0x00, 0x01, 0x02, 0x03, 0x04, 0x05, 0x06,
     0x07, 0x08, 0x09, 0x0a, 0x0b, 0x0c, 0x0d, 0x0e,
     0x0f, 0x10, 0x11, 0x12, 0x13, 0x14, 0x15, 0x16,
     0x17, 0x18, 0x19, 0xff, 0xff, 0xff, 0xff, 0xff,
     0xff, 0x1a, 0x1b, 0x1c, 0x1d, 0x1e, 0x1f, 0x20,
     0x21, 0x22, 0x23, 0x24, 0x25, 0x26, 0x27, 0x28,
     0x29, 0x2a, 0x2b, 0x2c, 0x2d, 0x2e, 0x2f, 0x30,
     0x31, 0x32, 0x33, 0xff, 0xff, 0xff, 0xff, 0xff,
     0xff, 0xff, 0xff, 0xff, 0xff, 0xff, 0xff, 0xff,
     0xff, 0xff, 0xff, 0xff, 0xff, 0xff, 0xff, 0xff,
     0xff, 0xff, 0xff, 0xff, 0xff, 0xff, 0xff, 0xff,
     0xff, 0xff, 0xff, 0xff, 0xff, 0xff, 0xff, 0xff,
     0xff, 0xff, 0xff, 0xff, 0xff, 0xff, 0xff, 0xff,
     0xff, 0xff, 0xff, 0xff, 0xff, 0xff, 0xff, 0xff,
     0xff, 0xff, 0xff, 0xff, 0xff, 0xff, 0xff, 0xff,
     0xff, 0xff, 0xff, 0xff, 0xff, 0xff, 0xff, 0xff,
     0xff, 0xff, 0xff, 0xff, 0xff, 0xff, 0xff, 0xff,
     0xff, 0xff, 0xff, 0xff, 0xff, 0xff, 0xff, 0xff,
     0xff, 0xff, 0xff, 0xff, 0xff, 0xff, 0xff, 0xff,
     0xff, 0xff, 0xff, 0xff, 0xff, 0xff, 0xff, 0xff,
     0xff, 0xff, 0xff, 0xff, 0xff, 0xff, 0xff, 0xff,
     0xff, 0xff, 0xff, 0xff, 0xff, 0xff, 0xff, 0xff,
     0xff, 0xff, 0xff, 0xff, 0xff, 0xff, 0xff, 0xff,
     0xff, 0xff, 0xff, 0xff, 0xff, 0xff, 0xff, 0xff]"

definition digit_of :: "'a::len word \<Rightarrow> u8" where
  "digit_of v = base64_digits ! unat (v AND 0x3F)"

definition value_of :: "u8 \<Rightarrow> u8" where
  "value_of c = base64_map ! unat c"

lemma base64_tables_inverse: "map value_of base64_digits = map of_nat [0..<64]"
  by code_simp

lemma base64_digits_plain: "list_all (\<lambda>c. c \<notin> {0, 32, 45, 61}) base64_digits"
  by code_simp

lemma length_base64_tables: "length base64_digits = 64" "length base64_map = 256"
  by code_simp+

lemma value_of_table: "k < 64 \<Longrightarrow> value_of (base64_digits ! k) = of_nat k \<and> base64_digits ! k \<notin> {0, 32, 45, 61}"
  using nth_map [of k base64_digits value_of] base64_digits_plain unfolding base64_tables_inverse
  by (simp add: length_base64_tables list_all_length)

section \<open>Numbers\<close>

text \<open>The two loops of \<^verbatim>\<open>to_base64\<close>: the number of digits, and the digits from the last to the first.\<close>

function base64_len :: "u64 \<Rightarrow> nat" where
  "base64_len val = (let val = drop_bit 6 val in if val = 0 then 1 else Suc (base64_len val))"
  by auto
termination
proof (relation "measure unat")
  show "(val', val) \<in> measure unat" if "val' = drop_bit 6 val" "val' \<noteq> 0" for val val' :: u64
  proof -
    have "unat val' = unat val div 64" using that(1) by (simp add: unat_drop_bit_eq drop_bit_eq_div [of 6 "unat val"])
    moreover have "unat val' \<noteq> 0" using that(2) by (simp add: unat_eq_0)
    ultimately have "unat val' < unat val" by simp
    then show ?thesis by simp
  qed
qed simp

declare base64_len.simps [simp del]

fun put_digits :: "nat \<Rightarrow> u64 \<Rightarrow> u8 list \<Rightarrow> u8 list option" where
  "put_digits 0 val w = None"
| "put_digits (Suc i) val w =
     (if length w \<le> i then None
      else let w = w[i := digit_of val]; val = drop_bit 6 val
           in if val = 0 then Some w else put_digits i val w)"

definition to_base64 :: "i64 \<Rightarrow> u8 list \<Rightarrow> (nat \<times> u8 list) option" where
  "to_base64 value w =
     do { (i, value, w) \<leftarrow> (if sint value < 0 then if w = [] then None else Some (1, - value, w[0 := 45]) else Some (0, value, w));
          let n = i + base64_len value;
          if length w \<le> n then None
          else do { w \<leftarrow> put_digits n value (w[n := 0]); Some (n, w) } }"

text \<open>The loop of \<^verbatim>\<open>from_base64\<close>, which stops at a zero or a space: the value and the number of bytes passed.\<close>

fun from_digits :: "u64 \<Rightarrow> u8 list \<Rightarrow> (u64 \<times> nat) option" where
  "from_digits val [] = None"
| "from_digits val (c # cs) =
     (if c = 0 \<or> c = 32 then Some (val, 0)
      else map_option (\<lambda>(v, n). (v, Suc n)) (from_digits (push_bit 6 val + ucast (value_of c)) cs))"

definition from_base64 :: "u8 list \<Rightarrow> (i64 \<times> nat) option" where
  "from_base64 w =
     (case w of
        [] \<Rightarrow> None
      | c # cs \<Rightarrow>
          if c = 45 then map_option (\<lambda>(v, n). (- v, Suc n)) (from_digits 0 cs)
          else from_digits 0 (c # cs))"

section \<open>Attributes\<close>

record stat =
  st_dev :: u64
  st_ino :: u64
  st_mode :: u32
  st_nlink :: u64
  st_uid :: u32
  st_gid :: u32
  st_rdev :: u64
  st_size :: i64
  st_blksize :: i64
  st_blocks :: i64
  st_atime :: i64
  st_mtime :: i64
  st_ctime :: i64

text \<open>\<^verbatim>\<open>p += to_base64(v, p)\<close> and \<^verbatim>\<open>*p++ = ' '\<close> on the text and the position in it.\<close>

definition put_field :: "i64 \<Rightarrow> cursor \<Rightarrow> cursor option" where
  "put_field v c = (let (buf, p) = c in
     map_option (\<lambda>(n, w). (take p buf @ w, p + n)) (to_base64 v (drop p buf)))"

definition encode_stat :: "u8 list \<Rightarrow> stat \<Rightarrow> i32 \<Rightarrow> i32 \<Rightarrow> u8 list option" where
  "encode_stat buf st LinkFI data_stream =
     do { c \<leftarrow> put_field (st_dev st) (buf, 0);
          c \<leftarrow> put [32] c; c \<leftarrow> put_field (st_ino st) c;
          c \<leftarrow> put [32] c; c \<leftarrow> put_field (ucast (st_mode st)) c;
          c \<leftarrow> put [32] c; c \<leftarrow> put_field (st_nlink st) c;
          c \<leftarrow> put [32] c; c \<leftarrow> put_field (ucast (st_uid st)) c;
          c \<leftarrow> put [32] c; c \<leftarrow> put_field (ucast (st_gid st)) c;
          c \<leftarrow> put [32] c; c \<leftarrow> put_field (st_rdev st) c;
          c \<leftarrow> put [32] c; c \<leftarrow> put_field (st_size st) c;
          c \<leftarrow> put [32] c; c \<leftarrow> put_field (st_blksize st) c;
          c \<leftarrow> put [32] c; c \<leftarrow> put_field (st_blocks st) c;
          c \<leftarrow> put [32] c; c \<leftarrow> put_field (st_atime st) c;
          c \<leftarrow> put [32] c; c \<leftarrow> put_field (st_mtime st) c;
          c \<leftarrow> put [32] c; c \<leftarrow> put_field (st_ctime st) c;
          c \<leftarrow> put [32] c; c \<leftarrow> put_field (scast LinkFI) c;
          c \<leftarrow> put [32] c; c \<leftarrow> put_field 0 c;
          c \<leftarrow> put [32] c; c \<leftarrow> put_field (scast data_stream) c;
          (buf, _) \<leftarrow> put [0] c;
          Some buf }"

text \<open>
  \<^verbatim>\<open>p += from_base64(&val, p)\<close> on the bytes from \<^verbatim>\<open>p\<close>; \<open>skip1\<close> is \<^verbatim>\<open>p++\<close>.  A further field
  follows if a space does.
\<close>

definition get_field :: "u8 list \<Rightarrow> (i64 \<times> u8 list) option" where
  "get_field w = map_option (\<lambda>(v, n). (v, drop n w)) (from_base64 w)"

definition skip1 :: "u8 list \<Rightarrow> u8 list option" where
  "skip1 w = (case w of [] \<Rightarrow> None | _ # w \<Rightarrow> Some w)"

definition more_fields :: "u8 list \<Rightarrow> bool option" where
  "more_fields w =
     (case w of
        [] \<Rightarrow> None
      | c # w \<Rightarrow> if c = 32 then Some True else if c = 0 then Some False
                 else case w of [] \<Rightarrow> None | d # _ \<Rightarrow> Some (d = 32))"

definition decode_stat :: "u8 list \<Rightarrow> (stat \<times> i32 \<times> i32) option" where
  "decode_stat buf =
     do { (dev, w) \<leftarrow> get_field buf; w \<leftarrow> skip1 w;
          (ino, w) \<leftarrow> get_field w; w \<leftarrow> skip1 w;
          (mode, w) \<leftarrow> get_field w; w \<leftarrow> skip1 w;
          (nlink, w) \<leftarrow> get_field w; w \<leftarrow> skip1 w;
          (uid, w) \<leftarrow> get_field w; w \<leftarrow> skip1 w;
          (gid, w) \<leftarrow> get_field w; w \<leftarrow> skip1 w;
          (rdev, w) \<leftarrow> get_field w; w \<leftarrow> skip1 w;
          (size, w) \<leftarrow> get_field w; w \<leftarrow> skip1 w;
          (blksize, w) \<leftarrow> get_field w; w \<leftarrow> skip1 w;
          (blocks, w) \<leftarrow> get_field w; w \<leftarrow> skip1 w;
          (atime, w) \<leftarrow> get_field w; w \<leftarrow> skip1 w;
          (mtime, w) \<leftarrow> get_field w; w \<leftarrow> skip1 w;
          (ctime, w) \<leftarrow> get_field w;
          let st = \<lparr>st_dev = dev, st_ino = ino, st_mode = ucast mode, st_nlink = nlink, st_uid = ucast uid, st_gid = ucast gid,
                     st_rdev = rdev, st_size = size, st_blksize = blksize, st_blocks = blocks, st_atime = atime, st_mtime = mtime,
                     st_ctime = ctime\<rparr>;
          more \<leftarrow> more_fields w;
          if \<not> more then Some (st, 0, 0)
          else do {
            w \<leftarrow> skip1 w; (LinkFI, w) \<leftarrow> get_field w;
            more \<leftarrow> more_fields w;
            w \<leftarrow> (if more then do { w \<leftarrow> skip1 w; (_, w) \<leftarrow> get_field w; Some w } else Some w);
            more \<leftarrow> more_fields w;
            val \<leftarrow> (if more then do { w \<leftarrow> skip1 w; (val, w) \<leftarrow> get_field w; Some val } else Some 0);
            Some (st, ucast LinkFI, ucast val) } }"

definition is_space :: "u8 \<Rightarrow> bool" where
  "is_space c \<longleftrightarrow> c = 32 \<or> 9 \<le> c \<and> c \<le> 13"

fun skip_nonspaces :: "u8 list \<Rightarrow> u8 list option" where
  "skip_nonspaces [] = None"
| "skip_nonspaces (c # cs) = (if c = 0 \<or> is_space c then Some (c # cs) else skip_nonspaces cs)"

definition skip_field :: "u8 list \<Rightarrow> u8 list option" where
  "skip_field w = skip_nonspaces w \<bind> skip1"

definition decode_LinkFI :: "u8 list \<Rightarrow> (u32 \<times> i32) option" where
  "decode_LinkFI buf =
     do { w \<leftarrow> skip_field buf; w \<leftarrow> skip_field w;
          (mode, w) \<leftarrow> get_field w; w \<leftarrow> skip1 w;
          w \<leftarrow> skip_field w; w \<leftarrow> skip_field w; w \<leftarrow> skip_field w; w \<leftarrow> skip_field w;
          w \<leftarrow> skip_field w; w \<leftarrow> skip_field w; w \<leftarrow> skip_field w; w \<leftarrow> skip_field w; w \<leftarrow> skip_field w;
          w \<leftarrow> skip_nonspaces w;
          more \<leftarrow> more_fields w;
          if more then do { w \<leftarrow> skip1 w; (LinkFI, w) \<leftarrow> get_field w; Some (ucast mode, ucast LinkFI) }
          else Some (ucast mode, 0) }"

section \<open>Bytes\<close>

text \<open>
  The loop of \<^verbatim>\<open>bin_to_base64\<close>: \<open>reg\<close> has the bits not yet written, \<open>rem\<close> their number.  Digits that do not
  fit into the buffer are dropped.
\<close>

function bin_loop :: "bool \<Rightarrow> int \<Rightarrow> u8 list \<Rightarrow> u32 \<Rightarrow> nat \<Rightarrow> u8 list \<Rightarrow> u32 \<times> nat \<times> u8 list" where
  "bin_loop compatible buflen bin reg rem out =
     (case bin of
        [] \<Rightarrow> (reg, rem, out)
      | b # bs \<Rightarrow>
          let (bin', reg, rem) = (if rem < 6 then (bs, push_bit 8 reg OR (if compatible then ucast b else scast b), rem + 8) else (bin, reg, rem));
              out = (if int (length out) < buflen then out @ [digit_of (drop_bit (rem - 6) reg)] else out)
          in bin_loop compatible buflen bin' reg (rem - 6) out)"
  by auto
termination
  by (relation "measures [\<lambda>(compatible, buflen, bin, reg, rem, out). length bin, \<lambda>(compatible, buflen, bin, reg, rem, out). rem]")
    (auto split: if_splits)

declare bin_loop.simps [simp del]

definition bin_to_base64 :: "u8 list \<Rightarrow> int \<Rightarrow> u8 list \<Rightarrow> bool \<Rightarrow> (nat \<times> u8 list) option" where
  "bin_to_base64 buf buflen bin compatible =
     (let buflen = buflen - 1;
          (reg, rem, out) = bin_loop compatible buflen bin 0 0 [];
          out = (if rem \<noteq> 0 \<and> int (length out) < buflen
                 then out @ [digit_of (if compatible then push_bit (6 - rem) (reg AND mask rem) else reg AND mask rem)] else out)
      in map_option (\<lambda>c. (length out, fst c)) (put (out @ [0]) (buf, 0)))"

definition bin_to_base64_pad :: "u8 list \<Rightarrow> int \<Rightarrow> u8 list \<Rightarrow> (nat \<times> u8 list) option" where
  "bin_to_base64_pad buf buflen bin =
     do { (l, buf) \<leftarrow> bin_to_base64 buf buflen bin True;
          let n = 4 - l mod 4;
          fold (\<lambda>i r. do { (l, buf) \<leftarrow> r;
                           if int l < buflen then map_option (\<lambda>c. (l + 1, fst c)) (put [61, 0] (buf, l)) else Some (l, buf) })
            [0..<(if n < 3 then n else 0)] (Some (l, buf)) }"

text \<open>The next character that is not a space: the end of the input, an invalid character, or a value and the rest.\<close>

datatype base64_in = End | Invalid | Digit u8 "u8 list"

fun next_digit :: "u8 list \<Rightarrow> base64_in option" where
  "next_digit [] = None"
| "next_digit (c # cs) =
     (if c \<noteq> 0 \<and> c \<noteq> 61 \<and> is_space c then next_digit cs
      else if c = 0 \<or> c = 61 then Some End
      else if value_of c = 0xff then Some Invalid else Some (Digit (value_of c) cs))"

definition store :: "u8 list \<Rightarrow> nat \<Rightarrow> u8 \<Rightarrow> u8 list option" where
  "store dest n b = (if n < length dest then Some (dest[n := b]) else None)"

lemma next_digit_shorter: "next_digit src = Some (Digit v cs) \<Longrightarrow> length cs < length src"
  by (induction src rule: next_digit.induct) (auto split: if_splits)

text \<open>The length of the source that the caller gives is not used.\<close>

function bin_decode :: "int \<Rightarrow> u8 list \<Rightarrow> u8 list \<Rightarrow> nat \<Rightarrow> (bool \<times> nat \<times> u8 list) option" where
  "bin_decode dest_size src dest n =
     (case next_digit src of
        None \<Rightarrow> None
      | Some End \<Rightarrow> Some (False, n, dest)
      | Some Invalid \<Rightarrow> Some (True, n, dest)
      | Some (Digit v0 src1) \<Rightarrow>
     (case next_digit src1 of
        None \<Rightarrow> None
      | Some End \<Rightarrow> Some (False, n, dest)
      | Some Invalid \<Rightarrow> Some (True, n, dest)
      | Some (Digit v1 src2) \<Rightarrow>
          if dest_size < int n then Some (True, n, dest)
          else (case store dest n (push_bit 2 v0 OR drop_bit 4 v1) of None \<Rightarrow> None | Some dest1 \<Rightarrow>
     (case next_digit src2 of
        None \<Rightarrow> None
      | Some End \<Rightarrow> Some (False, n + 1, dest1)
      | Some Invalid \<Rightarrow> Some (True, n + 1, dest1)
      | Some (Digit v2 src3) \<Rightarrow>
          if dest_size < int (n + 1) then Some (True, n + 1, dest1)
          else (case store dest1 (n + 1) (push_bit 4 v1 OR drop_bit 2 v2) of None \<Rightarrow> None | Some dest2 \<Rightarrow>
     (case next_digit src3 of
        None \<Rightarrow> None
      | Some End \<Rightarrow> Some (False, n + 2, dest2)
      | Some Invalid \<Rightarrow> Some (True, n + 2, dest2)
      | Some (Digit v3 src4) \<Rightarrow>
          if dest_size < int (n + 2) then Some (True, n + 2, dest2)
          else (case store dest2 (n + 2) (push_bit 6 v2 OR v3) of None \<Rightarrow> None | Some dest3 \<Rightarrow>
            bin_decode dest_size src4 dest3 (n + 3))))))))"
  by auto
termination
  by (relation "measure (\<lambda>(dest_size, src, dest, n). length src)") (auto dest!: next_digit_shorter)

declare bin_decode.simps [simp del]

definition base64_to_bin :: "u8 list \<Rightarrow> int \<Rightarrow> u8 list \<Rightarrow> (nat \<times> u8 list) option" where
  "base64_to_bin dest dest_size src = map_option (\<lambda>(err, n, dest). (if err then 0 else n, dest)) (bin_decode dest_size src dest 0)"

section \<open>The digits of a number\<close>

function num_digits :: "u64 \<Rightarrow> u8 list" where
  "num_digits val = (let v = drop_bit 6 val in (if v = 0 then [] else num_digits v) @ [digit_of val])"
  by auto
termination
proof (relation "measure base64_len")
  show "(v, val) \<in> measure base64_len" if "v = drop_bit 6 val" "v \<noteq> 0" for v val :: u64
    using that by (simp add: base64_len.simps [of val])
qed simp

declare num_digits.simps [simp del]

definition num_string :: "i64 \<Rightarrow> u8 list" where
  "num_string v = (if sint v < 0 then 45 # num_digits (- v) else num_digits v)"

lemma length_num_digits: "length (num_digits v) = base64_len v"
  by (induction v rule: num_digits.induct) (subst num_digits.simps, subst base64_len.simps, simp add: Let_def)

lemma base64_len_bound: "unat v < 64 ^ k \<Longrightarrow> 0 < k \<Longrightarrow> base64_len v \<le> k"
proof (induction k arbitrary: v)
  case (Suc k)
  have u: "unat (drop_bit 6 v) = unat v div 64" by (simp add: unat_drop_bit_eq drop_bit_eq_div [of 6 "unat v"])
  show ?case
  proof (cases "drop_bit 6 v = 0")
    case False
    have "unat (drop_bit 6 v) < 64 ^ k" unfolding u using Suc.prems(1) by (simp add: less_mult_imp_div_less mult.commute)
    moreover have "0 < k"
    proof (rule ccontr)
      assume "\<not> 0 < k"
      then have "unat (drop_bit 6 v) = 0" unfolding u using Suc.prems(1) by simp
      then show False using False by (simp add: unat_eq_0)
    qed
    ultimately show ?thesis using Suc.IH [of "drop_bit 6 v"] False by (subst base64_len.simps) (simp add: Let_def)
  qed (subst base64_len.simps, simp)
qed simp

lemma base64_len_max: "base64_len v \<le> 11"
proof -
  have "unat v < 2 ^ LENGTH(64)" by (rule unsigned_less)
  then show ?thesis using base64_len_bound [of v 11] by simp
qed

lemma length_num_string: "length (num_string v) \<le> 12"
  using base64_len_max [of v] base64_len_max [of "- v"] by (simp add: num_string_def length_num_digits)

lemma put_digits_writes:
  "base64_len v \<le> i \<Longrightarrow> i \<le> length w \<Longrightarrow> put_digits i v w = Some (take (i - base64_len v) w @ num_digits v @ drop i w)"
proof (induction v arbitrary: i w rule: base64_len.induct)
  case (1 v)
  have p: "0 < base64_len v" by (subst base64_len.simps) (simp add: Let_def)
  then obtain j where i: "i = Suc j" using 1(2) by (cases i) auto
  have l: "take j (w[j := digit_of v]) = take j w" "drop j (w[j := digit_of v]) = digit_of v # drop (Suc j) w"
    using 1(3) i by (simp_all add: drop_update_swap Cons_nth_drop_Suc [symmetric])
  show ?case
  proof (cases "drop_bit 6 v = 0")
    case True
    then show ?thesis using i 1(3) l by (simp add: base64_len.simps [of v] num_digits.simps [of v] id_take_nth_drop upd_conv_take_nth_drop)
  next
    case False
    then have b: "base64_len v = Suc (base64_len (drop_bit 6 v))" by (simp add: base64_len.simps [of v])
    have "put_digits j (drop_bit 6 v) (w[j := digit_of v]) =
        Some (take (j - base64_len (drop_bit 6 v)) (w[j := digit_of v]) @ num_digits (drop_bit 6 v) @ drop j (w[j := digit_of v]))"
      using 1(1) [OF refl False, of j "w[j := digit_of v]"] b 1(2,3) i by simp
    then show ?thesis using i 1(3) b False l(2) by (simp add: num_digits.simps [of v] take_update_swap list_update_beyond)
  qed
qed

text \<open>What \<^verbatim>\<open>to_base64\<close> stores, and when there is no room for it.\<close>

lemma to_base64_writes:
  "to_base64 v w = (if length w \<le> length (num_string v) then None
     else Some (length (num_string v), num_string v @ 0 # drop (Suc (length (num_string v))) w))"
proof -
  have d: "put_digits (k + base64_len x) x (u[k + base64_len x := 0]) = Some (take k u @ num_digits x @ 0 # drop (Suc (k + base64_len x)) u)"
    if "k + base64_len x < length u" for k x u
    using that by (simp add: put_digits_writes drop_update_swap Cons_nth_drop_Suc [symmetric])
  show ?thesis
  proof (cases "sint v < 0")
    case False
    then show ?thesis using d [of 0 v w] by (simp add: to_base64_def num_string_def length_num_digits not_le Let_def)
  next
    case True
    show ?thesis
    proof (cases w)
      case (Cons a u)
      then show ?thesis using True d [of 1 "- v" "45 # u"] by (simp add: to_base64_def num_string_def length_num_digits not_le Let_def)
    qed (use True in \<open>simp add: to_base64_def num_string_def\<close>)
  qed
qed

section \<open>Reading a number back\<close>

definition digit_step :: "u64 \<Rightarrow> u8 \<Rightarrow> u64" where
  "digit_step val c = push_bit 6 val + ucast (value_of c)"

lemma from_digits_append:
  "\<forall>d \<in> set ds. d \<noteq> 0 \<and> d \<noteq> 32 \<Longrightarrow>
   from_digits acc (ds @ cs) = map_option (\<lambda>(v, n). (v, n + length ds)) (from_digits (foldl digit_step acc ds) cs)"
proof (induction ds arbitrary: acc)
  case Nil
  show ?case by (simp add: case_prod_beta option.map_ident)
next
  case (Cons d ds)
  then show ?case by (simp add: digit_step_def option.map_comp o_def case_prod_beta)
qed

lemma and_63: "v AND 0x3F = take_bit 6 (v :: 'a::len word)"
  by (simp add: take_bit_eq_mask mask_numeral)

lemma unat_take_6: "unat (take_bit 6 (v :: 'a::len word)) < 64"
proof -
  have "unat (take_bit 6 v) = take_bit 6 (unat v)" by (simp add: unsigned_take_bit_eq)
  then show ?thesis using take_bit_nat_less_exp [of 6 "unat v"] by simp
qed

lemma digit_of_value:
  "value_of (digit_of v) = ucast (take_bit 6 v)" "digit_of v \<noteq> 0" "digit_of v \<noteq> 32" "digit_of v \<noteq> 45" "digit_of v \<noteq> 61"
proof -
  have "value_of (digit_of v) = of_nat (unat (take_bit 6 v)) \<and> digit_of v \<notin> {0, 32, 45, 61}"
    unfolding digit_of_def and_63 using value_of_table [OF unat_take_6 [of v]] .
  then show "value_of (digit_of v) = ucast (take_bit 6 v)" "digit_of v \<noteq> 0" "digit_of v \<noteq> 32" "digit_of v \<noteq> 45" "digit_of v \<noteq> 61"
    by simp_all
qed

lemma digit_step_digit: "digit_step (drop_bit 6 v) (digit_of v) = v"
proof -
  have "(ucast (ucast (take_bit 6 v) :: u8) :: u64) = take_bit 6 v"
    by (rule bit_word_eqI) (auto simp: bit_simps)
  then show ?thesis unfolding digit_step_def digit_of_value(1) using bits_ident [of 6 v] by simp
qed

lemma foldl_num_digits: "foldl digit_step 0 (num_digits v) = v"
proof (induction v rule: num_digits.induct)
  case (1 v)
  then show ?case
    using digit_step_digit [of v] by (cases "drop_bit 6 v = 0") (simp_all add: num_digits.simps [of v])
qed

lemma num_digits_set: "(\<forall>d \<in> set (num_digits v). d \<noteq> 0 \<and> d \<noteq> 32 \<and> d \<noteq> 45) \<and> num_digits v \<noteq> []"
proof (induction v rule: num_digits.induct)
  case (1 v)
  then show ?case by (cases "drop_bit 6 v = 0") (simp_all add: num_digits.simps [of v] digit_of_value)
qed

lemma from_base64_num_string:
  assumes "c = 0 \<or> c = 32"
  shows "from_base64 (num_string v @ c # cs) = Some (v, length (num_string v))"
proof -
  have d: "from_digits 0 (num_digits x @ c # cs) = Some (x, length (num_digits x))" for x
    using assms num_digits_set [of x] by (simp add: from_digits_append foldl_num_digits)
  show ?thesis
  proof (cases "sint v < 0")
    case True
    then show ?thesis using d [of "- v"] by (simp add: from_base64_def num_string_def)
  next
    case False
    obtain e es where "num_digits v = e # es" using num_digits_set [of v] by (cases "num_digits v") auto
    then show ?thesis using False d [of v] num_digits_set [of v] by (simp add: from_base64_def num_string_def del: from_digits.simps)
  qed
qed

lemma get_field_num_string [simp]: "c = 0 \<or> c = 32 \<Longrightarrow> get_field (num_string v @ c # cs) = Some (v, c # cs)"
  by (simp add: get_field_def from_base64_num_string)

lemma put_field_put: "put_field v c \<bind> put [x] = put (num_string v @ [x]) c"
proof -
  obtain buf p where c: "c = (buf, p)" by fastforce
  show ?thesis
  proof (cases "p + length (num_string v) < length buf")
    case True
    have "buf_write (take p buf @ num_string v @ 0 # drop (Suc (length (num_string v))) (drop p buf)) (p + length (num_string v)) [x] =
        buf_write buf p (num_string v @ [x])"
      using True by (simp add: buf_write_def add.commute)
    then show ?thesis using True c by (simp add: put_field_def to_base64_writes put_def less_diff_conv add.commute not_le)
  next
    case False
    then show ?thesis using c by (auto simp: put_field_def to_base64_writes put_def)
  qed
qed

lemma put_field_then: "put_field v c \<bind> (\<lambda>c. put [x] c \<bind> k) = put (num_string v @ [x]) c \<bind> k"
  by (simp add: put_field_put [symmetric])

lemma put_then: "put xs c \<bind> (\<lambda>c. put ys c \<bind> k) = put (xs @ ys) c \<bind> k"
  by (simp add: put_put [symmetric])

text \<open>The text of the attributes.\<close>

definition stat_string :: "stat \<Rightarrow> i32 \<Rightarrow> i32 \<Rightarrow> u8 list" where
  "stat_string st LinkFI data_stream =
     num_string (st_dev st) @ 32 # num_string (st_ino st) @ 32 # num_string (ucast (st_mode st)) @ 32 #
     num_string (st_nlink st) @ 32 # num_string (ucast (st_uid st)) @ 32 # num_string (ucast (st_gid st)) @ 32 #
     num_string (st_rdev st) @ 32 # num_string (st_size st) @ 32 # num_string (st_blksize st) @ 32 #
     num_string (st_blocks st) @ 32 # num_string (st_atime st) @ 32 # num_string (st_mtime st) @ 32 #
     num_string (st_ctime st) @ 32 # num_string (scast LinkFI) @ 32 # num_string 0 @ 32 # num_string (scast data_stream)"

lemma encode_stat_eq: "encode_stat buf st LinkFI data_stream = map_option fst (put (stat_string st LinkFI data_stream @ [0]) (buf, 0))"
proof -
  have m: "m \<bind> (\<lambda>(buf, _). Some buf) = map_option fst m" for m :: "cursor option" by (cases m) auto
  show ?thesis by (simp only: encode_stat_def put_field_then, simp only: put_then append_assoc append_Cons append_Nil) (simp add: stat_string_def m)
qed

lemma cast_fields [simp]: "ucast (ucast (m :: u32) :: u64) = m" "ucast (scast (l :: i32) :: i64) = l"
  by (rule bit_word_eqI, simp add: bit_simps)+

lemma decode_stat_string:
  "decode_stat (stat_string st LinkFI data_stream @ 0 # cs) = Some (st, LinkFI, data_stream)"
  by (simp add: decode_stat_def stat_string_def skip1_def more_fields_def)

lemma digit_not_space: "\<not> is_space (digit_of v)"
proof -
  have "list_all (\<lambda>d. \<not> is_space d) base64_digits" by code_simp
  then show ?thesis unfolding digit_of_def and_63 using unat_take_6 [of v] by (simp add: list_all_length length_base64_tables)
qed

lemma num_digits_space: "\<forall>d \<in> set (num_digits v). d \<noteq> 0 \<and> \<not> is_space d"
proof (induction v rule: num_digits.induct)
  case (1 v)
  then show ?case by (cases "drop_bit 6 v = 0") (simp_all add: num_digits.simps [of v] digit_of_value digit_not_space)
qed

lemma skip_field_num_string [simp]: "skip_field (num_string v @ 32 # cs) = Some cs"
  "skip_nonspaces (num_string v @ 32 # cs) = Some (32 # cs)"
proof -
  have "skip_nonspaces (ds @ 32 # cs) = Some (32 # cs)" if "\<forall>d \<in> set ds. d \<noteq> 0 \<and> \<not> is_space d" for ds
    using that by (induction ds) (auto simp: is_space_def)
  then show n: "skip_nonspaces (num_string v @ 32 # cs) = Some (32 # cs)"
    using num_digits_space [of v] num_digits_space [of "- v"] by (auto simp: num_string_def is_space_def)
  show "skip_field (num_string v @ 32 # cs) = Some cs" by (simp add: skip_field_def n skip1_def)
qed

lemma decode_LinkFI_string:
  "decode_LinkFI (stat_string st LinkFI data_stream @ 0 # cs) = Some (st_mode st, LinkFI)"
  by (simp add: decode_LinkFI_def stat_string_def skip1_def more_fields_def)

lemma length_stat_string: "length (stat_string st LinkFI data_stream) \<le> 207"
proof -
  have "length (num_string a) + (length (num_string b) + n) \<le> 24 + n" for a b n
    using length_num_string [of a] length_num_string [of b] by simp
  then show ?thesis unfolding stat_string_def
    using length_num_string [of "st_dev st"] length_num_string [of "st_ino st"] length_num_string [of "ucast (st_mode st)"]
      length_num_string [of "st_nlink st"] length_num_string [of "ucast (st_uid st)"] length_num_string [of "ucast (st_gid st)"]
      length_num_string [of "st_rdev st"] length_num_string [of "st_size st"] length_num_string [of "st_blksize st"]
      length_num_string [of "st_blocks st"] length_num_string [of "st_atime st"] length_num_string [of "st_mtime st"]
      length_num_string [of "st_ctime st"] length_num_string [of "scast LinkFI"] length_num_string [of 0] length_num_string [of "scast data_stream"]
    by simp
qed

text \<open>
  C38 (encode_stat_roundtrip).  The attributes of a file come back from their text: in a buffer of at least 208 bytes
  \<^verbatim>\<open>encode_stat\<close> stays inside the buffer, and \<^verbatim>\<open>decode_stat\<close> then gives the structure, the index of the hard linked file and
  the data stream that were encoded, whatever their values; \<^verbatim>\<open>decode_LinkFI\<close>, which skips most of the fields,
  gives the same mode and index.
\<close>

theorem encode_stat_roundtrip:
  assumes "208 \<le> length buf"
  shows "\<exists>buf'. encode_stat buf st LinkFI data_stream = Some buf' \<and> length buf' = length buf \<and>
    decode_stat buf' = Some (st, LinkFI, data_stream) \<and> decode_LinkFI buf' = Some (st_mode st, LinkFI)"
proof -
  let ?s = "stat_string st LinkFI data_stream"
  have l: "length (?s @ [0]) \<le> length buf" using length_stat_string [of st LinkFI data_stream] assms by simp
  then have "encode_stat buf st LinkFI data_stream = Some (buf_write buf 0 (?s @ [0]))" by (simp add: encode_stat_eq put_def)
  moreover have "buf_write buf 0 (?s @ [0]) = ?s @ 0 # drop (length ?s + 1) buf" by (simp add: buf_write_def)
  ultimately show ?thesis using l by (simp add: decode_stat_string decode_LinkFI_string)
qed

definition sample_stat :: stat where
  "sample_stat = \<lparr>st_dev = 64769, st_ino = 2 ^ 64 - 1, st_mode = 33188, st_nlink = 2, st_uid = 1000, st_gid = 2 ^ 32 - 1, st_rdev = 0,
     st_size = 2 ^ 63 - 1, st_blksize = 4096, st_blocks = 8, st_atime = - 1, st_mtime = 1700000000, st_ctime = - (2 ^ 63)\<rparr>"

theorem encode_stat_roundtrip_witness:
  "\<exists>buf'. encode_stat (replicate 256 7) sample_stat (- 1) 2 = Some buf' \<and> length buf' = 256 \<and>
    decode_stat buf' = Some (sample_stat, - 1, 2) \<and> decode_LinkFI buf' = Some (33188, - 1)"
proof -
  have "208 \<le> length (replicate 256 (7 :: u8))" by simp
  then show ?thesis using encode_stat_roundtrip [of "replicate 256 7" sample_stat "- 1" 2] by (simp add: sample_stat_def)
qed

section \<open>Bytes as digits\<close>

text \<open>The reference: three bytes are four digits, and what is left two or three.\<close>

fun digits3 :: "u8 list \<Rightarrow> u8 list" where
  "digits3 [] = []"
| "digits3 [a] = [digit_of (drop_bit 2 a), digit_of (push_bit 4 a)]"
| "digits3 [a, b] = [digit_of (drop_bit 2 a), digit_of (push_bit 4 a OR drop_bit 4 b), digit_of (push_bit 2 b)]"
| "digits3 (a # b # c # bs) =
     [digit_of (drop_bit 2 a), digit_of (push_bit 4 a OR drop_bit 4 b), digit_of (push_bit 2 b OR drop_bit 6 c), digit_of c] @ digits3 bs"

lemma length_digits3: "length (digits3 bs) = (4 * length bs + 2) div 3"
  by (induction bs rule: digits3.induct) auto

lemma digit_of_bits:
  fixes x :: "'a::len word" and y :: "'b::len word"
  assumes "\<And>n. n < 6 \<Longrightarrow> bit x n = bit y n"
  shows "digit_of x = digit_of y"
proof -
  have "take_bit 6 (unat x) = take_bit 6 (unat y)"
    by (rule bit_eqI) (use assms in \<open>auto simp: bit_take_bit_iff bit_unsigned_iff\<close>)
  then show ?thesis by (simp add: digit_of_def and_63 unsigned_take_bit_eq)
qed

definition finish_bin :: "u32 \<times> nat \<times> u8 list \<Rightarrow> u8 list" where
  "finish_bin r = (case r of (reg, rem, out) \<Rightarrow> if rem \<noteq> 0 then out @ [digit_of (push_bit (6 - rem) (reg AND mask rem))] else out)"

lemma bin_loop_loads:
  assumes "int (length out) < buflen"
  shows "bin_loop True buflen (b # bs) reg 0 out =
      bin_loop True buflen bs (push_bit 8 reg OR ucast b) 2 (out @ [digit_of (drop_bit 2 (push_bit 8 reg OR ucast b))])"
    "bin_loop True buflen (b # bs) reg 2 out =
      bin_loop True buflen bs (push_bit 8 reg OR ucast b) 4 (out @ [digit_of (drop_bit 4 (push_bit 8 reg OR ucast b))])"
    "bin_loop True buflen (b # bs) reg 4 out =
      bin_loop True buflen bs (push_bit 8 reg OR ucast b) 6 (out @ [digit_of (drop_bit 6 (push_bit 8 reg OR ucast b))])"
  by (subst bin_loop.simps, simp add: Let_def assms)+

lemma bin_loop_full:
  assumes "int (length out) < buflen"
  shows "bin_loop True buflen (b # bs) reg 6 out = bin_loop True buflen (b # bs) reg 0 (out @ [digit_of reg])"
  using assms by (subst bin_loop.simps) (simp add: Let_def)

lemma bin_loop_Nil: "bin_loop c buflen [] reg rem out = (reg, rem, out)"
  by (subst bin_loop.simps) simp

lemma bin_loop_digits:
  "int (length out + length (digits3 bs)) \<le> buflen \<Longrightarrow> finish_bin (bin_loop True buflen bs reg 0 out) = out @ digits3 bs"
proof (induction bs arbitrary: reg out rule: digits3.induct)
  case 1
  show ?case by (simp add: bin_loop_Nil finish_bin_def)
next
  case (2 a)
  let ?r = "push_bit 8 reg OR ucast a :: u32"
  have "digit_of (drop_bit 2 ?r) = digit_of (drop_bit 2 a)" "digit_of (push_bit 4 (?r AND mask 2)) = digit_of (push_bit 4 a)"
    by (rule digit_of_bits, auto simp: bit_simps)+
  then show ?case using 2 by (simp add: bin_loop_loads bin_loop_Nil finish_bin_def)
next
  case (3 a b)
  let ?r = "push_bit 8 (push_bit 8 reg OR ucast a) OR ucast b :: u32"
  have "digit_of (drop_bit 2 (push_bit 8 reg OR ucast a :: u32)) = digit_of (drop_bit 2 a)"
    "digit_of (drop_bit 4 ?r) = digit_of (push_bit 4 a OR drop_bit 4 b)"
    "digit_of (push_bit 2 (?r AND mask 4)) = digit_of (push_bit 2 b)"
    by (rule digit_of_bits, auto simp: bit_simps)+
  then show ?case using 3 by (simp add: bin_loop_loads bin_loop_Nil finish_bin_def)
next
  case (4 a b c bs)
  let ?q = "push_bit 8 reg OR ucast a :: u32"
  let ?r = "push_bit 8 ?q OR ucast b"
  let ?s = "push_bit 8 ?r OR ucast c"
  have d: "digit_of (drop_bit 2 ?q) = digit_of (drop_bit 2 a)" "digit_of (drop_bit 4 ?r) = digit_of (push_bit 4 a OR drop_bit 4 b)"
    "digit_of (drop_bit 6 ?s) = digit_of (push_bit 2 b OR drop_bit 6 c)" "digit_of ?s = digit_of c" "digit_of (?s AND mask 6) = digit_of c"
    by (rule digit_of_bits, auto simp: bit_simps)+
  have l: "bin_loop True buflen (a # b # c # bs) reg 0 out = bin_loop True buflen bs ?s 6
      (out @ [digit_of (drop_bit 2 a), digit_of (push_bit 4 a OR drop_bit 4 b), digit_of (push_bit 2 b OR drop_bit 6 c)])"
    using 4(2) d by (simp add: bin_loop_loads)
  show ?case
  proof (cases bs)
    case Nil
    then show ?thesis using l d by (simp add: bin_loop_Nil finish_bin_def)
  next
    case (Cons e es)
    then show ?thesis unfolding l using 4 d by (simp add: bin_loop_full)
  qed
qed

lemma bin_to_base64_eq:
  assumes "int (length (digits3 bin)) < buflen"
  shows "bin_to_base64 buf buflen bin True = map_option (\<lambda>c. (length (digits3 bin), fst c)) (put (digits3 bin @ [0]) (buf, 0))"
proof -
  obtain reg rem out where r: "bin_loop True (buflen - 1) bin 0 0 [] = (reg, rem, out)" by (cases "bin_loop True (buflen - 1) bin 0 0 []") auto
  then have f: "finish_bin (reg, rem, out) = digits3 bin" using bin_loop_digits [of "[]" bin "buflen - 1" 0] assms by simp
  then have "int (length out) < buflen - 1" if "rem \<noteq> 0" using that assms by (auto simp: finish_bin_def dest!: arg_cong [of _ _ length])
  then have e: "(if rem \<noteq> 0 \<and> int (length out) < buflen - 1 then out @ [digit_of (push_bit (6 - rem) (reg AND mask rem))] else out) = digits3 bin"
    using f by (cases "rem = 0") (simp_all add: finish_bin_def)
  show ?thesis unfolding bin_to_base64_def Let_def r prod.case if_True e by (rule refl)
qed

section \<open>Digits as bytes\<close>

lemma next_digit_digit [simp]: "next_digit (digit_of v # cs) = Some (Digit (ucast (take_bit 6 v)) cs)"
proof -
  have "(ucast (take_bit 6 v) :: u8) \<noteq> 0xff"
  proof
    assume "(ucast (take_bit 6 v) :: u8) = 0xff"
    then have "bit (ucast (take_bit 6 v) :: u8) 7 = bit (0xff :: u8) 7" by simp
    then show False by (simp add: bit_simps)
  qed
  then show ?thesis by (simp add: digit_of_value digit_not_space)
qed

lemma byte_eqI:
  fixes x y :: u8
  assumes "bit x 0 = bit y 0" "bit x 1 = bit y 1" "bit x 2 = bit y 2" "bit x 3 = bit y 3"
    "bit x 4 = bit y 4" "bit x 5 = bit y 5" "bit x 6 = bit y 6" "bit x 7 = bit y 7"
  shows "x = y"
proof (rule bit_word_eqI)
  fix n :: nat
  assume "n < LENGTH(8)"
  then have "n = 0 \<or> n = 1 \<or> n = 2 \<or> n = 3 \<or> n = 4 \<or> n = 5 \<or> n = 6 \<or> n = 7" by simp presburger
  then show "bit x n = bit y n" using assms by blast
qed

lemma not_bit_byte: "8 \<le> n \<Longrightarrow> \<not> bit (b :: u8) n"
  using bit_imp_le_length by fastforce

lemma three_bytes:
  fixes a b c :: u8
  shows "push_bit 2 (take_bit 6 (drop_bit 2 a)) OR drop_bit 4 (take_bit 6 (push_bit 4 a OR drop_bit 4 b)) = a"
    "push_bit 2 (take_bit 6 (drop_bit 2 a)) OR drop_bit 4 (take_bit 6 (push_bit 4 a)) = a"
    "push_bit 4 (take_bit 6 (push_bit 4 a OR drop_bit 4 b)) OR drop_bit 2 (take_bit 6 (push_bit 2 b OR drop_bit 6 c)) = b"
    "push_bit 4 (take_bit 6 (push_bit 4 a OR drop_bit 4 b)) OR drop_bit 2 (take_bit 6 (push_bit 2 b)) = b"
    "push_bit 6 (take_bit 6 (push_bit 2 b OR drop_bit 6 c)) OR take_bit 6 c = c"
  by (rule byte_eqI; simp add: bit_simps not_bit_byte del: add_2_eq_Suc add_2_eq_Suc')+

lemma cast_byte [simp]: "ucast (x :: u8) = x"
  by simp

lemma buf_write_store: "n < length dest \<Longrightarrow> buf_write (dest[n := b]) (Suc n) bs = buf_write dest n (b # bs)"
  by (simp add: buf_write_def take_Suc_conv_app_nth)

lemma next_digit_end: "next_digit (0 # cs) = Some End"
  by simp

declare next_digit.simps(2) [simp del]

lemma bin_decode_end: "bin_decode dest_size (0 # cs) dest n = Some (False, n, dest)"
  by (subst bin_decode.simps) (simp add: next_digit_end)

lemma bin_decode_steps:
  fixes x y z w :: u8
  defines "d \<equiv> push_bit 2 (take_bit 6 x) OR drop_bit 4 (take_bit 6 y)"
    and "e \<equiv> push_bit 4 (take_bit 6 y) OR drop_bit 2 (take_bit 6 z)" and "f \<equiv> push_bit 6 (take_bit 6 z) OR take_bit 6 w"
  shows "n < length dest \<Longrightarrow> int n \<le> dest_size \<Longrightarrow>
      bin_decode dest_size (digit_of x # digit_of y # 0 # cs) dest n = Some (False, Suc n, dest[n := d])"
    "Suc n < length dest \<Longrightarrow> int (Suc n) \<le> dest_size \<Longrightarrow>
      bin_decode dest_size (digit_of x # digit_of y # digit_of z # 0 # cs) dest n = Some (False, Suc (Suc n), dest[n := d, Suc n := e])"
    "Suc (Suc n) < length dest \<Longrightarrow> int (Suc (Suc n)) \<le> dest_size \<Longrightarrow>
      bin_decode dest_size (digit_of x # digit_of y # digit_of z # digit_of w # cs) dest n =
      bin_decode dest_size cs (dest[n := d, Suc n := e, Suc (Suc n) := f]) (Suc (Suc (Suc n)))"
  unfolding d_def e_def f_def
  by (subst bin_decode.simps, simp add: next_digit_end store_def numeral_3_eq_3)+

lemma bin_decode_digits:
  "n + length bs \<le> length dest \<Longrightarrow> int (n + length bs) \<le> dest_size \<Longrightarrow>
   bin_decode dest_size (digits3 bs @ 0 # cs) dest n = Some (False, n + length bs, buf_write dest n bs)"
proof (induction bs arbitrary: dest n rule: digits3.induct)
  case 1
  show ?case by (simp add: bin_decode_end)
next
  case (2 a)
  then have "bin_decode dest_size (digits3 [a] @ 0 # cs) dest n = Some (False, Suc n, dest[n := a])"
    unfolding digits3.simps append_Cons append_Nil by (subst bin_decode_steps(1)) (simp_all only: three_bytes, simp_all)
  moreover have "dest[n := a] = buf_write dest n [a]" using 2 buf_write_store [of n dest a "[]"] by simp
  ultimately show ?case by simp
next
  case (3 a b)
  then have "bin_decode dest_size (digits3 [a, b] @ 0 # cs) dest n = Some (False, Suc (Suc n), dest[n := a, Suc n := b])"
    unfolding digits3.simps append_Cons append_Nil by (subst bin_decode_steps(2)) (simp_all only: three_bytes, simp_all)
  moreover have "dest[n := a, Suc n := b] = buf_write dest n [a, b]"
    using 3 buf_write_store [of n dest a "[b]"] buf_write_store [of "Suc n" "dest[n := a]" b "[]"] by simp
  ultimately show ?case by simp
next
  case (4 a b c bs)
  let ?d = "dest[n := a, Suc n := b, Suc (Suc n) := c]"
  have "bin_decode dest_size (digits3 (a # b # c # bs) @ 0 # cs) dest n = bin_decode dest_size (digits3 bs @ 0 # cs) ?d (Suc (Suc (Suc n)))"
    unfolding digits3.simps append_Cons append_Nil using 4(2,3) by (subst bin_decode_steps(3)) (simp_all only: three_bytes, simp_all)
  moreover have "buf_write ?d (Suc (Suc (Suc n))) bs = buf_write dest n (a # b # c # bs)" using 4(2) by (simp add: buf_write_store)
  ultimately show ?case using 4(1) [of "Suc (Suc (Suc n))" ?d] 4(2,3) by simp
qed

text \<open>
  C39 (base64_bin_roundtrip).  Binary data (keys, digests) comes back from its text: with room for four digits in three bytes and the zero,
  \<^verbatim>\<open>bin_to_base64\<close> in its compatible form stores the digits of all the bytes inside the buffer, and \<^verbatim>\<open>base64_to_bin\<close>
  gives their number and the bytes, and leaves the rest of its buffer alone; the exact size is enough for it.
\<close>

theorem base64_bin_roundtrip:
  assumes "int ((4 * length bin + 2) div 3) < buflen" and "buflen \<le> int (length buf)"
    and "length bin \<le> length dest" and "int (length bin) \<le> dest_size"
  shows "\<exists>buf'. bin_to_base64 buf buflen bin True = Some ((4 * length bin + 2) div 3, buf') \<and>
    base64_to_bin dest dest_size buf' = Some (length bin, bin @ drop (length bin) dest)"
proof -
  have "length (digits3 bin @ [0]) \<le> length buf" using assms(1,2) by (simp add: length_digits3)
  then have "bin_to_base64 buf buflen bin True = Some (length (digits3 bin), buf_write buf 0 (digits3 bin @ [0]))"
    using bin_to_base64_eq [of bin buflen buf] assms(1) by (simp add: length_digits3 put_def)
  moreover have "buf_write buf 0 (digits3 bin @ [0]) = digits3 bin @ 0 # drop (length (digits3 bin) + 1) buf" by (simp add: buf_write_def)
  moreover have "base64_to_bin dest dest_size (digits3 bin @ 0 # cs) = Some (length bin, bin @ drop (length bin) dest)" for cs
    using bin_decode_digits [of 0 bin dest dest_size cs] assms(3,4) by (simp add: base64_to_bin_def buf_write_def)
  ultimately show ?thesis by (simp add: length_digits3)
qed

theorem base64_bin_roundtrip_witness:
  "\<exists>buf'. bin_to_base64 (replicate 7 0) 7 [0, 255, 97, 128] True = Some (6, buf') \<and>
    base64_to_bin [1, 2, 3, 4] 4 buf' = Some (4, [0, 255, 97, 128])"
proof -
  have l: "length [0, 255, 97, 128 :: u8] = 4" by simp
  show ?thesis using base64_bin_roundtrip [of "[0, 255, 97, 128]" 7 "replicate 7 0" "[1, 2, 3, 4]" 4, unfolded l] by simp
qed

lemma bin_decode_stops:
  "n = length dest \<Longrightarrow> bin_decode (int (length dest)) (digit_of x # digit_of y # cs) dest n = None"
  "Suc n = length dest \<Longrightarrow> bin_decode (int (length dest)) (digit_of x # digit_of y # digit_of z # cs) dest n = None"
  "Suc (Suc n) = length dest \<Longrightarrow> bin_decode (int (length dest)) (digit_of x # digit_of y # digit_of z # digit_of w # cs) dest n = None"
  by (subst bin_decode.simps, simp add: store_def)+

lemma bin_decode_overruns:
  "n \<le> length dest \<Longrightarrow> length dest < n + length bs \<Longrightarrow> bin_decode (int (length dest)) (digits3 bs @ 0 # cs) dest n = None"
proof (induction bs arbitrary: dest n rule: digits3.induct)
  case (2 a)
  then show ?case by (simp add: bin_decode_stops)
next
  case (3 a b)
  then have "n = length dest \<or> Suc n = length dest" by auto
  then show ?case by (auto simp: bin_decode_stops)
next
  case (4 a b c bs)
  consider "n = length dest \<or> Suc n = length dest \<or> Suc (Suc n) = length dest" | "Suc (Suc (Suc n)) \<le> length dest" using 4(2) by linarith
  then show ?case
  proof cases
    case 1
    then show ?thesis by (auto simp: bin_decode_stops)
  next
    case 2
    have "bin_decode (int (length d)) (digits3 bs @ 0 # cs) d (Suc (Suc (Suc n))) = None" if "length d = length dest" for d
      using 4(1) [of "Suc (Suc (Suc n))" d] 4(3) 2 that by simp
    from this [of "dest[n := p, Suc n := q, Suc (Suc n) := r]" for p q r] show ?thesis using 2 by (simp add: bin_decode_steps(3))
  qed
qed simp



text \<open>\<^verbatim>\<open>bin_to_base64_pad\<close> stores the zero after the last padding one byte past a buffer that is just filled by the digits.\<close>

lemma bin_to_base64_pad_overruns: "bin_to_base64_pad [0, 0, 0] 3 [97] = None"
  by code_simp

end
