(* ===== verification/Htable.thy ===== *)
theory Htable
  imports Bacula_Prelude "HOL-Library.Multiset"
begin

text \<open>
  The hash table of \<^verbatim>\<open>src/bacula/src/lib/htable.c\<close> and \<^verbatim>\<open>htable.h\<close>, which holds the hard links of the
  restore tree, the files of an accurate backup and the files of a Volume in a cloud: chains of items that are linked through the items
  themselves, in a table that doubles when it has four items for each bucket.  Items are addresses, zero is
  \<^verbatim>\<open>NULL\<close>; the memory maps an item to the link structure in it and has none for an item that is not
  allocated, so that a bad access is \<open>None\<close>.  A key is a string or a 64 bit number; in C the two share their bytes, and a
  comparison of a string with a number is \<open>None\<close>.  \<open>cs\<close> says that \<^verbatim>\<open>char\<close> is signed.
\<close>

section \<open>The table\<close>

datatype hkey = StrKey "u8 list" | IntKey u64

record hlink =
  hl_next :: nat
  hl_hash :: u64
  hl_key :: hkey

text \<open>A large buffer, the next free byte in it and how many are left.\<close>

record h_mem =
  hm_mem :: nat
  hm_rem :: int

record htable =
  ht_table :: "nat list"
  ht_hash :: u64
  ht_total_size :: u64
  ht_num_items :: u32
  ht_max_items :: u32
  ht_buckets :: u32
  ht_index :: u32
  ht_mask :: u32
  ht_rshift :: u32
  ht_walkptr :: nat
  ht_walk_index :: u32
  ht_blocks :: u32
  ht_mem_block :: "h_mem list"
  ht_mem :: "nat \<Rightarrow> hlink option"

definition malloc_big_buf :: "(h_mem list \<Rightarrow> int \<Rightarrow> nat) \<Rightarrow> int \<Rightarrow> htable \<Rightarrow> htable" where
  "malloc_big_buf malloc sz t =
     (let hmem = malloc (ht_mem_block t) sz
      in t\<lparr>ht_total_size := ht_total_size t + of_int sz, ht_blocks := ht_blocks t + 1,
            ht_mem_block := \<lparr>hm_mem = hmem + 24, hm_rem = sz - 24\<rparr> # ht_mem_block t\<rparr>)"

definition hash_malloc :: "(h_mem list \<Rightarrow> int \<Rightarrow> nat) \<Rightarrow> int \<Rightarrow> htable \<Rightarrow> (nat \<times> htable) option" where
  "hash_malloc malloc sz t =
     (case ht_mem_block t of
        [] \<Rightarrow> None
      | m # _ \<Rightarrow>
          (let asize = (sz + 7) div 8 * 8;
               t = (if hm_rem m < asize
                    then malloc_big_buf malloc (if 1000000 \<le> ht_total_size t then 1000000 else 100000) t else t);
               m = hd (ht_mem_block t)
           in Some (hm_mem m, t\<lparr>ht_mem_block := m\<lparr>hm_rem := hm_rem m - asize, hm_mem := hm_mem m + nat asize\<rparr> # tl (ht_mem_block t)\<rparr>)))"

section \<open>Hashing\<close>

definition hash_char :: "bool \<Rightarrow> u8 \<Rightarrow> u64" where
  "hash_char cs c = ucast (if cs then scast c else ucast c :: u32)"

definition hash_of :: "bool \<Rightarrow> hkey \<Rightarrow> u64" where
  "hash_of cs key =
     (case key of
        StrKey s \<Rightarrow> foldl (\<lambda>hash c. hash + ((push_bit 5 hash OR drop_bit 59 hash) + hash_char cs c)) 0 s
      | IntKey ikey \<Rightarrow> ikey)"

definition index_of :: "u32 \<Rightarrow> u32 \<Rightarrow> u64 \<Rightarrow> u32" where
  "index_of rshift msk hash = ucast (drop_bit (unat rshift) (hash * 1103515249) AND ucast msk)"

definition hash_index :: "bool \<Rightarrow> hkey \<Rightarrow> htable \<Rightarrow> htable" where
  "hash_index cs key t =
     (let hash = hash_of cs key in t\<lparr>ht_hash := hash, ht_index := index_of (ht_rshift t) (ht_mask t) hash\<rparr>)"

text \<open>The number of bits of the table for an estimated number of items.\<close>

fun power_loop :: "nat \<Rightarrow> nat" where
  "power_loop tsize = (if tsize = 0 then 0 else Suc (power_loop (tsize div 2)))"

declare power_loop.simps [simp del]

definition ht_init :: "(h_mem list \<Rightarrow> int \<Rightarrow> nat) \<Rightarrow> (nat \<Rightarrow> hlink option) \<Rightarrow> int \<Rightarrow> htable" where
  "ht_init malloc mem tsize =
     (let tsize = (if tsize < 31 then 31 else tsize);
          pwr = power_loop (nat tsize div 4);
          buckets = push_bit pwr 1
      in malloc_big_buf malloc 1000000
        \<lparr>ht_table = replicate (unat buckets) 0, ht_hash = 0, ht_total_size = 0, ht_num_items = 0, ht_max_items = buckets * 4,
          ht_buckets = buckets, ht_index = 0, ht_mask = NOT (push_bit pwr (NOT 0)), ht_rshift = 30 - of_nat pwr, ht_walkptr = 0, ht_walk_index = 0,
          ht_blocks = 0, ht_mem_block = [], ht_mem = mem\<rparr>)"

definition ht_size :: "htable \<Rightarrow> u32" where
  "ht_size t = ht_num_items t"

section \<open>Lookup and insertion\<close>

definition same_key :: "hkey \<Rightarrow> hkey \<Rightarrow> bool option" where
  "same_key k k' =
     (case (k, k') of
        (StrKey s, StrKey s') \<Rightarrow> Some (s = s')
      | (IntKey i, IntKey i') \<Rightarrow> Some (i = i')
      | _ \<Rightarrow> None)"

definition link_matches :: "u64 \<Rightarrow> hkey \<Rightarrow> hlink \<Rightarrow> bool option" where
  "link_matches hash key hp = (if hash = hl_hash hp then same_key key (hl_key hp) else Some False)"

partial_function (option) lookup_loop :: "(nat \<Rightarrow> hlink option) \<Rightarrow> u64 \<Rightarrow> hkey \<Rightarrow> nat \<Rightarrow> nat option" where
  "lookup_loop mem hash key hp =
     (if hp = 0 then Some 0
      else mem hp \<bind> (\<lambda>l. link_matches hash key l \<bind> (\<lambda>found.
        if found then Some hp else lookup_loop mem hash key (hl_next l))))"

definition ht_lookup :: "bool \<Rightarrow> hkey \<Rightarrow> htable \<Rightarrow> (nat \<times> htable) option" where
  "ht_lookup cs key t =
     (let t = hash_index cs key t
      in if unat (ht_index t) < length (ht_table t)
         then map_option (\<lambda>p. (p, t)) (lookup_loop (ht_mem t) (ht_hash t) key (ht_table t ! unat (ht_index t))) else None)"

lemma unat_plus_1: "i < n \<Longrightarrow> unat (i + 1 :: u32) = unat i + 1"
  using unat_add_lt [of i 1] unat_lt_2p32 [of n] by (simp add: word_less_nat_alt)

function walk_loop :: "nat list \<Rightarrow> u32 \<Rightarrow> nat \<Rightarrow> u32 \<Rightarrow> (nat \<times> u32) option" where
  "walk_loop table buckets walkptr walk_index =
     (if walkptr = 0 \<and> walk_index < buckets then
        if unat walk_index < length table then walk_loop table buckets (table ! unat walk_index) (walk_index + 1) else None
      else Some (walkptr, walk_index))"
  by auto
termination
proof (relation "measure (\<lambda>(table, buckets, walkptr, walk_index). unat buckets - unat walk_index)")
  show "((table, buckets, p', i + 1), (table, buckets, p, i)) \<in> measure (\<lambda>(table, buckets, walkptr, walk_index). unat buckets - unat walk_index)"
    if "p = 0 \<and> i < buckets" "unat i < length table" for table :: "nat list" and buckets p p' and i :: u32
  proof -
    have "unat i < unat buckets" using that by (simp add: word_less_nat_alt)
    moreover have "unat (i + 1) = unat i + 1" using that(1) unat_plus_1 by blast
    ultimately show ?thesis by simp
  qed
qed simp

declare walk_loop.simps [simp del]

definition ht_next :: "htable \<Rightarrow> (nat \<times> htable) option" where
  "ht_next t =
     do { walkptr \<leftarrow> (if ht_walkptr t \<noteq> 0 then map_option hl_next (ht_mem t (ht_walkptr t)) else Some 0);
          (walkptr, walk_index) \<leftarrow> walk_loop (ht_table t) (ht_buckets t) walkptr (ht_walk_index t);
          Some (walkptr, t\<lparr>ht_walkptr := walkptr, ht_walk_index := walk_index\<rparr>) }"

definition ht_first :: "htable \<Rightarrow> (nat \<times> htable) option" where
  "ht_first t =
     (case ht_table t of
        [] \<Rightarrow> None
      | p # _ \<Rightarrow>
          do { (walkptr, walk_index) \<leftarrow> walk_loop (ht_table t) (ht_buckets t) p 1;
               Some (walkptr, t\<lparr>ht_walkptr := walkptr, ht_walk_index := walk_index\<rparr>) })"

text \<open>
  Growing: the items are inserted one by one into a table of twice the size, \<open>big\<close>; both tables work on the same
  memory, and an item's link is saved before it is overwritten.
\<close>

partial_function (option) grow_loop ::
  "(hkey \<Rightarrow> nat \<Rightarrow> htable \<Rightarrow> (bool \<times> htable) option) \<Rightarrow> htable \<Rightarrow> htable \<Rightarrow> nat \<Rightarrow> htable option" where
  "grow_loop ins t big item =
     (if item = 0 then Some big
      else ht_mem big item \<bind> (\<lambda>hp.
        ins (hl_key hp) item big \<bind> (\<lambda>(_, big).
          if hl_next hp \<noteq> 0 then grow_loop ins t big (hl_next hp)
          else ht_next (t\<lparr>ht_walkptr := 0, ht_mem := ht_mem big\<rparr>) \<bind> (\<lambda>(item, t). grow_loop ins t big item))))"

definition big_table :: "htable \<Rightarrow> htable" where
  "big_table t = t\<lparr>ht_mask := push_bit 1 (ht_mask t) OR 1, ht_rshift := ht_rshift t - 1, ht_num_items := 0, ht_buckets := ht_buckets t * 2,
     ht_max_items := ht_buckets t * 2 * 4, ht_table := replicate (unat (ht_buckets t * 2)) 0, ht_walkptr := 0, ht_walk_index := 0\<rparr>"

definition grow_table :: "(hkey \<Rightarrow> nat \<Rightarrow> htable \<Rightarrow> (bool \<times> htable) option) \<Rightarrow> htable \<Rightarrow> htable option" where
  "grow_table ins t = ht_first t \<bind> (\<lambda>(item, t). grow_loop ins t (big_table t) item)"

definition link_item :: "hkey \<Rightarrow> nat \<Rightarrow> htable \<Rightarrow> htable" where
  "link_item key item t =
     (let i = unat (ht_index t)
      in t\<lparr>ht_mem := (ht_mem t)(item \<mapsto> \<lparr>hl_next = ht_table t ! i, hl_hash = ht_hash t, hl_key = key\<rparr>),
            ht_table := (ht_table t)[i := item], ht_num_items := ht_num_items t + 1\<rparr>)"

text \<open>\<open>depth\<close> bounds how deep insertions and growths may nest.\<close>

fun ht_insert :: "nat \<Rightarrow> bool \<Rightarrow> hkey \<Rightarrow> nat \<Rightarrow> htable \<Rightarrow> (bool \<times> htable) option" where
  "ht_insert 0 cs key item t = None"
| "ht_insert (Suc depth) cs key item t =
     do { (found, t) \<leftarrow> ht_lookup cs key t;
          if found \<noteq> 0 then Some (False, t)
          else if \<not> ht_index t < ht_buckets t then None
          else do {
            _ \<leftarrow> ht_mem t item;
            let t = link_item key item t;
            t \<leftarrow> (if ht_max_items t \<le> ht_num_items t then grow_table (ht_insert depth cs) t else Some t);
            Some (True, t) } }"

text \<open>The loop \<^verbatim>\<open>foreach_htable\<close> over all items, as the list of the items it visits.\<close>

partial_function (option) foreach_loop :: "htable \<Rightarrow> nat \<Rightarrow> nat list option" where
  "foreach_loop t item =
     (if item = 0 then Some []
      else ht_next t \<bind> (\<lambda>(item', t). foreach_loop t item' \<bind> (\<lambda>xs. Some (item # xs))))"

definition foreach_htable :: "htable \<Rightarrow> nat list option" where
  "foreach_htable t = ht_first t \<bind> (\<lambda>(item, t). foreach_loop t item)"

section \<open>Chains\<close>

fun chain :: "(nat \<Rightarrow> hlink option) \<Rightarrow> nat \<Rightarrow> nat list \<Rightarrow> bool" where
  "chain mem p [] = (p = 0)"
| "chain mem p (x # xs) = (p = x \<and> x \<noteq> 0 \<and> (\<exists>l. mem x = Some l \<and> chain mem (hl_next l) xs))"

definition key_at :: "(nat \<Rightarrow> hlink option) \<Rightarrow> nat \<Rightarrow> hkey option" where
  "key_at mem x = map_option hl_key (mem x)"

fun is_str :: "hkey \<Rightarrow> bool" where
  "is_str (StrKey s) = True"
| "is_str (IntKey i) = False"

lemma chain_cong: "(\<And>x. x \<in> set xs \<Longrightarrow> mem' x = mem x) \<Longrightarrow> chain mem' p xs = chain mem p xs"
  by (induction xs arbitrary: p) auto

lemma chain_0: "chain mem 0 xs \<longleftrightarrow> xs = []" "p \<noteq> 0 \<Longrightarrow> chain mem p xs \<Longrightarrow> \<exists>ys. xs = p # ys"
  by (cases xs; auto)+

lemma same_key_eq: "is_str k = is_str k' \<Longrightarrow> same_key k k' = Some (k = k')"
  by (cases k; cases k') (auto simp: same_key_def)

text \<open>A link in good order: it has the hash of its key, and the keys of one table are of one kind.\<close>

definition good_link :: "bool \<Rightarrow> bool \<Rightarrow> hlink \<Rightarrow> bool" where
  "good_link cs kd l \<longleftrightarrow> hl_hash l = hash_of cs (hl_key l) \<and> is_str (hl_key l) = kd"

lemma lookup_loop_chain:
  assumes "chain mem p xs" and "\<forall>x \<in> set xs. \<exists>l. mem x = Some l \<and> good_link cs kd l" and "is_str key = kd"
  shows "lookup_loop mem (hash_of cs key) key p = Some (case find (\<lambda>x. key_at mem x = Some key) xs of Some x \<Rightarrow> x | None \<Rightarrow> 0)"
  using assms(1,2)
proof (induction xs arbitrary: p)
  case Nil
  then show ?case by (subst lookup_loop.simps) simp
next
  case (Cons x xs)
  then obtain l where l: "p = x" "x \<noteq> 0" "mem x = Some l" "chain mem (hl_next l) xs" "good_link cs kd l" by auto
  then have m: "link_matches (hash_of cs key) key l = Some (key = hl_key l)"
    using assms(3) by (auto simp: link_matches_def good_link_def same_key_eq)
  show ?case
    using Cons l m by (subst lookup_loop.simps) (auto simp: key_at_def)
qed

section \<open>The shape of the table\<close>

definition shape :: "nat \<Rightarrow> htable \<Rightarrow> bool" where
  "shape k t \<longleftrightarrow> k \<le> 29 \<and> ht_buckets t = 2 ^ k \<and> ht_mask t = mask k \<and> ht_rshift t = of_nat (30 - k) \<and> ht_max_items t = 2 ^ (k + 2) \<and>
     length (ht_table t) = 2 ^ k"

definition slot :: "nat \<Rightarrow> u64 \<Rightarrow> nat" where
  "slot k hash = unat (index_of (of_nat (30 - k)) (mask k) hash)"

lemma unat_2_power: "k < 32 \<Longrightarrow> unat (2 ^ k :: u32) = 2 ^ k"
  using unat_of_nat_u32 [of "2 ^ k"] power_strict_increasing [of k 32 "2 :: nat"] by simp

lemma slot_less: "k \<le> 29 \<Longrightarrow> slot k hash < 2 ^ k"
proof -
  assume k: "k \<le> 29"
  have "ucast (mask k :: u32) = (mask k :: u64)" using k by (intro bit_word_eqI) (auto simp: bit_simps)
  then have "slot k hash = unat (ucast (take_bit k (drop_bit (unat (of_nat (30 - k) :: u32)) (hash * 1103515249))) :: u32)"
    by (simp add: slot_def index_of_def take_bit_eq_mask)
  also have "\<dots> = unat (take_bit k (ucast (drop_bit (unat (of_nat (30 - k) :: u32)) (hash * 1103515249)) :: u32))"
    using k by (intro arg_cong [of _ _ unat] bit_word_eqI) (auto simp: bit_simps)
  also have "\<dots> = take_bit k (unat (ucast (drop_bit (unat (of_nat (30 - k) :: u32)) (hash * 1103515249)) :: u32))"
    by (simp only: unsigned_take_bit_eq)
  also have "\<dots> < 2 ^ k" by simp
  finally show ?thesis .
qed

definition ht_items :: "nat \<Rightarrow> (nat \<Rightarrow> nat list) \<Rightarrow> nat list" where
  "ht_items k ch = concat (map ch [0..<2 ^ k])"

definition ht_core :: "bool \<Rightarrow> bool \<Rightarrow> nat \<Rightarrow> htable \<Rightarrow> (nat \<Rightarrow> nat list) \<Rightarrow> bool" where
  "ht_core cs kd k t ch \<longleftrightarrow> shape k t \<and>
     (\<forall>i < 2 ^ k. chain (ht_mem t) (ht_table t ! i) (ch i)) \<and>
     (\<forall>i < 2 ^ k. \<forall>x \<in> set (ch i). \<exists>l. ht_mem t x = Some l \<and> good_link cs kd l \<and> slot k (hl_hash l) = i) \<and>
     distinct (ht_items k ch) \<and> inj_on (key_at (ht_mem t)) (set (ht_items k ch)) \<and> ht_num_items t = of_nat (length (ht_items k ch))"

lemma set_ht_items: "set (ht_items k ch) = (\<Union>i < 2 ^ k. set (ch i))"
  by (auto simp: ht_items_def)

lemma mset_ht_items_add:
  assumes "i < 2 ^ k"
  shows "mset (ht_items k (ch(i := x # ch i))) = add_mset x (mset (ht_items k ch))"
proof -
  have "mset (concat (map (ch(i := x # ch i)) [0..<n])) = (if i < n then {#x#} else {#}) + mset (concat (map ch [0..<n]))" for n
    by (induction n) (auto simp: less_Suc_eq)
  then show ?thesis using assms by (simp add: ht_items_def)
qed

lemma ht_lookup_core:
  assumes c: "ht_core cs kd k t ch" and kd: "is_str key = kd"
  shows "\<exists>p. ht_lookup cs key t = Some (p, hash_index cs key t) \<and>
    (p = 0 \<longrightarrow> (\<forall>x \<in> set (ht_items k ch). key_at (ht_mem t) x \<noteq> Some key)) \<and>
    (p \<noteq> 0 \<longrightarrow> p \<in> set (ht_items k ch) \<and> key_at (ht_mem t) p = Some key)"
proof -
  have sh: "shape k t" using c by (simp add: ht_core_def)
  let ?i = "slot k (hash_of cs key)"
  have i: "?i < 2 ^ k" using sh slot_less by (simp add: shape_def)
  have ix: "unat (ht_index (hash_index cs key t)) = ?i" using sh by (simp add: hash_index_def Let_def slot_def shape_def)
  have ch: "chain (ht_mem t) (ht_table t ! ?i) (ch ?i)" and good: "\<forall>x \<in> set (ch ?i). \<exists>l. ht_mem t x = Some l \<and> good_link cs kd l"
    using c i unfolding ht_core_def by blast+
  let ?f = "find (\<lambda>x. key_at (ht_mem t) x = Some key) (ch ?i)"
  have l: "ht_lookup cs key t = Some (case ?f of Some x \<Rightarrow> x | None \<Rightarrow> 0, hash_index cs key t)"
    using lookup_loop_chain [OF ch good kd] i ix sh by (simp add: ht_lookup_def Let_def hash_index_def shape_def)
  have here: "x \<in> set (ch ?i)" if a: "x \<in> set (ht_items k ch)" "key_at (ht_mem t) x = Some key" for x
  proof -
    obtain j where j: "j < 2 ^ k" "x \<in> set (ch j)" using a(1) by (auto simp: set_ht_items)
    then obtain l where "ht_mem t x = Some l" "good_link cs kd l" "slot k (hl_hash l) = j" using c unfolding ht_core_def by blast
    then have "j = ?i" using a(2) by (simp add: key_at_def good_link_def)
    then show ?thesis using j by simp
  qed
  have nz: "0 \<notin> set xs" if "chain (ht_mem t) p xs" for p xs using that by (induction xs arbitrary: p) auto
  show ?thesis
  proof (cases ?f)
    case None
    then have "\<forall>x \<in> set (ch ?i). key_at (ht_mem t) x \<noteq> Some key" by (auto simp: find_None_iff)
    then have "\<forall>x \<in> set (ht_items k ch). key_at (ht_mem t) x \<noteq> Some key" using here by blast
    then show ?thesis using l None by simp
  next
    case (Some x)
    then have x: "x \<in> set (ch ?i)" "key_at (ht_mem t) x = Some key" by (auto simp: find_Some_iff in_set_conv_nth)
    then have "x \<noteq> 0" using nz [OF ch] by metis
    moreover have "x \<in> set (ht_items k ch)" using x(1) i by (auto simp: set_ht_items)
    ultimately show ?thesis using l Some x(2) by simp
  qed
qed

lemma hash_index_core: "ht_core cs kd k (hash_index cs' key t) ch = ht_core cs kd k t ch"
  by (simp add: hash_index_def ht_core_def shape_def Let_def)

text \<open>Linking an item whose key is new.\<close>

lemma link_core:
  fixes t key item cs
  defines "t' \<equiv> link_item key item (hash_index cs key t)"
  assumes c: "ht_core cs kd k t ch" and kd: "is_str key = kd" and item: "item \<noteq> 0" "item \<notin> set (ht_items k ch)"
    and new: "\<forall>x \<in> set (ht_items k ch). key_at (ht_mem t) x \<noteq> Some key"
  shows "\<exists>ch'. ht_core cs kd k t' ch' \<and> mset (ht_items k ch') = add_mset item (mset (ht_items k ch))"
    "\<exists>l. ht_mem t' = (ht_mem t)(item \<mapsto> l) \<and> hl_key l = key"
proof -
  have sh: "shape k t" using c by (simp add: ht_core_def)
  let ?i = "slot k (hash_of cs key)"
  let ?ch = "ch(?i := item # ch ?i)"
  let ?l = "\<lparr>hl_next = ht_table t ! ?i, hl_hash = hash_of cs key, hl_key = key\<rparr>"
  have i: "?i < 2 ^ k" using sh slot_less by (simp add: shape_def)
  have ix: "unat (index_of (ht_rshift t) (ht_mask t) (hash_of cs key)) = ?i" using sh by (simp add: slot_def shape_def)
  have m: "ht_mem t' = (ht_mem t)(item \<mapsto> ?l)" and tb: "ht_table t' = (ht_table t)[?i := item]" and n: "ht_num_items t' = ht_num_items t + 1"
    and sh': "shape k t'"
    using sh ix by (simp_all add: t'_def link_item_def hash_index_def Let_def shape_def)
  show "\<exists>l. ht_mem t' = (ht_mem t)(item \<mapsto> l) \<and> hl_key l = key" using m by auto
  have notin: "item \<notin> set (ch j)" if "j < 2 ^ k" for j using item(2) that by (auto simp: set_ht_items)
  have chains: "chain (ht_mem t') (ht_table t' ! j) (?ch j)" if j: "j < 2 ^ k" for j
  proof -
    have "chain (ht_mem t) (ht_table t ! j) (ch j)" using c j unfolding ht_core_def by blast
    moreover have "ht_mem t' x = ht_mem t x" if "x \<in> set (ch j)" for x using that notin [OF j] m by auto
    ultimately have "chain (ht_mem t') (ht_table t ! j) (ch j)" using chain_cong [of "ch j" "ht_mem t'" "ht_mem t"] by blast
    then show ?thesis using item(1) m tb i sh by (auto simp: shape_def)
  qed
  have links: "\<exists>l. ht_mem t' x = Some l \<and> good_link cs kd l \<and> slot k (hl_hash l) = j" if j: "j < 2 ^ k" "x \<in> set (?ch j)" for j x
  proof (cases "x = item")
    case True
    then have "j = ?i" using j notin by (auto split: if_splits)
    then show ?thesis using True m kd by (simp add: good_link_def)
  next
    case False
    then have "x \<in> set (ch j)" using j by (auto split: if_splits)
    then have "\<exists>l. ht_mem t x = Some l \<and> good_link cs kd l \<and> slot k (hl_hash l) = j" using c j(1) unfolding ht_core_def by blast
    then show ?thesis using False m by simp
  qed
  have ms: "mset (ht_items k ?ch) = add_mset item (mset (ht_items k ch))" using mset_ht_items_add [OF i] .
  then have it: "mset (ht_items k ?ch) = mset (item # ht_items k ch)" by simp
  have "distinct (ht_items k ?ch)" using mset_eq_imp_distinct_iff [OF it] c item(2) by (simp add: ht_core_def)
  moreover have st: "set (ht_items k ?ch) = insert item (set (ht_items k ch))" using mset_eq_setD [OF it] by simp
  moreover have "length (ht_items k ?ch) = Suc (length (ht_items k ch))" using mset_eq_length [OF it] by simp
  moreover have "inj_on (key_at (ht_mem t')) (set (ht_items k ?ch))"
  proof -
    have same: "key_at (ht_mem t') x = key_at (ht_mem t) x" if "x \<in> set (ht_items k ch)" for x
      using that item(2) m by (auto simp: key_at_def)
    then have "inj_on (key_at (ht_mem t')) (set (ht_items k ch)) = inj_on (key_at (ht_mem t)) (set (ht_items k ch))" by (rule inj_on_cong)
    then have "inj_on (key_at (ht_mem t')) (set (ht_items k ch))" using c by (simp add: ht_core_def)
    moreover have "key_at (ht_mem t') item = Some key" using m by (simp add: key_at_def)
    ultimately show ?thesis unfolding st using same new item(2) by (auto simp: image_iff) 
  qed
  ultimately have "ht_core cs kd k t' ?ch"
    unfolding ht_core_def using sh' chains links n c by (simp add: ht_core_def)
  then show "\<exists>ch'. ht_core cs kd k t' ch' \<and> mset (ht_items k ch') = add_mset item (mset (ht_items k ch))" using ms by blast
qed

lemma insert_adds:
  assumes c: "ht_core cs kd k t ch" and kd: "is_str key = kd" and item: "item \<noteq> 0" "item \<notin> set (ht_items k ch)" "ht_mem t item \<noteq> None"
    and new: "\<forall>x \<in> set (ht_items k ch). key_at (ht_mem t) x \<noteq> Some key"
  shows "ht_insert (Suc d) cs key item t =
      map_option (Pair True) (let t = link_item key item (hash_index cs key t) in
        if ht_max_items t \<le> ht_num_items t then grow_table (ht_insert d cs) t else Some t)"
proof -
  obtain p where p: "ht_lookup cs key t = Some (p, hash_index cs key t)" "p \<noteq> 0 \<longrightarrow> p \<in> set (ht_items k ch) \<and> key_at (ht_mem t) p = Some key"
    using ht_lookup_core [OF c kd] by blast
  then have "p = 0" using new by blast
  have sh: "shape k t" using c by (simp add: ht_core_def)
  have "unat (ht_index (hash_index cs key t)) < 2 ^ k" using sh slot_less [of k "hash_of cs key"] by (simp add: hash_index_def slot_def shape_def Let_def)
  then have "ht_index (hash_index cs key t) < ht_buckets (hash_index cs key t)"
    using sh unat_2_power [of k] by (simp add: word_less_nat_alt hash_index_def Let_def shape_def)
  moreover have "ht_mem (hash_index cs key t) item \<noteq> None" using item(3) by (simp add: hash_index_def Let_def)
  moreover have "m \<bind> (\<lambda>t. Some (True, t)) = map_option (Pair True) m" for m :: "htable option" by (cases m) auto
  ultimately show ?thesis using p(1) \<open>p = 0\<close> by (auto simp: Let_def)
qed

section \<open>Walking\<close>

text \<open>From a position in the table on, the walk goes to the next item in the order of the buckets.\<close>

lemma walk_loop_chains:
  assumes "chain mem p c" and "unat i \<le> 2 ^ k" and "k \<le> 29" and "length table = 2 ^ k"
    and "\<forall>j. unat i \<le> j \<and> j < 2 ^ k \<longrightarrow> chain mem (table ! j) (ch j)"
  shows "\<exists>p' i' c'. walk_loop table (2 ^ k) p i = Some (p', i') \<and> chain mem p' c' \<and> unat i \<le> unat i' \<and> unat i' \<le> 2 ^ k \<and>
    c' @ concat (map ch [unat i'..<2 ^ k]) = c @ concat (map ch [unat i..<2 ^ k]) \<and> (p' = 0 \<longrightarrow> c @ concat (map ch [unat i..<2 ^ k]) = [])"
  using assms
proof (induction "2 ^ k - unat i" arbitrary: p i c)
  case 0
  then have "\<not> i < 2 ^ k" using unat_2_power [of k] by (simp add: word_less_nat_alt)
  then have "walk_loop table (2 ^ k) p i = Some (p, i)" by (subst walk_loop.simps) simp
  then show ?case using 0 by (intro exI [of _ p] exI [of _ i] exI [of _ c]) (auto simp: chain_0)
next
  case (Suc n)
  then have lt: "unat i < 2 ^ k" and lt': "i < 2 ^ k" using unat_2_power [of k] by (simp_all add: word_less_nat_alt)
  show ?case
  proof (cases "p = 0")
    case False
    then have "walk_loop table (2 ^ k) p i = Some (p, i)" by (subst walk_loop.simps) simp
    then show ?thesis using Suc.prems False by (intro exI [of _ p] exI [of _ i] exI [of _ c]) simp
  next
    case True
    then have c: "c = []" using Suc.prems(1) by (simp add: chain_0)
    have u: "unat (i + 1) = unat i + 1" using unat_plus_1 [OF lt'] .
    have w: "walk_loop table (2 ^ k) p i = walk_loop table (2 ^ k) (table ! unat i) (i + 1)"
      using True lt lt' Suc.prems(4) by (subst walk_loop.simps) simp
    have s: "concat (map ch [unat i..<2 ^ k]) = ch (unat i) @ concat (map ch [unat (i + 1)..<2 ^ k])" using lt u by (simp add: upt_conv_Cons)
    have "n = 2 ^ k - unat (i + 1)" "chain mem (table ! unat i) (ch (unat i))" "unat (i + 1) \<le> 2 ^ k"
      "\<forall>j. unat (i + 1) \<le> j \<and> j < 2 ^ k \<longrightarrow> chain mem (table ! j) (ch j)"
      using Suc.hyps(2) Suc.prems(5) lt u by auto
    from Suc.hyps(1) [OF this(1,2,3) Suc.prems(3,4) this(4)] show ?thesis unfolding w c s using u by auto
  qed
qed

definition walking :: "(nat \<Rightarrow> hlink option) \<Rightarrow> nat \<Rightarrow> htable \<Rightarrow> (nat \<Rightarrow> nat list) \<Rightarrow> nat list \<Rightarrow> nat list \<Rightarrow> bool" where
  "walking mem k t ch c rest \<longleftrightarrow> shape k t \<and> unat (ht_walk_index t) \<le> 2 ^ k \<and>
     (\<forall>j. unat (ht_walk_index t) \<le> j \<and> j < 2 ^ k \<longrightarrow> chain mem (ht_table t ! j) (ch j)) \<and>
     rest = c @ concat (map ch [unat (ht_walk_index t)..<2 ^ k]) \<and> (c = [] \<longrightarrow> rest = [])"

lemma walk_on:
  assumes "shape k t" and "chain mem p c" and "unat i \<le> 2 ^ k" and "\<forall>j. unat i \<le> j \<and> j < 2 ^ k \<longrightarrow> chain mem (ht_table t ! j) (ch j)"
  shows "\<exists>p' i' c'. walk_loop (ht_table t) (ht_buckets t) p i = Some (p', i') \<and> chain mem p' c' \<and>
    walking mem k (t\<lparr>ht_walkptr := p', ht_walk_index := i'\<rparr>) ch c' (c @ concat (map ch [unat i..<2 ^ k]))"
proof -
  have sh: "k \<le> 29" "length (ht_table t) = 2 ^ k" "ht_buckets t = 2 ^ k" using assms(1) by (auto simp: shape_def)
  obtain p' i' c' where w: "walk_loop (ht_table t) (2 ^ k) p i = Some (p', i')" "chain mem p' c'" "unat i \<le> unat i'" "unat i' \<le> 2 ^ k"
    "c' @ concat (map ch [unat i'..<2 ^ k]) = c @ concat (map ch [unat i..<2 ^ k])" "p' = 0 \<longrightarrow> c @ concat (map ch [unat i..<2 ^ k]) = []"
    using walk_loop_chains [OF assms(2,3) sh(1,2) assms(4)] by blast
  have "c' = [] \<longrightarrow> p' = 0" using w(2) by auto
  moreover have "shape k (t\<lparr>ht_walkptr := p', ht_walk_index := i'\<rparr>)" using assms(1) by (simp add: shape_def)
  ultimately have "walking mem k (t\<lparr>ht_walkptr := p', ht_walk_index := i'\<rparr>) ch c' (c @ concat (map ch [unat i..<2 ^ k]))"
    using w assms(4) by (auto simp: walking_def)
  then show ?thesis using w(1,2) sh(3) by auto
qed

lemma ht_first_walking:
  assumes "shape k t" and "\<forall>j < 2 ^ k. chain (ht_mem t) (ht_table t ! j) (ch j)"
  shows "\<exists>p c t'. ht_first t = Some (p, t') \<and> chain (ht_mem t) p c \<and> walking (ht_mem t) k t' ch c (ht_items k ch) \<and>
    (\<exists>i. t' = t\<lparr>ht_walkptr := p, ht_walk_index := i\<rparr>)"
proof -
  obtain p0 tb where tb: "ht_table t = p0 # tb" using assms(1) by (cases "ht_table t") (auto simp: shape_def)
  have "chain (ht_mem t) p0 (ch 0)" using assms(2) tb by (metis nth_Cons_0 zero_less_numeral zero_less_power)
  moreover have "unat (1 :: u32) \<le> 2 ^ k" by simp
  moreover have "\<forall>j. unat (1 :: u32) \<le> j \<and> j < 2 ^ k \<longrightarrow> chain (ht_mem t) (ht_table t ! j) (ch j)" using assms(2) by blast
  ultimately obtain p' i' c' where "walk_loop (ht_table t) (ht_buckets t) p0 1 = Some (p', i')" "chain (ht_mem t) p' c'"
    "walking (ht_mem t) k (t\<lparr>ht_walkptr := p', ht_walk_index := i'\<rparr>) ch c' (ch 0 @ concat (map ch [unat (1 :: u32)..<2 ^ k]))"
    using walk_on [OF assms(1), of "ht_mem t" p0 "ch 0" 1 ch] by blast
  moreover have "ht_items k ch = ch 0 @ concat (map ch [unat (1 :: u32)..<2 ^ k])" unfolding ht_items_def by (subst upt_conv_Cons) simp_all
  ultimately show ?thesis using tb by (auto simp: ht_first_def)
qed

lemma ht_next_walking:
  assumes w: "walking mem k t ch c rest" and c': "c \<noteq> []"
    and p: "if ht_walkptr t = 0 then ptr = 0 else (\<exists>l. ht_mem t (ht_walkptr t) = Some l \<and> hl_next l = ptr)" and chn: "chain mem ptr (tl c)"
  shows "\<exists>p t'. ht_next t = Some (p, t') \<and> (\<exists>c''. chain mem p c'' \<and> walking mem k t' ch c'' (tl rest)) \<and>
    (\<exists>i. t' = t\<lparr>ht_walkptr := p, ht_walk_index := i\<rparr>)"
proof -
  have sh: "shape k t" and i: "unat (ht_walk_index t) \<le> 2 ^ k"
    and cs: "\<forall>j. unat (ht_walk_index t) \<le> j \<and> j < 2 ^ k \<longrightarrow> chain mem (ht_table t ! j) (ch j)"
    and r: "tl rest = tl c @ concat (map ch [unat (ht_walk_index t)..<2 ^ k])"
    using w c' by (auto simp: walking_def)
  obtain p' i' c'' where "walk_loop (ht_table t) (ht_buckets t) ptr (ht_walk_index t) = Some (p', i')" "chain mem p' c''"
    "walking mem k (t\<lparr>ht_walkptr := p', ht_walk_index := i'\<rparr>) ch c'' (tl rest)"
    using walk_on [OF sh chn i cs] unfolding r by blast
  moreover have "(if ht_walkptr t \<noteq> 0 then map_option hl_next (ht_mem t (ht_walkptr t)) else Some 0) = Some ptr" using p by (auto split: if_splits)
  ultimately show ?thesis by (auto simp: ht_next_def)
qed

section \<open>Growing\<close>

declare ht_insert.simps(2) [simp del]

lemma walking_cong:
  assumes "walking mem k t ch c rest" and "c \<noteq> []" and "\<And>x. x \<in> set (tl rest) \<Longrightarrow> mem' x = mem x"
  shows "walking mem' k t ch c rest"
proof -
  have "x \<in> set (tl rest)" if "unat (ht_walk_index t) \<le> j" "j < 2 ^ k" "x \<in> set (ch j)" for j x
    using that assms(1,2) by (cases c) (force simp: walking_def)+
  then have "chain mem' (ht_table t ! j) (ch j)" if "unat (ht_walk_index t) \<le> j" "j < 2 ^ k" for j
    using that assms(1,3) chain_cong [of "ch j" mem' mem] unfolding walking_def by metis
  then show ?thesis using assms(1) by (auto simp: walking_def)
qed

lemma add_mset_chain: "mset xs = add_mset x (mset ys) \<Longrightarrow> set xs = insert x (set ys) \<and> length xs = Suc (length ys)"
  using mset_eq_setD [of xs "x # ys"] mset_eq_length [of xs "x # ys"] by simp

lemma no_grow:
  assumes "shape k t" and "ht_num_items t = of_nat n" and "n < 2 ^ (k + 2)"
  shows "\<not> ht_max_items t \<le> ht_num_items t"
proof -
  have "k + 2 < 32" using assms(1) by (simp add: shape_def)
  then have "unat (ht_max_items t) = 2 ^ (k + 2)" "n < 2 ^ 32"
    using assms(1,3) unat_2_power [of "k + 2"] power_strict_increasing [of "k + 2" 32 "2 :: nat"] by (simp_all add: shape_def)
  then show ?thesis using assms(2,3) unat_of_nat_u32 [of n] by (simp add: word_le_nat_alt)
qed

lemma grow_loop_moves:
  assumes "walking (ht_mem big) k t ch c rest" and "chain (ht_mem big) item c" and "ht_core cs kd k' big chb"
    and "distinct (rest @ ht_items k' chb)" and "inj_on (key_at (ht_mem big)) (set (rest @ ht_items k' chb))"
    and "\<forall>x \<in> set rest. x \<noteq> 0 \<and> (\<exists>l. ht_mem big x = Some l \<and> is_str (hl_key l) = kd)"
    and "length (rest @ ht_items k' chb) < 2 ^ (k' + 2)"
  shows "\<exists>big' chb'. grow_loop (ht_insert (Suc d) cs) t big item = Some big' \<and> ht_core cs kd k' big' chb' \<and>
    mset (ht_items k' chb') = mset rest + mset (ht_items k' chb) \<and> (\<forall>x. key_at (ht_mem big') x = key_at (ht_mem big) x)"
  using assms
proof (induction rest arbitrary: t big item c chb)
  case Nil
  then have "c = []" by (simp add: walking_def)
  then have "item = 0" using Nil.prems(2) by simp
  then show ?case using Nil.prems(3) by (subst grow_loop.simps) auto
next
  case (Cons x rest)
  note w = Cons.prems(1) and core = Cons.prems(3)
  have "c \<noteq> []" using w by (auto simp: walking_def)
  then obtain c' where c: "c = x # c'" using w by (cases c) (auto simp: walking_def)
  obtain l where l: "item = x" "x \<noteq> 0" "ht_mem big x = Some l" "chain (ht_mem big) (hl_next l) c'" using Cons.prems(2) c by auto
  have kd: "is_str (hl_key l) = kd" using Cons.prems(6) l(3) by auto
  have xn: "x \<notin> set rest" "x \<notin> set (ht_items k' chb)" using Cons.prems(4) by auto
  have new: "\<forall>y \<in> set (ht_items k' chb). key_at (ht_mem big) y \<noteq> Some (hl_key l)"
  proof
    fix y assume y: "y \<in> set (ht_items k' chb)"
    then have "key_at (ht_mem big) x \<noteq> key_at (ht_mem big) y" using Cons.prems(5) xn(2) by (auto simp: inj_on_def)
    then show "key_at (ht_mem big) y \<noteq> Some (hl_key l)" using l(3) by (auto simp: key_at_def)
  qed
  let ?b = "link_item (hl_key l) x (hash_index cs (hl_key l) big)"
  obtain chb' where b: "ht_core cs kd k' ?b chb'" "mset (ht_items k' chb') = add_mset x (mset (ht_items k' chb))"
    using link_core(1) [OF core kd l(2) xn(2) new] by blast
  obtain l' where m: "ht_mem ?b = (ht_mem big)(x \<mapsto> l')" "hl_key l' = hl_key l"
    using link_core(2) [OF core kd l(2) xn(2) new] by blast
  have keys: "key_at (ht_mem ?b) y = key_at (ht_mem big) y" for y using m l(3) by (simp add: key_at_def)
  note it = add_mset_chain [OF b(2)]
  have "\<not> ht_max_items ?b \<le> ht_num_items ?b"
    using no_grow [of k' ?b "length (ht_items k' chb')"] b(1) it Cons.prems(7) by (simp add: ht_core_def)
  then have ins: "ht_insert (Suc d) cs (hl_key l) x big = Some (True, ?b)"
    using insert_adds [OF core kd l(2) xn(2) _ new, of d] l(3) by (simp add: Let_def)
  have frame: "ht_mem ?b y = ht_mem big y" if "y \<in> set rest" for y using that m(1) xn(1) by auto
  then have w': "walking (ht_mem ?b) k t ch c (x # rest)" using walking_cong [OF w \<open>c \<noteq> []\<close>, of "ht_mem ?b"] by simp
  have sub: "set c' \<subseteq> set rest" using w c by (auto simp: walking_def)
  then have ch': "chain (ht_mem ?b) (hl_next l) c'" using l(4) chain_cong [of c' "ht_mem ?b" "ht_mem big"] frame by blast
  have pre: "distinct (rest @ ht_items k' chb')" "inj_on (key_at (ht_mem ?b)) (set (rest @ ht_items k' chb'))"
    "\<forall>y \<in> set rest. y \<noteq> 0 \<and> (\<exists>l. ht_mem ?b y = Some l \<and> is_str (hl_key l) = kd)" "length (rest @ ht_items k' chb') < 2 ^ (k' + 2)"
  proof -
    have "distinct (ht_items k' chb')" using b(1) by (simp add: ht_core_def)
    then show "distinct (rest @ ht_items k' chb')" using Cons.prems(4) it by auto
    have "set (rest @ ht_items k' chb') = set ((x # rest) @ ht_items k' chb)" using it by auto
    then show "inj_on (key_at (ht_mem ?b)) (set (rest @ ht_items k' chb'))" using Cons.prems(5) by (simp add: inj_on_def keys)
    show "\<forall>y \<in> set rest. y \<noteq> 0 \<and> (\<exists>l. ht_mem ?b y = Some l \<and> is_str (hl_key l) = kd)" using Cons.prems(6) m(1) xn(1) by auto
    show "length (rest @ ht_items k' chb') < 2 ^ (k' + 2)" using Cons.prems(7) it by simp
  qed
  have goal: "\<exists>big' chb''. r = Some big' \<and> ht_core cs kd k' big' chb'' \<and> mset (ht_items k' chb'') = mset (x # rest) + mset (ht_items k' chb) \<and>
      (\<forall>y. key_at (ht_mem big') y = key_at (ht_mem big) y)"
    if "\<exists>big' chb''. r = Some big' \<and> ht_core cs kd k' big' chb'' \<and> mset (ht_items k' chb'') = mset rest + mset (ht_items k' chb') \<and>
      (\<forall>y. key_at (ht_mem big') y = key_at (ht_mem ?b) y)" for r
    using that b(2) keys by auto
  show ?case
  proof (cases "hl_next l = 0")
    case False
    then have "c' \<noteq> []" using ch' by auto
    then have "walking (ht_mem ?b) k t ch c' rest" using w' c by (auto simp: walking_def)
    moreover have "grow_loop (ht_insert (Suc d) cs) t big item = grow_loop (ht_insert (Suc d) cs) t ?b (hl_next l)"
      using l(1-3) ins False by (subst grow_loop.simps) simp
    ultimately show ?thesis using goal [OF Cons.IH [OF _ ch' b(1) pre]] by simp
  next
    case True
    then have "c' = []" using ch' by (simp add: chain_0)
    let ?t = "t\<lparr>ht_walkptr := 0, ht_mem := ht_mem ?b\<rparr>"
    have "walking (ht_mem ?b) k ?t ch c (x # rest)" using w' by (simp add: walking_def shape_def)
    from ht_next_walking [OF this \<open>c \<noteq> []\<close>, of 0] obtain p t' c'' where
      n: "ht_next ?t = Some (p, t')" "chain (ht_mem ?b) p c''" "walking (ht_mem ?b) k t' ch c'' rest"
      using \<open>c' = []\<close> c by auto
    moreover have "grow_loop (ht_insert (Suc d) cs) t big item = grow_loop (ht_insert (Suc d) cs) t' ?b p"
      using l(1-3) ins True n(1) by (subst grow_loop.simps) simp
    ultimately show ?thesis using goal [OF Cons.IH [OF n(3,2) b(1) pre]] by simp
  qed
qed

lemma big_table_core:
  assumes sh: "shape k t" and k: "k < 29"
  shows "ht_core cs kd (Suc k) (big_table t) (\<lambda>_. [])" "ht_mem (big_table t) = ht_mem t" "ht_items (Suc k) (\<lambda>_. []) = []"
proof -
  have b: "ht_buckets t * 2 = (2 ^ Suc k :: u32)" using sh by (simp add: shape_def)
  then have u: "unat (ht_buckets t * 2) = 2 ^ Suc k" using unat_2_power [of "Suc k"] k by simp
  have "(of_nat (30 - k) :: u32) - 1 = of_nat (30 - Suc k)" using k by (simp add: of_nat_diff)
  moreover have "push_bit 1 (mask k) OR 1 = (mask (Suc k) :: u32)" by (simp add: mask_Suc_double or.commute mult.commute)
  ultimately have "shape (Suc k) (big_table t)" using sh k u b by (simp add: shape_def big_table_def)
  moreover show e: "ht_items (Suc k) (\<lambda>_. []) = []" by (simp add: ht_items_def concat_eq_Nil_conv)
  moreover have "ht_table (big_table t) ! i = 0" if "i < 2 ^ Suc k" for i using that u by (simp add: big_table_def)
  ultimately show "ht_core cs kd (Suc k) (big_table t) (\<lambda>_. [])" by (simp add: ht_core_def big_table_def)
  show "ht_mem (big_table t) = ht_mem t" by (simp add: big_table_def)
qed

lemma grow_table_core:
  assumes c: "ht_core cs kd k t ch" and k: "k < 29" and len: "length (ht_items k ch) < 2 ^ (Suc k + 2)"
  shows "\<exists>t' ch'. grow_table (ht_insert (Suc d) cs) t = Some t' \<and> ht_core cs kd (Suc k) t' ch' \<and>
    mset (ht_items (Suc k) ch') = mset (ht_items k ch) \<and> (\<forall>x. key_at (ht_mem t') x = key_at (ht_mem t) x)"
proof -
  have sh: "shape k t" and chs: "\<forall>j < 2 ^ k. chain (ht_mem t) (ht_table t ! j) (ch j)" using c by (auto simp: ht_core_def)
  obtain p c0 t1 i where f: "ht_first t = Some (p, t1)" "chain (ht_mem t) p c0" "walking (ht_mem t) k t1 ch c0 (ht_items k ch)"
    "t1 = t\<lparr>ht_walkptr := p, ht_walk_index := i\<rparr>" using ht_first_walking [OF sh chs] by blast
  have sh1: "shape k t1" and m1: "ht_mem t1 = ht_mem t" using sh f(4) by (simp_all add: shape_def)
  note b = big_table_core [OF sh1 k]
  have nz: "x \<noteq> 0" if "chain mem p xs" "x \<in> set xs" for mem p xs x using that by (induction xs arbitrary: p) auto
  have links: "\<forall>x \<in> set (ht_items k ch). x \<noteq> 0 \<and> (\<exists>l. ht_mem t x = Some l \<and> is_str (hl_key l) = kd)"
  proof
    fix x assume "x \<in> set (ht_items k ch)"
    then obtain j where j: "j < 2 ^ k" "x \<in> set (ch j)" by (auto simp: set_ht_items)
    then have "\<exists>l. ht_mem t x = Some l \<and> good_link cs kd l" using c unfolding ht_core_def by blast
    moreover have "x \<noteq> 0" using nz j chs by blast
    ultimately show "x \<noteq> 0 \<and> (\<exists>l. ht_mem t x = Some l \<and> is_str (hl_key l) = kd)" by (auto simp: good_link_def)
  qed
  have "\<exists>big' chb'. grow_loop (ht_insert (Suc d) cs) t1 (big_table t1) p = Some big' \<and> ht_core cs kd (Suc k) big' chb' \<and>
    mset (ht_items (Suc k) chb') = mset (ht_items k ch) + mset (ht_items (Suc k) (\<lambda>_. [])) \<and> (\<forall>x. key_at (ht_mem big') x = key_at (ht_mem (big_table t1)) x)"
    by (rule grow_loop_moves [where c = c0 and k = k and ch = ch])
      (use f b m1 c links len in \<open>simp_all add: ht_core_def\<close>)
  then show ?thesis using f(1) b m1 by (simp add: grow_table_def)
qed

section \<open>The table as a map\<close>

definition ht_holds :: "bool \<Rightarrow> bool \<Rightarrow> htable \<Rightarrow> (hkey \<Rightarrow> nat option) \<Rightarrow> bool" where
  "ht_holds cs kd t m \<longleftrightarrow> (\<exists>k ch. ht_core cs kd k t ch \<and> length (ht_items k ch) < 2 ^ (k + 2) \<and>
     (\<forall>key x. m key = Some x \<longleftrightarrow> x \<in> set (ht_items k ch) \<and> key_at (ht_mem t) x = Some key))"

lemma num_items_nat:
  assumes "ht_core cs kd k t ch" and "length (ht_items k ch) < 2 ^ (k + 2)"
  shows "unat (ht_num_items t) = length (ht_items k ch)"
proof -
  have "(2 :: nat) ^ (k + 2) \<le> 2 ^ 31" using assms(1) by (intro power_increasing) (auto simp: ht_core_def shape_def)
  then show ?thesis using assms unat_of_nat_u32 [of "length (ht_items k ch)"] by (simp add: ht_core_def)
qed

lemma holds_insert:
  assumes keys: "\<And>x. x \<noteq> item \<Longrightarrow> key_at mem' x = key_at mem x" "key_at mem' item = Some key"
    and items: "set xs' = insert item (set xs)" "item \<notin> set xs"
    and new: "\<forall>x \<in> set xs. key_at mem x \<noteq> Some key"
    and m: "\<forall>key x. m key = Some x \<longleftrightarrow> x \<in> set xs \<and> key_at mem x = Some key"
  shows "\<forall>key' x. (m(key \<mapsto> item)) key' = Some x \<longleftrightarrow> x \<in> set xs' \<and> key_at mem' x = Some key'"
proof (intro allI)
  fix key' x
  have "x \<in> set xs' \<and> key_at mem' x = Some key' \<longleftrightarrow> (if x = item then key' = key else x \<in> set xs \<and> key_at mem x = Some key')"
    using keys items by auto
  moreover have "m key \<noteq> Some x" using m new by blast
  moreover have "m key' \<noteq> Some item" using m items(2) by blast
  ultimately show "(m(key \<mapsto> item)) key' = Some x \<longleftrightarrow> x \<in> set xs' \<and> key_at mem' x = Some key'" using m by auto
qed

text \<open>
  C37 (ht_insert_refines).  The table is a map from keys to items.  Inserting a key that is there changes nothing and returns
  false; inserting a new key returns true and adds the item, whether or not the table grows on
  the way, and no item is lost by growing.  The keys are all strings or all numbers, the item is allocated and not in
  the table, and there are fewer than \<open>2 ^ 31 - 1\<close> items; insertions nest at most twice.
\<close>

theorem ht_insert_refines:
  assumes h: "ht_holds cs (is_str key) t m" and item: "item \<noteq> 0" "ht_mem t item \<noteq> None" "item \<notin> ran m"
    and size: "unat (ht_size t) < 2 ^ 31 - 1"
  shows "\<exists>t'. (if key \<in> dom m then ht_insert (Suc (Suc d)) cs key item t = Some (False, t') \<and> ht_holds cs (is_str key) t' m
      else ht_insert (Suc (Suc d)) cs key item t = Some (True, t') \<and> ht_holds cs (is_str key) t' (m(key \<mapsto> item)))"
proof -
  obtain k ch where c: "ht_core cs (is_str key) k t ch" and len: "length (ht_items k ch) < 2 ^ (k + 2)"
    and m: "\<forall>key x. m key = Some x \<longleftrightarrow> x \<in> set (ht_items k ch) \<and> key_at (ht_mem t) x = Some key" using h by (auto simp: ht_holds_def)
  obtain p where p: "ht_lookup cs key t = Some (p, hash_index cs key t)"
    "p = 0 \<longrightarrow> (\<forall>x \<in> set (ht_items k ch). key_at (ht_mem t) x \<noteq> Some key)"
    "p \<noteq> 0 \<longrightarrow> p \<in> set (ht_items k ch) \<and> key_at (ht_mem t) p = Some key" using ht_lookup_core [OF c refl] by blast
  show ?thesis
  proof (cases "key \<in> dom m")
    case True
    then have "p \<noteq> 0" using p(2) m by (metis domD)
    moreover have "ht_mem (hash_index cs key t) = ht_mem t" by (simp add: hash_index_def Let_def)
    then have "ht_holds cs (is_str key) (hash_index cs key t) m" using c len m by (auto simp: ht_holds_def hash_index_core)
    ultimately show ?thesis using p(1) True by (simp add: ht_insert.simps)
  next
    case False
    have new: "\<forall>x \<in> set (ht_items k ch). key_at (ht_mem t) x \<noteq> Some key" using False m by blast
    have xn: "item \<notin> set (ht_items k ch)"
    proof
      assume i: "item \<in> set (ht_items k ch)"
      then obtain l where "ht_mem t item = Some l" using item(2) by auto
      then have "m (hl_key l) = Some item" using m i by (simp add: key_at_def)
      then show False using item(3) by (auto simp: ran_def)
    qed
    let ?t = "link_item key item (hash_index cs key t)"
    obtain ch' where c': "ht_core cs (is_str key) k ?t ch'" "mset (ht_items k ch') = add_mset item (mset (ht_items k ch))"
      using link_core(1) [OF c refl item(1) xn new] by blast
    obtain l where l: "ht_mem ?t = (ht_mem t)(item \<mapsto> l)" "hl_key l = key" using link_core(2) [OF c refl item(1) xn new] by blast
    note it = add_mset_chain [OF c'(2)]
    have keys: "\<And>x. x \<noteq> item \<Longrightarrow> key_at (ht_mem ?t) x = key_at (ht_mem t) x" "key_at (ht_mem ?t) item = Some key"
      using l by (simp_all add: key_at_def)
    have ins: "ht_insert (Suc (Suc d)) cs key item t =
        map_option (Pair True) (if ht_max_items ?t \<le> ht_num_items ?t then grow_table (ht_insert (Suc d) cs) ?t else Some ?t)"
      using insert_adds [OF c refl item(1) xn item(2) new, of "Suc d"] by (simp add: Let_def)
    have n: "unat (ht_size t) = length (ht_items k ch)" using num_items_nat [OF c len] by (simp add: ht_size_def)
    show ?thesis
    proof (cases "length (ht_items k ch') < 2 ^ (k + 2)")
      case True
      then have "\<not> ht_max_items ?t \<le> ht_num_items ?t" using no_grow [of k ?t] c'(1) by (simp add: ht_core_def)
      moreover have "ht_holds cs (is_str key) ?t (m(key \<mapsto> item))" unfolding ht_holds_def
        using c'(1) True holds_insert [OF keys _ xn new m, of "ht_items k ch'"] it by blast
      ultimately show ?thesis using ins False by simp
    next
      case full: False
      then have e: "length (ht_items k ch') = 2 ^ (k + 2)" using len it by simp
      then have "(2 :: nat) ^ (k + 2) < 2 ^ 31" using it n size by simp
      then have k: "k < 29" using power_less_imp_less_exp [of "2 :: nat" "k + 2" 31] by simp
      have "length (ht_items k ch') < 2 ^ (Suc k + 2)" using e by simp
      then obtain t' ch'' where g: "grow_table (ht_insert (Suc d) cs) ?t = Some t'" "ht_core cs (is_str key) (Suc k) t' ch''"
        "mset (ht_items (Suc k) ch'') = mset (ht_items k ch')" "\<forall>x. key_at (ht_mem t') x = key_at (ht_mem ?t) x"
        using grow_table_core [OF c'(1) k] by blast
      have "ht_num_items ?t = 2 ^ (k + 2)" using c'(1) e by (simp add: ht_core_def)
      then have "ht_max_items ?t \<le> ht_num_items ?t" using c'(1) by (simp add: ht_core_def shape_def)
      moreover have s: "set (ht_items (Suc k) ch'') = insert item (set (ht_items k ch))" "length (ht_items (Suc k) ch'') < 2 ^ (Suc k + 2)"
        using mset_eq_setD [OF g(3)] mset_eq_length [OF g(3)] it e by auto
      have k': "\<And>x. x \<noteq> item \<Longrightarrow> key_at (ht_mem t') x = key_at (ht_mem t) x" "key_at (ht_mem t') item = Some key" using keys g(4) by simp_all
      have "ht_holds cs (is_str key) t' (m(key \<mapsto> item))" unfolding ht_holds_def
        using g(2) s(2) holds_insert [OF k' s(1) xn new m] by blast
      ultimately show ?thesis using ins g(1) False by simp
    qed
  qed
qed

text \<open>
  A lookup returns the item of the key, or \<^verbatim>\<open>NULL\<close> if the key is not in the table, and leaves the
  contents as they are.
\<close>

theorem ht_lookup_exact:
  assumes "ht_holds cs (is_str key) t m"
  shows "\<exists>t'. ht_lookup cs key t = Some (case m key of Some x \<Rightarrow> x | None \<Rightarrow> 0, t') \<and> ht_holds cs (is_str key) t' m"
proof -
  obtain k ch where c: "ht_core cs (is_str key) k t ch" and len: "length (ht_items k ch) < 2 ^ (k + 2)"
    and m: "\<forall>key x. m key = Some x \<longleftrightarrow> x \<in> set (ht_items k ch) \<and> key_at (ht_mem t) x = Some key" using assms by (auto simp: ht_holds_def)
  obtain p where p: "ht_lookup cs key t = Some (p, hash_index cs key t)"
    "p = 0 \<longrightarrow> (\<forall>x \<in> set (ht_items k ch). key_at (ht_mem t) x \<noteq> Some key)"
    "p \<noteq> 0 \<longrightarrow> p \<in> set (ht_items k ch) \<and> key_at (ht_mem t) p = Some key" using ht_lookup_core [OF c refl] by blast
  have "ht_mem (hash_index cs key t) = ht_mem t" by (simp add: hash_index_def Let_def)
  then have "ht_holds cs (is_str key) (hash_index cs key t) m" using c len m by (auto simp: ht_holds_def hash_index_core)
  moreover have "p = (case m key of Some x \<Rightarrow> x | None \<Rightarrow> 0)"
  proof (cases "p = 0")
    case True
    then have "m key = None" using p(2) m by (metis option.exhaust)
    then show ?thesis using True by simp
  next
    case False
    then have "m key = Some p" using p(3) m by blast
    then show ?thesis by simp
  qed
  ultimately show ?thesis using p(1) by auto
qed

section \<open>All items\<close>

lemma foreach_loop_rest:
  assumes "walking (ht_mem t) k t ch c rest" and "chain (ht_mem t) item c" and "ht_walkptr t = item"
  shows "foreach_loop t item = Some rest"
  using assms
proof (induction rest arbitrary: t item c)
  case Nil
  then have "c = []" by (simp add: walking_def)
  then show ?case using Nil by (subst foreach_loop.simps) simp
next
  case (Cons x rest)
  then have ne: "c \<noteq> []" by (auto simp: walking_def)
  then obtain c' where c: "c = x # c'" using Cons.prems(1) by (cases c) (auto simp: walking_def)
  then obtain l where l: "item = x" "x \<noteq> 0" "ht_mem t x = Some l" "chain (ht_mem t) (hl_next l) c'" using Cons.prems(2) by auto
  have ptr: "if ht_walkptr t = 0 then hl_next l = 0 else \<exists>l'. ht_mem t (ht_walkptr t) = Some l' \<and> hl_next l' = hl_next l"
    using Cons.prems(3) l by simp
  have chn: "chain (ht_mem t) (hl_next l) (tl c)" using c l(4) by simp
  obtain p t' c'' i where n: "ht_next t = Some (p, t')" "chain (ht_mem t) p c''" "walking (ht_mem t) k t' ch c'' rest"
    "t' = t\<lparr>ht_walkptr := p, ht_walk_index := i\<rparr>" using ht_next_walking [OF Cons.prems(1) ne ptr chn] by auto
  then have "foreach_loop t' p = Some rest" using Cons.IH [of t' c'' p] by simp
  then show ?case using n(1) l by (subst foreach_loop.simps) simp
qed

text \<open>
  The loop over a table visits every item of it exactly once and ends.
\<close>

theorem foreach_htable_complete:
  assumes "ht_holds cs kd t m"
  shows "\<exists>xs. foreach_htable t = Some xs \<and> distinct xs \<and> set xs = ran m \<and> length xs = unat (ht_size t)"
proof -
  obtain k ch where c: "ht_core cs kd k t ch" and len: "length (ht_items k ch) < 2 ^ (k + 2)"
    and m: "\<forall>key x. m key = Some x \<longleftrightarrow> x \<in> set (ht_items k ch) \<and> key_at (ht_mem t) x = Some key" using assms by (auto simp: ht_holds_def)
  have sh: "shape k t" and chs: "\<forall>j < 2 ^ k. chain (ht_mem t) (ht_table t ! j) (ch j)" and d: "distinct (ht_items k ch)"
    using c by (auto simp: ht_core_def)
  obtain p c0 t1 i where f: "ht_first t = Some (p, t1)" "chain (ht_mem t) p c0" "walking (ht_mem t) k t1 ch c0 (ht_items k ch)"
    "t1 = t\<lparr>ht_walkptr := p, ht_walk_index := i\<rparr>" using ht_first_walking [OF sh chs] by blast
  then have "foreach_htable t = Some (ht_items k ch)"
    using foreach_loop_rest [of t1 k ch c0 "ht_items k ch" p] by (simp add: foreach_htable_def)
  moreover have "\<exists>l. ht_mem t x = Some l" if "x \<in> set (ht_items k ch)" for x using that c by (force simp: set_ht_items ht_core_def)
  then have "\<exists>key. key_at (ht_mem t) x = Some key" if "x \<in> set (ht_items k ch)" for x using that by (fastforce simp: key_at_def)
  then have "set (ht_items k ch) = ran m" using m by (force simp: ran_def)
  ultimately show ?thesis using d num_items_nat [OF c len] by (auto simp: ht_size_def)
qed

section \<open>The empty table\<close>

lemma power_loop_bound: "n < 2 ^ j \<Longrightarrow> power_loop n \<le> j"
proof (induction j arbitrary: n)
  case 0
  then show ?case by (simp add: power_loop.simps)
next
  case (Suc j)
  then show ?case by (subst power_loop.simps) auto
qed

lemma ht_init_holds:
  assumes "tsize < 2 ^ 31"
  shows "ht_holds cs kd (ht_init malloc mem tsize) Map.empty" "ht_mem (ht_init malloc mem tsize) = mem" "ht_size (ht_init malloc mem tsize) = 0"
proof -
  define p where "p = power_loop (nat (if tsize < 31 then 31 else tsize) div 4)"
  let ?t = "ht_init malloc mem tsize"
  have p: "p \<le> 29" unfolding p_def using assms by (intro power_loop_bound) (auto simp: nat_less_iff zdiv_int split: if_splits)
  have "NOT (push_bit p (NOT 0)) = (mask p :: u32)" by (rule bit_word_eqI) (auto simp: bit_simps)
  moreover have "(30 :: u32) - of_nat p = of_nat (30 - p)" using p by (simp add: of_nat_diff)
  moreover have "push_bit p 1 = (2 ^ p :: u32)" by (simp add: push_bit_eq_mult)
  ultimately have sh: "shape p ?t" using p unat_2_power [of p]
    by (simp add: shape_def ht_init_def malloc_big_buf_def p_def [symmetric] Let_def power_add)
  have e: "ht_items p (\<lambda>_. []) = []" by (simp add: ht_items_def concat_eq_Nil_conv)
  have "ht_table ?t ! i = 0" if "i < 2 ^ p" for i
    using that unat_2_power [of p] p by (simp add: ht_init_def malloc_big_buf_def p_def [symmetric] Let_def push_bit_eq_mult)
  then have "ht_core cs kd p ?t (\<lambda>_. [])" using sh e by (simp add: ht_core_def) (simp add: ht_init_def malloc_big_buf_def Let_def)
  then show "ht_holds cs kd ?t Map.empty" unfolding ht_holds_def using e by (intro exI [of _ p] exI [of _ "\<lambda>_. []"]) simp
  show "ht_mem ?t = mem" "ht_size ?t = 0" by (simp_all add: ht_init_def malloc_big_buf_def Let_def ht_size_def)
qed

definition sample_table :: htable where
  "sample_table = ht_init (\<lambda>_ _. 4096) [16 \<mapsto> \<lparr>hl_next = 0, hl_hash = 0, hl_key = IntKey 0\<rparr>, 48 \<mapsto> \<lparr>hl_next = 0, hl_hash = 0, hl_key = IntKey 0\<rparr>] 0"

definition sample_one :: htable where
  "sample_one = link_item (IntKey 7) 48 (hash_index True (IntKey 7) sample_table)"

lemma sample_one_holds: "ht_holds True False sample_one [IntKey 7 \<mapsto> 48]"
proof -
  obtain k ch where c: "ht_core True False k sample_table ch" and len: "length (ht_items k ch) < 2 ^ (k + 2)"
    and m: "\<forall>key x. Map.empty key = Some x \<longleftrightarrow> x \<in> set (ht_items k ch) \<and> key_at (ht_mem sample_table) x = Some key"
    using ht_init_holds(1) [of 0 True False] unfolding sample_table_def ht_holds_def by fastforce
  have it: "ht_items k ch = []"
  proof (rule ccontr)
    assume "ht_items k ch \<noteq> []"
    then obtain x where x: "x \<in> set (ht_items k ch)" by (cases "ht_items k ch") auto
    then have "\<exists>l. ht_mem sample_table x = Some l" using c by (force simp: set_ht_items ht_core_def)
    then show False using m x by (auto simp: key_at_def)
  qed
  obtain ch' where c': "ht_core True False k sample_one ch'" "mset (ht_items k ch') = {#48#}"
    using link_core(1) [OF c, of "IntKey 7" 48] it by (auto simp: sample_one_def)
  obtain l where l: "ht_mem sample_one = (ht_mem sample_table)(48 \<mapsto> l)" "hl_key l = IntKey 7"
    using link_core(2) [OF c, of "IntKey 7" 48] it by (auto simp: sample_one_def)
  have s: "ht_items k ch' = [48]" using c'(2) mset_single_iff by fastforce
  have "(1 :: nat) \<le> 2 ^ k" by simp
  then have "Suc 0 < 4 * 2 ^ k" by linarith
  then show ?thesis unfolding ht_holds_def using c'(1) s l by (intro exI [of _ k] exI [of _ ch']) (auto simp: key_at_def)
qed

theorem ht_insert_refines_witness:
  "\<exists>t'. ht_insert 2 True (IntKey 9) 16 sample_one = Some (True, t') \<and> ht_holds True False t' [IntKey 7 \<mapsto> 48, IntKey 9 \<mapsto> 16]"
proof -
  have "ht_mem sample_one 16 \<noteq> None" "unat (ht_size sample_one) < 2 ^ 31 - 1"
    using ht_init_holds(3) [of 0] by (simp_all add: sample_one_def sample_table_def link_item_def hash_index_def Let_def ht_size_def ht_init_holds(2))
  then show ?thesis using ht_insert_refines [of True "IntKey 9" sample_one "[IntKey 7 \<mapsto> 48]" 16 0] sample_one_holds
    by (simp add: numeral_2_eq_2)
qed

theorem ht_lookup_exact_witness:
  "\<exists>t'. ht_lookup True (IntKey 7) sample_one = Some (48, t') \<and> ht_holds True False t' [IntKey 7 \<mapsto> 48]"
  using ht_lookup_exact [of True "IntKey 7" sample_one "[IntKey 7 \<mapsto> 48]"] sample_one_holds by simp

theorem foreach_htable_complete_witness: "foreach_htable sample_one = Some [48]"
proof -
  obtain xs where "foreach_htable sample_one = Some xs" "distinct xs" "set xs = {48}"
    using foreach_htable_complete [OF sample_one_holds] by auto
  moreover from this have "xs = [48]" by (cases xs; cases "tl xs") auto
  ultimately show ?thesis by simp
qed

end
