(* ===== verification/Spec2Isabelle.thy ===== *)
theory Spec2Isabelle
  imports Backup_Restore Rwlock Rblist_Walk Rblist_Shape Restore_Tree
    Base64 Htable
begin

text \<open>
  A verification of the core of Bacula (\<^verbatim>\<open>src/bacula/src\<close>): the media format of the storage daemon and the
  code that writes and reads it, the reading and the selection of records for a restore, the locks the daemons
  share, the tree from which the files of a restore are chosen, the hash table of the library and the
  text form of the file attributes.

  \<^bold>\<open>The program.\<close>  The Director (\<^verbatim>\<open>dird\<close>) schedules jobs and keeps the catalog (\<^verbatim>\<open>cats\<close>); the file daemon
  (\<^verbatim>\<open>filed\<close>) sends the files of a client as records; the storage daemon (\<^verbatim>\<open>stored\<close>) packs the records
  of its jobs into blocks, writes the blocks to a Volume on a device, and tells the Director by JobMedia
  records where the files of a job are.  On a restore it reads the blocks back, unpacks the records and
  keeps those that the bootstrap records of the Director select.  The library (\<^verbatim>\<open>lib\<close>) has the
  serialisation, the checksum, the locks and the containers all of them use.

  \<^bold>\<open>Theories, from the bottom.\<close>
  \<^item> \<open>Bacula_Prelude\<close>: byte buffers, word lemmas and the collections of rewrite rules.
  \<^item> \<open>Serial\<close> (\<^verbatim>\<open>lib/serial.c\<close>): integers, times, floats and strings in a buffer.  The bytes do not depend on
    the byte order of the host.  The locale \<open>serial_codec\<close> is what the upper layers use of it.
  \<^item> \<open>Bcrc32_Tables\<close>, \<open>Bcrc32\<close> (\<^verbatim>\<open>lib/bcrc32.c\<close>): all variants of the checksum and the tables; the variants
    agree with the bitwise definition, and an error burst of up to 32 bits is detected.
  \<^item> \<open>Media\<close> (\<^verbatim>\<open>stored/block.h\<close>, \<^verbatim>\<open>stored/record.h\<close>, \<^verbatim>\<open>streams.h\<close>): the structures \<^verbatim>\<open>DEV_BLOCK\<close> and
    \<^verbatim>\<open>DEV_RECORD\<close> and the constants.
  \<^item> \<open>Block_Util\<close> (\<^verbatim>\<open>stored/block_util.c\<close>): blocks and their header in three versions, with checksum and
    encryption.  What is written is read back; a header that is accepted lies in the block; a damaged block is refused.
  \<^item> \<open>Record_Util\<close>, \<open>Record_Write\<close>, \<open>Record_Read\<close> (\<^verbatim>\<open>stored/record_util.c\<close>, \<^verbatim>\<open>record_write.c\<close>, \<^verbatim>\<open>record_read.c\<close>):
    the two state machines that cut records into blocks and put them together again.  Both stay inside their
    buffers, and a record cut over any number of blocks comes back whole.  The locale \<open>block_sink\<close> is what
    the writer relies on when it hands over a full block.
  \<^item> \<open>Volume\<close> (\<^verbatim>\<open>stored/dev.c\<close>, \<^verbatim>\<open>askdir.c\<close>, \<^verbatim>\<open>device.c\<close>, \<^verbatim>\<open>block_util.c\<close>): catalog counters, JobMedia queue, the end of
    a Volume and the start of the next.
  \<^item> \<open>Block_IO\<close>, \<open>Block_Read\<close> (\<^verbatim>\<open>stored/block.c\<close>): writing a block with retries, size limits and the change of Volume, which
    interprets \<open>block_sink\<close>; reading with retries, growing buffers and repositioning.  What is written to a disk
    Volume block by block is what the reader returns.
  \<^item> \<open>Match_Bsr\<close> (\<^verbatim>\<open>stored/match_bsr.c\<close>, \<^verbatim>\<open>bsr.h\<close>): matching of records against bootstrap records.  The stateful matching,
    which drops ranges that were passed, selects what a stateless definition selects, and its signal to stop
    loses nothing.
  \<^item> \<open>Label\<close> (\<^verbatim>\<open>stored/label.c\<close>): Volume and session labels, built, written and read back.
  \<^item> \<open>Read_Records\<close> (\<^verbatim>\<open>stored/read_records.c\<close>, \<^verbatim>\<open>DEVICE::reposition\<close> of \<^verbatim>\<open>file_dev.c\<close>): the reader of a
    restore, with one open record for each session, the bootstrap records, repositioning and the change of Volume.
  \<^item> \<open>Read_Restore\<close>, \<open>Read_Volume\<close>: the abstract reader, which joins the fragments of each session and selects by
    the stateless definition of \<open>Match_Bsr\<close>, and the proof that the code refines it: for one fragment, for the
    records of a block, for a file of blocks up to the end of the last Volume.  The sessions of a Volume do not
    disturb each other, and the loop over a block ends whatever its bytes are.
  \<^item> \<open>Backup_Restore\<close>: the main theorem, which composes the writer and the reader.  The records of a job, written to
    a disk Volume, are what \<^verbatim>\<open>read_records\<close> hands to its callback.
  \<^item> \<open>Rwlock\<close> (\<^verbatim>\<open>lib/rwlock.c\<close>, \<^verbatim>\<open>lib/devlock.c\<close>): both read/write locks, run by any number of threads as a step
    relation with exclusion as an invariant.
  \<^item> \<open>Rblist\<close>, \<open>Rblist_Walk\<close>, \<open>Rblist_Shape\<close> (\<^verbatim>\<open>lib/rblist.c\<close>, \<^verbatim>\<open>rblist.h\<close>): the tree with parent pointers behind
    ordered lists, in an explicit memory.  Insertion, search, traversal and destruction refine operations on
    sorted lists; the locale \<open>item_order\<close> is what they need of the comparison.  The tree does not stay balanced.
  \<^item> \<open>Restore_Tree\<close> (\<^verbatim>\<open>lib/tree.c\<close>, \<^verbatim>\<open>tree.h\<close>): nodes cut from large buffers, whose children are in such lists; it
    interprets \<open>item_order\<close> with the comparison of names.  Inserting a file gives the one node with its path.
  \<^item> \<open>Htable\<close> (\<^verbatim>\<open>lib/htable.c\<close>, \<^verbatim>\<open>htable.h\<close>): the hash table with chained items.  It refines a finite map, growing
    included, and a traversal meets every item once.
  \<^item> \<open>Base64\<close> (\<^verbatim>\<open>lib/base64.c\<close>, \<^verbatim>\<open>findlib/attribs.c\<close>): numbers and bytes as text and the attributes of a file as the
    line the file daemon sends.  What is encoded is decoded; two writes past the end of a buffer are shown.

  \<^bold>\<open>Conventions.\<close>  Structures are records with the fields that the modelled code uses, buffers lists of bytes, and
  integers words of their width wherever the code could wrap.  An access outside a buffer, through a null
  pointer or to freed memory is the value \<open>None\<close>; an error return is a value of the result.  Locks around the
  modelled code, debug output and timers have no counterpart.  The operating system, the device drivers, the
  Director's answers, memory allocation, regular expressions, encryption and the clock are arguments; what a
  theorem needs of them is among its hypotheses.

  \<^bold>\<open>Loops.\<close>  Loops over data are structural recursion, or recursion on the number of bytes left.  The
  retries of a write and of a read are counted down from the bound of the code, three in each case.  Loops
  that depend on the device or on links in memory are partial functions whose value \<open>None\<close> is not returning;
  theorems on them state that a result is there.

  \<^bold>\<open>Not modelled.\<close>  The aligned, deduplicating and cloud formats (stubs or external services), mounting and
  reservation of devices (dialogs with the operator and the changer; in \<open>Read_Records\<close> the mount is an argument), FIFO
  devices, the interactive restore (stubs in this repository), the spool files, the Director's
  scheduling and consoles, the catalog (SQL text for an external database), the file daemon and its plugins
  (system calls of the client), network, cryptography and configuration, and vendored code.
\<close>

end
